(* ===== verification/Prelude.thy ===== *)
theory Prelude
  imports Main "HOL-Library.Word"
begin

text \<open>
  Shared vocabulary of the development: the machine integer types of the Rust sources, the
  wrap-around of signed arithmetic, the outcome type of calls that may panic, and the theorem
  collections the component theories fill and use.
\<close>

unbundle bit_operations_syntax

section \<open>Theorem collections\<close>

named_theorems table_simps \<open>look-up after update, for the table types of the Rust sources\<close>
named_theorems table_inv \<open>operations that keep the key-uniqueness invariant of a table\<close>
named_theorems flag_simps \<open>evaluation of single-bit flags in words\<close>

section \<open>Machine integers\<close>

text \<open>
  Unsigned integers are words. Signed integers are \<^typ>\<open>int\<close>; where the code computes with
  them the wrap-around of a release build is written out by \<open>wrap_i32\<close> and \<open>wrap_i64\<close>.
\<close>

type_synonym u8 = "8 word"
type_synonym u32 = "32 word"
type_synonym u64 = "64 word"
type_synonym i32 = int
type_synonym i64 = int

definition wrap_i32 :: "int \<Rightarrow> i32" where
  "wrap_i32 x = (x + 2 ^ 31) mod 2 ^ 32 - 2 ^ 31"

definition wrap_i64 :: "int \<Rightarrow> i64" where
  "wrap_i64 x = (x + 2 ^ 63) mod 2 ^ 64 - 2 ^ 63"

definition is_i32 :: "int \<Rightarrow> bool" where
  "is_i32 x \<longleftrightarrow> - (2 ^ 31) \<le> x \<and> x < 2 ^ 31"

definition is_i64 :: "int \<Rightarrow> bool" where
  "is_i64 x \<longleftrightarrow> - (2 ^ 63) \<le> x \<and> x < 2 ^ 63"

text \<open>Integer division of Rust truncates towards zero.\<close>

definition trunc_div :: "int \<Rightarrow> int \<Rightarrow> int" where
  "trunc_div a b = sgn a * sgn b * (\<bar>a\<bar> div \<bar>b\<bar>)"

section \<open>Outcomes\<close>

text \<open>A call either returns a value or unwinds with a panic.\<close>

datatype 'a outcome = Returned 'a | Panicked

fun bind_outcome :: "'a outcome \<Rightarrow> ('a \<Rightarrow> 'b outcome) \<Rightarrow> 'b outcome" where
  "bind_outcome (Returned x) f = f x"
| "bind_outcome Panicked f = Panicked"

section \<open>Reachable states\<close>

text \<open>The states a component reaches by performing operations one after the other.\<close>

inductive reachable :: "('op \<Rightarrow> 's \<Rightarrow> 's) \<Rightarrow> 's \<Rightarrow> 's \<Rightarrow> bool" for step init where
  reachable_init: "reachable step init init"
| reachable_step: "reachable step init s \<Longrightarrow> reachable step init (step op s)"

inductive_cases reachableE: "reachable step init s"

text \<open>A predicate that holds initially and is kept by every operation.\<close>

locale preserved =
  fixes step :: "'op \<Rightarrow> 's \<Rightarrow> 's" and init :: 's and inv :: "'s \<Rightarrow> bool"
  assumes inv_init: "inv init"
    and inv_step: "inv s \<Longrightarrow> inv (step op s)"
begin

lemma reachable_inv: "reachable step init s \<Longrightarrow> inv s"
  by (induction rule: reachable.induct) (auto intro: inv_init inv_step)

lemma run_inv: "inv s \<Longrightarrow> inv (fold step ops s)"
  by (induction ops arbitrary: s) (auto intro: inv_step)

lemma run_reachable: "reachable step init s \<Longrightarrow> reachable step init (fold step ops s)"
  by (induction ops arbitrary: s) (auto intro: reachable_step)

end

section \<open>Shared lemmas\<close>

lemma wrap_i32_id [simp]: "is_i32 x \<Longrightarrow> wrap_i32 x = x"
  by (simp add: wrap_i32_def is_i32_def)

lemma wrap_i64_id [simp]: "is_i64 x \<Longrightarrow> wrap_i64 x = x"
  by (simp add: wrap_i64_def is_i64_def)

lemma is_i32_wrap [simp]: "is_i32 (wrap_i32 x)"
  by (simp add: wrap_i32_def is_i32_def algebra_simps)

lemma is_i64_wrap [simp]: "is_i64 (wrap_i64 x)"
  by (simp add: wrap_i64_def is_i64_def algebra_simps)

lemma u32_eq_iff: "v = w \<longleftrightarrow> (\<forall>n. bit v n \<longleftrightarrow> bit w n)" for v w :: u32
  by (auto intro: bit_word_eqI)

lemma set_map_filter_iff: "set (List.map_filter f xs) = {y. \<exists>x \<in> set xs. f x = Some y}"
  by (force simp: List.map_filter_def)

lemma bind_outcome_Returned_iff:
  "bind_outcome m f = Returned y \<longleftrightarrow> (\<exists>x. m = Returned x \<and> f x = Returned y)"
  by (cases m) auto

lemma trunc_div_nonneg [simp]: "0 \<le> a \<Longrightarrow> 0 < b \<Longrightarrow> trunc_div a b = a div b"
  by (cases "a = 0") (auto simp: trunc_div_def)

end
