(* ===== verification/Rust_Maps.thy ===== *)
theory Rust_Maps
  imports Prelude "HOL-Library.AList"
begin

text \<open>
  The collections of the Rust standard library the sources keep their state in. A
  \<open>HashMap\<close> is an association list with distinct keys; the order of the list stands for the
  unspecified iteration order of the map, so a theorem about every list is a theorem about
  every order. A \<open>BTreeMap\<close> is an association list with strictly increasing keys. A
  \<open>HashSet\<close> is a list without repetitions.
\<close>

section \<open>Hash maps\<close>

type_synonym ('k, 'v) hmap = "('k \<times> 'v) list"

definition hm_get :: "('k, 'v) hmap \<Rightarrow> 'k \<Rightarrow> 'v option" where
  "hm_get m k = map_of m k"

definition hm_contains :: "('k, 'v) hmap \<Rightarrow> 'k \<Rightarrow> bool" where
  "hm_contains m k \<longleftrightarrow> hm_get m k \<noteq> None"

definition hm_insert :: "'k \<Rightarrow> 'v \<Rightarrow> ('k, 'v) hmap \<Rightarrow> ('k, 'v) hmap" where
  "hm_insert k v m = AList.update k v m"

definition hm_remove :: "'k \<Rightarrow> ('k, 'v) hmap \<Rightarrow> ('k, 'v) hmap" where
  "hm_remove k m = AList.delete k m"

definition hm_retain :: "('k \<Rightarrow> 'v \<Rightarrow> bool) \<Rightarrow> ('k, 'v) hmap \<Rightarrow> ('k, 'v) hmap" where
  "hm_retain P m = filter (\<lambda>(k, v). P k v) m"

definition hm_extend :: "('k, 'v) hmap \<Rightarrow> ('k, 'v) hmap \<Rightarrow> ('k, 'v) hmap" where
  "hm_extend m kvs = fold (\<lambda>(k, v). hm_insert k v) kvs m"

definition hm_keys :: "('k, 'v) hmap \<Rightarrow> 'k list" where
  "hm_keys m = map fst m"

definition hm_values :: "('k, 'v) hmap \<Rightarrow> 'v list" where
  "hm_values m = map snd m"

text \<open>\<open>iter_mut\<close>: every value is replaced, keys and order stay.\<close>

definition hm_map :: "('k \<Rightarrow> 'v \<Rightarrow> 'w) \<Rightarrow> ('k, 'v) hmap \<Rightarrow> ('k, 'w) hmap" where
  "hm_map f m = map (\<lambda>(k, v). (k, f k v)) m"

definition hm_all :: "('k \<Rightarrow> 'v \<Rightarrow> bool) \<Rightarrow> ('k, 'v) hmap \<Rightarrow> bool" where
  "hm_all P m \<longleftrightarrow> list_all (\<lambda>(k, v). P k v) m"

definition hm_inv :: "('k, 'v) hmap \<Rightarrow> bool" where
  "hm_inv m \<longleftrightarrow> distinct (map fst m)"

section \<open>Ordered maps\<close>

type_synonym ('k, 'v) btmap = "('k \<times> 'v) list"

fun bt_insert :: "'k::linorder \<Rightarrow> 'v \<Rightarrow> ('k, 'v) btmap \<Rightarrow> ('k, 'v) btmap" where
  "bt_insert k v [] = [(k, v)]"
| "bt_insert k v ((k', v') # m) =
     (if k < k' then (k, v) # (k', v') # m
      else if k = k' then (k, v) # m
      else (k', v') # bt_insert k v m)"

definition bt_get :: "('k, 'v) btmap \<Rightarrow> 'k \<Rightarrow> 'v option" where
  "bt_get m k = map_of m k"

definition bt_remove :: "'k \<Rightarrow> ('k, 'v) btmap \<Rightarrow> ('k, 'v) btmap" where
  "bt_remove k m = AList.delete k m"

fun bt_first :: "('k, 'v) btmap \<Rightarrow> ('k \<times> 'v) option" where
  "bt_first [] = None"
| "bt_first (kv # m) = Some kv"

definition bt_last :: "('k, 'v) btmap \<Rightarrow> ('k \<times> 'v) option" where
  "bt_last m = (if m = [] then None else Some (last m))"

definition bt_inv :: "('k::linorder, 'v) btmap \<Rightarrow> bool" where
  "bt_inv m \<longleftrightarrow> sorted_wrt (<) (map fst m)"

section \<open>Hash sets\<close>

type_synonym 'a hset = "'a list"

definition hs_insert :: "'a \<Rightarrow> 'a hset \<Rightarrow> 'a hset" where
  "hs_insert x s = (if x \<in> set s then s else s @ [x])"

definition hs_remove :: "'a \<Rightarrow> 'a hset \<Rightarrow> 'a hset" where
  "hs_remove x s = filter (\<lambda>y. y \<noteq> x) s"

definition hs_diff :: "'a hset \<Rightarrow> 'a hset \<Rightarrow> 'a hset" where
  "hs_diff s t = filter (\<lambda>y. y \<notin> set t) s"

section \<open>The table contract\<close>

text \<open>
  What a client of a map relies on: look-up after insertion, removal and restriction, and that
  every operation keeps the representation invariant.
\<close>

locale table =
  fixes get :: "'m \<Rightarrow> 'k \<Rightarrow> 'v option"
    and put :: "'k \<Rightarrow> 'v \<Rightarrow> 'm \<Rightarrow> 'm"
    and del :: "'k \<Rightarrow> 'm \<Rightarrow> 'm"
    and new :: 'm
    and inv :: "'m \<Rightarrow> bool"
  assumes get_new: "get new k = None"
    and get_put: "inv m \<Longrightarrow> get (put k v m) k' = (if k' = k then Some v else get m k')"
    and get_del: "inv m \<Longrightarrow> get (del k m) k' = (if k' = k then None else get m k')"
    and inv_new: "inv new"
    and inv_put: "inv m \<Longrightarrow> inv (put k v m)"
    and inv_del: "inv m \<Longrightarrow> inv (del k m)"
begin

lemma get_put_same: "inv m \<Longrightarrow> get (put k v m) k = Some v"
  by (simp add: get_put)

lemma get_put_other: "inv m \<Longrightarrow> k' \<noteq> k \<Longrightarrow> get (put k v m) k' = get m k'"
  by (simp add: get_put)

lemma inv_puts: "inv m \<Longrightarrow> inv (fold (\<lambda>(k, v). put k v) kvs m)"
  by (induction kvs arbitrary: m) (auto simp: inv_put)

lemma get_puts:
  "inv m \<Longrightarrow> get (fold (\<lambda>(k, v). put k v) kvs m) k =
     (case map_of (rev kvs) k of Some v \<Rightarrow> Some v | None \<Rightarrow> get m k)"
proof (induction kvs arbitrary: m)
  case Nil
  then show ?case by simp
next
  case (Cons kv kvs)
  obtain a b where kv: "kv = (a, b)" by (cases kv)
  with Cons show ?case
    by (simp add: inv_put get_put map_add_def split: option.splits)
qed

lemma inv_dels: "inv m \<Longrightarrow> inv (fold del ks m)"
  by (induction ks arbitrary: m) (auto simp: inv_del)

lemma get_dels: "inv m \<Longrightarrow> get (fold del ks m) k = (if k \<in> set ks then None else get m k)"
  by (induction ks arbitrary: m) (auto simp: inv_del get_del)

end

section \<open>Facts about hash maps\<close>

lemma hm_get_insert [table_simps, simp]:
  "hm_get (hm_insert k v m) k' = (if k' = k then Some v else hm_get m k')"
  by (simp add: hm_get_def hm_insert_def update_conv')

lemma hm_get_remove [table_simps, simp]:
  "hm_get (hm_remove k m) k' = (if k' = k then None else hm_get m k')"
  by (simp add: hm_get_def hm_remove_def delete_conv')

lemma hm_get_empty [table_simps, simp]: "hm_get [] k = None"
  by (simp add: hm_get_def)

lemma hm_inv_empty [table_inv, simp]: "hm_inv []"
  by (simp add: hm_inv_def)

lemma hm_inv_insert [table_inv, simp]: "hm_inv m \<Longrightarrow> hm_inv (hm_insert k v m)"
  by (simp add: hm_inv_def hm_insert_def distinct_update)

lemma hm_inv_remove [table_inv, simp]: "hm_inv m \<Longrightarrow> hm_inv (hm_remove k m)"
  by (simp add: hm_inv_def hm_remove_def distinct_delete)

lemma hm_inv_retain [table_inv, simp]: "hm_inv m \<Longrightarrow> hm_inv (hm_retain P m)"
  by (simp add: hm_inv_def hm_retain_def distinct_map_filter)

lemma hm_inv_map [table_inv, simp]: "hm_inv (hm_map f m) = hm_inv m"
  by (simp add: hm_inv_def hm_map_def comp_def case_prod_unfold)

lemma hm_get_map [table_simps, simp]: "hm_get (hm_map f m) k = map_option (f k) (hm_get m k)"
  by (induction m) (auto simp: hm_get_def hm_map_def)

lemma hm_keys_map [simp]: "hm_keys (hm_map f m) = hm_keys m"
  by (simp add: hm_keys_def hm_map_def comp_def case_prod_unfold)

lemma hm_get_retain [table_simps]:
  "hm_inv m \<Longrightarrow> hm_get (hm_retain P m) k =
     (case hm_get m k of None \<Rightarrow> None | Some v \<Rightarrow> if P k v then Some v else None)"
proof (induction m)
  case Nil
  then show ?case by (simp add: hm_get_def hm_retain_def)
next
  case (Cons kv m)
  then have inv: "hm_inv m" and new: "fst kv \<notin> fst ` set m"
    by (auto simp: hm_inv_def)
  have none: "map_of (filter (\<lambda>(k, v). P k v) m) (fst kv) = None"
    using new by (force simp: map_of_eq_None_iff)
  from Cons.IH [OF inv] none show ?case
    by (auto simp: hm_get_def hm_retain_def split: option.splits)
qed

lemma hm_keys_iff: "k \<in> set (hm_keys m) \<longleftrightarrow> hm_get m k \<noteq> None"
  by (simp add: hm_keys_def hm_get_def map_of_eq_None_iff)

lemma hm_get_Some_mem: "hm_get m k = Some v \<Longrightarrow> (k, v) \<in> set m"
  by (auto simp: hm_get_def dest: map_of_SomeD)

lemma hm_mem_iff: "hm_inv m \<Longrightarrow> (k, v) \<in> set m \<longleftrightarrow> hm_get m k = Some v"
  by (simp add: hm_inv_def hm_get_def)

lemma hm_values_iff: "hm_inv m \<Longrightarrow> v \<in> set (hm_values m) \<longleftrightarrow> (\<exists>k. hm_get m k = Some v)"
  by (force simp: hm_values_def hm_mem_iff [symmetric])

lemma hm_empty_iff: "m = [] \<longleftrightarrow> (\<forall>k. hm_get m k = None)"
  by (metis hm_keys_iff hm_keys_def hm_get_empty list.set_intros(1) list.simps(9) neq_Nil_conv)

lemma hm_nonempty_get: "hm_get m k = Some v \<Longrightarrow> m \<noteq> []"
  by auto

lemma hm_contains_iff [simp]: "hm_contains m k \<longleftrightarrow> (\<exists>v. hm_get m k = Some v)"
  by (simp add: hm_contains_def)

interpretation hm: table hm_get hm_insert hm_remove "[]" hm_inv
  by unfold_locales auto

lemma hm_get_extend [table_simps]:
  "hm_inv m \<Longrightarrow> hm_get (hm_extend m kvs) k =
     (case map_of (rev kvs) k of Some v \<Rightarrow> Some v | None \<Rightarrow> hm_get m k)"
  unfolding hm_extend_def by (rule hm.get_puts)

lemma hm_inv_extend [table_inv, simp]: "hm_inv m \<Longrightarrow> hm_inv (hm_extend m kvs)"
  unfolding hm_extend_def by (rule hm.inv_puts)

subsection \<open>Every entry of a map\<close>

lemma hm_all_iff: "hm_inv m \<Longrightarrow> hm_all P m \<longleftrightarrow> (\<forall>k v. hm_get m k = Some v \<longrightarrow> P k v)"
  by (auto simp: hm_all_def list_all_iff hm_mem_iff)

lemma hm_all_get: "hm_all P m \<Longrightarrow> hm_get m k = Some v \<Longrightarrow> P k v"
  by (auto simp: hm_all_def list_all_iff dest: hm_get_Some_mem)

lemma hm_all_empty [table_inv, simp]: "hm_all P []"
  by (simp add: hm_all_def)

lemma hm_all_insert [table_inv]: "hm_all P m \<Longrightarrow> P k v \<Longrightarrow> hm_all P (hm_insert k v m)"
  unfolding hm_insert_def by (induction m) (auto simp: hm_all_def)

lemma hm_all_remove [table_inv]: "hm_all P m \<Longrightarrow> hm_all P (hm_remove k m)"
  by (auto simp: hm_all_def hm_remove_def AList.delete_eq list_all_iff)

lemma hm_all_retain [table_inv]: "hm_all P m \<Longrightarrow> hm_all P (hm_retain Q m)"
  by (auto simp: hm_all_def hm_retain_def list_all_iff)

lemma hm_all_map [table_inv]:
  "(\<And>k v. P k v \<Longrightarrow> Q k (f k v)) \<Longrightarrow> hm_all P m \<Longrightarrow> hm_all Q (hm_map f m)"
  by (auto simp: hm_all_def hm_map_def list_all_iff)

lemma hm_all_mono: "hm_all P m \<Longrightarrow> (\<And>k v. P k v \<Longrightarrow> Q k v) \<Longrightarrow> hm_all Q m"
  by (auto simp: hm_all_def list_all_iff)

lemma hm_insert_fresh: "hm_get m k = None \<Longrightarrow> hm_insert k v m = m @ [(k, v)]"
  unfolding hm_insert_def hm_get_def by (induction m) (auto split: if_splits)

lemma hm_extend_fresh: "hm_inv (m @ kvs) \<Longrightarrow> hm_extend m kvs = m @ kvs"
proof (induction kvs arbitrary: m)
  case (Cons kv kvs)
  then have "hm_get m (fst kv) = None" by (auto simp: hm_inv_def hm_get_def map_of_eq_None_iff)
  then show ?case
    using Cons.IH [of "m @ [kv]"] Cons.prems by (simp add: hm_extend_def case_prod_beta hm_insert_fresh)
qed (simp add: hm_extend_def)

lemma hm_inv_removes [table_inv, simp]: "hm_inv m \<Longrightarrow> hm_inv (fold hm_remove ks m)"
  by (rule hm.inv_dels)

lemma hm_get_removes [table_simps]:
  "hm_get (fold hm_remove ks m) k = (if k \<in> set ks then None else hm_get m k)"
  by (induction ks arbitrary: m) auto

lemma hm_all_removes [table_inv]: "hm_all P m \<Longrightarrow> hm_all P (fold hm_remove ks m)"
  by (induction ks arbitrary: m) (auto intro: hm_all_remove)

subsection \<open>Maps with different values\<close>

lemma hm_distinct_values_iff:
  assumes "hm_inv m"
  shows "distinct (hm_values m) \<longleftrightarrow>
    (\<forall>k k' v. hm_get m k = Some v \<longrightarrow> hm_get m k' = Some v \<longrightarrow> k = k')"
proof -
  have "distinct (map snd m) \<longleftrightarrow> inj_on snd (set m)"
    using assms by (simp add: hm_inv_def distinct_map)
  also have "\<dots> \<longleftrightarrow> (\<forall>k k' v. (k, v) \<in> set m \<longrightarrow> (k', v) \<in> set m \<longrightarrow> k = k')"
    by (force simp: inj_on_def)
  finally show ?thesis
    using assms by (simp add: hm_values_def hm_mem_iff)
qed

section \<open>Facts about ordered maps\<close>

lemma bt_get_insert [table_simps, simp]:
  "bt_get (bt_insert k v m) k' = (if k' = k then Some v else bt_get m k')"
  by (induction k v m rule: bt_insert.induct) (auto simp: bt_get_def)

lemma bt_get_remove [table_simps, simp]:
  "bt_get (bt_remove k m) k' = (if k' = k then None else bt_get m k')"
  by (simp add: bt_get_def bt_remove_def delete_conv')

lemma bt_get_empty [table_simps, simp]: "bt_get [] k = None"
  by (simp add: bt_get_def)

lemma bt_keys_insert: "fst ` set (bt_insert k v m) = insert k (fst ` set m)"
  by (induction k v m rule: bt_insert.induct) auto

lemma bt_inv_empty [table_inv, simp]: "bt_inv []"
  by (simp add: bt_inv_def)

lemma bt_inv_insert [table_inv, simp]: "bt_inv m \<Longrightarrow> bt_inv (bt_insert k v m)"
proof (induction k v m rule: bt_insert.induct)
  case (1 k v)
  then show ?case by (simp add: bt_inv_def)
next
  case (2 k v k' v' m)
  then have tail: "bt_inv m" and lower: "\<forall>x \<in> fst ` set m. k' < x"
    by (auto simp: bt_inv_def)
  consider "k < k'" | "k = k'" | "k' < k" by fastforce
  then show ?case
  proof cases
    case 1
    with 2(2) lower show ?thesis by (auto simp: bt_inv_def)
  next
    case 2
    with tail lower show ?thesis by (auto simp: bt_inv_def)
  next
    case 3
    with 2(1) tail lower show ?thesis
      using bt_keys_insert [of k v m] by (force simp: bt_inv_def)
  qed
qed

lemma bt_inv_remove [table_inv, simp]: "bt_inv m \<Longrightarrow> bt_inv (bt_remove k m)"
  unfolding bt_inv_def bt_remove_def AList.delete_eq
  by (induction m) (auto simp: case_prod_unfold)

interpretation bt: table bt_get bt_insert bt_remove "[]" bt_inv
  by unfold_locales auto

lemma bt_inv_distinct: "bt_inv m \<Longrightarrow> distinct (map fst m)"
  by (simp add: bt_inv_def strict_sorted_iff)

section \<open>Facts about hash sets\<close>

lemma set_hs_insert [simp]: "set (hs_insert x s) = insert x (set s)"
  by (auto simp: hs_insert_def)

lemma set_hs_remove [simp]: "set (hs_remove x s) = set s - {x}"
  by (auto simp: hs_remove_def)

lemma set_hs_diff [simp]: "set (hs_diff s t) = set s - set t"
  by (auto simp: hs_diff_def)

lemma distinct_hs_insert [simp]: "distinct (hs_insert x s) = distinct s"
  by (auto simp: hs_insert_def)

lemma distinct_hs_remove [simp]: "distinct s \<Longrightarrow> distinct (hs_remove x s)"
  by (simp add: hs_remove_def)

end
