(* ===== verification/Message_Queue.thy ===== *)
theory Message_Queue
  imports Prelude "HOL-Library.List_Lexorder" "HOL-Library.Char_ord"
begin

text \<open>
  The message queue identity shared by client and broker
  (\<open>rocketmq-common/src/common/message/message_queue.rs\<close>): topic, broker and queue number, with
  the total order the sources sort queues by. Strings are ordered byte-wise, as \<open>str\<close> is.
\<close>

datatype message_queue =
  MessageQueue (mq_topic: string) (mq_broker_name: string) (mq_queue_id: i32)

datatype ordering = Less | Equal | Greater

definition ord_cmp :: "'a::linorder \<Rightarrow> 'a \<Rightarrow> ordering" where
  "ord_cmp a b = (if a < b then Less else if a = b then Equal else Greater)"

definition mq_cmp :: "message_queue \<Rightarrow> message_queue \<Rightarrow> ordering" where
  "mq_cmp a b =
     (case ord_cmp (mq_topic a) (mq_topic b) of
        Equal \<Rightarrow>
          (case ord_cmp (mq_broker_name a) (mq_broker_name b) of
             Equal \<Rightarrow> ord_cmp (mq_queue_id a) (mq_queue_id b)
           | other \<Rightarrow> other)
      | other \<Rightarrow> other)"

definition mq_default :: message_queue where
  "mq_default = MessageQueue [] [] 0"

lemma ord_cmp_simps [simp]:
  "ord_cmp a b = Less \<longleftrightarrow> a < b"
  "ord_cmp a b = Equal \<longleftrightarrow> a = b"
  "ord_cmp a b = Greater \<longleftrightarrow> b < a"
  by (auto simp: ord_cmp_def)

lemma mq_cmp_Less:
  "mq_cmp a b = Less \<longleftrightarrow>
     (mq_topic a < mq_topic b \<or>
      mq_topic a = mq_topic b \<and>
      (mq_broker_name a < mq_broker_name b \<or>
       mq_broker_name a = mq_broker_name b \<and> mq_queue_id a < mq_queue_id b))"
  by (auto simp: mq_cmp_def split: ordering.splits)

lemma mq_cmp_Equal: "mq_cmp a b = Equal \<longleftrightarrow> a = b"
  by (cases a; cases b) (auto simp: mq_cmp_def split: ordering.splits)

instantiation message_queue :: linorder
begin

definition less_eq_message_queue :: "message_queue \<Rightarrow> message_queue \<Rightarrow> bool" where
  "less_eq_message_queue a b \<longleftrightarrow> mq_cmp a b \<noteq> Greater"

definition less_message_queue :: "message_queue \<Rightarrow> message_queue \<Rightarrow> bool" where
  "less_message_queue a b \<longleftrightarrow> mq_cmp a b = Less"

instance
proof
  fix x y z :: message_queue
  have le: "a \<le> b \<longleftrightarrow> mq_cmp a b = Less \<or> a = b" for a b :: message_queue
    unfolding less_eq_message_queue_def
    by (metis mq_cmp_Equal ordering.exhaust ordering.distinct)
  show "x < y \<longleftrightarrow> x \<le> y \<and> \<not> y \<le> x"
    unfolding le less_message_queue_def by (auto simp: mq_cmp_Less)
  show "x \<le> x"
    by (simp add: le)
  show "x \<le> y \<Longrightarrow> y \<le> z \<Longrightarrow> x \<le> z"
    unfolding le by (auto simp: mq_cmp_Less)
  show "x \<le> y \<Longrightarrow> y \<le> x \<Longrightarrow> x = y"
    unfolding le by (auto simp: mq_cmp_Less)
  show "x \<le> y \<or> y \<le> x"
    unfolding le by (cases x; cases y) (auto simp: mq_cmp_Less)
qed

end

end
