(* ===== verification/Alloc_Strategy.thy ===== *)
theory Alloc_Strategy
  imports Rust_Maps Rust_Text Message_Queue "HOL-Library.Multiset"
begin

text \<open>
  The queue allocation strategies of the client's rebalance: the averaging strategy, the
  round-robin strategy, the machine-room strategies and the fixed configuration
  (\<open>rocketmq-client/src/consumer/rebalance_strategy\<close>). Every consumer of a group runs the same
  strategy on the same inputs, so the strategy must hand every queue to exactly one consumer.
  The locale \<open>allocation\<close> states that contract; the machine-room-nearby strategy is proved
  correct once for every inner strategy that meets it.
\<close>

section \<open>Model\<close>

text \<open>The text of an \<open>IllegalArgumentError\<close> is represented by what it reports.\<close>

datatype illegal_argument =
    CurrentCidEmpty
  | MqAllEmpty
  | CidAllEmpty
  | MachineRoomNullForMq message_queue
  | MachineRoomNullForCid string

datatype alloc_error = IllegalArgumentError illegal_argument

type_synonym strategy =
  "string \<Rightarrow> string \<Rightarrow> message_queue list \<Rightarrow> string list \<Rightarrow> alloc_error + message_queue list"

fun position :: "('a \<Rightarrow> bool) \<Rightarrow> 'a list \<Rightarrow> nat option" where
  "position P [] = None"
| "position P (x # xs) = (if P x then Some 0 else map_option Suc (position P xs))"

definition check :: "string \<Rightarrow> string \<Rightarrow> message_queue list \<Rightarrow> string list \<Rightarrow> alloc_error + bool" where
  "check consumer_group current_cid mq_all cid_all =
     (if current_cid = [] then Inl (IllegalArgumentError CurrentCidEmpty)
      else if mq_all = [] then Inl (IllegalArgumentError MqAllEmpty)
      else if cid_all = [] then Inl (IllegalArgumentError CidAllEmpty)
      else Inr (current_cid \<in> set cid_all))"

definition cid_index :: "string \<Rightarrow> string list \<Rightarrow> nat" where
  "cid_index current_cid cid_all =
     (case position (\<lambda>cid. cid = current_cid) cid_all of Some i \<Rightarrow> i | None \<Rightarrow> 0)"

definition allocate_averagely :: strategy where
  "allocate_averagely consumer_group current_cid mq_all cid_all =
     (case check consumer_group current_cid mq_all cid_all of
        Inl e \<Rightarrow> Inl e
      | Inr ok \<Rightarrow>
          if \<not> ok then Inr []
          else
            let index = cid_index current_cid cid_all;
                mod_val = length mq_all mod length cid_all;
                average_size =
                  (if length mq_all \<le> length cid_all then 1
                   else if mod_val > 0 \<and> index < mod_val then length mq_all div length cid_all + 1
                   else length mq_all div length cid_all);
                start_index =
                  (if mod_val > 0 \<and> index < mod_val then index * average_size
                   else index * average_size + mod_val);
                range =
                  (if length mq_all > start_index
                   then min average_size (length mq_all - start_index) else 0)
            in Inr (map (\<lambda>i. mq_all ! (start_index + i)) [0..<range]))"

definition allocate_averagely_by_circle :: strategy where
  "allocate_averagely_by_circle consumer_group current_cid mq_all cid_all =
     (case check consumer_group current_cid mq_all cid_all of
        Inl e \<Rightarrow> Inl e
      | Inr ok \<Rightarrow>
          if \<not> ok then Inr []
          else
            let index = cid_index current_cid cid_all
            in Inr (map snd
                 (filter (\<lambda>(i, item). i mod length cid_all = index)
                    (drop index (enumerate 0 mq_all)))))"

definition allocate_by_config :: "message_queue list \<Rightarrow> strategy" where
  "allocate_by_config message_queue_list consumer_group current_cid mq_all cid_all =
     Inr message_queue_list"

definition in_idc :: "string hset \<Rightarrow> message_queue \<Rightarrow> bool" where
  "in_idc consumer_idcs mq =
     (let parts = split_char CHR ''@'' (mq_broker_name mq)
      in length parts = 2 \<and> parts ! 0 \<in> set consumer_idcs)"

definition allocate_by_machine_room :: "string hset \<Rightarrow> strategy" where
  "allocate_by_machine_room consumer_idcs consumer_group current_cid mq_all cid_all =
     (case check consumer_group current_cid mq_all cid_all of
        Inl e \<Rightarrow> Inl e
      | Inr ok \<Rightarrow>
          if \<not> ok then Inr []
          else
            let current_index = cid_index current_cid cid_all;
                premq_all = filter (in_idc consumer_idcs) mq_all;
                mod_size = length premq_all div length cid_all;
                rem = length premq_all mod length cid_all;
                start_index = mod_size * current_index;
                end_index = start_index + mod_size;
                result = take (end_index - start_index) (drop start_index premq_all);
                extra_index = current_index + mod_size * length cid_all
            in Inr (if rem > current_index \<and> extra_index < length premq_all
                    then result @ [premq_all ! extra_index] else result))"

text \<open>
  The resolver of a machine-room-nearby strategy is supplied by the application: two functions
  that place a queue's broker and a client in a machine room.
\<close>

definition push_room :: "string \<Rightarrow> 'a \<Rightarrow> (string, 'a list) btmap \<Rightarrow> (string, 'a list) btmap" where
  "push_room room x m =
     bt_insert room ((case bt_get m room of None \<Rightarrow> [] | Some xs \<Rightarrow> xs) @ [x]) m"

fun group_by_room ::
  "('a \<Rightarrow> string option) \<Rightarrow> ('a \<Rightarrow> illegal_argument) \<Rightarrow> 'a list \<Rightarrow> (string, 'a list) btmap
   \<Rightarrow> alloc_error + (string, 'a list) btmap" where
  "group_by_room deploy_in err [] m = Inr m"
| "group_by_room deploy_in err (x # xs) m =
     (case deploy_in x of
        Some room \<Rightarrow> group_by_room deploy_in err xs (push_room room x m)
      | None \<Rightarrow> Inl (IllegalArgumentError (err x)))"

fun alloc_rooms_without_consumer ::
  "strategy \<Rightarrow> string \<Rightarrow> string \<Rightarrow> string list \<Rightarrow> (string, string list) btmap
   \<Rightarrow> (string, message_queue list) btmap \<Rightarrow> message_queue list \<Rightarrow> alloc_error + message_queue list"
where
  "alloc_rooms_without_consumer inner g cid cid_all mr2c [] result = Inr result"
| "alloc_rooms_without_consumer inner g cid cid_all mr2c ((machine_room, mqs) # rooms) result =
     (if bt_get mr2c machine_room = None then
        (case inner g cid mqs cid_all of
           Inl e \<Rightarrow> Inl e
         | Inr r \<Rightarrow> alloc_rooms_without_consumer inner g cid cid_all mr2c rooms (result @ r))
      else alloc_rooms_without_consumer inner g cid cid_all mr2c rooms result)"

definition allocate_by_machine_room_nearby ::
  "strategy \<Rightarrow> (message_queue \<Rightarrow> string option) \<Rightarrow> (string \<Rightarrow> string option) \<Rightarrow> strategy" where
  "allocate_by_machine_room_nearby inner broker_deploy_in consumer_deploy_in
     consumer_group current_cid mq_all cid_all =
     (case check consumer_group current_cid mq_all cid_all of
        Inl e \<Rightarrow> Inl e
      | Inr ok \<Rightarrow>
          if \<not> ok then Inr []
          else
            (case group_by_room broker_deploy_in MachineRoomNullForMq mq_all [] of
               Inl e \<Rightarrow> Inl e
             | Inr mr2mq \<Rightarrow>
                 (case group_by_room consumer_deploy_in MachineRoomNullForCid cid_all [] of
                    Inl e \<Rightarrow> Inl e
                  | Inr mr2c \<Rightarrow>
                      (case consumer_deploy_in current_cid of
                         None \<Rightarrow> Inr []
                       | Some current_machine_room \<Rightarrow>
                           (case
                              (case bt_get mr2mq current_machine_room of
                                 None \<Rightarrow> Inr []
                               | Some mq_in_room \<Rightarrow>
                                   (case bt_get mr2c current_machine_room of
                                      None \<Rightarrow> Inr []
                                    | Some consumers_in_room \<Rightarrow>
                                        inner consumer_group current_cid mq_in_room consumers_in_room))
                            of
                              Inl e \<Rightarrow> Inl e
                            | Inr result \<Rightarrow>
                                alloc_rooms_without_consumer inner consumer_group current_cid cid_all
                                  mr2c (bt_remove current_machine_room mr2mq) result)))))"

text \<open>What a consumer ends up with: the allocated queues, none when the strategy fails.\<close>

definition allocated :: "strategy \<Rightarrow> string \<Rightarrow> message_queue list \<Rightarrow> string list \<Rightarrow> string
    \<Rightarrow> message_queue list" where
  "allocated strat g mqs cids cid = (case strat g cid mqs cids of Inr r \<Rightarrow> r | Inl _ \<Rightarrow> [])"

definition valid_group :: "string list \<Rightarrow> bool" where
  "valid_group cids \<longleftrightarrow> cids \<noteq> [] \<and> distinct cids \<and> [] \<notin> set cids"


section \<open>The allocation contract\<close>

text \<open>
  On a valid group and a non-empty list of queues every member obtains an allocation, and the
  allocations of all members together are a permutation of the queues: no queue is lost and none
  is consumed twice.
\<close>

locale allocation =
  fixes allocate :: strategy
  assumes succeeds:
      "valid_group cids \<Longrightarrow> cid \<in> set cids \<Longrightarrow> mqs \<noteq> [] \<Longrightarrow>
       \<exists>r. allocate g cid mqs cids = Inr r"
    and covers:
      "valid_group cids \<Longrightarrow> mqs \<noteq> [] \<Longrightarrow>
       (\<Sum>cid\<leftarrow>cids. mset (allocated allocate g mqs cids cid)) = mset mqs"

text \<open>A balanced strategy moreover gives every member the integer quotient, or one more.\<close>

locale balanced_allocation = allocation +
  assumes load:
      "valid_group cids \<Longrightarrow> cid \<in> set cids \<Longrightarrow> mqs \<noteq> [] \<Longrightarrow>
       length (allocated allocate g mqs cids cid) \<in>
         {length mqs div length cids, length mqs div length cids + 1}"
begin

lemma load_difference:
  assumes "valid_group cids" "a \<in> set cids" "b \<in> set cids" "mqs \<noteq> []"
  shows "length (allocated allocate g mqs cids a) \<le> length (allocated allocate g mqs cids b) + 1"
  using load [OF assms(1,2,4), of g] load [OF assms(1,3,4), of g] by auto

lemma idle_only_when_scarce:
  assumes "valid_group cids" "cid \<in> set cids" "mqs \<noteq> []" "length cids \<le> length mqs"
  shows "allocated allocate g mqs cids cid \<noteq> []"
proof -
  have "0 < length mqs div length cids"
    using assms(1,4) by (simp add: div_greater_zero_iff valid_group_def)
  then show ?thesis using load [OF assms(1-3), of g] by auto
qed

end

section \<open>Shared lemmas\<close>

lemma position_distinct:
  "distinct xs \<Longrightarrow> i < length xs \<Longrightarrow> position (\<lambda>x. x = xs ! i) xs = Some i"
proof (induction xs arbitrary: i)
  case Nil
  then show ?case by simp
next
  case (Cons x xs)
  show ?case
  proof (cases i)
    case 0
    then show ?thesis by simp
  next
    case (Suc j)
    with Cons.prems have j: "j < length xs" and "x \<noteq> xs ! j" by auto
    with Suc Cons.IH [OF _ j] Cons.prems show ?thesis by simp
  qed
qed

lemma cid_index_nth: "distinct cids \<Longrightarrow> i < length cids \<Longrightarrow> cid_index (cids ! i) cids = i"
  by (simp add: cid_index_def position_distinct)

lemma check_valid:
  "valid_group cids \<Longrightarrow> cid \<in> set cids \<Longrightarrow> mqs \<noteq> [] \<Longrightarrow> check g cid mqs cids = Inr True"
  by (auto simp: check_def valid_group_def)

lemma map_over_group:
  "(\<And>i. i < length cids \<Longrightarrow> f (cids ! i) = h i) \<Longrightarrow> map f cids = map h [0..<length cids]"
  by (rule nth_equalityI) auto

lemma concat_slices:
  assumes "b 0 = 0" and "\<And>i. b i \<le> b (Suc i)"
  shows "concat (map (\<lambda>i. take (b (Suc i) - b i) (drop (b i) xs)) [0..<k]) = take (b k) xs"
proof (induction k)
  case 0
  then show ?case using assms by simp
next
  case (Suc k)
  then show ?case using assms(2) [of k] by (simp flip: take_add)
qed

lemma distinct_concat_disjoint:
  "distinct (concat (map f xs)) \<Longrightarrow> a \<in> set xs \<Longrightarrow> b \<in> set xs \<Longrightarrow> a \<noteq> b \<Longrightarrow>
   set (f a) \<inter> set (f b) = {}"
  by (induction xs) auto

lemma sum_list_single:
  "distinct ks \<Longrightarrow> (\<Sum>k\<leftarrow>ks. if a = k then v else 0) = (if a \<in> set ks then v else 0)"
  by (induction ks) auto

lemma sum_list_mset_concat: "(\<Sum>x\<leftarrow>xs. mset (f x)) = mset (concat (map f xs))"
  by (induction xs) auto

lemma mset_classify:
  assumes "distinct ks" and "\<forall>x \<in> set xs. f x \<in> set ks"
  shows "(\<Sum>k\<leftarrow>ks. mset (filter (\<lambda>x. f x = k) xs)) = mset xs"
  using assms(2)
proof (induction xs)
  case Nil
  then show ?case by (induction ks) auto
next
  case (Cons x xs)
  have "(\<Sum>k\<leftarrow>ks. mset (filter (\<lambda>y. f y = k) (x # xs))) =
        (\<Sum>k\<leftarrow>ks. mset (filter (\<lambda>y. f y = k) xs)) + (\<Sum>k\<leftarrow>ks. if f x = k then {#x#} else {#})"
    by (subst sum_list_addf [symmetric]) (rule arg_cong [where f = sum_list], auto)
  also have "(\<Sum>k\<leftarrow>ks. if f x = k then {#x#} else {#}) = {#x#}"
    using Cons.prems sum_list_single [OF assms(1), of "f x" "{#x#}"] by simp
  finally show ?case using Cons by simp
qed

lemma sum_list_image_mset:
  "(\<Sum>x\<leftarrow>xs. image_mset f (h x)) = image_mset f (\<Sum>x\<leftarrow>xs. h x)"
  by (induction xs) auto

lemma sum_list_swap:
  fixes f :: "'a \<Rightarrow> 'b \<Rightarrow> 'c::comm_monoid_add"
  shows "(\<Sum>x\<leftarrow>xs. \<Sum>y\<leftarrow>ys. f x y) = (\<Sum>y\<leftarrow>ys. \<Sum>x\<leftarrow>xs. f x y)"
  by (induction xs) (auto simp: sum_list_addf)

lemma sum_list_if_filter:
  fixes f :: "'a \<Rightarrow> 'b::comm_monoid_add"
  shows "(\<Sum>x\<leftarrow>xs. if P x then f x else 0) = (\<Sum>x\<leftarrow>filter P xs. f x)"
  by (induction xs) auto

context allocation
begin

lemma covers_concat:
  "valid_group cids \<Longrightarrow> mqs \<noteq> [] \<Longrightarrow>
   mset (concat (map (allocated allocate g mqs cids) cids)) = mset mqs"
  using covers [of cids mqs g] by (simp add: sum_list_mset_concat)

lemma allocated_subset:
  assumes "valid_group cids" "mqs \<noteq> []" "cid \<in> set cids"
  shows "set (allocated allocate g mqs cids cid) \<subseteq> set mqs"
  using assms(3) mset_eq_setD [OF covers_concat [OF assms(1,2), of g]] by auto

lemma allocated_disjoint:
  assumes "valid_group cids" "distinct mqs" "mqs \<noteq> []"
    and "a \<in> set cids" "b \<in> set cids" "a \<noteq> b"
  shows "set (allocated allocate g mqs cids a) \<inter> set (allocated allocate g mqs cids b) = {}"
proof (rule distinct_concat_disjoint [OF _ assms(4-6)])
  show "distinct (concat (map (allocated allocate g mqs cids) cids))"
    using covers_concat [OF assms(1,3), of g] assms(2) by (metis mset_eq_imp_distinct_iff)
qed

end

section \<open>Averaging\<close>

text \<open>The lower bound of the slice of the \<open>i\<close>-th of \<open>c\<close> consumers of \<open>n\<close> queues.\<close>

definition avg_bound :: "nat \<Rightarrow> nat \<Rightarrow> nat \<Rightarrow> nat" where
  "avg_bound n c i = min n (i * (n div c) + min i (n mod c))"

lemma avg_bound_mono: "avg_bound n c i \<le> avg_bound n c (Suc i)"
  unfolding avg_bound_def by (rule min.mono) (auto intro: add_mono)

lemma avg_bound_le: "avg_bound n c i \<le> n"
  by (simp add: avg_bound_def)

lemma map_nth_slice: "s + k \<le> length xs \<Longrightarrow> map (\<lambda>i. xs ! (s + i)) [0..<k] = take k (drop s xs)"
  by (intro nth_equalityI) auto

lemma avg_bound_small: "n < c \<Longrightarrow> avg_bound n c i = min n i"
  by (simp add: avg_bound_def min.commute)

lemma avg_bound_large:
  assumes "0 < c" "i \<le> c"
  shows "avg_bound n c i = i * (n div c) + min i (n mod c)"
proof -
  have "i * (n div c) + min i (n mod c) \<le> c * (n div c) + n mod c"
    using assms by (intro add_mono mult_right_mono) auto
  also have "\<dots> = n" by simp
  finally show ?thesis by (simp add: avg_bound_def)
qed

lemma avg_bound_top: "0 < c \<Longrightarrow> avg_bound n c c = n"
  by (simp add: avg_bound_large min.absorb2 less_imp_le)

lemma allocated_averagely_unfold:
  assumes "valid_group cids" "i < length cids" "mqs \<noteq> []"
  shows "allocated allocate_averagely g mqs cids (cids ! i) =
     (let n = length mqs; c = length cids; r = n mod c;
          sz = (if n \<le> c then 1 else if r > 0 \<and> i < r then n div c + 1 else n div c);
          st = (if r > 0 \<and> i < r then i * sz else i * sz + r);
          k = (if n > st then min sz (n - st) else 0)
      in map (\<lambda>j. mqs ! (st + j)) [0..<k])"
proof -
  have "distinct cids" and m: "cids ! i \<in> set cids"
    using assms by (auto simp: valid_group_def)
  then show ?thesis
    using assms by (simp add: allocated_def allocate_averagely_def Let_def cid_index_nth
        check_valid [OF assms(1) m assms(3)])
qed

lemma allocated_averagely_scarce:
  assumes "valid_group cids" "i < length cids" "mqs \<noteq> []" "length mqs < length cids"
  shows "allocated allocate_averagely g mqs cids (cids ! i) = (if i < length mqs then [mqs ! i] else [])"
  using assms(3,4) unfolding allocated_averagely_unfold [OF assms(1-3)] by (auto simp: Let_def)

lemma allocated_averagely_nth:
  assumes "valid_group cids" "i < length cids" "mqs \<noteq> []"
  defines "b \<equiv> avg_bound (length mqs) (length cids)"
  shows "allocated allocate_averagely g mqs cids (cids ! i) = take (b (Suc i) - b i) (drop (b i) mqs)"
proof (cases "length mqs < length cids")
  case True
  then have "take (b (Suc i) - b i) (drop (b i) mqs) = (if i < length mqs then [mqs ! i] else [])"
    by (auto simp: b_def avg_bound_small take_Suc hd_drop_conv_nth)
  then show ?thesis using allocated_averagely_scarce [OF assms(1-3) True] by simp
next
  case False
  let ?n = "length mqs" and ?c = "length cids"
  let ?q = "?n div ?c" and ?r = "?n mod ?c"
  from assms have c: "0 < ?c" by (auto simp: valid_group_def)
  have q: "0 < ?q" using False c by (simp add: div_greater_zero_iff)
  have bi: "b i = i * ?q + min i ?r" and bs: "b (Suc i) = Suc i * ?q + min (Suc i) ?r"
    using c assms(2) by (simp_all add: b_def avg_bound_large)
  have le: "b (Suc i) \<le> ?n" by (simp add: b_def avg_bound_le)
  have same: "?n \<le> ?c \<Longrightarrow> ?q = 1 \<and> ?r = 0" using False c by auto
  have sz: "(if ?n \<le> ?c then 1 else if ?r > 0 \<and> i < ?r then ?q + 1 else ?q) = b (Suc i) - b i"
    using same by (auto simp: bi bs min_def)
  have st: "(if ?r > 0 \<and> i < ?r then i * (b (Suc i) - b i) else i * (b (Suc i) - b i) + ?r) = b i"
    by (auto simp: bi bs min_def)
  have gt: "b i < b (Suc i)" using q by (auto simp: bi bs min_def)
  then have k: "(if ?n > b i then min (b (Suc i) - b i) (?n - b i) else 0) = b (Suc i) - b i"
    using le by simp
  have "allocated allocate_averagely g mqs cids (cids ! i) =
        map (\<lambda>k. mqs ! (b i + k)) [0..<b (Suc i) - b i]"
    unfolding allocated_averagely_unfold [OF assms(1-3)] Let_def sz st k ..
  also have "\<dots> = take (b (Suc i) - b i) (drop (b i) mqs)"
    using le avg_bound_mono [of ?n ?c i] by (intro map_nth_slice) (simp add: b_def)
  finally show ?thesis .
qed


lemma allocated_averagely_concat:
  assumes "valid_group cids" "mqs \<noteq> []"
  shows "concat (map (allocated allocate_averagely g mqs cids) cids) = mqs"
proof -
  let ?b = "avg_bound (length mqs) (length cids)"
  have "concat (map (allocated allocate_averagely g mqs cids) cids) =
        concat (map (\<lambda>i. take (?b (Suc i) - ?b i) (drop (?b i) mqs)) [0..<length cids])"
    by (rule arg_cong [where f = concat], rule map_over_group)
       (rule allocated_averagely_nth [OF assms(1) _ assms(2)])
  also have "\<dots> = take (?b (length cids)) mqs"
    by (rule concat_slices) (auto simp: avg_bound_def [of _ _ 0] avg_bound_mono)
  also have "\<dots> = mqs"
    using assms by (simp add: avg_bound_top valid_group_def)
  finally show ?thesis .
qed

lemma avg_bound_step:
  assumes "i < c"
  shows "avg_bound n c (Suc i) - avg_bound n c i \<in> {n div c, n div c + 1}"
  using assms by (auto simp: avg_bound_large min_def)

interpretation avg: balanced_allocation allocate_averagely
proof
  fix cids :: "string list" and cid g :: string and mqs :: "message_queue list"
  assume group: "valid_group cids" and mqs: "mqs \<noteq> []"
  then show "(\<Sum>cid\<leftarrow>cids. mset (allocated allocate_averagely g mqs cids cid)) = mset mqs"
    by (simp add: sum_list_mset_concat allocated_averagely_concat)
  assume cid: "cid \<in> set cids"
  show "\<exists>r. allocate_averagely g cid mqs cids = Inr r"
    by (simp add: allocate_averagely_def check_valid [OF group cid mqs] Let_def)
  from cid obtain i where "i < length cids" "cid = cids ! i"
    by (auto simp: in_set_conv_nth)
  then show "length (allocated allocate_averagely g mqs cids cid) \<in>
      {length mqs div length cids, length mqs div length cids + 1}"
    using group mqs avg_bound_step [of i "length cids" "length mqs"]
      avg_bound_le [of "length mqs" "length cids" "Suc i"]
    by (auto simp: allocated_averagely_nth)
qed

section \<open>Round robin\<close>

lemma allocated_circle_nth:
  assumes "valid_group cids" "i < length cids" "mqs \<noteq> []"
  shows "allocated allocate_averagely_by_circle g mqs cids (cids ! i) =
     map (\<lambda>k. mqs ! k) (filter (\<lambda>k. k mod length cids = i) [0..<length mqs])"
proof -
  let ?P = "\<lambda>k. k mod length cids = i"
  have d: "distinct cids" and m: "cids ! i \<in> set cids"
    using assms by (auto simp: valid_group_def)
  have enum: "enumerate 0 mqs = map (\<lambda>k. (k, mqs ! k)) [0..<length mqs]"
    by (rule nth_equalityI) (auto simp: nth_enumerate_eq)
  have skip: "filter ?P (drop i [0..<length mqs]) = filter ?P [0..<length mqs]"
  proof -
    have "filter ?P (take i [0..<length mqs]) = []"
      using assms(2) by (auto simp: filter_empty_conv in_set_conv_nth)
        (metis mod_less_eq_dividend not_le)
    then show ?thesis
      by (metis append_take_drop_id append_Nil filter_append)
  qed
  show ?thesis
    unfolding allocated_def allocate_averagely_by_circle_def check_valid [OF assms(1) m assms(3)]
      cid_index_nth [OF d assms(2)] enum drop_map Let_def
    by (simp add: filter_map comp_def skip del: drop_upt)
qed

lemma circle_load:
  "0 < c \<Longrightarrow> i < c \<Longrightarrow>
   length (filter (\<lambda>k. k mod c = i) [0..<n]) = n div c + (if i < n mod c then 1 else 0)"
proof (induction n)
  case 0
  then show ?case by simp
next
  case (Suc n)
  then show ?case by (auto simp: mod_Suc div_Suc)
qed

interpretation circle: balanced_allocation allocate_averagely_by_circle
proof
  fix cids :: "string list" and cid g :: string and mqs :: "message_queue list"
  assume group: "valid_group cids" and mqs: "mqs \<noteq> []"
  have "(\<Sum>cid\<leftarrow>cids. mset (allocated allocate_averagely_by_circle g mqs cids cid)) =
        (\<Sum>i\<leftarrow>[0..<length cids]. image_mset ((!) mqs)
           (mset (filter (\<lambda>k. k mod length cids = i) [0..<length mqs])))"
    by (rule arg_cong [where f = sum_list], rule map_over_group)
       (simp add: allocated_circle_nth [OF group _ mqs])
  also have "\<dots> = image_mset ((!) mqs) (\<Sum>i\<leftarrow>[0..<length cids].
           mset (filter (\<lambda>k. k mod length cids = i) [0..<length mqs]))"
    by (rule sum_list_image_mset)
  also have "\<dots> = image_mset ((!) mqs) (mset [0..<length mqs])"
    using group by (subst mset_classify) (auto simp: valid_group_def)
  also have "\<dots> = mset mqs"
    by (metis map_nth mset_map)
  finally show "(\<Sum>cid\<leftarrow>cids. mset (allocated allocate_averagely_by_circle g mqs cids cid)) = mset mqs" .
  assume cid: "cid \<in> set cids"
  show "\<exists>r. allocate_averagely_by_circle g cid mqs cids = Inr r"
    by (simp add: allocate_averagely_by_circle_def check_valid [OF group cid mqs] Let_def)
  from cid obtain i where "i < length cids" "cid = cids ! i"
    by (auto simp: in_set_conv_nth)
  then show "length (allocated allocate_averagely_by_circle g mqs cids cid) \<in>
      {length mqs div length cids, length mqs div length cids + 1}"
    using group mqs circle_load [of "length cids" i "length mqs"]
    by (auto simp: allocated_circle_nth valid_group_def split: if_splits)
qed


section \<open>Machine rooms\<close>

lemma allocated_machine_room_nth:
  fixes idcs :: "string hset"
  assumes "valid_group cids" "i < length cids" "mqs \<noteq> []"
  defines "pre \<equiv> filter (in_idc idcs) mqs"
  defines "q \<equiv> length pre div length cids"
  shows "allocated (allocate_by_machine_room idcs) g mqs cids (cids ! i) =
     take q (drop (q * i) pre) @
     (if i < length pre mod length cids then [pre ! (i + q * length cids)] else [])"
proof -
  have d: "distinct cids" and m: "cids ! i \<in> set cids"
    using assms by (auto simp: valid_group_def)
  have "i < length pre mod length cids \<Longrightarrow> i + q * length cids < length pre"
    unfolding q_def by (metis add.commute add_less_cancel_left mult.commute mult_div_mod_eq)
  then show ?thesis
    unfolding allocated_def allocate_by_machine_room_def check_valid [OF assms(1) m assms(3)]
      cid_index_nth [OF d assms(2)] Let_def
    by (simp add: pre_def q_def)
qed

lemma allocated_machine_room_covers:
  assumes "valid_group cids" "mqs \<noteq> []"
  shows "(\<Sum>cid\<leftarrow>cids. mset (allocated (allocate_by_machine_room idcs) g mqs cids cid)) =
    mset (filter (in_idc idcs) mqs)"
proof -
  define pre where "pre = filter (in_idc idcs) mqs"
  define q where "q = length pre div length cids"
  let ?c = "length cids" and ?r = "length pre mod length cids"
  have c: "0 < ?c" using assms by (simp add: valid_group_def)
  have n: "length pre = q * ?c + ?r" by (simp add: q_def)
  have "(\<Sum>cid\<leftarrow>cids. mset (allocated (allocate_by_machine_room idcs) g mqs cids cid)) =
        (\<Sum>i\<leftarrow>[0..<?c]. mset (take q (drop (q * i) pre)) +
           mset (if i < ?r then [pre ! (i + q * ?c)] else []))"
    by (rule arg_cong [where f = sum_list], rule map_over_group)
       (simp add: allocated_machine_room_nth [OF assms(1) _ assms(2)] pre_def q_def)
  also have "\<dots> = mset (concat (map (\<lambda>i. take (q * Suc i - q * i) (drop (q * i) pre)) [0..<?c])) +
        mset (concat (map (\<lambda>i. if i < ?r then [pre ! (i + q * ?c)] else []) [0..<?c]))"
    by (simp add: sum_list_addf sum_list_mset_concat)
  also have "concat (map (\<lambda>i. take (q * Suc i - q * i) (drop (q * i) pre)) [0..<?c]) = take (q * ?c) pre"
    by (rule concat_slices) auto
  also have "concat (map (\<lambda>i. if i < ?r then [pre ! (i + q * ?c)] else []) [0..<?c]) =
        map (\<lambda>i. pre ! (i + q * ?c)) [0..<?r]"
  proof -
    have "[0..<?c] = [0..<?r] @ [?r..<?c]"
      using upt_add_eq_append [of 0 ?r "?c - ?r"] c by (simp add: less_imp_le)
    moreover have "map (\<lambda>i. if i < ?r then [pre ! (i + q * ?c)] else []) [?r..<?c] =
        map (\<lambda>i. []) [?r..<?c]"
      by (rule map_cong) auto
    moreover have "map (\<lambda>i. if i < ?r then [pre ! (i + q * ?c)] else []) [0..<?r] =
        map (\<lambda>i. [pre ! (i + q * ?c)]) [0..<?r]"
      by (rule map_cong) auto
    ultimately show ?thesis by (simp only: map_append concat_append) (simp add: concat_map_singleton)
  qed
  also have "map (\<lambda>i. pre ! (i + q * ?c)) [0..<?r] = drop (q * ?c) pre"
    using n by (intro nth_equalityI) (auto simp: add.commute)
  finally show ?thesis
    by (simp flip: mset_append add: pre_def)
qed

subsection \<open>Grouping by room\<close>

text \<open>A room table groups a list when it holds, for every room, the elements placed there.\<close>

definition grouped :: "('a \<Rightarrow> string option) \<Rightarrow> 'a list \<Rightarrow> (string, 'a list) btmap \<Rightarrow> bool" where
  "grouped deploy_in xs m \<longleftrightarrow> bt_inv m \<and>
     (\<forall>r. bt_get m r = (let ys = filter (\<lambda>x. deploy_in x = Some r) xs in if ys = [] then None else Some ys))"

lemma group_by_room_ok:
  assumes "\<forall>x \<in> set xs. deploy_in x \<noteq> None" "bt_inv m"
  shows "\<exists>m'. group_by_room deploy_in err xs m = Inr m' \<and> bt_inv m' \<and>
     (\<forall>r. bt_get m' r =
        (case bt_get m r of
           Some ys \<Rightarrow> Some (ys @ filter (\<lambda>x. deploy_in x = Some r) xs)
         | None \<Rightarrow> if filter (\<lambda>x. deploy_in x = Some r) xs = [] then None
                   else Some (filter (\<lambda>x. deploy_in x = Some r) xs)))"
  using assms
proof (induction xs arbitrary: m)
  case Nil
  then show ?case by (auto split: option.splits)
next
  case (Cons x xs)
  then obtain room where room: "deploy_in x = Some room" by auto
  have "bt_inv (push_room room x m)" using Cons.prems by (simp add: push_room_def)
  then obtain m' where m': "group_by_room deploy_in err xs (push_room room x m) = Inr m'" "bt_inv m'"
    "\<forall>r. bt_get m' r =
        (case bt_get (push_room room x m) r of
           Some ys \<Rightarrow> Some (ys @ filter (\<lambda>x. deploy_in x = Some r) xs)
         | None \<Rightarrow> if filter (\<lambda>x. deploy_in x = Some r) xs = [] then None
                   else Some (filter (\<lambda>x. deploy_in x = Some r) xs))"
    using Cons.IH [of "push_room room x m"] Cons.prems(1) by auto
  then show ?case
    by (auto simp: room push_room_def split: option.splits)
qed

lemma group_by_room_grouped:
  assumes "\<forall>x \<in> set xs. deploy_in x \<noteq> None"
  shows "\<exists>m. group_by_room deploy_in err xs [] = Inr m \<and> grouped deploy_in xs m"
  using group_by_room_ok [OF assms, of "[]" err] by (auto simp: grouped_def Let_def)

lemma grouped_get:
  "grouped deploy_in xs m \<Longrightarrow> bt_get m r = Some ys \<longleftrightarrow>
     ys = filter (\<lambda>x. deploy_in x = Some r) xs \<and> ys \<noteq> []"
  by (auto simp: grouped_def Let_def)

lemma grouped_get_member:
  "grouped deploy_in xs m \<Longrightarrow> x \<in> set xs \<Longrightarrow> deploy_in x = Some r \<Longrightarrow>
   bt_get m r = Some (filter (\<lambda>x. deploy_in x = Some r) xs)"
  by (auto simp: grouped_get filter_empty_conv)

lemma grouped_entry:
  "grouped deploy_in xs m \<Longrightarrow> (r, ys) \<in> set m \<Longrightarrow>
   ys = filter (\<lambda>x. deploy_in x = Some r) xs \<and> ys \<noteq> []"
  by (simp only: grouped_get [symmetric] bt_get_def) (simp add: grouped_def bt_inv_distinct)

lemma grouped_covers:
  assumes m: "grouped deploy_in xs m" and deployed: "\<forall>x \<in> set xs. deploy_in x \<noteq> None"
  shows "(\<Sum>(r, ys)\<leftarrow>m. mset ys) = mset xs"
proof -
  have "(\<Sum>(r, ys)\<leftarrow>m. mset ys) = (\<Sum>r\<leftarrow>map fst m. mset (filter (\<lambda>x. the (deploy_in x) = r) xs))"
    unfolding map_map comp_def
  proof (rule arg_cong [where f = sum_list], rule map_cong [OF refl])
    fix e assume "e \<in> set m"
    then have "snd e = filter (\<lambda>x. deploy_in x = Some (fst e)) xs"
      using grouped_entry [OF m] by (cases e) auto
    also have "\<dots> = filter (\<lambda>x. the (deploy_in x) = fst e) xs"
      using deployed by (intro filter_cong) auto
    finally show "(case e of (r, ys) \<Rightarrow> mset ys) =
        mset (filter (\<lambda>x. the (deploy_in x) = fst e) xs)"
      by (cases e) simp
  qed
  also have "\<dots> = mset xs"
  proof (rule mset_classify)
    show "distinct (map fst m)" using m by (simp add: grouped_def bt_inv_distinct)
    show "\<forall>x\<in>set xs. the (deploy_in x) \<in> set (map fst m)"
    proof
      fix x assume x: "x \<in> set xs"
      with deployed obtain r where r: "deploy_in x = Some r" by auto
      then show "the (deploy_in x) \<in> set (map fst m)"
        using grouped_get_member [OF m x r] by (force simp: bt_get_def dest: map_of_SomeD)
    qed
  qed
  finally show ?thesis .
qed

lemma sum_list_split_entry:
  fixes f :: "'k \<times> 'v \<Rightarrow> 'c::comm_monoid_add"
  assumes "distinct (map fst m)"
  shows "(\<Sum>e\<leftarrow>m. f e) =
    (case map_of m k of None \<Rightarrow> 0 | Some v \<Rightarrow> f (k, v)) + (\<Sum>e\<leftarrow>AList.delete k m. f e)"
  using assms
proof (induction m)
  case Nil
  then show ?case by simp
next
  case (Cons e m)
  obtain a b where e: "e = (a, b)" by (cases e)
  show ?case
  proof (cases "a = k")
    case True
    with Cons.prems e have "AList.delete k m = m" by (force simp: AList.delete_eq filter_id_conv)
    with True e show ?thesis by (simp add: AList.delete_eq)
  next
    case False
    with Cons e show ?thesis by (simp add: AList.delete_eq ac_simps)
  qed
qed


subsection \<open>Nearby rooms\<close>

text \<open>
  What an entry of the room table contributes to a consumer: the queues of a room without
  consumers are spread over the whole group, those of any other room over its own consumers.
\<close>

definition room_share ::
  "strategy \<Rightarrow> (string \<Rightarrow> string option) \<Rightarrow> string \<Rightarrow> string list \<Rightarrow> (string, string list) btmap
   \<Rightarrow> string \<Rightarrow> string \<times> message_queue list \<Rightarrow> message_queue list" where
  "room_share inner consumer_deploy_in g cids mr2c cid e =
     (case bt_get mr2c (fst e) of
        None \<Rightarrow> allocated inner g (snd e) cids cid
      | Some cs \<Rightarrow> if consumer_deploy_in cid = Some (fst e)
                   then allocated inner g (snd e) cs cid else [])"

context allocation
begin

lemma allocate_Inr:
  "valid_group cids \<Longrightarrow> cid \<in> set cids \<Longrightarrow> mqs \<noteq> [] \<Longrightarrow>
   allocate g cid mqs cids = Inr (allocated allocate g mqs cids cid)"
  using succeeds [of cids cid mqs g] by (auto simp: allocated_def)

lemma alloc_rooms_result:
  assumes "valid_group cids" "cid \<in> set cids" "\<forall>(r, qs) \<in> set rooms. qs \<noteq> []"
  shows "alloc_rooms_without_consumer allocate g cid cids mr2c rooms result =
    Inr (result @ concat (map (\<lambda>(r, qs). if bt_get mr2c r = None
                                 then allocated allocate g qs cids cid else []) rooms))"
  using assms(3)
proof (induction rooms arbitrary: result)
  case Nil
  then show ?case by simp
next
  case (Cons e rooms)
  obtain r qs where e: "e = (r, qs)" by (cases e)
  with Cons.prems have "qs \<noteq> []" by simp
  then have "allocate g cid qs cids = Inr (allocated allocate g qs cids cid)"
    by (rule allocate_Inr [OF assms(1,2)])
  with Cons e show ?case by simp
qed

lemma valid_room_group:
  "valid_group cids \<Longrightarrow> filter P cids \<noteq> [] \<Longrightarrow> valid_group (filter P cids)"
  by (auto simp: valid_group_def)

lemma nearby_result:
  assumes group: "valid_group cids" and mqs: "mqs \<noteq> []" and cid: "cid \<in> set cids"
    and mr2mq: "group_by_room broker_deploy_in MachineRoomNullForMq mqs [] = Inr mr2mq"
      "grouped broker_deploy_in mqs mr2mq"
    and mr2c: "group_by_room consumer_deploy_in MachineRoomNullForCid cids [] = Inr mr2c"
      "grouped consumer_deploy_in cids mr2c"
    and room: "consumer_deploy_in cid = Some r0"
  shows "\<exists>res. allocate_by_machine_room_nearby allocate broker_deploy_in consumer_deploy_in g cid mqs cids
       = Inr res \<and>
     mset res = (\<Sum>e\<leftarrow>mr2mq. mset (room_share allocate consumer_deploy_in g cids mr2c cid e))"
proof -
  let ?cs = "filter (\<lambda>x. consumer_deploy_in x = Some r0) cids"
  let ?share = "room_share allocate consumer_deploy_in g cids mr2c cid"
  have in_room: "cid \<in> set ?cs" using cid room by simp
  have cs: "bt_get mr2c r0 = Some ?cs" by (rule grouped_get_member [OF mr2c(2) cid room])
  then have ne: "?cs \<noteq> []" using grouped_get [OF mr2c(2)] by blast
  define first where "first = (case bt_get mr2mq r0 of None \<Rightarrow> [] | Some qs \<Rightarrow> ?share (r0, qs))"
  have first: "(case bt_get mr2mq r0 of None \<Rightarrow> Inr [] | Some qs \<Rightarrow> allocate g cid qs ?cs) = Inr first"
  proof (cases "bt_get mr2mq r0")
    case None
    then show ?thesis by (simp add: first_def)
  next
    case (Some qs)
    then have "qs \<noteq> []" using grouped_get [OF mr2mq(2)] by blast
    then show ?thesis
      using Some allocate_Inr [OF valid_room_group [OF group ne] in_room]
      by (simp add: first_def room_share_def cs room)
  qed
  let ?rest = "bt_remove r0 mr2mq"
  have rest_ne: "\<forall>(r, qs) \<in> set ?rest. qs \<noteq> []"
    using grouped_entry [OF mr2mq(2)] by (auto simp: bt_remove_def AList.delete_eq)
  have rest: "(if bt_get mr2c r = None then allocated allocate g qs cids cid else []) = ?share (r, qs)"
    if "(r, qs) \<in> set ?rest" for r qs
    using that room by (auto simp: room_share_def bt_remove_def AList.delete_eq split: option.splits)
  have "alloc_rooms_without_consumer allocate g cid cids mr2c ?rest first =
        Inr (first @ concat (map ?share ?rest))"
    unfolding alloc_rooms_result [OF group cid rest_ne]
    by (rule arg_cong [where f = "\<lambda>x. Inr (first @ concat x)"]) (auto simp: rest intro!: map_cong)
  then have res: "allocate_by_machine_room_nearby allocate broker_deploy_in consumer_deploy_in g cid mqs cids
      = Inr (first @ concat (map ?share ?rest))"
    unfolding allocate_by_machine_room_nearby_def check_valid [OF group cid mqs] mr2mq(1) mr2c(1)
      room cs option.case sum.case first if_False not_True_eq_False by simp
  have "(\<Sum>e\<leftarrow>mr2mq. mset (?share e)) = mset first + (\<Sum>e\<leftarrow>?rest. mset (?share e))"
    unfolding bt_remove_def
    by (subst sum_list_split_entry [of _ _ r0])
       (use mr2mq(2) in \<open>auto simp: grouped_def bt_inv_distinct first_def bt_get_def split: option.splits\<close>)
  with res show ?thesis by (simp add: sum_list_mset_concat)
qed

lemma room_share_covers:
  assumes group: "valid_group cids" and mr2c: "grouped consumer_deploy_in cids mr2c" and "qs \<noteq> []"
  shows "(\<Sum>cid\<leftarrow>cids. mset (room_share allocate consumer_deploy_in g cids mr2c cid (r, qs))) = mset qs"
proof (cases "bt_get mr2c r")
  case None
  then show ?thesis
    using covers [OF group assms(3), of g] by (simp add: room_share_def)
next
  case (Some cs)
  let ?P = "\<lambda>x. consumer_deploy_in x = Some r"
  from Some grouped_get [OF mr2c] have cs: "cs = filter ?P cids" "filter ?P cids \<noteq> []"
    by auto
  have "(\<Sum>cid\<leftarrow>cids. mset (room_share allocate consumer_deploy_in g cids mr2c cid (r, qs))) =
        (\<Sum>cid\<leftarrow>cids. if ?P cid then mset (allocated allocate g qs cs cid) else 0)"
    by (intro arg_cong [where f = sum_list] map_cong) (auto simp: room_share_def Some)
  also have "\<dots> = (\<Sum>cid\<leftarrow>cs. mset (allocated allocate g qs cs cid))"
    by (simp only: sum_list_if_filter cs(1))
  also have "\<dots> = mset qs"
    using covers valid_room_group [OF group cs(2)] assms(3) by (simp add: cs(1))
  finally show ?thesis .
qed

lemma nearby_covers:
  assumes group: "valid_group cids" and mqs: "mqs \<noteq> []"
    and deployed: "\<forall>mq \<in> set mqs. broker_deploy_in mq \<noteq> None"
      "\<forall>cid \<in> set cids. consumer_deploy_in cid \<noteq> None"
  defines "nearby \<equiv> allocate_by_machine_room_nearby allocate broker_deploy_in consumer_deploy_in"
  shows "(\<Sum>cid\<leftarrow>cids. mset (allocated nearby g mqs cids cid)) = mset mqs"
proof -
  obtain mr2mq where mr2mq: "group_by_room broker_deploy_in MachineRoomNullForMq mqs [] = Inr mr2mq"
    "grouped broker_deploy_in mqs mr2mq"
    using group_by_room_grouped [OF deployed(1)] by blast
  obtain mr2c where mr2c: "group_by_room consumer_deploy_in MachineRoomNullForCid cids [] = Inr mr2c"
    "grouped consumer_deploy_in cids mr2c"
    using group_by_room_grouped [OF deployed(2)] by blast
  let ?share = "room_share allocate consumer_deploy_in g cids mr2c"
  have each: "mset (allocated nearby g mqs cids cid) = (\<Sum>e\<leftarrow>mr2mq. mset (?share cid e))"
    if cid: "cid \<in> set cids" for cid
  proof -
    obtain r0 where "consumer_deploy_in cid = Some r0" using deployed(2) cid by auto
    from nearby_result [OF group mqs cid mr2mq mr2c this, of g] show ?thesis
      by (auto simp: allocated_def nearby_def)
  qed
  have "(\<Sum>cid\<leftarrow>cids. mset (allocated nearby g mqs cids cid)) =
        (\<Sum>cid\<leftarrow>cids. \<Sum>e\<leftarrow>mr2mq. mset (?share cid e))"
    using each by (intro arg_cong [where f = sum_list] map_cong) auto
  also have "\<dots> = (\<Sum>e\<leftarrow>mr2mq. \<Sum>cid\<leftarrow>cids. mset (?share cid e))"
    by (rule sum_list_swap)
  also have "\<dots> = (\<Sum>(r, qs)\<leftarrow>mr2mq. mset qs)"
    using room_share_covers [OF group mr2c(2)] grouped_entry [OF mr2mq(2)]
    by (intro arg_cong [where f = sum_list] map_cong) auto
  also have "\<dots> = mset mqs"
    by (rule grouped_covers [OF mr2mq(2) deployed(1)])
  finally show ?thesis .
qed

lemma nearby_locality:
  assumes group: "valid_group cids" and cid: "cid \<in> set cids"
    and deployed: "\<forall>mq \<in> set mqs. broker_deploy_in mq \<noteq> None"
      "\<forall>cid \<in> set cids. consumer_deploy_in cid \<noteq> None"
    and mem: "mq \<in> set (allocated (allocate_by_machine_room_nearby allocate broker_deploy_in
        consumer_deploy_in) g mqs cids cid)"
    and local: "other \<in> set cids" "consumer_deploy_in other = broker_deploy_in mq"
  shows "consumer_deploy_in cid = broker_deploy_in mq"
proof -
  let ?nearby = "allocate_by_machine_room_nearby allocate broker_deploy_in consumer_deploy_in"
  have mqs: "mqs \<noteq> []"
    using mem by (auto simp: allocated_def allocate_by_machine_room_nearby_def check_def split: if_splits)
  obtain mr2mq where mr2mq: "group_by_room broker_deploy_in MachineRoomNullForMq mqs [] = Inr mr2mq"
    "grouped broker_deploy_in mqs mr2mq"
    using group_by_room_grouped [OF deployed(1)] by blast
  obtain mr2c where mr2c: "group_by_room consumer_deploy_in MachineRoomNullForCid cids [] = Inr mr2c"
    "grouped consumer_deploy_in cids mr2c"
    using group_by_room_grouped [OF deployed(2)] by blast
  let ?share = "room_share allocate consumer_deploy_in g cids mr2c cid"
  obtain r0 where r0: "consumer_deploy_in cid = Some r0" using deployed(2) cid by auto
  have "mset (allocated ?nearby g mqs cids cid) = (\<Sum>e\<leftarrow>mr2mq. mset (?share e))"
    using nearby_result [OF group mqs cid mr2mq mr2c r0, of g] by (auto simp: allocated_def)
  then have "mset (allocated ?nearby g mqs cids cid) = mset (concat (map ?share mr2mq))"
    by (simp only: sum_list_mset_concat)
  then have "mq \<in> set (concat (map ?share mr2mq))"
    using mem by (metis mset_eq_setD)
  then obtain r qs where e: "(r, qs) \<in> set mr2mq" and share: "mq \<in> set (?share (r, qs))" by auto
  have room: "broker_deploy_in q = Some r" if "q \<in> set qs" for q
    using that grouped_entry [OF mr2mq(2) e] by auto
  have qs: "qs \<noteq> []" by (rule conjunct2 [OF grouped_entry [OF mr2mq(2) e]])
  show ?thesis
  proof (cases "bt_get mr2c r")
    case None
    then have "mq \<in> set (allocated allocate g qs cids cid)" using share by (simp add: room_share_def)
    then have "mq \<in> set qs" using allocated_subset [OF group qs cid] by blast
    then have "consumer_deploy_in other = Some r" using room local(2) by simp
    with None show ?thesis using grouped_get_member [OF mr2c(2) local(1)] by simp
  next
    case (Some cs)
    then have cs: "cs = filter (\<lambda>x. consumer_deploy_in x = Some r) cids" "cs \<noteq> []"
      using grouped_get [OF mr2c(2)] by auto
    have r: "consumer_deploy_in cid = Some r" and mem: "mq \<in> set (allocated allocate g qs cs cid)"
      using share Some by (auto simp: room_share_def split: if_splits)
    have "cid \<in> set cs" and "valid_group cs"
      using r cid valid_room_group [OF group] cs by auto
    then have "mq \<in> set qs" using allocated_subset [of cs qs cid g] qs mem by blast
    then show ?thesis using r room by simp
  qed
qed

end


section \<open>Properties\<close>

text \<open>
  C15. The averaging strategy cuts the queue list into consecutive slices: in a group without
  duplicate or empty client ids, the slices of the members, in the order of the group, put
  together are the queue list itself. So no queue is lost and none is given to two members.
\<close>

theorem averagely_slices:
  assumes "valid_group cids" and "mqs \<noteq> []"
  shows "concat (map (allocated allocate_averagely g mqs cids) cids) = mqs"
  by (rule allocated_averagely_concat [OF assms])

theorem averagely_slices_witness:
  defines "q \<equiv> \<lambda>i. MessageQueue ''t'' ''b'' i"
  shows "concat (map (allocated allocate_averagely ''g'' [q 0, q 1, q 2, q 3] [''c1'', ''c2'', ''c3''])
      [''c1'', ''c2'', ''c3'']) = [q 0, q 1, q 2, q 3]"
  by (rule averagely_slices) (simp_all add: valid_group_def)

text \<open>
  The round-robin strategy covers the queues exactly: two different members of a group never
  share a queue, every queue of the list goes to some member, and every member is given the
  integer quotient of queues and members, or one more.
\<close>

lemma circle_partition:
  assumes "valid_group cids" and "distinct mqs" and "mqs \<noteq> []"
  shows "(\<forall>a \<in> set cids. \<forall>b \<in> set cids. a \<noteq> b \<longrightarrow>
            set (allocated allocate_averagely_by_circle g mqs cids a) \<inter>
            set (allocated allocate_averagely_by_circle g mqs cids b) = {}) \<and>
         (\<Union>a \<in> set cids. set (allocated allocate_averagely_by_circle g mqs cids a)) = set mqs \<and>
         (\<forall>a \<in> set cids. length (allocated allocate_averagely_by_circle g mqs cids a) \<in>
            {length mqs div length cids, length mqs div length cids + 1})"
  using circle.allocated_disjoint [OF assms] circle.load [OF assms(1) _ assms(3)]
    mset_eq_setD [OF circle.covers_concat [OF assms(1,3), of g]]
  by auto

text \<open>
  C30. The averaging and the round-robin strategy are fair: the numbers of queues of any two
  members differ by at most one, and with at least as many queues as members nobody is idle.
\<close>

theorem averaging_is_fair:
  assumes "valid_group cids" and "mqs \<noteq> []" and "a \<in> set cids" and "b \<in> set cids"
    and "strat \<in> {allocate_averagely, allocate_averagely_by_circle}"
  shows "length (allocated strat g mqs cids a) \<le> length (allocated strat g mqs cids b) + 1 \<and>
         (length cids \<le> length mqs \<longrightarrow> allocated strat g mqs cids a \<noteq> [])"
  using assms(5)
    avg.load_difference [OF assms(1,3,4,2)] circle.load_difference [OF assms(1,3,4,2)]
    avg.idle_only_when_scarce [OF assms(1,3,2)] circle.idle_only_when_scarce [OF assms(1,3,2)]
  by auto

theorem averaging_is_fair_witness:
  "length (allocated allocate_averagely ''g'' [mq_default, mq_default] [''c1'', ''c2''] ''c1'') \<le>
     length (allocated allocate_averagely ''g'' [mq_default, mq_default] [''c1'', ''c2''] ''c2'') + 1 \<and>
   allocated allocate_averagely ''g'' [mq_default, mq_default] [''c1'', ''c2''] ''c1'' \<noteq> []"
  using averaging_is_fair [of "[''c1'', ''c2'']" "[mq_default, mq_default]" "''c1''" "''c2''"
      allocate_averagely "''g''"]
  by (simp add: valid_group_def)

text \<open>
  The machine-room strategy hands the queues of the configured machine rooms, and only those,
  to the members of the group, each queue exactly once.
\<close>

lemma machine_room_partition:
  assumes "valid_group cids" and "mqs \<noteq> []"
  shows "mset (concat (map (allocated (allocate_by_machine_room idcs) g mqs cids) cids)) =
         mset (filter (in_idc idcs) mqs)"
  using allocated_machine_room_covers [OF assms] by (simp add: sum_list_mset_concat)

text \<open>
  C9. The machine-room-nearby strategy over the averaging strategy loses no queue and gives none
  to two members, when the resolver places every broker and every client; and a queue whose room
  has a live client is consumed in that room.
\<close>

theorem nearby_partition_and_locality:
  assumes "valid_group cids" and "mqs \<noteq> []"
    and "\<forall>mq \<in> set mqs. broker_deploy_in mq \<noteq> None"
    and "\<forall>cid \<in> set cids. consumer_deploy_in cid \<noteq> None"
  defines "nearby \<equiv> allocate_by_machine_room_nearby allocate_averagely broker_deploy_in consumer_deploy_in"
  shows "mset (concat (map (allocated nearby g mqs cids) cids)) = mset mqs \<and>
         (\<forall>cid \<in> set cids. \<forall>other \<in> set cids. \<forall>mq \<in> set (allocated nearby g mqs cids cid).
            consumer_deploy_in other = broker_deploy_in mq \<longrightarrow>
            consumer_deploy_in cid = broker_deploy_in mq)"
  using avg.nearby_covers [OF assms(1-4), of g] avg.nearby_locality [OF assms(1) _ assms(3,4)]
  unfolding nearby_def sum_list_mset_concat by blast

theorem nearby_partition_and_locality_witness:
  defines "qs \<equiv> [MessageQueue ''t'' ''r1'' 0, MessageQueue ''t'' ''r2'' 0]"
  defines "nearby \<equiv> allocate_by_machine_room_nearby allocate_averagely
      (\<lambda>mq. Some (mq_broker_name mq)) (\<lambda>cid. Some (if cid = ''c1'' then ''r1'' else ''r2''))"
  shows "mset (concat (map (allocated nearby ''g'' qs [''c1'', ''c2'']) [''c1'', ''c2''])) = mset qs"
  using nearby_partition_and_locality [of "[''c1'', ''c2'']" qs "\<lambda>mq. Some (mq_broker_name mq)"
      "\<lambda>cid. Some (if cid = ''c1'' then ''r1'' else ''r2'')" "''g''"]
  unfolding nearby_def by (simp add: valid_group_def qs_def)

end
