(* ===== verification/Rebalance_Lock.thy ===== *)
theory Rebalance_Lock
  imports Rust_Maps Message_Queue
begin

text \<open>
  The broker's lock table for orderly consumption
  (\<open>rocketmq-broker/src/client/rebalance/rebalance_lock_manager.rs\<close>). A client locks queues for
  its grp with a lease that expires when it is not renewed within the maximal live time. The
  clock reading of a critical section and the maximal live time, which the source reads from the
  environment, are arguments. The manager's critical sections are the steps of a lock; the locale
  \<open>lease_lock\<close> derives from the laws of the steps that a lease is exclusive in every interleaving.
\<close>

section \<open>Model\<close>

record lock_entry =
  le_client_id :: string
  last_update_timestamp :: i64

type_synonym lock_table = "(string, (message_queue, lock_entry) hmap) hmap"

definition rebalance_lock_max_live_time :: i64 where
  "rebalance_lock_max_live_time = 60000"

definition le_is_expired :: "i64 \<Rightarrow> i64 \<Rightarrow> lock_entry \<Rightarrow> bool" where
  "le_is_expired live now e \<longleftrightarrow> wrap_i64 (now - last_update_timestamp e) > live"

definition le_is_locked :: "i64 \<Rightarrow> i64 \<Rightarrow> lock_entry \<Rightarrow> string \<Rightarrow> bool" where
  "le_is_locked live now e client_id \<longleftrightarrow> le_client_id e = client_id \<and> \<not> le_is_expired live now e"

definition is_lock_all_expired :: "i64 \<Rightarrow> i64 \<Rightarrow> lock_table \<Rightarrow> string \<Rightarrow> bool" where
  "is_lock_all_expired live now tbl grp =
     (case hm_get tbl grp of
        None \<Rightarrow> True
      | Some gv \<Rightarrow> list_all (\<lambda>e. le_is_expired live now e) (hm_values gv))"

text \<open>\<open>is_locked\<close> renews the lease of the client that holds the queue.\<close>

definition is_locked ::
  "i64 \<Rightarrow> i64 \<Rightarrow> string \<Rightarrow> message_queue \<Rightarrow> string \<Rightarrow> lock_table \<Rightarrow> lock_table \<times> bool" where
  "is_locked live now grp mq client_id tbl =
     (case hm_get tbl grp of
        None \<Rightarrow> (tbl, False)
      | Some gv \<Rightarrow>
          (case hm_get gv mq of
             None \<Rightarrow> (tbl, False)
           | Some e \<Rightarrow>
               if le_is_locked live now e client_id
               then (hm_insert grp (hm_insert mq (e\<lparr>last_update_timestamp := now\<rparr>) gv) tbl, True)
               else (tbl, False)))"

definition lock_one ::
  "i64 \<Rightarrow> i64 \<Rightarrow> string \<Rightarrow> message_queue \<Rightarrow> (message_queue, lock_entry) hmap \<times> message_queue hset
   \<Rightarrow> (message_queue, lock_entry) hmap \<times> message_queue hset" where
  "lock_one live now client_id mq s =
     (case s of (gv, lock_mqs) \<Rightarrow>
        let e = (case hm_get gv mq of
                   Some e \<Rightarrow> e
                 | None \<Rightarrow> \<lparr>le_client_id = client_id, last_update_timestamp = now\<rparr>)
        in if le_is_locked live now e client_id
           then (hm_insert mq (e\<lparr>last_update_timestamp := now\<rparr>) gv, hs_insert mq lock_mqs)
           else if le_is_expired live now e
           then (hm_insert mq \<lparr>le_client_id = client_id, last_update_timestamp = now\<rparr> gv,
                 hs_insert mq lock_mqs)
           else (hm_insert mq e gv, lock_mqs))"

text \<open>The section of \<open>try_lock_batch\<close> under the write guard.\<close>

definition lock_not_locked ::
  "i64 \<Rightarrow> i64 \<Rightarrow> string \<Rightarrow> message_queue hset \<Rightarrow> string \<Rightarrow> lock_table \<times> message_queue hset
   \<Rightarrow> lock_table \<times> message_queue hset" where
  "lock_not_locked live now grp not_locked_mqs client_id s =
     (case s of (tbl, lock_mqs) \<Rightarrow>
        let gv0 = (case hm_get tbl grp of Some gv \<Rightarrow> gv | None \<Rightarrow> []);
            (gv, lock_mqs') = fold (lock_one live now client_id) not_locked_mqs (gv0, lock_mqs)
        in (hm_insert grp gv tbl, lock_mqs'))"

text \<open>The first loop of \<open>try_lock_batch\<close>: the queues the client holds already are sorted out.\<close>

fun probe_all ::
  "i64 \<Rightarrow> i64 \<Rightarrow> string \<Rightarrow> message_queue hset \<Rightarrow> string
   \<Rightarrow> lock_table \<times> message_queue hset \<times> message_queue hset
   \<Rightarrow> lock_table \<times> message_queue hset \<times> message_queue hset" where
  "probe_all live now grp [] client_id s = s"
| "probe_all live now grp (mq # mqs) client_id (tbl, lock_mqs, not_locked_mqs) =
     (case is_locked live now grp mq client_id tbl of
        (tbl', True) \<Rightarrow>
          probe_all live now grp mqs client_id (tbl', hs_insert mq lock_mqs, not_locked_mqs)
      | (tbl', False) \<Rightarrow>
          probe_all live now grp mqs client_id (tbl', lock_mqs, hs_insert mq not_locked_mqs))"

definition try_lock_batch ::
  "i64 \<Rightarrow> i64 \<Rightarrow> string \<Rightarrow> message_queue hset \<Rightarrow> string \<Rightarrow> lock_table
   \<Rightarrow> lock_table \<times> message_queue hset" where
  "try_lock_batch live now grp mqs client_id tbl =
     (case probe_all live now grp mqs client_id (tbl, [], []) of
        (tbl', lock_mqs, not_locked_mqs) \<Rightarrow>
          if not_locked_mqs \<noteq> []
          then lock_not_locked live now grp not_locked_mqs client_id (tbl', lock_mqs)
          else (tbl', lock_mqs))"

definition unlock_one ::
  "string \<Rightarrow> message_queue \<Rightarrow> (message_queue, lock_entry) hmap \<Rightarrow> (message_queue, lock_entry) hmap"
where
  "unlock_one client_id mq gv =
     (case hm_get gv mq of
        None \<Rightarrow> gv
      | Some e \<Rightarrow> if le_client_id e = client_id then hm_remove mq gv else gv)"

definition unlock_batch ::
  "string \<Rightarrow> message_queue hset \<Rightarrow> string \<Rightarrow> lock_table \<Rightarrow> lock_table" where
  "unlock_batch grp mqs client_id tbl =
     (case hm_get tbl grp of
        None \<Rightarrow> tbl
      | Some gv \<Rightarrow> hm_insert grp (fold (unlock_one client_id) mqs gv) tbl)"

text \<open>The critical sections of the manager, in the order in which threads enter them.\<close>

datatype lock_op =
    Probe i64 string message_queue string
  | Acquire i64 string "message_queue list" string
  | Release string "message_queue list" string

fun lock_op_step :: "i64 \<Rightarrow> lock_op \<Rightarrow> lock_table \<Rightarrow> lock_table \<times> message_queue list" where
  "lock_op_step live (Probe now grp mq client_id) tbl =
     (case is_locked live now grp mq client_id tbl of (tbl', b) \<Rightarrow> (tbl', if b then [mq] else []))"
| "lock_op_step live (Acquire now grp mqs client_id) tbl =
     lock_not_locked live now grp mqs client_id (tbl, [])"
| "lock_op_step live (Release grp mqs client_id) tbl = (unlock_batch grp mqs client_id tbl, [])"

text \<open>The lock entry of a queue, and the client that holds it at a given time.\<close>

definition lock_of :: "lock_table \<Rightarrow> string \<Rightarrow> message_queue \<Rightarrow> lock_entry option" where
  "lock_of tbl grp mq = (case hm_get tbl grp of None \<Rightarrow> None | Some gv \<Rightarrow> hm_get gv mq)"

definition lock_holder :: "i64 \<Rightarrow> i64 \<Rightarrow> lock_table \<Rightarrow> string \<Rightarrow> message_queue \<Rightarrow> string option" where
  "lock_holder live now tbl grp mq =
     (case lock_of tbl grp mq of
        None \<Rightarrow> None
      | Some e \<Rightarrow> if le_is_expired live now e then None else Some (le_client_id e))"

text \<open>Client, group and time of a step; and whether it gives up a queue of a client.\<close>

fun op_client :: "lock_op \<Rightarrow> string" where
  "op_client (Probe now g mq c) = c"
| "op_client (Acquire now g mqs c) = c"
| "op_client (Release g mqs c) = c"

fun op_group :: "lock_op \<Rightarrow> string" where
  "op_group (Probe now g mq c) = g"
| "op_group (Acquire now g mqs c) = g"
| "op_group (Release g mqs c) = g"

fun op_within :: "i64 \<Rightarrow> i64 \<Rightarrow> lock_op \<Rightarrow> bool" where
  "op_within lo hi (Probe now g mq c) \<longleftrightarrow> lo \<le> now \<and> now \<le> hi"
| "op_within lo hi (Acquire now g mqs c) \<longleftrightarrow> lo \<le> now \<and> now \<le> hi"
| "op_within lo hi (Release g mqs c) \<longleftrightarrow> True"

fun op_releases :: "string \<Rightarrow> message_queue \<Rightarrow> string \<Rightarrow> lock_op \<Rightarrow> bool" where
  "op_releases g mq c (Release g' mqs c') \<longleftrightarrow> g' = g \<and> c' = c \<and> mq \<in> set mqs"
| "op_releases g mq c _ \<longleftrightarrow> False"

section \<open>Leases\<close>

text \<open>
  A client's lease of a queue, from \<open>lo\<close> to \<open>hi\<close>, is kept by every step that happens in that
  span, except by the client's own release; and while it lasts no other client is granted the
  queue.
\<close>

locale lease_lock =
  fixes step :: "lock_op \<Rightarrow> 's \<Rightarrow> 's \<times> message_queue list"
    and leased :: "i64 \<Rightarrow> i64 \<Rightarrow> string \<Rightarrow> message_queue \<Rightarrow> string \<Rightarrow> 's \<Rightarrow> bool"
  assumes leased_step:
      "leased lo hi g mq c s \<Longrightarrow> op_within lo hi op \<Longrightarrow> \<not> op_releases g mq c op \<Longrightarrow>
       leased lo hi g mq c (fst (step op s))"
    and leased_exclusive:
      "leased lo hi g mq c s \<Longrightarrow> op_within lo hi op \<Longrightarrow> op_group op = g \<Longrightarrow> op_client op \<noteq> c \<Longrightarrow>
       mq \<notin> set (snd (step op s))"
begin

lemma leased_steps:
  "leased lo hi g mq c s \<Longrightarrow>
   \<forall>op \<in> set ops. op_within lo hi op \<and> \<not> op_releases g mq c op \<Longrightarrow>
   leased lo hi g mq c (fold (\<lambda>op s. fst (step op s)) ops s)"
  by (induction ops arbitrary: s) (auto simp: leased_step)

lemma exclusive_during_lease:
  assumes "leased lo hi g mq c s"
    and "\<forall>op \<in> set ops. op_within lo hi op \<and> \<not> op_releases g mq c op"
    and "op_within lo hi op" "op_group op = g" "op_client op \<noteq> c"
  shows "mq \<notin> set (snd (step op (fold (\<lambda>op s. fst (step op s)) ops s)))"
  using leased_exclusive leased_steps assms by blast

end

section \<open>Facts about single entries\<close>

lemma lock_of_insert_group:
  "lock_of (hm_insert g gv tbl) g' mq = (if g' = g then hm_get gv mq else lock_of tbl g' mq)"
  by (simp add: lock_of_def)

lemma get_lock_one:
  "hm_get (fst (lock_one live now c mq s)) mq' =
     (if mq' = mq then
        Some (case hm_get (fst s) mq of
           None \<Rightarrow> \<lparr>le_client_id = c, last_update_timestamp = now\<rparr>
         | Some e \<Rightarrow> if le_client_id e = c \<or> le_is_expired live now e
                    then \<lparr>le_client_id = c, last_update_timestamp = now\<rparr> else e)
      else hm_get (fst s) mq')"
  by (cases s) (auto simp: lock_one_def Let_def le_is_locked_def split: option.splits)

lemma granted_lock_one:
  "set (snd (lock_one live now c mq s)) = set (snd s) \<union>
     (case hm_get (fst s) mq of
        None \<Rightarrow> {mq}
      | Some e \<Rightarrow> if le_client_id e = c \<or> le_is_expired live now e then {mq} else {})"
  by (cases s) (auto simp: lock_one_def Let_def le_is_locked_def split: option.splits)

text \<open>What a queue's entry is after the client asked for it, and when the client is given it.\<close>

definition asked :: "i64 \<Rightarrow> i64 \<Rightarrow> string \<Rightarrow> lock_entry option \<Rightarrow> lock_entry" where
  "asked live now c x =
     (case x of
        None \<Rightarrow> \<lparr>le_client_id = c, last_update_timestamp = now\<rparr>
      | Some e \<Rightarrow> if le_client_id e = c \<or> le_is_expired live now e
                 then \<lparr>le_client_id = c, last_update_timestamp = now\<rparr> else e)"

definition grantable :: "i64 \<Rightarrow> i64 \<Rightarrow> string \<Rightarrow> lock_entry option \<Rightarrow> bool" where
  "grantable live now c x \<longleftrightarrow>
     (case x of None \<Rightarrow> True | Some e \<Rightarrow> le_client_id e = c \<or> le_is_expired live now e)"

lemma asked_idem: "asked live now c (Some (asked live now c x)) = asked live now c x"
  by (auto simp: asked_def split: option.splits)

lemma grantable_asked: "grantable live now c (Some (asked live now c x)) = grantable live now c x"
  by (auto simp: asked_def grantable_def split: option.splits)

lemma get_lock_ones:
  "hm_get (fst (fold (lock_one live now c) mqs s)) mq =
     (if mq \<in> set mqs then Some (asked live now c (hm_get (fst s) mq)) else hm_get (fst s) mq)"
  by (induction mqs arbitrary: s)
     (auto simp: get_lock_one asked_def [symmetric] asked_idem)

lemma granted_lock_ones:
  "set (snd (fold (lock_one live now c) mqs s)) =
     set (snd s) \<union> {mq \<in> set mqs. grantable live now c (hm_get (fst s) mq)}"
proof (induction mqs arbitrary: s)
  case Nil
  then show ?case by simp
next
  case (Cons mq mqs)
  have get: "hm_get (fst (lock_one live now c mq s)) q =
      (if q = mq then Some (asked live now c (hm_get (fst s) mq)) else hm_get (fst s) q)" for q
    by (simp add: get_lock_one asked_def)
  have granted: "set (snd (lock_one live now c mq s)) =
      set (snd s) \<union> (if grantable live now c (hm_get (fst s) mq) then {mq} else {})"
    by (auto simp: granted_lock_one grantable_def split: option.splits)
  show ?case
    by (auto simp: Cons.IH get granted grantable_asked)
qed

lemma lock_of_group_value:
  "hm_get (case hm_get tbl g of None \<Rightarrow> [] | Some gv \<Rightarrow> gv) mq = lock_of tbl g mq"
  by (simp add: lock_of_def split: option.splits)

lemma lock_of_acquire:
  "lock_of (fst (lock_not_locked live now g mqs c (tbl, l))) g' mq =
     (if g' = g \<and> mq \<in> set mqs then Some (asked live now c (lock_of tbl g mq))
      else lock_of tbl g' mq)"
  by (auto simp: lock_not_locked_def Let_def case_prod_unfold lock_of_insert_group get_lock_ones
      lock_of_group_value)

lemma granted_acquire:
  "set (snd (lock_not_locked live now g mqs c (tbl, l))) =
     set l \<union> {mq \<in> set mqs. grantable live now c (lock_of tbl g mq)}"
  by (simp add: lock_not_locked_def Let_def case_prod_unfold granted_lock_ones lock_of_group_value)

lemma lock_of_is_locked:
  "lock_of (fst (is_locked live now g mq c tbl)) g' mq' =
     (if g' = g \<and> mq' = mq \<and> snd (is_locked live now g mq c tbl)
      then map_option (\<lambda>e. e\<lparr>last_update_timestamp := now\<rparr>) (lock_of tbl g mq)
      else lock_of tbl g' mq')"
  by (auto simp: is_locked_def lock_of_def split: option.splits)

lemma is_locked_iff:
  "snd (is_locked live now g mq c tbl) \<longleftrightarrow> lock_holder live now tbl g mq = Some c"
  by (auto simp: is_locked_def lock_holder_def lock_of_def le_is_locked_def split: option.splits)

lemma get_unlock_ones:
  "hm_get (fold (unlock_one c) mqs gv) mq =
     (case hm_get gv mq of
        None \<Rightarrow> None
      | Some e \<Rightarrow> if mq \<in> set mqs \<and> le_client_id e = c then None else Some e)"
proof (induction mqs arbitrary: gv)
  case Nil
  then show ?case by (simp split: option.splits)
next
  case (Cons q mqs)
  have "hm_get (unlock_one c q gv) mq =
      (case hm_get gv mq of
        None \<Rightarrow> None
      | Some e \<Rightarrow> if mq = q \<and> le_client_id e = c then None else Some e)"
    by (auto simp: unlock_one_def split: option.splits)
  then show ?case by (auto simp: Cons.IH split: option.splits)
qed

lemma lock_of_release:
  "lock_of (unlock_batch g mqs c tbl) g' mq =
     (case lock_of tbl g' mq of
        None \<Rightarrow> None
      | Some e \<Rightarrow> if g' = g \<and> mq \<in> set mqs \<and> le_client_id e = c then None else Some e)"
  by (auto simp: unlock_batch_def lock_of_def get_unlock_ones split: option.splits)

lemmas lock_of_steps = lock_of_acquire lock_of_is_locked lock_of_release

section \<open>Leases of the lock table\<close>

text \<open>
  A client's lease from \<open>lo\<close> to \<open>hi\<close>: the entry is the client's, was renewed in the span, and
  does not expire before its end.
\<close>

definition table_leased ::
  "i64 \<Rightarrow> i64 \<Rightarrow> i64 \<Rightarrow> string \<Rightarrow> message_queue \<Rightarrow> string \<Rightarrow> lock_table \<Rightarrow> bool" where
  "table_leased live lo hi g mq c tbl \<longleftrightarrow>
     0 \<le> lo \<and> hi < 2 ^ 63 \<and> hi \<le> lo + live \<and>
     (case lock_of tbl g mq of
        None \<Rightarrow> False
      | Some e \<Rightarrow> le_client_id e = c \<and> lo \<le> last_update_timestamp e \<and> last_update_timestamp e \<le> hi)"

lemma not_expired_in_span:
  assumes "0 \<le> lo" "hi < 2 ^ 63" "hi \<le> lo + live"
    and "lo \<le> last_update_timestamp e" "last_update_timestamp e \<le> hi" "lo \<le> now" "now \<le> hi"
  shows "\<not> le_is_expired live now e"
proof -
  have "wrap_i64 (now - last_update_timestamp e) = now - last_update_timestamp e"
    using assms by (intro wrap_i64_id) (simp add: is_i64_def)
  then show ?thesis using assms by (simp add: le_is_expired_def)
qed

lemma table_leased_step:
  assumes "table_leased live lo hi g mq c tbl" "op_within lo hi op" "\<not> op_releases g mq c op"
  shows "table_leased live lo hi g mq c (fst (lock_op_step live op tbl))"
proof -
  obtain e where e: "lock_of tbl g mq = Some e" "le_client_id e = c"
    "lo \<le> last_update_timestamp e" "last_update_timestamp e \<le> hi"
    using assms(1) by (auto simp: table_leased_def split: option.splits)
  have span: "0 \<le> lo" "hi < 2 ^ 63" "hi \<le> lo + live" using assms(1) by (auto simp: table_leased_def)
  have live_e: "\<not> le_is_expired live now e" if "lo \<le> now" "now \<le> hi" for now
    using not_expired_in_span [OF span e(3,4) that] .
  show ?thesis
  proof (cases op)
    case (Probe now g' mq' c')
    with assms(2) e span live_e show ?thesis
      by (auto simp: table_leased_def case_prod_unfold lock_of_steps)
  next
    case (Acquire now g' mqs c')
    with assms(2) e span live_e show ?thesis
      by (auto simp: table_leased_def lock_of_steps asked_def)
  next
    case (Release g' mqs c')
    with assms(3) e span show ?thesis
      by (auto simp: table_leased_def lock_of_steps)
  qed
qed

lemma table_leased_exclusive:
  assumes "table_leased live lo hi g mq c tbl" "op_within lo hi op" "op_group op = g" "op_client op \<noteq> c"
  shows "mq \<notin> set (snd (lock_op_step live op tbl))"
proof -
  obtain e where e: "lock_of tbl g mq = Some e" "le_client_id e = c"
    "lo \<le> last_update_timestamp e" "last_update_timestamp e \<le> hi"
    using assms(1) by (auto simp: table_leased_def split: option.splits)
  have span: "0 \<le> lo" "hi < 2 ^ 63" "hi \<le> lo + live" using assms(1) by (auto simp: table_leased_def)
  note live_e = not_expired_in_span [OF span e(3,4)]
  show ?thesis
    using assms(2-4) e live_e
    by (cases op) (auto simp: case_prod_unfold is_locked_iff lock_holder_def granted_acquire grantable_def)
qed

interpretation rebalance: lease_lock "lock_op_step live" "table_leased live"
  by unfold_locales (blast intro: table_leased_step, metis table_leased_exclusive)

section \<open>Batches\<close>

text \<open>The whole batch is a sequence of critical sections of one client.\<close>

lemma probe_all_granted:
  assumes "0 \<le> live"
  shows "case probe_all live now g mqs c (tbl, l, n) of (tbl', l', n') \<Rightarrow>
     set l' = set l \<union> {mq \<in> set mqs. lock_holder live now tbl g mq = Some c} \<and>
     set n' = set n \<union> {mq \<in> set mqs. lock_holder live now tbl g mq \<noteq> Some c} \<and>
     (\<forall>g' mq. lock_of tbl' g' mq =
        (if g' = g \<and> mq \<in> set mqs \<and> lock_holder live now tbl g mq = Some c
         then Some \<lparr>le_client_id = c, last_update_timestamp = now\<rparr> else lock_of tbl g' mq))"
proof (induction mqs arbitrary: tbl l n)
  case Nil
  then show ?case by simp
next
  case (Cons mq mqs)
  let ?tbl = "fst (is_locked live now g mq c tbl)"
  let ?new = "\<lparr>le_client_id = c, last_update_timestamp = now\<rparr>"
  have fresh: "\<not> le_is_expired live now ?new"
    using assms by (simp add: le_is_expired_def is_i64_def)
  have lk: "lock_of ?tbl g' q =
      (if g' = g \<and> q = mq \<and> lock_holder live now tbl g mq = Some c then Some ?new
       else lock_of tbl g' q)" for g' q
    unfolding lock_of_is_locked is_locked_iff
    by (auto simp: lock_holder_def split: option.splits if_splits)
  have hold: "lock_holder live now ?tbl g q = lock_holder live now tbl g q" for q
    using fresh by (auto simp: lock_holder_def [of _ _ ?tbl] lk) (auto simp: lock_holder_def)
  show ?case
  proof (cases "snd (is_locked live now g mq c tbl)")
    case True
    then have p: "probe_all live now g (mq # mqs) c (tbl, l, n) =
        probe_all live now g mqs c (?tbl, hs_insert mq l, n)"
      by (cases "is_locked live now g mq c tbl") simp
    show ?thesis
      using Cons.IH [where tbl = ?tbl and l = "hs_insert mq l" and n = n] True
      unfolding p by (auto simp: hold lk is_locked_iff)
  next
    case False
    then have p: "probe_all live now g (mq # mqs) c (tbl, l, n) =
        probe_all live now g mqs c (?tbl, l, hs_insert mq n)"
      by (cases "is_locked live now g mq c tbl") simp
    show ?thesis
      using Cons.IH [where tbl = ?tbl and l = l and n = "hs_insert mq n"] False
      unfolding p by (auto simp: hold lk is_locked_iff)
  qed
qed

lemma grantable_iff_holder:
  "grantable live now c (lock_of tbl g mq) \<longleftrightarrow> lock_holder live now tbl g mq \<in> {None, Some c}"
  by (auto simp: grantable_def lock_holder_def split: option.splits)

lemma asked_own:
  "lock_holder live now tbl g mq = Some c \<Longrightarrow>
   asked live now c (lock_of tbl g mq) = \<lparr>le_client_id = c, last_update_timestamp = now\<rparr>"
  by (auto simp: asked_def lock_holder_def split: option.splits if_splits)

lemma try_lock_batch_result:
  assumes "0 \<le> live"
  shows "set (snd (try_lock_batch live now g mqs c tbl)) =
           {mq \<in> set mqs. lock_holder live now tbl g mq \<in> {None, Some c}}"
    and "lock_of (fst (try_lock_batch live now g mqs c tbl)) g' mq =
           (if g' = g \<and> mq \<in> set mqs then Some (asked live now c (lock_of tbl g mq))
            else lock_of tbl g' mq)"
proof -
  obtain tbl' l' n' where p: "probe_all live now g mqs c (tbl, [], []) = (tbl', l', n')"
    by (cases "probe_all live now g mqs c (tbl, [], [])") auto
  with probe_all_granted [OF assms, where now = now and g = g and mqs = mqs and c = c and tbl = tbl
      and l = "[]" and n = "[]"]
  have l': "set l' = {mq \<in> set mqs. lock_holder live now tbl g mq = Some c}"
    and n': "set n' = {mq \<in> set mqs. lock_holder live now tbl g mq \<noteq> Some c}"
    and lk: "lock_of tbl' g' mq =
        (if g' = g \<and> mq \<in> set mqs \<and> lock_holder live now tbl g mq = Some c
         then Some \<lparr>le_client_id = c, last_update_timestamp = now\<rparr> else lock_of tbl g' mq)" for g' mq
    by auto
  have same: "lock_of tbl' g mq = lock_of tbl g mq" if "mq \<in> set n'" for mq
    using that by (simp add: lk n')
  have un: "try_lock_batch live now g mqs c tbl =
      (if n' \<noteq> [] then lock_not_locked live now g n' c (tbl', l') else (tbl', l'))"
    by (simp add: try_lock_batch_def p)
  show "set (snd (try_lock_batch live now g mqs c tbl)) =
      {mq \<in> set mqs. lock_holder live now tbl g mq \<in> {None, Some c}}"
  proof (cases "n' = []")
    case True
    with n' show ?thesis by (auto simp: un l')
  next
    case False
    then show ?thesis
      using same by (auto simp: un granted_acquire l' grantable_iff_holder [symmetric])
        (auto simp: n' grantable_iff_holder)
  qed
  show "lock_of (fst (try_lock_batch live now g mqs c tbl)) g' mq =
           (if g' = g \<and> mq \<in> set mqs then Some (asked live now c (lock_of tbl g mq))
            else lock_of tbl g' mq)"
  proof (cases "n' = []")
    case True
    with n' show ?thesis by (auto simp: un lk asked_own)
  next
    case False
    then show ?thesis
      using same by (auto simp: un lock_of_acquire lk asked_own n')
  qed
qed

lemma lock_holder_asked:
  assumes "0 \<le> live"
  shows "lock_of tbl' g mq = Some (asked live now c (lock_of tbl g mq)) \<Longrightarrow>
    lock_holder live now tbl' g mq =
      (case lock_holder live now tbl g mq of None \<Rightarrow> Some c | Some c' \<Rightarrow> Some c')"
  using assms by (auto simp: lock_holder_def asked_def le_is_expired_def is_i64_def split: option.splits)

section \<open>Crashed holders\<close>

text \<open>While its lease lasts, the entry of a silent client stays as it is.\<close>

lemma silent_step:
  assumes "lock_of tbl g mq = Some \<lparr>le_client_id = c, last_update_timestamp = t\<rparr>"
    and "0 \<le> t" "0 \<le> live" "t + live < 2 ^ 63" "op_within t (t + live) op" "op_client op \<noteq> c"
  shows "lock_of (fst (lock_op_step live op tbl)) g mq = Some \<lparr>le_client_id = c, last_update_timestamp = t\<rparr>"
proof -
  have "\<not> le_is_expired live now \<lparr>le_client_id = c, last_update_timestamp = t\<rparr>" if "t \<le> now" "now \<le> t + live" for now
    using that assms(2-4) by (intro not_expired_in_span [of t "t + live"]) simp_all
  then show ?thesis
    using assms by (cases op) (auto simp: lock_of_steps asked_def is_locked_iff lock_holder_def case_prod_unfold)
qed

lemma silent_steps:
  assumes "lock_of tbl g mq = Some \<lparr>le_client_id = c, last_update_timestamp = t\<rparr>"
    and "0 \<le> t" "0 \<le> live" "t + live < 2 ^ 63" "\<forall>op \<in> set ops. op_within t (t + live) op \<and> op_client op \<noteq> c"
  shows "lock_of (fold (\<lambda>op s. fst (lock_op_step live op s)) ops tbl) g mq =
    Some \<lparr>le_client_id = c, last_update_timestamp = t\<rparr>"
  using assms(1,5) by (induction ops arbitrary: tbl) (simp_all add: silent_step [OF _ assms(2-4)])

section \<open>Well-formed tables\<close>

definition lock_inv :: "lock_table \<Rightarrow> bool" where
  "lock_inv tbl \<longleftrightarrow> hm_inv tbl \<and> (\<forall>g gv. hm_get tbl g = Some gv \<longrightarrow> hm_inv gv)"

lemma lock_inv_empty: "lock_inv []"
  by (simp add: lock_inv_def)

lemma lock_inv_insert [simp]: "lock_inv tbl \<Longrightarrow> hm_inv gv \<Longrightarrow> lock_inv (hm_insert g gv tbl)"
  by (auto simp: lock_inv_def split: if_splits)

lemma lock_inv_get: "lock_inv tbl \<Longrightarrow> hm_get tbl g = Some gv \<Longrightarrow> hm_inv gv"
  by (simp add: lock_inv_def)

lemma hm_inv_lock_ones: "hm_inv (fst s) \<Longrightarrow> hm_inv (fst (fold (lock_one live now c) mqs s))"
  by (induction mqs arbitrary: s) (auto simp: lock_one_def Let_def split: prod.splits)

lemma hm_inv_unlock_ones: "hm_inv gv \<Longrightarrow> hm_inv (fold (unlock_one c) mqs gv)"
  by (induction mqs arbitrary: gv) (auto simp: unlock_one_def split: option.splits)

lemma lock_inv_is_locked [simp]: "lock_inv tbl \<Longrightarrow> lock_inv (fst (is_locked live now g mq c tbl))"
  by (auto simp: is_locked_def intro!: lock_inv_insert hm_inv_insert intro: lock_inv_get split: option.splits)

lemma lock_inv_acquire [simp]:
  "lock_inv tbl \<Longrightarrow> lock_inv (fst (lock_not_locked live now g mqs c (tbl, l)))"
  by (auto simp: lock_not_locked_def Let_def case_prod_unfold intro!: lock_inv_insert hm_inv_lock_ones
      intro: lock_inv_get split: option.splits)

lemma lock_inv_release [simp]: "lock_inv tbl \<Longrightarrow> lock_inv (unlock_batch g mqs c tbl)"
  by (auto simp: unlock_batch_def intro!: lock_inv_insert hm_inv_unlock_ones intro: lock_inv_get split: option.splits)

lemma lock_inv_step: "lock_inv tbl \<Longrightarrow> lock_inv (fst (lock_op_step live op tbl))"
  by (cases op) (auto simp: case_prod_unfold)

interpretation lock_steps: preserved "\<lambda>op tbl. fst (lock_op_step live op tbl)" "[]" lock_inv
  by unfold_locales (simp_all add: lock_inv_empty lock_inv_step)

lemma lock_inv_probe_all: "lock_inv (fst s) \<Longrightarrow> lock_inv (fst (probe_all live now g mqs c s))"
proof (induction mqs arbitrary: s)
  case (Cons mq mqs)
  obtain tbl l n where s: "s = (tbl, l, n)" by (cases s)
  obtain tbl' b where r: "is_locked live now g mq c tbl = (tbl', b)" by fastforce
  with s Cons.prems lock_inv_is_locked [of tbl live now g mq c] have "lock_inv tbl'" by simp
  with Cons.IH s r show ?case by (cases b) simp_all
qed simp

lemma lock_inv_try_lock_batch: "lock_inv tbl \<Longrightarrow> lock_inv (fst (try_lock_batch live now g mqs c tbl))"
  using lock_inv_probe_all [of "(tbl, [], [])" live now g mqs c]
  by (auto simp: try_lock_batch_def split: prod.splits)

section \<open>Properties\<close>

text \<open>
  C2. An orderly lock is exclusive. Once the broker granted a queue to a client, no other client
  of the group is granted it until the lease of the maximal live time ends, whatever critical
  sections of whatever clients run in between and in whatever order, as long as the first client
  does not unlock the queue itself.
\<close>

theorem lock_is_exclusive:
  assumes "0 \<le> t" and "0 \<le> live" and "t + live < 2 ^ 63"
    and "mq \<in> set (snd (try_lock_batch live t g mqs c tbl))"
    and "\<forall>op \<in> set ops. op_within t (t + live) op \<and> \<not> op_releases g mq c op"
    and "t \<le> now" and "now \<le> t + live" and "c' \<noteq> c"
  shows "mq \<notin> set (snd (try_lock_batch live now g mqs' c'
           (fold (\<lambda>op s. fst (lock_op_step live op s)) ops (fst (try_lock_batch live t g mqs c tbl)))))"
proof -
  let ?tbl = "fst (try_lock_batch live t g mqs c tbl)"
  have mem: "mq \<in> set mqs" and holder: "lock_holder live t tbl g mq \<in> {None, Some c}"
    using assms(4) by (auto simp: try_lock_batch_result [OF assms(2)])
  have "grantable live t c (lock_of tbl g mq)"
    using holder by (simp only: grantable_iff_holder)
  then have "lock_of ?tbl g mq = Some \<lparr>le_client_id = c, last_update_timestamp = t\<rparr>"
    using mem by (auto simp: try_lock_batch_result [OF assms(2)] asked_def grantable_def split: option.splits)
  then have "table_leased live t (t + live) g mq c ?tbl"
    using assms(1-3) by (simp add: table_leased_def)
  then have leased: "table_leased live t (t + live) g mq c (fold (\<lambda>op s. fst (lock_op_step live op s)) ops ?tbl)"
    using assms(5) by (rule rebalance.leased_steps)
  have "mq \<notin> set (snd (lock_op_step live (Acquire now g [mq] c')
      (fold (\<lambda>op s. fst (lock_op_step live op s)) ops ?tbl)))"
    using assms(6-8) by (intro table_leased_exclusive [OF leased]) auto
  then have "\<not> grantable live now c' (lock_of (fold (\<lambda>op s. fst (lock_op_step live op s)) ops ?tbl) g mq)"
    by (simp add: granted_acquire)
  then show ?thesis
    by (simp add: try_lock_batch_result [OF assms(2)] grantable_iff_holder)
qed

theorem lock_is_exclusive_witness:
  "mq_default \<notin> set (snd (try_lock_batch 60000 40000 ''g'' [mq_default] ''c2''
     (fold (\<lambda>op s. fst (lock_op_step 60000 op s))
        [Release ''g'' [mq_default] ''c2'', Probe 30000 ''g'' mq_default ''c1'']
        (fst (try_lock_batch 60000 1 ''g'' [mq_default] ''c1'' [])))))"
  by (rule lock_is_exclusive [where mqs = "[mq_default]" and c = "''c1''" and t = 1])
     (simp_all add: try_lock_batch_result lock_holder_def lock_of_def)

text \<open>
  C17. A crashed client does not block its queues for ever: when the holder of a lock does nothing
  more, the next client that asks for the queue after the lease is granted it, whatever other
  clients tried in vain before.
\<close>

theorem lock_of_crashed_client_is_granted:
  assumes "0 \<le> t" and "0 \<le> live" and "t + live < 2 ^ 63"
    and "mq \<in> set (snd (try_lock_batch live t g mqs c tbl))"
    and "\<forall>op \<in> set ops. op_within t (t + live) op \<and> op_client op \<noteq> c"
    and "t + live < now" and "now < 2 ^ 63" and "mq \<in> set mqs'"
  shows "mq \<in> set (snd (try_lock_batch live now g mqs' c'
           (fold (\<lambda>op s. fst (lock_op_step live op s)) ops (fst (try_lock_batch live t g mqs c tbl)))))"
proof -
  let ?tbl = "fst (try_lock_batch live t g mqs c tbl)"
  have mem: "mq \<in> set mqs" and holder: "lock_holder live t tbl g mq \<in> {None, Some c}"
    using assms(4) by (auto simp: try_lock_batch_result [OF assms(2)])
  have "grantable live t c (lock_of tbl g mq)"
    using holder by (simp only: grantable_iff_holder)
  then have "lock_of ?tbl g mq = Some \<lparr>le_client_id = c, last_update_timestamp = t\<rparr>"
    using mem by (auto simp: try_lock_batch_result(2) [OF assms(2)] asked_def grantable_def split: option.splits)
  from silent_steps [OF this assms(1-3,5)]
  have entry: "lock_of (fold (\<lambda>op s. fst (lock_op_step live op s)) ops ?tbl) g mq =
      Some \<lparr>le_client_id = c, last_update_timestamp = t\<rparr>" .
  have "wrap_i64 (now - t) = now - t" using assms(1,2,6,7) by (intro wrap_i64_id) (simp add: is_i64_def)
  then have "le_is_expired live now \<lparr>le_client_id = c, last_update_timestamp = t\<rparr>"
    using assms(6) by (simp add: le_is_expired_def)
  then show ?thesis using assms(8) by (simp add: try_lock_batch_result(1) [OF assms(2)] lock_holder_def entry)
qed

theorem lock_of_crashed_client_is_granted_witness:
  "mq_default \<in> set (snd (try_lock_batch 60000 60002 ''g'' [mq_default] ''c2''
     (fold (\<lambda>op s. fst (lock_op_step 60000 op s)) [Acquire 30000 ''g'' [mq_default] ''c2'']
        (fst (try_lock_batch 60000 1 ''g'' [mq_default] ''c1'' [])))))"
  by (rule lock_of_crashed_client_is_granted [where mqs = "[mq_default]" and c = "''c1''" and t = 1])
     (simp_all add: try_lock_batch_result lock_holder_def lock_of_def)

text \<open>
  C16. The lock table meets its abstract specification, in which a queue has at most one holder: a
  batch grants exactly the queues that are free or already the client's; it makes the client their
  holder and changes no other holder; a release frees exactly the queues whose lock is the
  client's, and the group is reported expired exactly when none of its queues has a holder.
\<close>

theorem lock_table_refines_holders:
  assumes "0 \<le> live" and "lock_inv tbl"
  shows "set (snd (try_lock_batch live now g mqs c tbl)) =
           {mq \<in> set mqs. lock_holder live now tbl g mq \<in> {None, Some c}} \<and>
         lock_holder live now (fst (try_lock_batch live now g mqs c tbl)) =
           (\<lambda>g' mq. if g' = g \<and> mq \<in> set mqs \<and> lock_holder live now tbl g mq = None then Some c
                    else lock_holder live now tbl g' mq) \<and>
         lock_holder live now (unlock_batch g mqs c tbl) =
           (\<lambda>g' mq. if g' = g \<and> mq \<in> set mqs \<and> lock_holder live now tbl g mq = Some c then None
                    else lock_holder live now tbl g' mq) \<and>
         (is_lock_all_expired live now tbl g \<longleftrightarrow> (\<forall>mq. lock_holder live now tbl g mq = None))"
proof (intro conjI)
  show "set (snd (try_lock_batch live now g mqs c tbl)) =
           {mq \<in> set mqs. lock_holder live now tbl g mq \<in> {None, Some c}}"
    by (rule try_lock_batch_result(1) [OF assms(1)])
  show "lock_holder live now (fst (try_lock_batch live now g mqs c tbl)) =
           (\<lambda>g' mq. if g' = g \<and> mq \<in> set mqs \<and> lock_holder live now tbl g mq = None then Some c
                    else lock_holder live now tbl g' mq)"
  proof (intro ext)
    fix g' mq
    let ?t = "fst (try_lock_batch live now g mqs c tbl)"
    show "lock_holder live now ?t g' mq =
        (if g' = g \<and> mq \<in> set mqs \<and> lock_holder live now tbl g mq = None then Some c
         else lock_holder live now tbl g' mq)"
    proof (cases "g' = g \<and> mq \<in> set mqs")
      case True
      then show ?thesis
        using lock_holder_asked [OF assms(1), of ?t g mq now c tbl]
        by (auto simp: try_lock_batch_result(2) [OF assms(1)] split: option.splits)
    next
      case False
      then show ?thesis
        by (auto simp: lock_holder_def [of _ _ ?t] try_lock_batch_result(2) [OF assms(1)])
           (auto simp: lock_holder_def)
    qed
  qed
  show "lock_holder live now (unlock_batch g mqs c tbl) =
           (\<lambda>g' mq. if g' = g \<and> mq \<in> set mqs \<and> lock_holder live now tbl g mq = Some c then None
                    else lock_holder live now tbl g' mq)"
    by (intro ext) (auto simp: lock_holder_def lock_of_release split: option.splits)
  show "is_lock_all_expired live now tbl g \<longleftrightarrow> (\<forall>mq. lock_holder live now tbl g mq = None)"
  proof (cases "hm_get tbl g")
    case None
    then show ?thesis by (simp add: is_lock_all_expired_def lock_holder_def lock_of_def)
  next
    case (Some gv)
    then have "hm_inv gv" using assms(2) by (rule lock_inv_get [rotated])
    with Some have "is_lock_all_expired live now tbl g \<longleftrightarrow>
        (\<forall>mq e. hm_get gv mq = Some e \<longrightarrow> le_is_expired live now e)"
      by (auto simp: is_lock_all_expired_def list_all_iff hm_values_iff)
    also have "\<dots> \<longleftrightarrow> (\<forall>mq. lock_holder live now tbl g mq = None)"
      by (simp add: lock_holder_def lock_of_def Some split: option.splits) blast
    finally show ?thesis .
  qed
qed

theorem lock_table_refines_holders_witness:
  "is_lock_all_expired 60000 1 [] ''g'' \<longleftrightarrow> (\<forall>mq. lock_holder 60000 1 [] ''g'' mq = None)"
  using lock_table_refines_holders [of 60000 "[]" 1 "''g''" "[]" "''c''"] by (simp add: lock_inv_def)

text \<open>
  In every reachable lock table each group and each queue has one entry: every critical
  section and every batch keeps the table well formed.
\<close>

lemma lock_table_well_formed:
  "reachable (\<lambda>op tbl. fst (lock_op_step live op tbl)) [] tbl \<Longrightarrow> lock_inv tbl"
  by (rule lock_steps.reachable_inv)

end
