(* ===== verification/Flags.thy ===== *)
theory Flags
  imports Prelude
begin

text \<open>
  The bit-flag words of the sources: topic permissions (\<open>constant.rs\<close>, \<open>PermName\<close>), the topic,
  pull and message system flags (\<open>common/sys_flag\<close>), and the running flags of the message store
  (\<open>store/running_flags.rs\<close>). A flag word of type \<open>u32\<close> or \<open>i32\<close> is a 32-bit word; only bit
  operations are applied to it, so the sign of an \<open>i32\<close> plays no role. The locale \<open>single_bit\<close>
  gives the laws of one flag and is interpreted for every flag constant.
\<close>

section \<open>Permissions\<close>

definition perm_inherit :: u32 where "perm_inherit = push_bit 0 1"
definition perm_write :: u32 where "perm_write = push_bit 1 1"
definition perm_read :: u32 where "perm_read = push_bit 2 1"
definition perm_priority :: u32 where "perm_priority = push_bit 3 1"

definition perm_is_readable :: "u32 \<Rightarrow> bool" where
  "perm_is_readable perm \<longleftrightarrow> perm AND perm_read = perm_read"

definition perm_is_writeable :: "u32 \<Rightarrow> bool" where
  "perm_is_writeable perm \<longleftrightarrow> perm AND perm_write = perm_write"

definition perm_is_inherited :: "u32 \<Rightarrow> bool" where
  "perm_is_inherited perm \<longleftrightarrow> perm AND perm_inherit = perm_inherit"

definition perm_is_priority :: "u32 \<Rightarrow> bool" where
  "perm_is_priority perm \<longleftrightarrow> perm AND perm_priority = perm_priority"

definition perm_is_valid :: "u32 \<Rightarrow> bool" where
  "perm_is_valid perm \<longleftrightarrow> perm < perm_priority"

definition perm2string :: "u32 \<Rightarrow> string" where
  "perm2string perm =
     (let sb0 = ''---'';
          sb1 = (if perm_is_readable perm then list_update sb0 0 CHR ''R'' else sb0);
          sb2 = (if perm_is_writeable perm then list_update sb1 1 CHR ''W'' else sb1)
      in if perm_is_inherited perm then list_update sb2 2 CHR ''X'' else sb2)"

section \<open>Topic system flags\<close>

definition flag_unit :: u32 where "flag_unit = push_bit 0 1"
definition flag_unit_sub :: u32 where "flag_unit_sub = push_bit 1 1"

definition topic_build_sys_flag :: "bool \<Rightarrow> bool \<Rightarrow> u32" where
  "topic_build_sys_flag unit has_unit_sub =
     (let f0 = 0; f1 = (if unit then f0 OR flag_unit else f0)
      in if has_unit_sub then f1 OR flag_unit_sub else f1)"

definition set_unit_flag :: "u32 \<Rightarrow> u32" where
  "set_unit_flag sys_flag = sys_flag OR flag_unit"

definition clear_unit_flag :: "u32 \<Rightarrow> u32" where
  "clear_unit_flag sys_flag = sys_flag AND NOT flag_unit"

definition has_unit_flag :: "u32 \<Rightarrow> bool" where
  "has_unit_flag sys_flag \<longleftrightarrow> sys_flag AND flag_unit = flag_unit"

definition set_unit_sub_flag :: "u32 \<Rightarrow> u32" where
  "set_unit_sub_flag sys_flag = sys_flag OR flag_unit_sub"

definition clear_unit_sub_flag :: "u32 \<Rightarrow> u32" where
  "clear_unit_sub_flag sys_flag = sys_flag AND NOT flag_unit_sub"

definition has_unit_sub_flag :: "u32 \<Rightarrow> bool" where
  "has_unit_sub_flag sys_flag \<longleftrightarrow> sys_flag AND flag_unit_sub = flag_unit_sub"

section \<open>Pull system flags\<close>

definition flag_commit_offset :: u32 where "flag_commit_offset = 1"
definition flag_suspend :: u32 where "flag_suspend = push_bit 1 1"
definition flag_subscription :: u32 where "flag_subscription = push_bit 2 1"
definition flag_class_filter :: u32 where "flag_class_filter = push_bit 3 1"
definition flag_lite_pull_message :: u32 where "flag_lite_pull_message = push_bit 4 1"

definition pull_build_sys_flag :: "bool \<Rightarrow> bool \<Rightarrow> bool \<Rightarrow> bool \<Rightarrow> u32" where
  "pull_build_sys_flag commit_offset suspend subscription class_filter =
     (let f0 = 0;
          f1 = (if commit_offset then f0 OR flag_commit_offset else f0);
          f2 = (if suspend then f1 OR flag_suspend else f1);
          f3 = (if subscription then f2 OR flag_subscription else f2)
      in if class_filter then f3 OR flag_class_filter else f3)"

definition build_sys_flag_with_lite_pull :: "bool \<Rightarrow> bool \<Rightarrow> bool \<Rightarrow> bool \<Rightarrow> bool \<Rightarrow> u32" where
  "build_sys_flag_with_lite_pull commit_offset suspend subscription class_filter lite_pull =
     (let flag = pull_build_sys_flag commit_offset suspend subscription class_filter
      in if lite_pull then flag OR flag_lite_pull_message else flag)"

definition clear_commit_offset_flag :: "u32 \<Rightarrow> u32" where
  "clear_commit_offset_flag sys_flag = sys_flag AND NOT flag_commit_offset"

definition has_commit_offset_flag :: "u32 \<Rightarrow> bool" where
  "has_commit_offset_flag sys_flag \<longleftrightarrow> sys_flag AND flag_commit_offset = flag_commit_offset"

definition has_suspend_flag :: "u32 \<Rightarrow> bool" where
  "has_suspend_flag sys_flag \<longleftrightarrow> sys_flag AND flag_suspend = flag_suspend"

definition clear_suspend_flag :: "u32 \<Rightarrow> u32" where
  "clear_suspend_flag sys_flag = sys_flag AND NOT flag_suspend"

definition has_subscription_flag :: "u32 \<Rightarrow> bool" where
  "has_subscription_flag sys_flag \<longleftrightarrow> sys_flag AND flag_subscription = flag_subscription"

definition build_sys_flag_with_subscription :: "u32 \<Rightarrow> u32" where
  "build_sys_flag_with_subscription sys_flag = sys_flag OR flag_subscription"

definition has_class_filter_flag :: "u32 \<Rightarrow> bool" where
  "has_class_filter_flag sys_flag \<longleftrightarrow> sys_flag AND flag_class_filter = flag_class_filter"

definition has_lite_pull_flag :: "u32 \<Rightarrow> bool" where
  "has_lite_pull_flag sys_flag \<longleftrightarrow> sys_flag AND flag_lite_pull_message = flag_lite_pull_message"

section \<open>Message system flags\<close>

definition compressed_flag :: u32 where "compressed_flag = 1"
definition multi_tags_flag :: u32 where "multi_tags_flag = push_bit 1 1"
definition transaction_not_type :: u32 where "transaction_not_type = 0"
definition transaction_prepared_type :: u32 where "transaction_prepared_type = push_bit 2 1"
definition transaction_commit_type :: u32 where "transaction_commit_type = push_bit 2 2"
definition transaction_rollback_type :: u32 where "transaction_rollback_type = push_bit 2 3"
definition bornhost_v6_flag :: u32 where "bornhost_v6_flag = push_bit 4 1"
definition storehostaddress_v6_flag :: u32 where "storehostaddress_v6_flag = push_bit 5 1"
definition compression_lz4_type :: u32 where "compression_lz4_type = push_bit 8 1"
definition compression_zstd_type :: u32 where "compression_zstd_type = push_bit 8 2"
definition compression_zlib_type :: u32 where "compression_zlib_type = push_bit 8 3"
definition compression_type_comparator :: u32 where "compression_type_comparator = push_bit 8 7"

datatype compression_type = LZ4 | Zstd | Zlib

definition find_by_value :: "u32 \<Rightarrow> compression_type outcome" where
  "find_by_value v =
     (if v = 1 then Returned LZ4 else if v = 2 then Returned Zstd
      else if v = 0 \<or> v = 3 then Returned Zlib else Panicked)"

fun get_compression_flag :: "compression_type \<Rightarrow> u32" where
  "get_compression_flag LZ4 = compression_lz4_type"
| "get_compression_flag Zstd = compression_zstd_type"
| "get_compression_flag Zlib = compression_zlib_type"

definition get_transaction_value :: "u32 \<Rightarrow> u32" where
  "get_transaction_value flag = flag AND transaction_rollback_type"

definition reset_transaction_value :: "u32 \<Rightarrow> u32 \<Rightarrow> u32" where
  "reset_transaction_value flag transaction_type =
     (flag AND NOT transaction_rollback_type) OR transaction_type"

definition clear_compressed_flag :: "u32 \<Rightarrow> u32" where
  "clear_compressed_flag flag = flag AND NOT compressed_flag"

text \<open>The masked value is not negative, so the arithmetic shift of \<open>i32\<close> is a logical one.\<close>

definition get_compression_type :: "u32 \<Rightarrow> compression_type outcome" where
  "get_compression_type flag = find_by_value (drop_bit 8 (flag AND compression_type_comparator))"

definition message_flag_check :: "u32 \<Rightarrow> u32 \<Rightarrow> bool" where
  "message_flag_check flag expected_flag \<longleftrightarrow> flag AND expected_flag \<noteq> 0"

section \<open>Running flags\<close>

definition not_readable_bit :: u32 where "not_readable_bit = 1"
definition not_writeable_bit :: u32 where "not_writeable_bit = push_bit 1 1"
definition write_logics_queue_error_bit :: u32 where "write_logics_queue_error_bit = push_bit 2 1"
definition write_index_file_error_bit :: u32 where "write_index_file_error_bit = push_bit 3 1"
definition disk_full_bit :: u32 where "disk_full_bit = push_bit 4 1"
definition fenced_bit :: u32 where "fenced_bit = push_bit 5 1"
definition logic_disk_full_bit :: u32 where "logic_disk_full_bit = push_bit 6 1"

definition rf_new :: u32 where "rf_new = 0"

definition rf_is_readable :: "u32 \<Rightarrow> bool" where
  "rf_is_readable w \<longleftrightarrow> w AND not_readable_bit = 0"

definition rf_is_fenced :: "u32 \<Rightarrow> bool" where
  "rf_is_fenced w \<longleftrightarrow> w AND fenced_bit \<noteq> 0"

definition rf_is_writeable :: "u32 \<Rightarrow> bool" where
  "rf_is_writeable w \<longleftrightarrow>
     w AND (not_writeable_bit OR write_logics_queue_error_bit OR disk_full_bit
            OR write_index_file_error_bit OR fenced_bit OR logic_disk_full_bit) = 0"

definition rf_is_cq_writeable :: "u32 \<Rightarrow> bool" where
  "rf_is_cq_writeable w \<longleftrightarrow>
     w AND (not_writeable_bit OR write_logics_queue_error_bit OR write_index_file_error_bit
            OR logic_disk_full_bit) = 0"

definition rf_is_logics_queue_error :: "u32 \<Rightarrow> bool" where
  "rf_is_logics_queue_error w \<longleftrightarrow> w AND write_logics_queue_error_bit = write_logics_queue_error_bit"

definition rf_is_index_file_error :: "u32 \<Rightarrow> bool" where
  "rf_is_index_file_error w \<longleftrightarrow> w AND write_index_file_error_bit = write_index_file_error_bit"

definition get_and_make_readable :: "u32 \<Rightarrow> bool \<times> u32" where
  "get_and_make_readable w =
     (let result = rf_is_readable w in (result, if \<not> result then w AND NOT not_readable_bit else w))"

definition get_and_make_not_readable :: "u32 \<Rightarrow> bool \<times> u32" where
  "get_and_make_not_readable w =
     (let result = rf_is_readable w in (result, if result then w OR not_readable_bit else w))"

definition clear_logics_queue_error :: "u32 \<Rightarrow> u32" where
  "clear_logics_queue_error w = w AND NOT write_logics_queue_error_bit"

definition get_and_make_writeable :: "u32 \<Rightarrow> bool \<times> u32" where
  "get_and_make_writeable w =
     (let result = rf_is_writeable w in (result, if \<not> result then w AND NOT not_writeable_bit else w))"

definition get_and_make_not_writeable :: "u32 \<Rightarrow> bool \<times> u32" where
  "get_and_make_not_writeable w =
     (let result = rf_is_writeable w in (result, if result then w OR not_writeable_bit else w))"

definition make_logics_queue_error :: "u32 \<Rightarrow> u32" where
  "make_logics_queue_error w = w OR write_logics_queue_error_bit"

definition make_fenced :: "bool \<Rightarrow> u32 \<Rightarrow> u32" where
  "make_fenced fenced w = (if fenced then w OR fenced_bit else w AND NOT fenced_bit)"

definition make_index_file_error :: "u32 \<Rightarrow> u32" where
  "make_index_file_error w = w OR write_index_file_error_bit"

definition get_and_make_disk_full :: "u32 \<Rightarrow> bool \<times> u32" where
  "get_and_make_disk_full w = (w AND disk_full_bit \<noteq> disk_full_bit, w OR disk_full_bit)"

definition get_and_make_disk_ok :: "u32 \<Rightarrow> bool \<times> u32" where
  "get_and_make_disk_ok w = (w AND disk_full_bit \<noteq> disk_full_bit, w AND NOT disk_full_bit)"

definition get_and_make_logic_disk_full :: "u32 \<Rightarrow> bool \<times> u32" where
  "get_and_make_logic_disk_full w =
     (w AND logic_disk_full_bit \<noteq> logic_disk_full_bit, w OR logic_disk_full_bit)"

definition get_and_make_logic_disk_ok :: "u32 \<Rightarrow> bool \<times> u32" where
  "get_and_make_logic_disk_ok w =
     (w AND logic_disk_full_bit \<noteq> logic_disk_full_bit, w AND NOT logic_disk_full_bit)"

text \<open>The abstract state: the set of conditions that are raised.\<close>

datatype running_condition =
    NotReadable | NotWriteable | LogicsQueueError | IndexFileError | DiskFull | Fenced | LogicDiskFull

fun condition_bit :: "running_condition \<Rightarrow> nat" where
  "condition_bit NotReadable = 0"
| "condition_bit NotWriteable = 1"
| "condition_bit LogicsQueueError = 2"
| "condition_bit IndexFileError = 3"
| "condition_bit DiskFull = 4"
| "condition_bit Fenced = 5"
| "condition_bit LogicDiskFull = 6"

definition conditions :: "u32 \<Rightarrow> running_condition set" where
  "conditions w = {c. bit w (condition_bit c)}"

definition write_blockers :: "running_condition set" where
  "write_blockers = {NotWriteable, LogicsQueueError, IndexFileError, DiskFull, Fenced, LogicDiskFull}"

section \<open>One flag\<close>

locale single_bit =
  fixes mask :: u32 and pos :: nat
  assumes mask: "mask = push_bit pos 1" and pos: "pos < 32"
begin

lemma bit_mask: "bit mask n \<longleftrightarrow> n = pos"
  using pos by (auto simp: mask bit_exp_iff)

lemma and_eq_mask: "w AND mask = mask \<longleftrightarrow> bit w pos"
  by (auto simp: u32_eq_iff bit_and_iff bit_mask)

lemma and_eq_zero: "w AND mask = 0 \<longleftrightarrow> \<not> bit w pos"
  by (auto simp: u32_eq_iff bit_and_iff bit_mask)

lemma and_mask: "w AND mask = (if bit w pos then mask else 0)"
  using and_eq_mask and_eq_zero by auto

lemma bit_raise: "bit (w OR mask) n \<longleftrightarrow> n = pos \<or> bit w n"
  by (auto simp: bit_or_iff bit_mask)

lemma bit_lower: "bit (w AND NOT mask) n \<longleftrightarrow> n \<noteq> pos \<and> bit w n"
  by (auto simp: bit_and_iff bit_not_iff bit_mask dest: bit_imp_le_length)

lemma and_or_eq_zero: "w AND (mask OR m) = 0 \<longleftrightarrow> \<not> bit w pos \<and> w AND m = 0"
  by (auto simp: u32_eq_iff bit_and_iff bit_or_iff bit_mask)

lemmas laws = bit_mask and_eq_mask and_eq_zero bit_raise bit_lower and_or_eq_zero

end


interpretation perm_inherit: single_bit perm_inherit 0
  by unfold_locales (simp_all add: perm_inherit_def)
interpretation perm_write: single_bit perm_write 1
  by unfold_locales (simp_all add: perm_write_def)
interpretation perm_read: single_bit perm_read 2
  by unfold_locales (simp_all add: perm_read_def)
interpretation perm_priority: single_bit perm_priority 3
  by unfold_locales (simp_all add: perm_priority_def)
interpretation flag_unit: single_bit flag_unit 0
  by unfold_locales (simp_all add: flag_unit_def)
interpretation flag_unit_sub: single_bit flag_unit_sub 1
  by unfold_locales (simp_all add: flag_unit_sub_def)
interpretation commit_offset: single_bit flag_commit_offset 0
  by unfold_locales (simp_all add: flag_commit_offset_def)
interpretation suspend: single_bit flag_suspend 1
  by unfold_locales (simp_all add: flag_suspend_def)
interpretation subscription: single_bit flag_subscription 2
  by unfold_locales (simp_all add: flag_subscription_def)
interpretation class_filter: single_bit flag_class_filter 3
  by unfold_locales (simp_all add: flag_class_filter_def)
interpretation lite_pull: single_bit flag_lite_pull_message 4
  by unfold_locales (simp_all add: flag_lite_pull_message_def)
interpretation not_readable: single_bit not_readable_bit 0
  by unfold_locales (simp_all add: not_readable_bit_def)
interpretation not_writeable: single_bit not_writeable_bit 1
  by unfold_locales (simp_all add: not_writeable_bit_def)
interpretation logics_queue_error: single_bit write_logics_queue_error_bit 2
  by unfold_locales (simp_all add: write_logics_queue_error_bit_def)
interpretation index_file_error: single_bit write_index_file_error_bit 3
  by unfold_locales (simp_all add: write_index_file_error_bit_def)
interpretation disk_full: single_bit disk_full_bit 4
  by unfold_locales (simp_all add: disk_full_bit_def)
interpretation fenced: single_bit fenced_bit 5
  by unfold_locales (simp_all add: fenced_bit_def)
interpretation logic_disk_full: single_bit logic_disk_full_bit 6
  by unfold_locales (simp_all add: logic_disk_full_bit_def)

lemmas perm_flags [flag_simps] =
  perm_inherit.laws perm_write.laws perm_read.laws perm_priority.laws

lemmas topic_flags [flag_simps] = flag_unit.laws flag_unit_sub.laws

lemmas pull_flags [flag_simps] =
  commit_offset.laws suspend.laws subscription.laws class_filter.laws lite_pull.laws

lemmas running_bits [flag_simps] =
  not_readable.laws not_writeable.laws logics_queue_error.laws index_file_error.laws
  disk_full.laws fenced.laws logic_disk_full.laws

lemma wiped_not_writeable [simp]: "\<not> perm_is_writeable (p AND NOT perm_write)"
  by (simp add: perm_is_writeable_def perm_flags)

lemma condition_bit_inject: "condition_bit a = condition_bit b \<longleftrightarrow> a = b"
  by (cases a; cases b) auto

lemma mem_conditions: "c \<in> conditions w \<longleftrightarrow> bit w (condition_bit c)"
  by (simp add: conditions_def)

lemma conditions_raise:
  "(\<And>n. bit w' n \<longleftrightarrow> n = condition_bit c \<or> bit w n) \<Longrightarrow> conditions w' = insert c (conditions w)"
  by (auto simp: conditions_def condition_bit_inject)

lemma conditions_lower:
  "(\<And>n. bit w' n \<longleftrightarrow> n \<noteq> condition_bit c \<and> bit w n) \<Longrightarrow> conditions w' = conditions w - {c}"
  by (auto simp: conditions_def condition_bit_inject)

lemma rf_readable: "rf_is_readable w \<longleftrightarrow> NotReadable \<notin> conditions w"
  by (simp add: rf_is_readable_def flag_simps mem_conditions)

lemma rf_fenced: "rf_is_fenced w \<longleftrightarrow> Fenced \<in> conditions w"
  by (simp add: rf_is_fenced_def flag_simps mem_conditions)

lemma rf_writeable: "rf_is_writeable w \<longleftrightarrow> conditions w \<inter> write_blockers = {}"
  by (simp add: rf_is_writeable_def flag_simps mem_conditions write_blockers_def) blast

lemma rf_cq_writeable:
  "rf_is_cq_writeable w \<longleftrightarrow>
   conditions w \<inter> {NotWriteable, LogicsQueueError, IndexFileError, LogicDiskFull} = {}"
  by (simp add: rf_is_cq_writeable_def flag_simps mem_conditions)

lemmas rf_predicates = rf_readable rf_fenced rf_writeable rf_cq_writeable

lemma raise_conditions:
  "conditions (w OR not_readable_bit) = insert NotReadable (conditions w)"
  "conditions (w OR not_writeable_bit) = insert NotWriteable (conditions w)"
  "conditions (w OR write_logics_queue_error_bit) = insert LogicsQueueError (conditions w)"
  "conditions (w OR write_index_file_error_bit) = insert IndexFileError (conditions w)"
  "conditions (w OR disk_full_bit) = insert DiskFull (conditions w)"
  "conditions (w OR fenced_bit) = insert Fenced (conditions w)"
  "conditions (w OR logic_disk_full_bit) = insert LogicDiskFull (conditions w)"
  by (rule conditions_raise; simp add: running_bits)+

lemma lower_conditions:
  "conditions (w AND NOT not_readable_bit) = conditions w - {NotReadable}"
  "conditions (w AND NOT not_writeable_bit) = conditions w - {NotWriteable}"
  "conditions (w AND NOT write_logics_queue_error_bit) = conditions w - {LogicsQueueError}"
  "conditions (w AND NOT disk_full_bit) = conditions w - {DiskFull}"
  "conditions (w AND NOT fenced_bit) = conditions w - {Fenced}"
  "conditions (w AND NOT logic_disk_full_bit) = conditions w - {LogicDiskFull}"
  by (rule conditions_lower; simp add: running_bits)+

section \<open>Properties\<close>

text \<open>
  C28. The running flags are a set of independent conditions: every operation of the store adds or
  removes exactly the condition it is named after, except that the two requests to change the
  general write permission only act when the store is not, respectively is, writeable; the two
  predicates on writing hold exactly when no blocking condition is raised.
\<close>

theorem running_flags_refine_conditions:
  "conditions (snd (get_and_make_readable w)) = conditions w - {NotReadable} \<and>
   conditions (snd (get_and_make_not_readable w)) = insert NotReadable (conditions w) \<and>
   conditions (clear_logics_queue_error w) = conditions w - {LogicsQueueError} \<and>
   conditions (make_logics_queue_error w) = insert LogicsQueueError (conditions w) \<and>
   conditions (make_index_file_error w) = insert IndexFileError (conditions w) \<and>
   conditions (make_fenced b w) = (if b then insert Fenced (conditions w) else conditions w - {Fenced}) \<and>
   conditions (snd (get_and_make_disk_full w)) = insert DiskFull (conditions w) \<and>
   conditions (snd (get_and_make_disk_ok w)) = conditions w - {DiskFull} \<and>
   conditions (snd (get_and_make_logic_disk_full w)) = insert LogicDiskFull (conditions w) \<and>
   conditions (snd (get_and_make_logic_disk_ok w)) = conditions w - {LogicDiskFull} \<and>
   conditions (snd (get_and_make_writeable w)) = conditions w - {NotWriteable} \<and>
   conditions (snd (get_and_make_not_writeable w)) =
     (if conditions w \<inter> write_blockers = {} then insert NotWriteable (conditions w) else conditions w) \<and>
   (rf_is_writeable w \<longleftrightarrow> conditions w \<inter> write_blockers = {}) \<and>
   (rf_is_cq_writeable w \<longleftrightarrow> conditions w \<inter> (write_blockers - {DiskFull, Fenced}) = {})"
proof -
  have keep: "conditions w - {NotWriteable} = conditions w" if "rf_is_writeable w"
    using that by (auto simp: rf_writeable write_blockers_def)
  have cq: "write_blockers - {DiskFull, Fenced} = {NotWriteable, LogicsQueueError, IndexFileError, LogicDiskFull}"
    by (auto simp: write_blockers_def)
  note defs = get_and_make_readable_def get_and_make_not_readable_def clear_logics_queue_error_def
    make_logics_queue_error_def make_index_file_error_def make_fenced_def get_and_make_disk_full_def
    get_and_make_disk_ok_def get_and_make_logic_disk_full_def get_and_make_logic_disk_ok_def
    get_and_make_writeable_def get_and_make_not_writeable_def
  show ?thesis
    using keep unfolding cq rf_cq_writeable
    by (simp add: defs Let_def raise_conditions lower_conditions rf_writeable rf_readable insert_absorb)
qed

text \<open>
  A request to make the store not writeable is lost when it arrives while the disk is full:
  as soon as the disk is reported good again the store accepts writes.
\<close>

lemma not_writeable_request_lost:
  "fst (get_and_make_writeable (snd (get_and_make_disk_ok (snd (get_and_make_not_writeable
     (snd (get_and_make_disk_full rf_new)))))))"
  by (simp add: rf_new_def get_and_make_disk_full_def get_and_make_not_writeable_def
      get_and_make_disk_ok_def get_and_make_writeable_def Let_def rf_is_writeable_def running_bits)
     (simp add: disk_full_bit_def)

text \<open>
  A pull system flag carries its five options without loss, and setting or clearing one of
  them leaves the others alone.
\<close>

lemma pull_sys_flag_roundtrip:
  fixes c s b f l :: bool
  defines "w \<equiv> build_sys_flag_with_lite_pull c s b f l"
  shows "has_commit_offset_flag w = c \<and> has_suspend_flag w = s \<and> has_subscription_flag w = b \<and>
     has_class_filter_flag w = f \<and> has_lite_pull_flag w = l \<and>
     clear_commit_offset_flag w = build_sys_flag_with_lite_pull False s b f l \<and>
     clear_suspend_flag w = build_sys_flag_with_lite_pull c False b f l \<and>
     build_sys_flag_with_subscription w = build_sys_flag_with_lite_pull c s True f l"
proof -
  have bits: "bit (build_sys_flag_with_lite_pull c s b f l) n \<longleftrightarrow>
      n = 0 \<and> c \<or> n = 1 \<and> s \<or> n = 2 \<and> b \<or> n = 3 \<and> f \<or> n = 4 \<and> l" for n c s b f l
    by (auto simp: build_sys_flag_with_lite_pull_def pull_build_sys_flag_def Let_def pull_flags)
  show ?thesis
    unfolding w_def has_commit_offset_flag_def has_suspend_flag_def has_subscription_flag_def
      has_class_filter_flag_def has_lite_pull_flag_def clear_commit_offset_flag_def
      clear_suspend_flag_def build_sys_flag_with_subscription_def
    by (intro conjI) (auto simp: u32_eq_iff [of "_ AND NOT _"] u32_eq_iff [of "_ OR _"] pull_flags bits)
qed

text \<open>Two bits give four kinds of messages of a transaction.\<close>

lemma transaction_values:
  "get_transaction_value f \<in> {transaction_not_type, transaction_prepared_type, transaction_commit_type, transaction_rollback_type}"
proof -
  have "f AND 12 = (if bit f 2 then 4 else 0) OR (if bit f 3 then 8 else 0)"
  proof (rule bit_word_eqI)
    fix n :: nat
    have "bit (12 :: u32) n \<longleftrightarrow> n = 2 \<or> n = 3" "bit (4 :: u32) n \<longleftrightarrow> n = 2" "bit (8 :: u32) n \<longleftrightarrow> n = 3"
      by (auto simp: bit_numeral_rec bit_1_iff split: nat.splits)
    then show "bit (f AND 12) n \<longleftrightarrow> bit ((if bit f 2 then 4 else 0) OR (if bit f 3 then 8 else 0) :: u32) n"
      by (auto simp: bit_and_iff bit_or_iff)
  qed
  then show ?thesis
    by (auto simp: get_transaction_value_def transaction_not_type_def transaction_prepared_type_def transaction_commit_type_def
        transaction_rollback_type_def)
qed

text \<open>
  The compression type written into a message's system flag is the one read back, and the
  transaction type is replaced without touching any other bit of the flag.
\<close>

lemma message_sys_flag_roundtrip:
  "get_compression_type (get_compression_flag t OR (w AND NOT compression_type_comparator)) = Returned t \<and>
   get_transaction_value (reset_transaction_value w (x AND transaction_rollback_type)) =
     x AND transaction_rollback_type \<and>
   reset_transaction_value w (x AND transaction_rollback_type) AND NOT transaction_rollback_type =
     w AND NOT transaction_rollback_type"
proof (intro conjI)
  have "(f OR (w AND NOT m)) AND m = f AND m" for f m :: u32
    by (auto simp: u32_eq_iff bit_and_iff bit_or_iff bit_not_iff)
  then have masked: "(get_compression_flag t OR (w AND NOT compression_type_comparator))
      AND compression_type_comparator = get_compression_flag t AND compression_type_comparator"
    by blast
  show "get_compression_type (get_compression_flag t OR (w AND NOT compression_type_comparator)) = Returned t"
    unfolding get_compression_type_def masked
    by (cases t) (simp_all add: compression_lz4_type_def compression_zstd_type_def
        compression_zlib_type_def compression_type_comparator_def find_by_value_def)
  show "get_transaction_value (reset_transaction_value w (x AND transaction_rollback_type)) =
      x AND transaction_rollback_type"
    and "reset_transaction_value w (x AND transaction_rollback_type) AND NOT transaction_rollback_type =
      w AND NOT transaction_rollback_type"
    unfolding get_transaction_value_def reset_transaction_value_def
    by (auto simp: u32_eq_iff bit_and_iff bit_or_iff bit_not_iff)
qed

end
