(* ===== verification/Route_Data.thy ===== *)
theory Route_Data
  imports Rust_Maps Flags
begin

text \<open>
  The data the name server keeps and serves: broker and queue data
  (\<open>route_data_view.rs\<close>), topic configurations (\<open>common/config.rs\<close>) and the wrapper a broker
  registers with, data versions (\<open>protocol.rs\<close>), the liveness record of a broker
  (\<open>broker_addr_info.rs\<close>) and the route a client obtains (\<open>topic_route_data.rs\<close>).
\<close>

section \<open>Model\<close>

text \<open>A socket address is compared only; its printed form stands for it.\<close>

type_synonym socket_addr = string

definition master_id :: u64 where "master_id = 0"

record data_version =
  state_version :: i64
  timestamp :: i64
  counter :: i64

definition increment_counter :: "data_version \<Rightarrow> i64 \<times> data_version" where
  "increment_counter dv =
     (let c = wrap_i64 (counter dv + 1) in (c, dv\<lparr>counter := c\<rparr>))"

definition next_version_with :: "i64 \<Rightarrow> i64 \<Rightarrow> data_version \<Rightarrow> data_version" where
  "next_version_with now sv dv =
     dv\<lparr>timestamp := now, state_version := sv, counter := wrap_i64 (counter dv + 1)\<rparr>"

definition next_version :: "i64 \<Rightarrow> data_version \<Rightarrow> data_version" where
  "next_version now dv = next_version_with now 0 dv"

definition assign_new_one :: "data_version \<Rightarrow> data_version \<Rightarrow> data_version" where
  "assign_new_one other dv =
     dv\<lparr>timestamp := timestamp other, state_version := state_version other, counter := counter other\<rparr>"

datatype topic_filter_type = SingleTag | MultiTag

record topic_config =
  tc_topic_name :: "string option"
  tc_read_queue_nums :: u32
  tc_write_queue_nums :: u32
  tc_perm :: u32
  tc_topic_filter_type :: topic_filter_type
  tc_topic_sys_flag :: u32
  tc_order :: bool
  tc_attributes :: "(string, string) hmap"

definition tc_default :: topic_config where
  "tc_default = \<lparr>tc_topic_name = None, tc_read_queue_nums = 16, tc_write_queue_nums = 16,
     tc_perm = perm_read OR perm_write, tc_topic_filter_type = SingleTag, tc_topic_sys_flag = 0,
     tc_order = False, tc_attributes = []\<rparr>"

definition tc_with_queues :: "string \<Rightarrow> u32 \<Rightarrow> u32 \<Rightarrow> topic_config" where
  "tc_with_queues topic_name r w =
     tc_default\<lparr>tc_topic_name := Some topic_name, tc_read_queue_nums := r, tc_write_queue_nums := w\<rparr>"

record queue_data =
  qd_broker_name :: string
  qd_read_queue_nums :: u32
  qd_write_queue_nums :: u32
  qd_perm :: u32
  qd_topic_sys_flag :: u32

definition qd_new :: "string \<Rightarrow> u32 \<Rightarrow> u32 \<Rightarrow> u32 \<Rightarrow> u32 \<Rightarrow> queue_data" where
  "qd_new broker_name read_queue_nums write_queue_nums perm topic_sys_flag =
     \<lparr>qd_broker_name = broker_name, qd_read_queue_nums = read_queue_nums,
      qd_write_queue_nums = write_queue_nums, qd_perm = perm, qd_topic_sys_flag = topic_sys_flag\<rparr>"

record broker_data =
  bd_cluster :: string
  bd_broker_name :: string
  bd_broker_addrs :: "(u64, string) hmap"
  bd_zone_name :: "string option"
  bd_enable_acting_master :: bool

definition bd_new :: "string \<Rightarrow> string \<Rightarrow> (u64, string) hmap \<Rightarrow> string option \<Rightarrow> broker_data" where
  "bd_new cl broker_name broker_addrs zone_name =
     \<lparr>bd_cluster = cl, bd_broker_name = broker_name, bd_broker_addrs = broker_addrs,
      bd_zone_name = zone_name, bd_enable_acting_master = False\<rparr>"

definition remove_broker_by_addr :: "u64 \<Rightarrow> string \<Rightarrow> broker_data \<Rightarrow> broker_data" where
  "remove_broker_by_addr broker_id broker_addr bd =
     bd\<lparr>bd_broker_addrs :=
          hm_retain (\<lambda>key v. v \<noteq> broker_addr \<or> key = broker_id) (bd_broker_addrs bd)\<rparr>"

record topic_queue_mapping_info =
  mi_topic :: "string option"
  mi_scope :: "string option"
  mi_total_queues :: i32
  mi_bname :: "string option"
  mi_epoch :: i64
  mi_dirty :: bool
  mi_curr_id_map :: "(i32, i32) hmap option"

text \<open>Of the registration wrapper, the fields the name server reads.\<close>

record topic_config_wrapper =
  topic_queue_mapping_info_map :: "(string, topic_queue_mapping_info) hmap"
  topic_config_table :: "(string, topic_config) hmap"
  wrapper_data_version :: data_version

datatype broker_addr_info = BrokerAddrInfo (bai_cluster_name: string) (bai_broker_addr: string)

record broker_live_info =
  bl_last_update_timestamp :: i64
  bl_heartbeat_timeout_millis :: i64
  bl_data_version :: data_version
  bl_ha_server_addr :: string
  bl_remote_addr :: socket_addr

record register_broker_result =
  rr_ha_server_addr :: string
  rr_master_addr :: string
  rr_kv_table :: "(string, string) hmap"

definition rr_default :: register_broker_result where
  "rr_default = \<lparr>rr_ha_server_addr = [], rr_master_addr = [], rr_kv_table = []\<rparr>"

record un_register_request =
  ur_broker_name :: string
  ur_broker_addr :: string
  ur_cluster_name :: string
  ur_broker_id :: u64

record topic_route_data =
  order_topic_conf :: "string option"
  queue_datas :: "queue_data list"
  broker_datas :: "broker_data list"
  route_filter_server_table :: "(string, string list) hmap"
  topic_queue_mapping_by_broker :: "(string, topic_queue_mapping_info) hmap option"

record topic_list =
  tl_topic_list :: "string list"
  tl_broker_addr :: "string option"

record broker_member_group =
  mg_cluster :: string
  mg_broker_name :: string
  mg_broker_addrs :: "(u64, string) hmap"

record notify_min_broker_id_change =
  nm_min_broker_id :: "u64 option"
  nm_broker_name :: "string option"
  nm_min_broker_addr :: "string option"
  nm_offline_broker_addr :: "string option"
  nm_ha_broker_addr :: "string option"

text \<open>\<open>keys().min()\<close>\<close>

fun min_key :: "('k::linorder, 'v) hmap \<Rightarrow> 'k option" where
  "min_key [] = None"
| "min_key ((k, v) # m) = Some (case min_key m of None \<Rightarrow> k | Some k' \<Rightarrow> min k k')"

section \<open>Facts\<close>

lemma min_key_None [simp]: "min_key m = None \<longleftrightarrow> m = []"
  by (cases m rule: min_key.cases) auto

lemma min_key_Some: "min_key m = Some k \<longleftrightarrow> m \<noteq> [] \<and> k = Min (fst ` set m)"
proof (induction m arbitrary: k rule: min_key.induct)
  case 1
  then show ?case by simp
next
  case (2 k' v m)
  show ?case
  proof (cases "m = []")
    case True
    then show ?thesis by auto
  next
    case False
    then obtain k2 where k2: "min_key m = Some k2" by (cases "min_key m") auto
    with "2.IH" [of k2] have "k2 = Min (fst ` set m)" by simp
    with k2 False show ?thesis by auto
  qed
qed

lemma min_key_in: "min_key m = Some k \<Longrightarrow> \<exists>v. hm_get m k = Some v"
  using Min_in [of "fst ` set m"] by (fastforce simp: min_key_Some hm_get_def weak_map_of_SomeI image_iff)

lemma min_key_le: "min_key m = Some k \<Longrightarrow> hm_get m k' = Some v \<Longrightarrow> k \<le> k'"
  by (auto simp: min_key_Some hm_get_def dest!: map_of_SomeD intro!: Min_le) force

lemma get_remove_broker_by_addr:
  "hm_inv (bd_broker_addrs bd) \<Longrightarrow>
   hm_get (bd_broker_addrs (remove_broker_by_addr i a bd)) k =
     (case hm_get (bd_broker_addrs bd) k of
        None \<Rightarrow> None | Some v \<Rightarrow> if v \<noteq> a \<or> k = i then Some v else None)"
  by (simp add: remove_broker_by_addr_def hm_get_retain split: option.splits)

lemma remove_broker_by_addr_fields [simp]:
  "bd_cluster (remove_broker_by_addr i a bd) = bd_cluster bd"
  "bd_broker_name (remove_broker_by_addr i a bd) = bd_broker_name bd"
  "bd_enable_acting_master (remove_broker_by_addr i a bd) = bd_enable_acting_master bd"
  "hm_inv (bd_broker_addrs bd) \<Longrightarrow> hm_inv (bd_broker_addrs (remove_broker_by_addr i a bd))"
  by (simp_all add: remove_broker_by_addr_def)

end
