(* ===== verification/Namesrv_Config.thy ===== *)
theory Namesrv_Config
  imports Rust_Maps Rust_Text
begin

text \<open>
  The configuration of the name server
  (\<open>rocketmq-common/src/common/namesrv/namesrv_config.rs\<close>): the fields, the update from a table
  of properties, and the blacklist; and the parser of the property text
  (\<open>common/mix_all.rs\<close>). The paths of the default depend on the environment and are arguments.
\<close>

section \<open>Model\<close>

record namesrv_config =
  rocketmq_home :: string
  kv_config_path :: string
  config_store_path :: string
  product_env_name :: string
  cluster_test :: bool
  order_message_enable :: bool
  return_order_topic_config_to_broker :: bool
  client_request_thread_pool_nums :: i32
  default_thread_pool_nums :: i32
  client_request_thread_pool_queue_capacity :: i32
  default_thread_pool_queue_capacity :: i32
  scan_not_active_broker_interval :: u64
  unregister_broker_queue_capacity :: i32
  support_acting_master :: bool
  enable_all_topic_list :: bool
  enable_topic_list :: bool
  cfg_notify_min_broker_id_changed :: bool
  enable_controller_in_namesrv :: bool
  need_wait_for_service :: bool
  wait_seconds_for_service :: i32
  delete_topic_with_broker_registration :: bool
  config_black_list :: string

definition nc_default :: "string \<Rightarrow> string \<Rightarrow> string \<Rightarrow> namesrv_config" where
  "nc_default home kv_path store_path =
     \<lparr>rocketmq_home = home, kv_config_path = kv_path, config_store_path = store_path,
      product_env_name = ''center'', cluster_test = False, order_message_enable = False,
      return_order_topic_config_to_broker = True, client_request_thread_pool_nums = 8,
      default_thread_pool_nums = 16, client_request_thread_pool_queue_capacity = 50000,
      default_thread_pool_queue_capacity = 10000, scan_not_active_broker_interval = 5 * 1000,
      unregister_broker_queue_capacity = 3000, support_acting_master = False,
      enable_all_topic_list = True, enable_topic_list = True,
      cfg_notify_min_broker_id_changed = False, enable_controller_in_namesrv = False,
      need_wait_for_service = False, wait_seconds_for_service = 45,
      delete_topic_with_broker_registration = False,
      config_black_list = ''configBlackList;configStorePath;kvConfigPath''\<rparr>"

definition get_config_blacklist :: "namesrv_config \<Rightarrow> string list" where
  "get_config_blacklist c = map trim (split_char CHR '';'' (config_black_list c))"

datatype config_error = InvalidBoolean string | InvalidInteger string | InvalidValue string | UnknownKey string

definition set_bool ::
  "string \<Rightarrow> string \<Rightarrow> ((bool \<Rightarrow> bool) \<Rightarrow> namesrv_config \<Rightarrow> namesrv_config) \<Rightarrow> namesrv_config
   \<Rightarrow> config_error + namesrv_config" where
  "set_bool key v upd c =
     (case parse_bool v of None \<Rightarrow> Inl (InvalidBoolean key) | Some b \<Rightarrow> Inr (upd (\<lambda>_. b) c))"

definition set_i32 ::
  "string \<Rightarrow> string \<Rightarrow> ((i32 \<Rightarrow> i32) \<Rightarrow> namesrv_config \<Rightarrow> namesrv_config) \<Rightarrow> namesrv_config
   \<Rightarrow> config_error + namesrv_config" where
  "set_i32 key v upd c =
     (case parse_signed 32 v of None \<Rightarrow> Inl (InvalidInteger key) | Some n \<Rightarrow> Inr (upd (\<lambda>_. n) c))"

text \<open>One arm of the match of \<open>update\<close>.\<close>

definition update_key :: "string \<Rightarrow> string \<Rightarrow> namesrv_config \<Rightarrow> config_error + namesrv_config" where
  "update_key key v c =
     (if key = ''rocketmqHome'' then Inr (c\<lparr>rocketmq_home := v\<rparr>)
      else if key = ''kvConfigPath'' then Inr (c\<lparr>kv_config_path := v\<rparr>)
      else if key = ''configStorePath'' then Inr (c\<lparr>config_store_path := v\<rparr>)
      else if key = ''productEnvName'' then Inr (c\<lparr>product_env_name := v\<rparr>)
      else if key = ''clusterTest'' then set_bool key v cluster_test_update c
      else if key = ''orderMessageEnable'' then set_bool key v order_message_enable_update c
      else if key = ''clientRequestThreadPoolNums'' then set_i32 key v client_request_thread_pool_nums_update c
      else if key = ''defaultThreadPoolNums'' then set_i32 key v default_thread_pool_nums_update c
      else if key = ''clientRequestThreadPoolQueueCapacity''
      then set_i32 key v client_request_thread_pool_queue_capacity_update c
      else if key = ''defaultThreadPoolQueueCapacity''
      then set_i32 key v default_thread_pool_queue_capacity_update c
      else if key = ''scanNotActiveBrokerInterval'' then
        (case parse_unsigned 64 v of
           None \<Rightarrow> Inl (InvalidValue key)
         | Some n \<Rightarrow> Inr (c\<lparr>scan_not_active_broker_interval := of_nat n\<rparr>))
      else if key = ''unRegisterBrokerQueueCapacity'' then set_i32 key v unregister_broker_queue_capacity_update c
      else if key = ''supportActingMaster'' then set_bool key v support_acting_master_update c
      else if key = ''enableAllTopicList'' then set_bool key v enable_all_topic_list_update c
      else if key = ''enableTopicList'' then set_bool key v enable_topic_list_update c
      else if key = ''notifyMinBrokerIdChanged'' then set_bool key v cfg_notify_min_broker_id_changed_update c
      else if key = ''enableControllerInNamesrv'' then set_bool key v enable_controller_in_namesrv_update c
      else if key = ''needWaitForService'' then set_bool key v need_wait_for_service_update c
      else if key = ''waitSecondsForService'' then set_i32 key v wait_seconds_for_service_update c
      else if key = ''deleteTopicWithBrokerRegistration''
      then set_bool key v delete_topic_with_broker_registration_update c
      else if key = ''configBlackList'' then Inr (c\<lparr>config_black_list := v\<rparr>)
      else Inl (UnknownKey key))"

text \<open>The loop stops at the first error and keeps what it changed before.\<close>

fun nc_update ::
  "(string, string) hmap \<Rightarrow> namesrv_config \<Rightarrow> namesrv_config \<times> (config_error + unit)" where
  "nc_update [] c = (c, Inr ())"
| "nc_update ((key, v) # props) c =
     (case update_key key v c of
        Inl e \<Rightarrow> (c, Inl e)
      | Inr c' \<Rightarrow> nc_update props c')"

fun properties_of_lines :: "string list \<Rightarrow> (string, string) hmap \<Rightarrow> (string, string) hmap option" where
  "properties_of_lines [] props = Some props"
| "properties_of_lines (l # ls) props =
     (let line = trim l
      in if line = [] \<or> hd line = CHR ''#'' then properties_of_lines ls props
         else
           (case split_once CHR ''='' line of
              Some (key, v) \<Rightarrow> properties_of_lines ls (hm_insert (trim key) (trim v) props)
            | None \<Rightarrow> None))"

definition string_to_properties :: "string \<Rightarrow> (string, string) hmap option" where
  "string_to_properties input = properties_of_lines (str_lines input) []"

definition validate_blacklist_config_exist :: "(string, string) hmap \<Rightarrow> string list \<Rightarrow> bool" where
  "validate_blacklist_config_exist properties config_blacklist \<longleftrightarrow>
     list_ex (\<lambda>black. hm_contains properties black) config_blacklist"

text \<open>The table \<open>get_all_configs_format_string\<close> prints as JSON.\<close>

datatype json_value = JString string | JBool bool | JNumber int

definition config_values :: "namesrv_config \<Rightarrow> (string, json_value) hmap" where
  "config_values c =
     [(''rocketmqHome'', JString (rocketmq_home c)),
      (''kvConfigPath'', JString (kv_config_path c)),
      (''configStorePath'', JString (config_store_path c)),
      (''productEnvName'', JString (product_env_name c)),
      (''clusterTest'', JBool (cluster_test c)),
      (''orderMessageEnable'', JBool (order_message_enable c)),
      (''returnOrderTopicConfigToBroker'', JBool (return_order_topic_config_to_broker c)),
      (''clientRequestThreadPoolNums'', JNumber (client_request_thread_pool_nums c)),
      (''defaultThreadPoolNums'', JNumber (default_thread_pool_nums c)),
      (''clientRequestThreadPoolQueueCapacity'', JNumber (client_request_thread_pool_queue_capacity c)),
      (''defaultThreadPoolQueueCapacity'', JNumber (default_thread_pool_queue_capacity c)),
      (''scanNotActiveBrokerInterval'', JNumber (uint (scan_not_active_broker_interval c))),
      (''unRegisterBrokerQueueCapacity'', JNumber (unregister_broker_queue_capacity c)),
      (''supportActingMaster'', JBool (support_acting_master c)),
      (''enableAllTopicList'', JBool (enable_all_topic_list c)),
      (''enableTopicList'', JBool (enable_topic_list c)),
      (''notifyMinBrokerIdChanged'', JBool (cfg_notify_min_broker_id_changed c)),
      (''enableControllerInNamesrv'', JBool (enable_controller_in_namesrv c)),
      (''needWaitForService'', JBool (need_wait_for_service c)),
      (''waitSecondsForService'', JNumber (wait_seconds_for_service c)),
      (''deleteTopicWithBrokerRegistration'', JBool (delete_topic_with_broker_registration c)),
      (''configBlackList'', JString (config_black_list c))]"

text \<open>The text of a value, as a property file would carry it.\<close>

fun value_text :: "json_value \<Rightarrow> string" where
  "value_text (JString s) = s"
| "value_text (JBool b) = (if b then ''true'' else ''false'')"
| "value_text (JNumber n) = show_int n"

definition config_in_range :: "namesrv_config \<Rightarrow> bool" where
  "config_in_range c \<longleftrightarrow>
     list_all is_i32
       [client_request_thread_pool_nums c, default_thread_pool_nums c,
        client_request_thread_pool_queue_capacity c, default_thread_pool_queue_capacity c,
        unregister_broker_queue_capacity c, wait_seconds_for_service c]"

section \<open>Protected fields\<close>

text \<open>A key only changes its own field.\<close>

lemma update_key_protected:
  assumes "update_key key v c = Inr c'"
  shows "key \<noteq> ''kvConfigPath'' \<Longrightarrow> kv_config_path c' = kv_config_path c"
    and "key \<noteq> ''configStorePath'' \<Longrightarrow> config_store_path c' = config_store_path c"
    and "key \<noteq> ''configBlackList'' \<Longrightarrow> config_black_list c' = config_black_list c"
  using assms unfolding update_key_def
  by (auto simp: set_bool_def set_i32_def split: option.splits if_splits)

lemma nc_update_protected:
  shows "''kvConfigPath'' \<notin> set (hm_keys props) \<Longrightarrow> kv_config_path (fst (nc_update props c)) = kv_config_path c"
    and "''configStorePath'' \<notin> set (hm_keys props) \<Longrightarrow>
      config_store_path (fst (nc_update props c)) = config_store_path c"
    and "''configBlackList'' \<notin> set (hm_keys props) \<Longrightarrow>
      config_black_list (fst (nc_update props c)) = config_black_list c"
  by (induction props c rule: nc_update.induct)
     (auto simp: hm_keys_def update_key_protected split: sum.splits)

lemma validated_keys:
  "\<not> validate_blacklist_config_exist props bl \<Longrightarrow> k \<in> set bl \<Longrightarrow> k \<notin> set (hm_keys props)"
  by (auto simp: validate_blacklist_config_exist_def list_ex_iff hm_keys_iff)

lemma default_blacklist:
  "get_config_blacklist (nc_default a b d) = [''configBlackList'', ''configStorePath'', ''kvConfigPath'']"
  unfolding get_config_blacklist_def nc_default_def by simp code_simp

section \<open>Printing and updating\<close>

lemma set_bool_text:
  "set_bool key (value_text (JBool b)) upd c = Inr (upd (\<lambda>_. b) c)"
  by (simp add: set_bool_def parse_bool_def)

lemma set_i32_text:
  "is_i32 n \<Longrightarrow> set_i32 key (value_text (JNumber n)) upd c = Inr (upd (\<lambda>_. n) c)"
  using parse_show_signed [of 32 n] by (simp add: set_i32_def is_i32_def)

lemma parse_u64_text: "parse_unsigned 64 (value_text (JNumber (uint (w :: u64)))) = Some (unat w)"
proof -
  have "unat w < 2 ^ 64" using unsigned_less [of w, where ?'a = nat] by simp
  moreover have "show_int (uint w) = show_nat (unat w)"
    by (simp add: show_int_def nat_uint_eq)
  ultimately show ?thesis using parse_show_unsigned [of "unat w" 64] by simp
qed

text \<open>
  The printed configuration of one name server can be entered into another: updating any
  configuration with the printed entries copies every field, with one exception. The entry
  \<open>returnOrderTopicConfigToBroker\<close> is printed, but an update that contains it is refused.
\<close>

lemma printed_config_roundtrip:
  assumes "config_in_range c"
  shows "nc_update (map (\<lambda>(k, v). (k, value_text v))
       (filter (\<lambda>(k, v). k \<noteq> ''returnOrderTopicConfigToBroker'') (config_values c))) c'
     = (c\<lparr>return_order_topic_config_to_broker := return_order_topic_config_to_broker c'\<rparr>, Inr ()) \<and>
    update_key ''returnOrderTopicConfigToBroker''
       (value_text (JBool (return_order_topic_config_to_broker c))) c'
     = Inl (UnknownKey ''returnOrderTopicConfigToBroker'')"
proof
  show "nc_update (map (\<lambda>(k, v). (k, value_text v))
       (filter (\<lambda>(k, v). k \<noteq> ''returnOrderTopicConfigToBroker'') (config_values c))) c'
     = (c\<lparr>return_order_topic_config_to_broker := return_order_topic_config_to_broker c'\<rparr>, Inr ())"
    using assms
    by (simp add: config_values_def config_in_range_def update_key_def set_bool_text set_i32_text
        parse_u64_text del: value_text.simps(2,3))
qed (simp add: update_key_def)

end
