(* ===== verification/Route_Info_Manager.thy ===== *)
theory Route_Info_Manager
  imports Route_Data Namesrv_Config "HOL-Library.Sublist"
begin

text \<open>
  The routing tables of the name server
  (\<open>rocketmq-namesrv/src/route/route_info_manager.rs\<close>): registration and removal of brokers and
  topics, the permissions of a broker, the expiry scan, and the queries of clients. The current
  time is an argument of every operation that reads the clock. The one-way notifications that
  the source sends in background tasks are appended to the field \<open>outbox\<close>. An operation that
  may panic returns the tables as they are at that moment together with its outcome, because a
  panic of a request task leaves the tables in place. Each operation is one step; the source takes its lock in the
  registration and the queries, and none in the removal of brokers, the scan, disconnects and heartbeats. The invariant of the tables and the
  properties of the operations are in the theories \<open>Route_Invariant\<close> and \<open>Route_Properties\<close>.
\<close>

section \<open>State\<close>

record route_info =
  topic_queue_table :: "(string, (string, queue_data) hmap) hmap"
  broker_addr_table :: "(string, broker_data) hmap"
  cluster_addr_table :: "(string, string hset) hmap"
  broker_live_table :: "(broker_addr_info, broker_live_info) hmap"
  filter_server_table :: "(broker_addr_info, string list) hmap"
  topic_queue_mapping_info_table :: "(string, (string, topic_queue_mapping_info) hmap) hmap"
  outbox :: "(string \<times> notify_min_broker_id_change) list"

definition ri_new :: route_info where
  "ri_new = \<lparr>topic_queue_table = [], broker_addr_table = [], cluster_addr_table = [],
     broker_live_table = [], filter_server_table = [], topic_queue_mapping_info_table = [],
     outbox = []\<rparr>"

definition default_broker_channel_expired_time :: i64 where
  "default_broker_channel_expired_time = 1000 * 60 * 2"

section \<open>Helpers of the registration\<close>

definition topic_set_of_broker_name :: "string \<Rightarrow> route_info \<Rightarrow> string hset" where
  "topic_set_of_broker_name broker_name r =
     hm_keys (hm_retain (\<lambda>topic m. hm_contains m broker_name) (topic_queue_table r))"

definition query_broker_topic_config :: "string \<Rightarrow> string \<Rightarrow> route_info \<Rightarrow> data_version option" where
  "query_broker_topic_config cluster_name broker_addr r =
     map_option bl_data_version (hm_get (broker_live_table r) (BrokerAddrInfo cluster_name broker_addr))"

definition is_broker_topic_config_changed ::
  "string \<Rightarrow> string \<Rightarrow> data_version \<Rightarrow> route_info \<Rightarrow> bool" where
  "is_broker_topic_config_changed cluster_name broker_addr dv r =
     (case query_broker_topic_config cluster_name broker_addr r of
        Some pre \<Rightarrow> pre \<noteq> dv
      | None \<Rightarrow> True)"

definition is_topic_config_changed ::
  "string \<Rightarrow> string \<Rightarrow> data_version \<Rightarrow> string \<Rightarrow> string \<Rightarrow> route_info \<Rightarrow> bool" where
  "is_topic_config_changed cluster_name broker_addr dv broker_name topic r =
     (if is_broker_topic_config_changed cluster_name broker_addr dv r then True
      else
        (case hm_get (topic_queue_table r) topic of
           Some qm \<Rightarrow> if qm = [] then True else \<not> hm_contains qm broker_name
         | None \<Rightarrow> True))"

text \<open>The topic name has been unwrapped by the caller, see \<open>update_topic_configs\<close>.\<close>

definition create_and_update_queue_data ::
  "string \<Rightarrow> string \<Rightarrow> topic_config \<Rightarrow> route_info \<Rightarrow> route_info" where
  "create_and_update_queue_data broker_name topic tc r =
     (let qd = qd_new broker_name (tc_write_queue_nums tc) (tc_read_queue_nums tc)
                 (tc_perm tc) (tc_topic_sys_flag tc)
      in case hm_get (topic_queue_table r) topic of
           Some qm \<Rightarrow>
             (case hm_get qm broker_name of
                None \<Rightarrow>
                  r\<lparr>topic_queue_table :=
                      hm_insert topic (hm_insert broker_name qd qm) (topic_queue_table r)\<rparr>
              | Some existed \<Rightarrow>
                  if existed \<noteq> qd then
                    r\<lparr>topic_queue_table :=
                        hm_insert topic (hm_insert broker_name qd qm) (topic_queue_table r)\<rparr>
                  else r)
         | None \<Rightarrow>
             r\<lparr>topic_queue_table :=
                 hm_insert topic (hm_insert broker_name qd []) (topic_queue_table r)\<rparr>)"

definition choose_broker_addrs_to_notify :: "(u64, string) hmap \<Rightarrow> string option \<Rightarrow> string list" where
  "choose_broker_addrs_to_notify addrs offline =
     (if length addrs = 1 \<or> offline \<noteq> None then hm_values addrs
      else
        (case min_key addrs of
           None \<Rightarrow> []
         | Some m \<Rightarrow> hm_values (hm_retain (\<lambda>key _. key \<noteq> m) addrs)))"

definition notify_min_broker_id_changed ::
  "(u64, string) hmap \<Rightarrow> string option \<Rightarrow> string option \<Rightarrow> route_info \<Rightarrow> route_info" where
  "notify_min_broker_id_changed addrs offline ha r =
     (case min_key addrs of
        None \<Rightarrow> r
      | Some m \<Rightarrow>
          let header = \<lparr>nm_min_broker_id = Some m, nm_broker_name = None,
                nm_min_broker_addr = hm_get addrs m, nm_offline_broker_addr = offline,
                nm_ha_broker_addr = ha\<rparr>
          in r\<lparr>outbox := outbox r @
                 map (\<lambda>addr. (addr, header)) (choose_broker_addrs_to_notify addrs offline)\<rparr>)"

section \<open>Registration\<close>

definition enter_cluster :: "string \<Rightarrow> string \<Rightarrow> route_info \<Rightarrow> route_info" where
  "enter_cluster cluster_name broker_name r =
     r\<lparr>cluster_addr_table :=
         hm_insert cluster_name
           (hs_insert broker_name
              (case hm_get (cluster_addr_table r) cluster_name of Some s \<Rightarrow> s | None \<Rightarrow> []))
           (cluster_addr_table r)\<rparr>"

text \<open>Finds or creates the broker data; the flag tells that it was created.\<close>

definition enter_broker ::
  "string \<Rightarrow> string \<Rightarrow> string option \<Rightarrow> bool \<Rightarrow> route_info \<Rightarrow> broker_data \<times> bool" where
  "enter_broker cluster_name broker_name zone_name acting r =
     (case hm_get (broker_addr_table r) broker_name of
        Some bd \<Rightarrow> (bd\<lparr>bd_enable_acting_master := acting, bd_zone_name := zone_name\<rparr>, False)
      | None \<Rightarrow>
          ((bd_new cluster_name broker_name [] zone_name)\<lparr>bd_enable_acting_master := acting\<rparr>, True))"

definition put_broker :: "string \<Rightarrow> broker_data \<Rightarrow> route_info \<Rightarrow> route_info" where
  "put_broker broker_name bd r =
     r\<lparr>broker_addr_table := hm_insert broker_name bd (broker_addr_table r)\<rparr>"

text \<open>
  The address registered under the same id belongs to another address whose live entry carries a
  newer state version.
\<close>

definition registration_conflict ::
  "string \<Rightarrow> string \<Rightarrow> u64 \<Rightarrow> topic_config_wrapper \<Rightarrow> broker_data \<Rightarrow> route_info \<Rightarrow> bool" where
  "registration_conflict cluster_name broker_addr broker_id w bd r =
     (case hm_get (bd_broker_addrs bd) broker_id of
        None \<Rightarrow> False
      | Some old_broker_addr \<Rightarrow>
          old_broker_addr \<noteq> broker_addr \<and>
          (case hm_get (broker_live_table r) (BrokerAddrInfo cluster_name old_broker_addr) of
             None \<Rightarrow> False
           | Some val \<Rightarrow> state_version (bl_data_version val) > state_version (wrapper_data_version w)))"

definition delete_topic_of_broker :: "string \<Rightarrow> string \<Rightarrow> route_info \<Rightarrow> route_info" where
  "delete_topic_of_broker broker_name topic r =
     (case hm_get (topic_queue_table r) topic of
        None \<Rightarrow> r
      | Some qm \<Rightarrow>
          let qm' = hm_remove broker_name qm
          in r\<lparr>topic_queue_table :=
                 (if qm' = [] then hm_remove topic (topic_queue_table r)
                  else hm_insert topic qm' (topic_queue_table r))\<rparr>)"

text \<open>The block that deletes topics on a registration.\<close>

definition delete_topics_on_registration ::
  "namesrv_config \<Rightarrow> string \<Rightarrow> topic_config_wrapper \<Rightarrow> route_info \<Rightarrow> route_info" where
  "delete_topics_on_registration cfg broker_name w r =
     (if delete_topic_with_broker_registration cfg \<and> topic_queue_mapping_info_map w = [] then
        let old_topic_set = topic_set_of_broker_name broker_name r;
            new_topic_set = hm_keys (topic_config_table w);
            to_delete_topics = hs_diff new_topic_set old_topic_set
        in fold (delete_topic_of_broker broker_name) to_delete_topics r
      else r)"

fun update_topic_configs ::
  "string \<Rightarrow> string \<Rightarrow> string \<Rightarrow> data_version \<Rightarrow> bool \<Rightarrow> bool \<Rightarrow> bool \<Rightarrow> topic_config list
   \<Rightarrow> route_info \<Rightarrow> route_info \<times> unit outcome" where
  "update_topic_configs cluster_name broker_addr broker_name dv register_first prime acting [] r =
     (r, Returned ())"
| "update_topic_configs cluster_name broker_addr broker_name dv register_first prime acting (tc # tcs) r =
     (case tc_topic_name tc of
        None \<Rightarrow> (r, Panicked)
      | Some topic \<Rightarrow>
          let config =
                (if (register_first \<or>
                     is_topic_config_changed cluster_name broker_addr dv broker_name topic r)
                    \<and> prime \<and> acting
                 then tc\<lparr>tc_perm := tc_perm tc AND NOT perm_write\<rparr> else tc)
          in update_topic_configs cluster_name broker_addr broker_name dv register_first prime acting
               tcs (create_and_update_queue_data broker_name topic config r))"

fun update_mapping_infos ::
  "(string \<times> topic_queue_mapping_info) list \<Rightarrow> route_info \<Rightarrow> route_info \<times> unit outcome" where
  "update_mapping_infos [] r = (r, Returned ())"
| "update_mapping_infos ((topic, vtq_info) # infos) r =
     (let tbl = topic_queue_mapping_info_table r;
          tbl' = (if hm_contains tbl topic then tbl else hm_insert topic [] tbl);
          r' = r\<lparr>topic_queue_mapping_info_table := tbl'\<rparr>
      in case (hm_get tbl' topic, mi_bname vtq_info) of
           (Some m, Some bname) \<Rightarrow>
             update_mapping_infos infos
               (r'\<lparr>topic_queue_mapping_info_table := hm_insert topic (hm_insert bname vtq_info m) tbl'\<rparr>)
         | _ \<Rightarrow> (r', Panicked))"

text \<open>The branch for a master or a prime slave.\<close>

definition update_topics_on_registration ::
  "namesrv_config \<Rightarrow> string \<Rightarrow> string \<Rightarrow> string \<Rightarrow> topic_config_wrapper \<Rightarrow> bool \<Rightarrow> bool \<Rightarrow> bool
   \<Rightarrow> route_info \<Rightarrow> route_info \<times> unit outcome" where
  "update_topics_on_registration cfg cluster_name broker_addr broker_name w register_first prime acting r =
     (let r1 = delete_topics_on_registration cfg broker_name w r;
          dv = wrapper_data_version w
      in case update_topic_configs cluster_name broker_addr broker_name dv register_first prime acting
                (hm_values (topic_config_table w)) r1 of
           (r2, Panicked) \<Rightarrow> (r2, Panicked)
         | (r2, Returned _) \<Rightarrow>
             if is_broker_topic_config_changed cluster_name broker_addr dv r2 \<or> register_first
             then update_mapping_infos (topic_queue_mapping_info_map w) r2
             else (r2, Returned ()))"

text \<open>The tail of the registration: liveness, filter servers, the answer and the notification.\<close>

definition finish_registration ::
  "namesrv_config \<Rightarrow> i64 \<Rightarrow> string \<Rightarrow> string \<Rightarrow> u64 \<Rightarrow> string \<Rightarrow> i64 option \<Rightarrow> topic_config_wrapper
   \<Rightarrow> string list \<Rightarrow> socket_addr \<Rightarrow> broker_data \<Rightarrow> bool \<Rightarrow> route_info
   \<Rightarrow> route_info \<times> register_broker_result option outcome" where
  "finish_registration cfg now cluster_name broker_addr broker_id ha_server_addr timeout_millis w
     filter_server_list remote_addr bd is_min_broker_id_changed r =
     (let info = BrokerAddrInfo cluster_name broker_addr;
          live = \<lparr>bl_last_update_timestamp = now,
                  bl_heartbeat_timeout_millis =
                    (case timeout_millis of Some t \<Rightarrow> t | None \<Rightarrow> default_broker_channel_expired_time),
                  bl_data_version = wrapper_data_version w,
                  bl_ha_server_addr = ha_server_addr, bl_remote_addr = remote_addr\<rparr>;
          r1 = r\<lparr>broker_live_table := hm_insert info live (broker_live_table r)\<rparr>;
          r2 = r1\<lparr>filter_server_table :=
                   (if filter_server_list = [] then hm_remove info (filter_server_table r1)
                    else hm_insert info filter_server_list (filter_server_table r1))\<rparr>;
          result =
            (if master_id \<noteq> broker_id then
               (case hm_get (bd_broker_addrs bd) master_id of
                  None \<Rightarrow> rr_default
                | Some master_addr \<Rightarrow>
                    (case hm_get (broker_live_table r2) (BrokerAddrInfo cluster_name master_addr) of
                       None \<Rightarrow> rr_default
                     | Some i \<Rightarrow> rr_default\<lparr>rr_ha_server_addr := bl_ha_server_addr i,
                                           rr_master_addr := bl_ha_server_addr i\<rparr>))
             else rr_default);
          r3 = (if is_min_broker_id_changed \<and> cfg_notify_min_broker_id_changed cfg
                then notify_min_broker_id_changed (bd_broker_addrs bd) None (Some ha_server_addr) r2
                else r2)
      in (r3, Returned (Some result)))"

definition register_broker ::
  "namesrv_config \<Rightarrow> i64 \<Rightarrow> string \<Rightarrow> string \<Rightarrow> string \<Rightarrow> u64 \<Rightarrow> string \<Rightarrow> string option \<Rightarrow> i64 option
   \<Rightarrow> bool option \<Rightarrow> topic_config_wrapper \<Rightarrow> string list \<Rightarrow> socket_addr \<Rightarrow> route_info
   \<Rightarrow> route_info \<times> register_broker_result option outcome" where
  "register_broker cfg now cluster_name broker_addr broker_name broker_id ha_server_addr zone_name
     timeout_millis enable_acting_master w filter_server_list remote_addr r =
     (let acting = (case enable_acting_master of Some b \<Rightarrow> b | None \<Rightarrow> False);
          r1 = enter_cluster cluster_name broker_name r;
          (bd0, created) = enter_broker cluster_name broker_name zone_name acting r1;
          prev_min_broker_id = (case min_key (bd_broker_addrs bd0) of Some m \<Rightarrow> m | None \<Rightarrow> 0);
          is_min_broker_id_changed = broker_id < prev_min_broker_id;
          bd1 = remove_broker_by_addr broker_id broker_addr bd0;
          r2 = put_broker broker_name bd1 r1
      in if registration_conflict cluster_name broker_addr broker_id w bd1 r2 then
           (r2\<lparr>broker_live_table :=
                 hm_remove (BrokerAddrInfo cluster_name broker_addr) (broker_live_table r2)\<rparr>,
            Returned (Some rr_default))
         else if \<not> hm_contains (bd_broker_addrs bd1) broker_id \<and> length (topic_config_table w) = 1 then
           (r2, Returned None)
         else
           let old_addr = hm_get (bd_broker_addrs bd1) broker_id;
               bd2 = bd1\<lparr>bd_broker_addrs := hm_insert broker_id broker_addr (bd_broker_addrs bd1)\<rparr>;
               r3 = put_broker broker_name bd2 r2;
               register_first = (created \<or> old_addr = None \<or> old_addr = Some []);
               is_master = (master_id = broker_id);
               is_prime_slave = (enable_acting_master \<noteq> None \<and> \<not> is_master \<and>
                                 Some broker_id = min_key (bd_broker_addrs bd2))
           in case
                (if is_master \<or> is_prime_slave then
                   update_topics_on_registration cfg cluster_name broker_addr broker_name w
                     register_first is_prime_slave (bd_enable_acting_master bd2) r3
                 else (r3, Returned ()))
              of
                (r4, Panicked) \<Rightarrow> (r4, Panicked)
              | (r4, Returned _) \<Rightarrow>
                  finish_registration cfg now cluster_name broker_addr broker_id ha_server_addr
                    timeout_millis w filter_server_list remote_addr bd2 is_min_broker_id_changed r4)"

section \<open>Queries\<close>

definition get_all_cluster_info ::
  "route_info \<Rightarrow> (string, broker_data) hmap option \<times> (string, string hset) hmap option" where
  "get_all_cluster_info r = (Some (broker_addr_table r), Some (cluster_addr_table r))"

text \<open>The filter servers of the addresses of one broker.\<close>

definition collect_filter_servers ::
  "route_info \<Rightarrow> broker_data \<Rightarrow> (string, string list) hmap \<Rightarrow> (string, string list) hmap" where
  "collect_filter_servers r bd acc =
     (if filter_server_table r \<noteq> [] then
        fold (\<lambda>broker_addr acc.
                case hm_get (filter_server_table r) (BrokerAddrInfo (bd_cluster bd) broker_addr) of
                  Some l \<Rightarrow> hm_insert broker_addr l acc
                | None \<Rightarrow> acc)
          (hm_values (bd_broker_addrs bd)) acc
      else acc)"

fun collect_brokers ::
  "route_info \<Rightarrow> string list \<Rightarrow> broker_data list \<times> (string, string list) hmap
   \<Rightarrow> broker_data list \<times> (string, string list) hmap" where
  "collect_brokers r [] acc = acc"
| "collect_brokers r (broker_name # names) (bds, fs) =
     (case hm_get (broker_addr_table r) broker_name of
        Some bd \<Rightarrow> collect_brokers r names (bds @ [bd], collect_filter_servers r bd fs)
      | None \<Rightarrow> collect_brokers r names (bds, fs))"

text \<open>The first queue data of the broker decides; the loop breaks after it.\<close>

definition act_as_master :: "queue_data list \<Rightarrow> broker_data \<Rightarrow> broker_data" where
  "act_as_master qds bd =
     (if bd_broker_addrs bd = [] \<or> hm_contains (bd_broker_addrs bd) master_id
         \<or> \<not> bd_enable_acting_master bd
      then bd
      else
        (case find (\<lambda>qd. qd_broker_name qd = bd_broker_name bd) qds of
           None \<Rightarrow> bd
         | Some qd \<Rightarrow>
             if \<not> perm_is_writeable (qd_perm qd) then
               (case min_key (bd_broker_addrs bd) of
                  None \<Rightarrow> bd
                | Some min_broker_id \<Rightarrow>
                    (case hm_get (bd_broker_addrs bd) min_broker_id of
                       None \<Rightarrow> bd
                     | Some addr \<Rightarrow>
                         bd\<lparr>bd_broker_addrs :=
                              hm_insert master_id addr (hm_remove min_broker_id (bd_broker_addrs bd))\<rparr>))
             else bd))"

definition sync_broker_member_group_prefix :: string where
  "sync_broker_member_group_prefix = ''rmq_sys_SYNC_BROKER_MEMBER_''"

definition pickup_topic_route_data ::
  "namesrv_config \<Rightarrow> string \<Rightarrow> route_info \<Rightarrow> topic_route_data option" where
  "pickup_topic_route_data cfg topic r =
     (case hm_get (topic_queue_table r) topic of
        None \<Rightarrow> None
      | Some qm \<Rightarrow>
          (case collect_brokers r (hm_keys qm) ([], []) of
             (bds, fs) \<Rightarrow>
               if bds = [] then None
               else
                 let route = \<lparr>order_topic_conf = None, queue_datas = hm_values qm, broker_datas = bds,
                       route_filter_server_table = fs,
                       topic_queue_mapping_by_broker =
                         hm_get (topic_queue_mapping_info_table r) topic\<rparr>
                 in if \<not> support_acting_master cfg then Some route
                    else if prefix sync_broker_member_group_prefix topic then Some route
                    else if broker_datas route = [] \<or> queue_datas route = [] then Some route
                    else if \<not> list_ex (\<lambda>bd. bd_broker_addrs bd \<noteq> [] \<and>
                                  \<not> hm_contains (bd_broker_addrs bd) master_id) bds
                    then Some route
                    else Some (route\<lparr>broker_datas := map (act_as_master (queue_datas route)) bds\<rparr>)))"

definition get_broker_member_group :: "string \<Rightarrow> string \<Rightarrow> route_info \<Rightarrow> broker_member_group option" where
  "get_broker_member_group cluster_name broker_name r =
     Some \<lparr>mg_cluster = cluster_name, mg_broker_name = broker_name,
           mg_broker_addrs = (case hm_get (broker_addr_table r) broker_name of
                                Some bd \<Rightarrow> bd_broker_addrs bd | None \<Rightarrow> [])\<rparr>"

definition get_all_topic_list :: "route_info \<Rightarrow> topic_list" where
  "get_all_topic_list r = \<lparr>tl_topic_list = hm_keys (topic_queue_table r), tl_broker_addr = None\<rparr>"

definition get_topics_by_cluster :: "string \<Rightarrow> route_info \<Rightarrow> topic_list" where
  "get_topics_by_cluster cl r =
     \<lparr>tl_topic_list =
        (case hm_get (cluster_addr_table r) cl of
           None \<Rightarrow> []
         | Some names \<Rightarrow>
             concat (map (\<lambda>broker_name. map fst (filter (\<lambda>(topic, qm). hm_contains qm broker_name)
                                                  (topic_queue_table r))) names)),
      tl_broker_addr = None\<rparr>"

definition get_system_topic_list :: "route_info \<Rightarrow> topic_list" where
  "get_system_topic_list r =
     \<lparr>tl_topic_list = concat (map (\<lambda>(cl, names). cl # names) (cluster_addr_table r)),
      tl_broker_addr =
        (case find (\<lambda>bd. bd_broker_addrs bd \<noteq> []) (hm_values (broker_addr_table r)) of
           None \<Rightarrow> None
         | Some bd \<Rightarrow> (case hm_values (bd_broker_addrs bd) of [] \<Rightarrow> None | a # _ \<Rightarrow> Some a))\<rparr>"

definition topics_with_flag :: "(u32 \<Rightarrow> bool) \<Rightarrow> route_info \<Rightarrow> topic_list" where
  "topics_with_flag P r =
     \<lparr>tl_topic_list = map fst (filter (\<lambda>(topic, qm).
          case hm_values qm of [] \<Rightarrow> False | qd # _ \<Rightarrow> P (qd_topic_sys_flag qd)) (topic_queue_table r)),
      tl_broker_addr = None\<rparr>"

definition get_unit_topics :: "route_info \<Rightarrow> topic_list" where
  "get_unit_topics r = topics_with_flag has_unit_flag r"

definition get_has_unit_sub_topic_list :: "route_info \<Rightarrow> topic_list" where
  "get_has_unit_sub_topic_list r = topics_with_flag has_unit_sub_flag r"

definition get_has_unit_sub_un_unit_topic_list :: "route_info \<Rightarrow> topic_list" where
  "get_has_unit_sub_un_unit_topic_list r =
     topics_with_flag (\<lambda>f. \<not> has_unit_flag f \<and> has_unit_sub_flag f) r"

section \<open>Topics and permissions\<close>

definition update_broker_info_update_timestamp ::
  "i64 \<Rightarrow> string \<Rightarrow> string \<Rightarrow> route_info \<Rightarrow> route_info" where
  "update_broker_info_update_timestamp now cluster_name broker_addr r =
     (let info = BrokerAddrInfo cluster_name broker_addr
      in case hm_get (broker_live_table r) info of
           None \<Rightarrow> r
         | Some v \<Rightarrow>
             r\<lparr>broker_live_table :=
                 hm_insert info (v\<lparr>bl_last_update_timestamp := now\<rparr>) (broker_live_table r)\<rparr>)"

datatype write_perm_request = WipeWritePermOfBroker | AddWritePermOfBroker

fun new_perm :: "write_perm_request \<Rightarrow> u32 \<Rightarrow> u32" where
  "new_perm WipeWritePermOfBroker perm = perm AND NOT perm_write"
| "new_perm AddWritePermOfBroker perm = perm_read OR perm_write"

definition operate_write_perm_of_broker ::
  "string \<Rightarrow> write_perm_request \<Rightarrow> route_info \<Rightarrow> route_info \<times> i32" where
  "operate_write_perm_of_broker broker_name code r =
     (r\<lparr>topic_queue_table :=
          hm_map (\<lambda>topic qm.
            case hm_get qm broker_name of
              None \<Rightarrow> qm
            | Some qd \<Rightarrow> hm_insert broker_name (qd\<lparr>qd_perm := new_perm code (qd_perm qd)\<rparr>) qm)
            (topic_queue_table r)\<rparr>,
      fold (\<lambda>qm cnt. if hm_contains qm broker_name then wrap_i32 (cnt + 1) else cnt)
        (hm_values (topic_queue_table r)) 0)"

definition wipe_write_perm_of_broker_by_lock :: "string \<Rightarrow> route_info \<Rightarrow> route_info \<times> i32" where
  "wipe_write_perm_of_broker_by_lock broker_name r =
     operate_write_perm_of_broker broker_name WipeWritePermOfBroker r"

definition add_write_perm_of_broker_by_lock :: "string \<Rightarrow> route_info \<Rightarrow> route_info \<times> i32" where
  "add_write_perm_of_broker_by_lock broker_name r =
     operate_write_perm_of_broker broker_name AddWritePermOfBroker r"

definition delete_topic :: "string \<Rightarrow> string option \<Rightarrow> route_info \<Rightarrow> route_info" where
  "delete_topic topic cluster_name r =
     (if cluster_name \<noteq> None \<and> cluster_name \<noteq> Some [] then
        (case hm_get (cluster_addr_table r) (the cluster_name) of
           None \<Rightarrow> r
         | Some broker_names \<Rightarrow>
             if broker_names = [] then r
             else
               (case hm_get (topic_queue_table r) topic of
                  None \<Rightarrow> r
                | Some qm \<Rightarrow>
                    let qm' = fold hm_remove broker_names qm
                    in r\<lparr>topic_queue_table :=
                           (if qm' = [] then hm_remove topic (topic_queue_table r)
                            else hm_insert topic qm' (topic_queue_table r))\<rparr>))
      else r\<lparr>topic_queue_table := hm_remove topic (topic_queue_table r)\<rparr>)"

text \<open>The loop returns at the first queue data of an unknown broker.\<close>

fun insert_queue_datas ::
  "route_info \<Rightarrow> queue_data list \<Rightarrow> (string, queue_data) hmap \<Rightarrow> (string, queue_data) hmap" where
  "insert_queue_datas r [] qm = qm"
| "insert_queue_datas r (qd # qds) qm =
     (if \<not> hm_contains (broker_addr_table r) (qd_broker_name qd) then qm
      else insert_queue_datas r qds (hm_insert (qd_broker_name qd) qd qm))"

definition register_topic :: "string \<Rightarrow> queue_data list \<Rightarrow> route_info \<Rightarrow> route_info" where
  "register_topic topic qds r =
     (if qds = [] then r
      else
        let qm = (case hm_get (topic_queue_table r) topic of Some qm \<Rightarrow> qm | None \<Rightarrow> [])
        in r\<lparr>topic_queue_table := hm_insert topic (insert_queue_datas r qds qm) (topic_queue_table r)\<rparr>)"

section \<open>Removal of brokers\<close>

text \<open>
  Loop state of \<open>un_register_broker\<close>: the tables, the brokers that are removed, those that lost an
  address, and the brokers whose minimal id changed with their remaining addresses and the
  address that went away.
\<close>

record unreg_state =
  us_tables :: route_info
  us_removed :: "string hset"
  us_reduced :: "string hset"
  us_notify :: "(string, (u64, string) hmap \<times> string) hmap"

definition un_register_one :: "un_register_request \<Rightarrow> unreg_state \<Rightarrow> unreg_state" where
  "un_register_one q s =
     (let r = us_tables s;
          broker_name = ur_broker_name q; cluster_name = ur_cluster_name q; addr = ur_broker_addr q;
          info = BrokerAddrInfo cluster_name addr;
          r1 = r\<lparr>broker_live_table := hm_remove info (broker_live_table r),
                filter_server_table := hm_remove info (filter_server_table r)\<rparr>
      in case hm_get (broker_addr_table r1) broker_name of
           None \<Rightarrow> s\<lparr>us_tables := r1, us_reduced := hs_insert broker_name (us_reduced s)\<rparr>
         | Some bd \<Rightarrow>
             let is_min_changed = (min_key (bd_broker_addrs bd) = Some (ur_broker_id q));
                 addrs = hm_retain (\<lambda>_ a. addr \<noteq> a) (bd_broker_addrs bd)
             in if addrs = [] then
                  s\<lparr>us_tables :=
                      r1\<lparr>broker_addr_table := hm_remove broker_name (broker_addr_table r1),
                         cluster_addr_table :=
                           (case hm_get (cluster_addr_table r1) cluster_name of
                              None \<Rightarrow> cluster_addr_table r1
                            | Some names \<Rightarrow>
                                if hs_remove broker_name names = []
                                then hm_remove cluster_name (cluster_addr_table r1)
                                else hm_insert cluster_name (hs_remove broker_name names)
                                       (cluster_addr_table r1))\<rparr>,
                    us_removed := hs_insert broker_name (us_removed s)\<rparr>
                else
                  s\<lparr>us_tables :=
                      r1\<lparr>broker_addr_table :=
                           hm_insert broker_name (bd\<lparr>bd_broker_addrs := addrs\<rparr>) (broker_addr_table r1)\<rparr>,
                    us_reduced := hs_insert broker_name (us_reduced s),
                    us_notify :=
                      (if is_min_changed then hm_insert broker_name (addrs, addr) (us_notify s)
                       else us_notify s)\<rparr>)"

definition is_no_master_exists :: "string \<Rightarrow> route_info \<Rightarrow> bool" where
  "is_no_master_exists broker_name r =
     (case hm_get (broker_addr_table r) broker_name of
        None \<Rightarrow> True
      | Some bd \<Rightarrow> (case min_key (bd_broker_addrs bd) of None \<Rightarrow> True | Some m \<Rightarrow> m > 0))"

text \<open>The inner loop of \<open>clean_topic_by_un_register_requests\<close> over the reduced brokers.\<close>

definition wipe_reduced ::
  "route_info \<Rightarrow> string \<Rightarrow> (string, queue_data) hmap \<Rightarrow> (string, queue_data) hmap" where
  "wipe_reduced r broker_name qm =
     (case hm_get qm broker_name of
        None \<Rightarrow> qm
      | Some qd \<Rightarrow>
          (case hm_get (broker_addr_table r) broker_name of
             None \<Rightarrow> qm
           | Some bd \<Rightarrow>
               if bd_enable_acting_master bd \<and> is_no_master_exists broker_name r
               then hm_insert broker_name (qd\<lparr>qd_perm := qd_perm qd AND NOT perm_write\<rparr>) qm
               else qm))"

definition clean_topic_by_un_register_requests ::
  "string hset \<Rightarrow> string hset \<Rightarrow> route_info \<Rightarrow> route_info" where
  "clean_topic_by_un_register_requests removed reduced r =
     r\<lparr>topic_queue_table :=
         map (\<lambda>(topic, qm). (topic, fold (wipe_reduced r) reduced qm))
           (filter (\<lambda>(topic, qm). qm \<noteq> [])
              (map (\<lambda>(topic, qm). (topic, fold hm_remove removed qm)) (topic_queue_table r)))\<rparr>"

definition notify_reduced ::
  "(string \<times> (u64, string) hmap \<times> string) list \<Rightarrow> route_info \<Rightarrow> route_info" where
  "notify_reduced ns r =
     fold (\<lambda>(broker_name, addrs, offline) r.
             case hm_get (broker_addr_table r) broker_name of
               None \<Rightarrow> r
             | Some bd \<Rightarrow>
                 if \<not> bd_enable_acting_master bd then r
                 else notify_min_broker_id_changed addrs (Some offline) None r)
       ns r"

definition un_register_broker ::
  "namesrv_config \<Rightarrow> un_register_request list \<Rightarrow> route_info \<Rightarrow> route_info" where
  "un_register_broker cfg requests r =
     (let s = fold un_register_one requests
                \<lparr>us_tables = r, us_removed = [], us_reduced = [], us_notify = []\<rparr>;
          r1 = clean_topic_by_un_register_requests (us_removed s) (us_reduced s) (us_tables s)
      in if us_notify s \<noteq> [] \<and> cfg_notify_min_broker_id_changed cfg
         then notify_reduced (us_notify s) r1 else r1)"

definition setup_un_register_request ::
  "broker_addr_info \<Rightarrow> route_info \<Rightarrow> un_register_request option" where
  "setup_un_register_request info r =
     (case find (\<lambda>bd. bai_cluster_name info = bd_cluster bd \<and>
                      bai_broker_addr info \<in> set (hm_values (bd_broker_addrs bd)))
             (hm_values (broker_addr_table r)) of
        None \<Rightarrow> None
      | Some bd \<Rightarrow>
          (case find (\<lambda>(i, ip). bai_broker_addr info = ip) (bd_broker_addrs bd) of
             None \<Rightarrow> None
           | Some (i, ip) \<Rightarrow>
               Some \<lparr>ur_broker_name = bd_broker_name bd, ur_broker_addr = bai_broker_addr info,
                     ur_cluster_name = bai_cluster_name info, ur_broker_id = i\<rparr>))"

definition on_connection_disconnected ::
  "namesrv_config \<Rightarrow> broker_addr_info \<Rightarrow> route_info \<Rightarrow> route_info" where
  "on_connection_disconnected cfg info r =
     (case setup_un_register_request info r of
        Some q \<Rightarrow> un_register_broker cfg [q] r
      | None \<Rightarrow> r)"

definition scan_not_active_broker :: "namesrv_config \<Rightarrow> i64 \<Rightarrow> route_info \<Rightarrow> route_info" where
  "scan_not_active_broker cfg now r =
     fold (\<lambda>(info, live) r.
             if wrap_i64 (bl_heartbeat_timeout_millis live + bl_last_update_timestamp live) < now
             then on_connection_disconnected cfg info r else r)
       (broker_live_table r) r"

definition connection_disconnected :: "namesrv_config \<Rightarrow> socket_addr \<Rightarrow> route_info \<Rightarrow> route_info" where
  "connection_disconnected cfg addr r =
     (case find (\<lambda>(info, live). bl_remote_addr live = addr) (broker_live_table r) of
        Some (info, live) \<Rightarrow> on_connection_disconnected cfg info r
      | None \<Rightarrow> r)"

end
