(* ===== verification/Route_Invariant.thy ===== *)
theory Route_Invariant
  imports Route_Info_Manager
begin

text \<open>
  The invariant of the name server's tables, kept by every operation, also by one that ends in
  a panic: keys are unique, an entry is filed under its own broker name, a broker's addresses
  are pairwise different, a broker is a member of its cluster, and every queue entry of a topic
  belongs to a broker that is registered, so a route never points to an unknown broker.
\<close>

section \<open>Operations\<close>

datatype route_op =
    RegisterBroker i64 string string string u64 string "string option" "i64 option" "bool option"
      topic_config_wrapper "string list" socket_addr
  | UnRegisterBroker "un_register_request list"
  | RegisterTopic string "queue_data list"
  | DeleteTopic string "string option"
  | OperateWritePerm string write_perm_request
  | UpdateTimestamp i64 string string
  | ScanNotActiveBroker i64
  | ConnectionDisconnected socket_addr

fun route_step :: "namesrv_config \<Rightarrow> route_op \<Rightarrow> route_info \<Rightarrow> route_info" where
  "route_step cfg (RegisterBroker now cl addr bn i ha zone timeout acting w fs remote) r =
     fst (register_broker cfg now cl addr bn i ha zone timeout acting w fs remote r)"
| "route_step cfg (UnRegisterBroker requests) r = un_register_broker cfg requests r"
| "route_step cfg (RegisterTopic topic qds) r = register_topic topic qds r"
| "route_step cfg (DeleteTopic topic cl) r = delete_topic topic cl r"
| "route_step cfg (OperateWritePerm bn code) r = fst (operate_write_perm_of_broker bn code r)"
| "route_step cfg (UpdateTimestamp now cl addr) r = update_broker_info_update_timestamp now cl addr r"
| "route_step cfg (ScanNotActiveBroker now) r = scan_not_active_broker cfg now r"
| "route_step cfg (ConnectionDisconnected addr) r = connection_disconnected cfg addr r"

section \<open>The invariant\<close>

definition queue_map_ok :: "(string \<Rightarrow> bool) \<Rightarrow> (string, queue_data) hmap \<Rightarrow> bool" where
  "queue_map_ok known qm \<longleftrightarrow> hm_inv qm \<and> hm_all (\<lambda>b qd. qd_broker_name qd = b \<and> known b) qm"

definition addrs_ok :: "(u64, string) hmap \<Rightarrow> bool" where
  "addrs_ok m \<longleftrightarrow> hm_inv m \<and> distinct (hm_values m)"

definition in_cluster :: "(string, string hset) hmap \<Rightarrow> string \<Rightarrow> string \<Rightarrow> bool" where
  "in_cluster cat cl bn \<longleftrightarrow>
     (case hm_get cat cl of None \<Rightarrow> False | Some names \<Rightarrow> bn \<in> set names)"

definition broker_ok :: "(string, string hset) hmap \<Rightarrow> string \<Rightarrow> broker_data \<Rightarrow> bool" where
  "broker_ok cat bn bd \<longleftrightarrow>
     bd_broker_name bd = bn \<and> addrs_ok (bd_broker_addrs bd) \<and> in_cluster cat (bd_cluster bd) bn"

definition tables_ok :: "(string \<Rightarrow> bool) \<Rightarrow> route_info \<Rightarrow> bool" where
  "tables_ok known r \<longleftrightarrow>
     hm_inv (topic_queue_table r) \<and> hm_all (\<lambda>_. queue_map_ok known) (topic_queue_table r) \<and>
     hm_inv (broker_addr_table r) \<and> hm_all (broker_ok (cluster_addr_table r)) (broker_addr_table r) \<and>
     hm_inv (cluster_addr_table r) \<and> hm_all (\<lambda>_. distinct) (cluster_addr_table r) \<and>
     hm_inv (broker_live_table r) \<and> hm_inv (filter_server_table r) \<and>
     hm_inv (topic_queue_mapping_info_table r) \<and>
     hm_all (\<lambda>_. hm_inv) (topic_queue_mapping_info_table r)"

definition route_inv :: "route_info \<Rightarrow> bool" where
  "route_inv r \<longleftrightarrow> tables_ok (hm_contains (broker_addr_table r)) r"

section \<open>Component lemmas\<close>

lemma queue_map_ok_empty [simp]: "queue_map_ok known []"
  by (simp add: queue_map_ok_def)

lemma queue_map_ok_insert:
  "queue_map_ok known qm \<Longrightarrow> qd_broker_name qd = b \<Longrightarrow> known b \<Longrightarrow> queue_map_ok known (hm_insert b qd qm)"
  by (simp add: queue_map_ok_def hm_all_insert)

lemma queue_map_ok_remove: "queue_map_ok known qm \<Longrightarrow> queue_map_ok known (hm_remove b qm)"
  by (simp add: queue_map_ok_def hm_all_remove)

lemma queue_map_ok_mono:
  "queue_map_ok known qm \<Longrightarrow> (\<And>b. known b \<Longrightarrow> known' b) \<Longrightarrow> queue_map_ok known' qm"
  by (auto simp: queue_map_ok_def elim: hm_all_mono)

lemma queue_map_ok_get:
  "queue_map_ok known qm \<Longrightarrow> hm_get qm b = Some qd \<Longrightarrow> qd_broker_name qd = b \<and> known b"
  by (auto simp: queue_map_ok_def dest: hm_all_get)

lemma queue_map_ok_perm:
  "queue_map_ok known qm \<Longrightarrow> hm_get qm b = Some qd \<Longrightarrow>
   queue_map_ok known (hm_insert b (qd\<lparr>qd_perm := p\<rparr>) qm)"
  using queue_map_ok_get [of known qm b qd] by (simp add: queue_map_ok_insert)

lemma queue_map_ok_removes:
  assumes "queue_map_ok (\<lambda>b. known b \<or> b \<in> set bs) qm"
  shows "queue_map_ok known (fold hm_remove bs qm)"
proof -
  have inv: "hm_inv qm" using assms by (simp add: queue_map_ok_def)
  then show ?thesis
    using queue_map_ok_get [OF assms]
    by (auto simp: queue_map_ok_def hm_all_iff hm_get_removes split: if_splits)
qed

lemma addrs_ok_retain: "addrs_ok m \<Longrightarrow> addrs_ok (hm_retain P m)"
  unfolding addrs_ok_def hm_values_def hm_retain_def
  by (simp add: hm_inv_def distinct_map_filter)

lemma addrs_ok_insert:
  assumes "addrs_ok m" and "\<And>k. hm_get m k = Some a \<Longrightarrow> k = i"
  shows "addrs_ok (hm_insert i a m)"
proof -
  have inv: "hm_inv m" using assms(1) by (simp add: addrs_ok_def)
  then have inj: "\<forall>k k' v. hm_get m k = Some v \<longrightarrow> hm_get m k' = Some v \<longrightarrow> k = k'"
    using assms(1) by (simp add: addrs_ok_def hm_distinct_values_iff)
  then show ?thesis
    using inv assms(2) unfolding addrs_ok_def
    by (auto simp: hm_distinct_values_iff split: if_splits)
qed

lemma addrs_ok_register:
  assumes "addrs_ok (bd_broker_addrs bd)"
  shows "addrs_ok (hm_insert i a (bd_broker_addrs (remove_broker_by_addr i a bd)))"
proof (rule addrs_ok_insert)
  show "addrs_ok (bd_broker_addrs (remove_broker_by_addr i a bd))"
    using assms by (simp add: remove_broker_by_addr_def addrs_ok_retain)
  have inv: "hm_inv (bd_broker_addrs bd)" using assms by (simp add: addrs_ok_def)
  show "hm_get (bd_broker_addrs (remove_broker_by_addr i a bd)) k = Some a \<Longrightarrow> k = i" for k
    by (auto simp: get_remove_broker_by_addr [OF inv] split: option.splits if_splits)
qed

lemma in_cluster_insert:
  "in_cluster (hm_insert c names cat) c' b \<longleftrightarrow> (if c' = c then b \<in> set names else in_cluster cat c' b)"
  by (simp add: in_cluster_def)

lemma in_cluster_remove: "in_cluster (hm_remove c cat) c' b \<longleftrightarrow> c' \<noteq> c \<and> in_cluster cat c' b"
  by (simp add: in_cluster_def)

lemma broker_ok_mono:
  "broker_ok cat b bd \<Longrightarrow> (\<And>c. in_cluster cat c b \<Longrightarrow> in_cluster cat' c b) \<Longrightarrow> broker_ok cat' b bd"
  by (auto simp: broker_ok_def)

lemma tables_ok_known_mono:
  "tables_ok known r \<Longrightarrow> (\<And>b. known b \<Longrightarrow> known' b) \<Longrightarrow> tables_ok known' r"
  by (auto simp: tables_ok_def elim!: hm_all_mono intro: queue_map_ok_mono)

lemma tables_ok_topics:
  "tables_ok known r \<Longrightarrow> hm_inv tqt \<Longrightarrow> hm_all (\<lambda>_. queue_map_ok known) tqt \<Longrightarrow>
   tables_ok known (r\<lparr>topic_queue_table := tqt\<rparr>)"
  by (simp add: tables_ok_def)

lemma tables_ok_get:
  assumes "tables_ok known r"
  shows "hm_get (topic_queue_table r) t = Some qm \<Longrightarrow> queue_map_ok known qm"
    and "hm_get (broker_addr_table r) b = Some bd \<Longrightarrow> broker_ok (cluster_addr_table r) b bd"
    and "hm_get (cluster_addr_table r) c = Some names \<Longrightarrow> distinct names"
  using assms by (auto simp: tables_ok_def dest: hm_all_get)

lemma tables_ok_put_topic:
  "tables_ok known r \<Longrightarrow> queue_map_ok known qm \<Longrightarrow>
   tables_ok known (r\<lparr>topic_queue_table := hm_insert t qm (topic_queue_table r)\<rparr>)"
  by (rule tables_ok_topics) (auto simp: tables_ok_def hm_all_insert)

lemma tables_ok_drop_topic:
  "tables_ok known r \<Longrightarrow> tables_ok known (r\<lparr>topic_queue_table := hm_remove t (topic_queue_table r)\<rparr>)"
  by (rule tables_ok_topics) (auto simp: tables_ok_def hm_all_remove)

lemmas tables_ok_intros = tables_ok_put_topic tables_ok_drop_topic queue_map_ok_insert
  queue_map_ok_remove queue_map_ok_empty

text \<open>Tables the topic and broker invariant does not depend on.\<close>

lemma tables_ok_other [simp]:
  "tables_ok known (r\<lparr>outbox := x\<rparr>) = tables_ok known r"
  "tables_ok known r \<Longrightarrow> hm_inv l \<Longrightarrow> tables_ok known (r\<lparr>broker_live_table := l\<rparr>)"
  "tables_ok known r \<Longrightarrow> hm_inv f \<Longrightarrow> tables_ok known (r\<lparr>filter_server_table := f\<rparr>)"
  by (simp_all add: tables_ok_def)

lemma tables_ok_invs:
  assumes "tables_ok known r"
  shows "hm_inv (topic_queue_table r)" "hm_inv (broker_addr_table r)" "hm_inv (cluster_addr_table r)"
    "hm_inv (broker_live_table r)" "hm_inv (filter_server_table r)"
    "hm_inv (topic_queue_mapping_info_table r)"
  using assms by (simp_all add: tables_ok_def)

section \<open>Registration\<close>

lemma enter_cluster_ok:
  assumes "tables_ok known r"
  shows "tables_ok known (enter_cluster c b r)" and "in_cluster (cluster_addr_table (enter_cluster c b r)) c b"
proof -
  have mono: "in_cluster (cluster_addr_table (enter_cluster c b r)) c' b'"
    if "in_cluster (cluster_addr_table r) c' b'" for c' b'
    using that by (auto simp: enter_cluster_def in_cluster_def split: option.splits)
  have names: "distinct (case hm_get (cluster_addr_table r) c of None \<Rightarrow> [] | Some s \<Rightarrow> s)"
    using tables_ok_get(3) [OF assms] by (simp split: option.splits)
  have "hm_all (broker_ok (cluster_addr_table (enter_cluster c b r))) (broker_addr_table r)"
    using assms by (auto simp: tables_ok_def elim!: hm_all_mono intro: broker_ok_mono mono)
  then show "tables_ok known (enter_cluster c b r)"
    using assms names by (simp add: tables_ok_def enter_cluster_def hm_all_insert)
  show "in_cluster (cluster_addr_table (enter_cluster c b r)) c b"
    by (simp add: enter_cluster_def in_cluster_def)
qed

lemma put_broker_ok:
  "tables_ok known r \<Longrightarrow> broker_ok (cluster_addr_table r) b bd \<Longrightarrow> tables_ok known (put_broker b bd r)"
  by (simp add: tables_ok_def put_broker_def hm_all_insert)

lemma delete_topic_of_broker_ok: "tables_ok known r \<Longrightarrow> tables_ok known (delete_topic_of_broker b t r)"
  by (auto simp: delete_topic_of_broker_def Let_def dest: tables_ok_get(1) split: option.splits
      intro: tables_ok_intros)

lemma delete_topics_on_registration_ok:
  assumes "tables_ok known r"
  shows "tables_ok known (delete_topics_on_registration cfg b w r)"
proof -
  have "tables_ok known r \<Longrightarrow> tables_ok known (fold (delete_topic_of_broker b) ts r)" for ts r
    by (induction ts arbitrary: r) (auto intro: delete_topic_of_broker_ok)
  then show ?thesis using assms by (simp add: delete_topics_on_registration_def Let_def)
qed

lemma create_and_update_queue_data_ok:
  "tables_ok known r \<Longrightarrow> known b \<Longrightarrow> tables_ok known (create_and_update_queue_data b t tc r)"
  by (auto simp: create_and_update_queue_data_def Let_def qd_new_def dest: tables_ok_get(1)
      split: option.splits intro!: tables_ok_intros)

lemma update_topic_configs_ok:
  "tables_ok known r \<Longrightarrow> known b \<Longrightarrow>
   tables_ok known (fst (update_topic_configs cl addr b dv first prime acting tcs r))"
  by (induction tcs arbitrary: r)
     (simp_all add: Let_def create_and_update_queue_data_ok split: option.splits)

lemma tables_ok_mapping:
  "tables_ok known r \<Longrightarrow> hm_inv tbl \<Longrightarrow> hm_all (\<lambda>_. hm_inv) tbl \<Longrightarrow>
   tables_ok known (r\<lparr>topic_queue_mapping_info_table := tbl\<rparr>)"
  by (simp add: tables_ok_def)

lemma update_mapping_infos_ok:
  "tables_ok known r \<Longrightarrow> tables_ok known (fst (update_mapping_infos infos r))"
proof (induction infos arbitrary: r)
  case Nil
  then show ?case by simp
next
  case (Cons e infos)
  obtain topic v where e: "e = (topic, v)" by (cases e)
  define tbl where "tbl = (let t = topic_queue_mapping_info_table r in
      if hm_contains t topic then t else hm_insert topic [] t)"
  have tbl: "hm_inv tbl" "hm_all (\<lambda>_. hm_inv) tbl"
    using Cons.prems by (auto simp: tbl_def Let_def tables_ok_def hm_all_insert)
  have un: "update_mapping_infos (e # infos) r =
      (case (hm_get tbl topic, mi_bname v) of
         (Some m, Some bname) \<Rightarrow> update_mapping_infos infos
            (r\<lparr>topic_queue_mapping_info_table := hm_insert topic (hm_insert bname v m) tbl\<rparr>)
       | _ \<Rightarrow> (r\<lparr>topic_queue_mapping_info_table := tbl\<rparr>, Panicked))"
    by (simp only: e update_mapping_infos.simps Let_def tbl_def) (simp split: option.splits)
  show ?case
  proof (cases "hm_get tbl topic"; cases "mi_bname v")
    fix m bname assume m: "hm_get tbl topic = Some m" and bname: "mi_bname v = Some bname"
    then have "hm_inv m" using tbl(2) by (blast dest: hm_all_get)
    with tbl Cons.prems
    have "tables_ok known (r\<lparr>topic_queue_mapping_info_table := hm_insert topic (hm_insert bname v m) tbl\<rparr>)"
      by (intro tables_ok_mapping) (auto intro: hm_all_insert)
    with m bname Cons.IH show ?thesis unfolding un by simp
  qed (use Cons.prems tbl in \<open>simp_all add: un tables_ok_mapping\<close>)
qed

lemma update_topics_on_registration_ok:
  assumes "tables_ok known r" "known b"
  shows "tables_ok known (fst (update_topics_on_registration cfg cl addr b w first prime acting r))"
proof -
  let ?u = "update_topic_configs cl addr b (wrapper_data_version w) first prime acting
      (hm_values (topic_config_table w)) (delete_topics_on_registration cfg b w r)"
  have "tables_ok known (fst ?u)"
    using assms by (intro update_topic_configs_ok delete_topics_on_registration_ok)
  then show ?thesis
    by (cases ?u; cases "snd ?u")
       (auto simp: update_topics_on_registration_def Let_def update_mapping_infos_ok)
qed

lemma notify_min_broker_id_changed_ok [simp]:
  "tables_ok known (notify_min_broker_id_changed addrs offline ha r) = tables_ok known r"
  by (simp add: notify_min_broker_id_changed_def Let_def split: option.splits)

lemma finish_registration_ok:
  "tables_ok known r \<Longrightarrow>
   tables_ok known (fst (finish_registration cfg now cl addr i ha timeout w fs remote bd minch r))"
  by (auto simp: finish_registration_def Let_def tables_ok_invs)

text \<open>The topic updates leave the broker, cluster and liveness tables alone.\<close>

definition same_brokers :: "route_info \<Rightarrow> route_info \<Rightarrow> bool" where
  "same_brokers r r' \<longleftrightarrow> broker_addr_table r' = broker_addr_table r \<and>
     cluster_addr_table r' = cluster_addr_table r \<and> broker_live_table r' = broker_live_table r \<and>
     filter_server_table r' = filter_server_table r"

lemma same_brokers_refl [simp]: "same_brokers r r"
  by (simp add: same_brokers_def)

lemma same_brokers_trans: "same_brokers r r' \<Longrightarrow> same_brokers r' r'' \<Longrightarrow> same_brokers r r''"
  by (simp add: same_brokers_def)

lemma same_brokers_update [simp]:
  "same_brokers r (r'\<lparr>topic_queue_table := x\<rparr>) = same_brokers r r'"
  "same_brokers r (r'\<lparr>topic_queue_mapping_info_table := y\<rparr>) = same_brokers r r'"
  by (simp_all add: same_brokers_def)

lemma same_brokers_delete_topics [simp]: "same_brokers r (delete_topics_on_registration cfg b w r)"
proof -
  have "same_brokers r (delete_topic_of_broker b t r)" for r t
    by (simp add: delete_topic_of_broker_def Let_def split: option.splits)
  then have "same_brokers r (fold (delete_topic_of_broker b) ts r)" for ts r
    by (induction ts arbitrary: r) (auto intro: same_brokers_trans)
  then show ?thesis by (simp add: delete_topics_on_registration_def Let_def)
qed

lemma same_brokers_create [simp]: "same_brokers r (create_and_update_queue_data b t tc r)"
  by (simp add: create_and_update_queue_data_def Let_def split: option.splits)

lemma same_brokers_configs:
  "same_brokers r (fst (update_topic_configs cl addr b dv first prime acting tcs r))"
proof (induction tcs arbitrary: r)
  case (Cons tc tcs)
  have step: "same_brokers r (fst (update_topic_configs cl addr b dv first prime acting tcs
      (create_and_update_queue_data b t config r)))" for t config
    by (rule same_brokers_trans [OF same_brokers_create Cons.IH])
  show ?case
    by (cases "tc_topic_name tc") (simp_all add: Let_def step)
qed simp

lemma same_brokers_mapping: "same_brokers r (fst (update_mapping_infos infos r))"
proof (induction infos arbitrary: r)
  case (Cons e infos)
  obtain t v where "e = (t, v)" by (cases e)
  moreover have "same_brokers r (fst (update_mapping_infos infos (r\<lparr>topic_queue_mapping_info_table := x\<rparr>)))" for x
    using Cons [of "r\<lparr>topic_queue_mapping_info_table := x\<rparr>"] by (simp add: same_brokers_def)
  ultimately show ?case
    by (simp add: Let_def del: hm_contains_iff split: option.splits)
qed simp

lemma same_brokers_topics:
  "same_brokers r (fst (update_topics_on_registration cfg cl addr b w first prime acting r))"
proof -
  let ?u = "update_topic_configs cl addr b (wrapper_data_version w) first prime acting
      (hm_values (topic_config_table w)) (delete_topics_on_registration cfg b w r)"
  have "same_brokers r (fst ?u)"
    by (rule same_brokers_trans [OF same_brokers_delete_topics same_brokers_configs])
  then show ?thesis
    by (cases ?u; cases "snd ?u")
       (auto simp: update_topics_on_registration_def Let_def
         intro: same_brokers_trans same_brokers_mapping)
qed

lemma finish_registration_brokers [simp]:
  "broker_addr_table (fst (finish_registration cfg now cl addr i ha timeout w fs remote bd minch r)) =
   broker_addr_table r"
  by (simp add: finish_registration_def Let_def notify_min_broker_id_changed_def split: option.splits)

lemma enter_broker_ok:
  assumes "tables_ok known r" "in_cluster (cluster_addr_table r) cl b" "enter_broker cl b zone acting r = (bd, c)"
  shows "broker_ok (cluster_addr_table r) b bd"
  using assms(2,3) tables_ok_get(2) [OF assms(1), of b]
  by (auto simp: enter_broker_def broker_ok_def bd_new_def addrs_ok_def hm_values_def split: option.splits)

text \<open>The broker entry after the stale address is dropped, and with the new address.\<close>

lemma broker_ok_remove_addr:
  "broker_ok cat b bd \<Longrightarrow> broker_ok cat b (remove_broker_by_addr i a bd)"
  by (simp add: broker_ok_def) (simp add: remove_broker_by_addr_def addrs_ok_retain)

lemma broker_ok_new_addr:
  "broker_ok cat b bd \<Longrightarrow> broker_ok cat b
     ((remove_broker_by_addr i a bd)\<lparr>bd_broker_addrs :=
        hm_insert i a (bd_broker_addrs (remove_broker_by_addr i a bd))\<rparr>)"
  by (simp add: broker_ok_def addrs_ok_register)

lemma register_broker_ok:
  assumes "route_inv r"
  shows "route_inv (fst (register_broker cfg now cl addr b i ha zone timeout acting w fs remote r))"
proof -
  let ?act = "case acting of Some x \<Rightarrow> x | None \<Rightarrow> False"
  define r1 where "r1 = enter_cluster cl b r"
  obtain bd0 created where e: "enter_broker cl b zone ?act r1 = (bd0, created)" by fastforce
  define bd1 where "bd1 = remove_broker_by_addr i addr bd0"
  define r2 where "r2 = put_broker b bd1 r1"
  define bd2 where "bd2 = bd1\<lparr>bd_broker_addrs := hm_insert i addr (bd_broker_addrs bd1)\<rparr>"
  define r3 where "r3 = put_broker b bd2 r2"
  let ?known = "\<lambda>b'. b' = b \<or> hm_contains (broker_addr_table r) b'"
  have known: "tables_ok ?known r"
    using assms unfolding route_inv_def by (rule tables_ok_known_mono) simp
  note r1 = enter_cluster_ok [OF known, where c = cl and b = b, folded r1_def]
  have bd0: "broker_ok (cluster_addr_table r1) b bd0" by (rule enter_broker_ok [OF r1 e])
  have r2: "tables_ok ?known r2"
    unfolding r2_def bd1_def by (intro put_broker_ok r1 broker_ok_remove_addr bd0)
  have r3: "tables_ok ?known r3"
    unfolding r3_def bd2_def bd1_def using r2 bd0
    by (intro put_broker_ok broker_ok_new_addr) (simp_all add: r2_def put_broker_def)
  have known2: "hm_contains (broker_addr_table r2) = ?known"
    and known3: "hm_contains (broker_addr_table r3) = ?known"
    by (auto simp: r2_def r3_def r1_def put_broker_def enter_cluster_def fun_eq_iff)
  have ok2: "route_inv (r2\<lparr>broker_live_table := hm_remove x (broker_live_table r2)\<rparr>)" "route_inv r2" for x
    using r2 known2 by (simp_all add: route_inv_def tables_ok_invs)
  let ?topics = "\<lambda>first prime. update_topics_on_registration cfg cl addr b w first prime
      (bd_enable_acting_master bd2) r3"
  have topics: "route_inv (fst (?topics first prime))"
    and fin: "route_inv (fst (finish_registration cfg now cl addr i ha timeout w fs remote bd2 minch
        (fst (?topics first prime))))" for first prime minch
    using update_topics_on_registration_ok [OF r3] same_brokers_topics [of r3] known3
    by (auto simp: route_inv_def same_brokers_def intro!: finish_registration_ok)
  have fin3: "route_inv (fst (finish_registration cfg now cl addr i ha timeout w fs remote bd2 minch r3))" for minch
    using r3 known3 by (auto simp: route_inv_def intro!: finish_registration_ok)
  note unfolded = register_broker_def Let_def r1_def [symmetric] e prod.case bd1_def [symmetric]
    r2_def [symmetric] bd2_def [symmetric] r3_def [symmetric]
  show ?thesis
    unfolding unfolded
    using ok2 topics fin fin3
    by (auto split: prod.splits outcome.splits simp del: hm_contains_iff) (metis fst_conv)+
qed

section \<open>Topics and permissions\<close>

lemma insert_queue_datas_ok:
  "queue_map_ok (hm_contains (broker_addr_table r)) qm \<Longrightarrow>
   queue_map_ok (hm_contains (broker_addr_table r)) (insert_queue_datas r qds qm)"
  by (induction qds arbitrary: qm) (simp_all add: queue_map_ok_insert)

lemma register_topic_ok: "route_inv r \<Longrightarrow> route_inv (register_topic t qds r)"
  by (auto simp: register_topic_def Let_def route_inv_def split: option.splits
      intro!: tables_ok_put_topic insert_queue_datas_ok dest: tables_ok_get(1))

lemma delete_topic_ok:
  assumes "route_inv r"
  shows "route_inv (delete_topic t cl r)"
proof -
  have "queue_map_ok known (fold hm_remove names qm)" if "queue_map_ok known qm" for known names qm
    using that by (intro queue_map_ok_removes) (auto elim: queue_map_ok_mono)
  then show ?thesis
    using assms
    by (auto simp: delete_topic_def Let_def route_inv_def split: option.splits
        intro!: tables_ok_put_topic tables_ok_drop_topic dest: tables_ok_get(1))
qed

lemma operate_write_perm_ok:
  assumes "route_inv r"
  shows "route_inv (fst (operate_write_perm_of_broker b code r))"
proof -
  let ?known = "hm_contains (broker_addr_table r)"
  let ?f = "\<lambda>topic qm. case hm_get qm b of None \<Rightarrow> qm
      | Some qd \<Rightarrow> hm_insert b (qd\<lparr>qd_perm := new_perm code (qd_perm qd)\<rparr>) qm"
  have ok: "tables_ok ?known r" using assms by (simp add: route_inv_def)
  have "queue_map_ok ?known qm \<Longrightarrow> queue_map_ok ?known (?f t qm)" for t qm
    by (auto split: option.splits intro: queue_map_ok_perm)
  then have "hm_all (\<lambda>_. queue_map_ok ?known) (hm_map ?f (topic_queue_table r))"
    using ok by (intro hm_all_map [where P = "\<lambda>_. queue_map_ok ?known"]) (simp_all add: tables_ok_def)
  then show ?thesis
    using ok tables_ok_topics [OF ok, of "hm_map ?f (topic_queue_table r)"]
    by (simp add: route_inv_def operate_write_perm_of_broker_def tables_ok_invs)
qed

lemma update_timestamp_ok: "route_inv r \<Longrightarrow> route_inv (update_broker_info_update_timestamp now cl addr r)"
  by (auto simp: update_broker_info_update_timestamp_def Let_def route_inv_def tables_ok_invs
      split: option.splits)

section \<open>Removal of brokers\<close>

text \<open>During the loop a queue entry may still name a broker that was removed before.\<close>

definition unreg_ok :: "unreg_state \<Rightarrow> bool" where
  "unreg_ok s \<longleftrightarrow>
     tables_ok (\<lambda>b. hm_contains (broker_addr_table (us_tables s)) b \<or> b \<in> set (us_removed s)) (us_tables s)"

lemma broker_ok_leave_cluster:
  assumes "broker_ok cat b bd" "b \<noteq> gone"
  shows "broker_ok (case hm_get cat cl of
            None \<Rightarrow> cat
          | Some names \<Rightarrow> if hs_remove gone names = [] then hm_remove cl cat
                          else hm_insert cl (hs_remove gone names) cat) b bd"
proof (rule broker_ok_mono [OF assms(1)])
  fix c assume c: "in_cluster cat c b"
  show "in_cluster (case hm_get cat cl of
            None \<Rightarrow> cat
          | Some names \<Rightarrow> if hs_remove gone names = [] then hm_remove cl cat
                          else hm_insert cl (hs_remove gone names) cat) c b"
  proof (cases "hm_get cat cl")
    case None
    with c show ?thesis by simp
  next
    case (Some names)
    have "b \<in> set (hs_remove gone names)" if "c = cl"
      using c that Some assms(2) by (simp add: in_cluster_def)
    moreover from this have "hs_remove gone names \<noteq> []" if "c = cl"
      using that by (metis empty_iff list.set(1))
    ultimately show ?thesis
      using Some c by (cases "c = cl") (simp_all add: in_cluster_insert in_cluster_remove)
  qed
qed

lemma tables_ok_remove_broker:
  assumes "tables_ok known r"
  shows "tables_ok known (r\<lparr>broker_addr_table := hm_remove b (broker_addr_table r),
      cluster_addr_table :=
        (case hm_get (cluster_addr_table r) cl of
           None \<Rightarrow> cluster_addr_table r
         | Some names \<Rightarrow> if hs_remove b names = [] then hm_remove cl (cluster_addr_table r)
                         else hm_insert cl (hs_remove b names) (cluster_addr_table r))\<rparr>)"
proof -
  let ?cat = "case hm_get (cluster_addr_table r) cl of
           None \<Rightarrow> cluster_addr_table r
         | Some names \<Rightarrow> if hs_remove b names = [] then hm_remove cl (cluster_addr_table r)
                         else hm_insert cl (hs_remove b names) (cluster_addr_table r)"
  have "hm_inv (hm_remove b (broker_addr_table r))" using assms by (simp add: tables_ok_invs)
  then have brokers: "hm_all (broker_ok ?cat) (hm_remove b (broker_addr_table r))"
    using tables_ok_get(2) [OF assms]
    by (auto simp: hm_all_iff simp del: hm_get_remove) (auto split: if_splits intro: broker_ok_leave_cluster)
  have cat: "hm_inv ?cat" "hm_all (\<lambda>_. distinct) ?cat"
    using assms tables_ok_get(3) [OF assms]
    by (auto simp: tables_ok_def split: option.splits intro: hm_all_remove hm_all_insert)
  show ?thesis
    using assms brokers cat by (simp add: tables_ok_def)
qed

lemma un_register_one_ok:
  assumes "unreg_ok s"
  shows "unreg_ok (un_register_one q s)"
proof -
  let ?b = "ur_broker_name q"
  define r1 where "r1 = (us_tables s)\<lparr>
      broker_live_table := hm_remove (BrokerAddrInfo (ur_cluster_name q) (ur_broker_addr q))
        (broker_live_table (us_tables s)),
      filter_server_table := hm_remove (BrokerAddrInfo (ur_cluster_name q) (ur_broker_addr q))
        (filter_server_table (us_tables s))\<rparr>"
  let ?known = "\<lambda>b. hm_contains (broker_addr_table r1) b \<or> b \<in> set (us_removed s)"
  have r1: "tables_ok ?known r1"
    using assms by (simp add: unreg_ok_def r1_def tables_ok_invs)
  show ?thesis
  proof (cases "hm_get (broker_addr_table r1) ?b")
    case None
    then have "un_register_one q s = s\<lparr>us_tables := r1, us_reduced := hs_insert ?b (us_reduced s)\<rparr>"
      by (simp add: un_register_one_def Let_def r1_def)
    then show ?thesis using r1 by (simp add: unreg_ok_def)
  next
    case (Some bd)
    define addrs where "addrs = hm_retain (\<lambda>_ a. ur_broker_addr q \<noteq> a) (bd_broker_addrs bd)"
    show ?thesis
    proof (cases "addrs = []")
      case True
      have "tables_ok (\<lambda>b. b \<noteq> ?b \<and> hm_contains (broker_addr_table r1) b \<or> b = ?b \<or> b \<in> set (us_removed s)) r1"
        using r1 by (rule tables_ok_known_mono) auto
      from tables_ok_remove_broker [OF this, where b = ?b and cl = "ur_cluster_name q"] True Some
      show ?thesis
        unfolding unreg_ok_def un_register_one_def Let_def r1_def [symmetric]
        by (simp add: addrs_def [symmetric] hm_contains_def) (auto elim: tables_ok_known_mono)
    next
      case False
      have bd: "broker_ok (cluster_addr_table r1) ?b (bd\<lparr>bd_broker_addrs := addrs\<rparr>)"
        using tables_ok_get(2) [OF r1 Some] by (simp add: broker_ok_def addrs_def addrs_ok_retain)
      have "tables_ok ?known (put_broker ?b (bd\<lparr>bd_broker_addrs := addrs\<rparr>) r1)"
        by (rule put_broker_ok [OF r1 bd])
      then show ?thesis
        using False Some
        unfolding unreg_ok_def un_register_one_def Let_def r1_def [symmetric] put_broker_def
        by (simp add: addrs_def [symmetric]) (auto elim: tables_ok_known_mono)
    qed
  qed
qed

lemma un_register_all_ok: "unreg_ok s \<Longrightarrow> unreg_ok (fold un_register_one qs s)"
  by (induction qs arbitrary: s) (auto intro: un_register_one_ok)

lemma wipe_reduced_ok: "queue_map_ok known qm \<Longrightarrow> queue_map_ok known (fold (wipe_reduced r) bs qm)"
proof (induction bs arbitrary: qm)
  case (Cons b bs)
  have "queue_map_ok known (wipe_reduced r b qm)"
    using Cons.prems by (auto simp: wipe_reduced_def split: option.splits intro: queue_map_ok_perm)
  with Cons.IH show ?case by simp
qed simp

lemma clean_topic_ok:
  assumes "tables_ok (\<lambda>b. hm_contains (broker_addr_table r) b \<or> b \<in> set removed) r"
  shows "route_inv (clean_topic_by_un_register_requests removed reduced r)"
proof -
  let ?known = "hm_contains (broker_addr_table r)"
  let ?t1 = "hm_map (\<lambda>_. fold hm_remove removed) (topic_queue_table r)"
  let ?t2 = "hm_retain (\<lambda>_ qm. qm \<noteq> []) ?t1"
  let ?t3 = "hm_map (\<lambda>_. fold (wipe_reduced r) reduced) ?t2"
  have t1: "hm_all (\<lambda>_. queue_map_ok ?known) ?t1"
    by (rule hm_all_map [where P = "\<lambda>_. queue_map_ok (\<lambda>b. ?known b \<or> b \<in> set removed)"])
       (use assms in \<open>auto simp: tables_ok_def intro: queue_map_ok_removes\<close>)
  have t3: "hm_all (\<lambda>_. queue_map_ok ?known) ?t3"
    by (rule hm_all_map [where P = "\<lambda>_. queue_map_ok ?known"])
       (auto intro: wipe_reduced_ok hm_all_retain t1)
  have "hm_inv ?t3" using assms by (simp add: tables_ok_invs)
  with t3 assms have "tables_ok ?known (r\<lparr>topic_queue_table := ?t3\<rparr>)"
    by (simp add: tables_ok_def)
  then show ?thesis
    by (simp add: route_inv_def clean_topic_by_un_register_requests_def hm_map_def hm_retain_def)
qed

lemma notify_min_broker_id_changed_brokers [simp]:
  "broker_addr_table (notify_min_broker_id_changed addrs offline ha r) = broker_addr_table r"
  by (simp add: notify_min_broker_id_changed_def Let_def split: option.splits)

lemma notify_reduced_ok: "route_inv r \<Longrightarrow> route_inv (notify_reduced ns r)"
  unfolding notify_reduced_def
proof (induction ns arbitrary: r)
  case (Cons n ns)
  have notify: "route_inv (notify_min_broker_id_changed addrs offline ha r)" for addrs offline ha
    using Cons.prems by (simp add: route_inv_def)
  show ?case
    using Cons notify by (auto split: prod.splits option.splits)
qed simp

lemma un_register_broker_ok:
  assumes "route_inv r"
  shows "route_inv (un_register_broker cfg qs r)"
proof -
  let ?s0 = "\<lparr>us_tables = r, us_removed = [], us_reduced = [], us_notify = []\<rparr>"
  have "unreg_ok ?s0" using assms by (auto simp: unreg_ok_def route_inv_def elim: tables_ok_known_mono)
  then have "unreg_ok (fold un_register_one qs ?s0)" by (rule un_register_all_ok)
  then show ?thesis
    by (simp add: un_register_broker_def Let_def unreg_ok_def clean_topic_ok notify_reduced_ok)
qed

lemma on_connection_disconnected_ok: "route_inv r \<Longrightarrow> route_inv (on_connection_disconnected cfg info r)"
  by (simp add: on_connection_disconnected_def un_register_broker_ok split: option.splits)

lemma scan_not_active_broker_ok:
  assumes "route_inv r"
  shows "route_inv (scan_not_active_broker cfg now r)"
proof -
  have "route_inv s \<Longrightarrow> route_inv (fold (\<lambda>(info, live) r.
      if wrap_i64 (bl_heartbeat_timeout_millis live + bl_last_update_timestamp live) < now
      then on_connection_disconnected cfg info r else r) l s)" for l s
    by (induction l arbitrary: s) (auto simp: on_connection_disconnected_ok split: prod.splits)
  then show ?thesis using assms by (simp add: scan_not_active_broker_def)
qed

lemma connection_disconnected_ok: "route_inv r \<Longrightarrow> route_inv (connection_disconnected cfg addr r)"
  by (auto simp: connection_disconnected_def on_connection_disconnected_ok split: option.splits)

lemma route_inv_new: "route_inv ri_new"
  by (simp add: route_inv_def ri_new_def tables_ok_def)

lemma route_inv_step: "route_inv r \<Longrightarrow> route_inv (route_step cfg op r)"
  by (cases op)
     (simp_all add: register_broker_ok un_register_broker_ok register_topic_ok delete_topic_ok
       operate_write_perm_ok update_timestamp_ok scan_not_active_broker_ok connection_disconnected_ok)

interpretation routes: preserved "route_step cfg" ri_new route_inv
  by unfold_locales (simp_all add: route_inv_new route_inv_step)

end
