(* ===== verification/Route_Properties.thy ===== *)
theory Route_Properties
  imports Route_Invariant
begin

text \<open>
  What the name server's operations do: a registered master is found by clients, a broker that
  unregistered its last address is found no more, routes only name registered brokers, the
  permission switches, the expiry scan, and what a refused registration leaves behind.
\<close>

section \<open>Queue entries\<close>

text \<open>The entry of a broker in a topic.\<close>

definition queue_of :: "route_info \<Rightarrow> string \<Rightarrow> string \<Rightarrow> queue_data option" where
  "queue_of r t b = (case hm_get (topic_queue_table r) t of None \<Rightarrow> None | Some qm \<Rightarrow> hm_get qm b)"

definition qd_of_config :: "string \<Rightarrow> topic_config \<Rightarrow> queue_data" where
  "qd_of_config b tc = qd_new b (tc_write_queue_nums tc) (tc_read_queue_nums tc) (tc_perm tc)
     (tc_topic_sys_flag tc)"

lemma queue_of_create:
  "queue_of (create_and_update_queue_data b t tc r) t' b' =
     (if t' = t \<and> b' = b then Some (qd_of_config b tc) else queue_of r t' b')"
  by (auto simp: queue_of_def create_and_update_queue_data_def qd_of_config_def Let_def split: option.splits)

lemma queue_of_topic_table: "topic_queue_table r' = topic_queue_table r \<Longrightarrow> queue_of r' = queue_of r"
  by (simp add: queue_of_def fun_eq_iff)

lemma update_topic_configs_returns:
  "list_all (\<lambda>tc. tc_topic_name tc \<noteq> None) tcs \<Longrightarrow>
   snd (update_topic_configs cl addr b dv first prime acting tcs r) = Returned ()"
  by (induction tcs arbitrary: r) (auto simp: Let_def)

lemma update_topic_configs_other:
  "Some t \<notin> tc_topic_name ` set tcs \<Longrightarrow>
   queue_of (fst (update_topic_configs cl addr b dv first prime acting tcs r)) t b' = queue_of r t b'"
proof (induction tcs arbitrary: r)
  case (Cons tc tcs)
  then show ?case
    by (cases "tc_topic_name tc") (auto simp: Let_def queue_of_create)
qed simp

lemma update_topic_configs_master:
  assumes "list_all (\<lambda>tc. tc_topic_name tc \<noteq> None) tcs" "distinct (map tc_topic_name tcs)"
    and "tc \<in> set tcs" "tc_topic_name tc = Some t"
  shows "queue_of (fst (update_topic_configs cl addr b dv first False acting tcs r)) t b =
    Some (qd_of_config b tc)"
  using assms
proof (induction tcs arbitrary: r)
  case (Cons x tcs)
  then obtain tx where tx: "tc_topic_name x = Some tx" by auto
  show ?case
  proof (cases "x = tc")
    case True
    then have "Some t \<notin> tc_topic_name ` set tcs" using Cons.prems by auto
    with True Cons.prems(4) show ?thesis
      by (simp add: Let_def update_topic_configs_other queue_of_create)
  next
    case False
    with Cons tx show ?thesis by (simp add: Let_def)
  qed
qed simp

lemma update_mapping_infos_topics [simp]:
  "topic_queue_table (fst (update_mapping_infos infos r)) = topic_queue_table r"
proof (induction infos arbitrary: r)
  case (Cons e infos)
  obtain t v where "e = (t, v)" by (cases e)
  moreover have "topic_queue_table (fst (update_mapping_infos infos (r\<lparr>topic_queue_mapping_info_table := x\<rparr>))) =
      topic_queue_table r" for x
    using Cons [of "r\<lparr>topic_queue_mapping_info_table := x\<rparr>"] by simp
  ultimately show ?case
    by (simp add: Let_def del: hm_contains_iff split: option.splits)
qed simp

lemma update_mapping_infos_returns:
  "hm_all (\<lambda>_ v. mi_bname v \<noteq> None) infos \<Longrightarrow> snd (update_mapping_infos infos r) = Returned ()"
proof (induction infos arbitrary: r)
  case (Cons e infos)
  obtain t v where e: "e = (t, v)" by (cases e)
  with Cons.prems obtain bn where bn: "mi_bname v = Some bn" by (auto simp: hm_all_def)
  have rest: "snd (update_mapping_infos infos r') = Returned ()" for r'
    using Cons by (simp add: hm_all_def)
  obtain m where "hm_get (if hm_contains (topic_queue_mapping_info_table r) t
      then topic_queue_mapping_info_table r
      else hm_insert t [] (topic_queue_mapping_info_table r)) t = Some m"
    by (cases "hm_get (topic_queue_mapping_info_table r) t") auto
  then show ?case
    by (simp only: e update_mapping_infos.simps Let_def bn) (simp add: rest)
qed simp

lemma finish_registration_topics [simp]:
  "topic_queue_table (fst (finish_registration cfg now cl addr i ha timeout w fs remote bd minch r)) =
   topic_queue_table r"
  by (simp add: finish_registration_def Let_def notify_min_broker_id_changed_def split: option.splits)

lemma finish_registration_returns:
  "\<exists>res. snd (finish_registration cfg now cl addr i ha timeout w fs remote bd minch r) = Returned (Some res)"
  by (simp add: finish_registration_def Let_def)

text \<open>A wrapper as brokers send it: every configuration is filed under its topic name.\<close>

definition wrapper_ok :: "topic_config_wrapper \<Rightarrow> bool" where
  "wrapper_ok w \<longleftrightarrow> hm_inv (topic_config_table w) \<and>
     hm_all (\<lambda>t tc. tc_topic_name tc = Some t) (topic_config_table w) \<and>
     hm_all (\<lambda>_ v. mi_bname v \<noteq> None) (topic_queue_mapping_info_map w)"

lemma wrapper_ok_topics:
  assumes "wrapper_ok w"
  shows "list_all (\<lambda>tc. tc_topic_name tc \<noteq> None) (hm_values (topic_config_table w))"
    and "distinct (map tc_topic_name (hm_values (topic_config_table w)))"
proof -
  have names: "map tc_topic_name (hm_values (topic_config_table w)) = map Some (hm_keys (topic_config_table w))"
    using assms by (auto simp: wrapper_ok_def hm_all_def list_all_iff hm_values_def hm_keys_def)
  show "distinct (map tc_topic_name (hm_values (topic_config_table w)))"
    unfolding names distinct_map [of Some] using assms
    by (simp add: wrapper_ok_def hm_inv_def hm_keys_def)
  show "list_all (\<lambda>tc. tc_topic_name tc \<noteq> None) (hm_values (topic_config_table w))"
    using assms by (auto simp: wrapper_ok_def hm_all_def list_all_iff hm_values_def)
qed

lemma update_topics_master:
  assumes "wrapper_ok w" "(t, tc) \<in> set (topic_config_table w)"
  shows "snd (update_topics_on_registration cfg cl addr b w first False acting r) = Returned ()"
    and "queue_of (fst (update_topics_on_registration cfg cl addr b w first False acting r)) t b =
      Some (qd_of_config b tc)"
proof -
  let ?u = "update_topic_configs cl addr b (wrapper_data_version w) first False acting
      (hm_values (topic_config_table w)) (delete_topics_on_registration cfg b w r)"
  have tc: "tc \<in> set (hm_values (topic_config_table w))" "tc_topic_name tc = Some t"
    using assms by (force simp: hm_values_def, auto simp: wrapper_ok_def hm_all_def list_all_iff)
  have snd: "snd ?u = Returned ()"
    by (rule update_topic_configs_returns [OF wrapper_ok_topics(1) [OF assms(1)]])
  have q: "queue_of (fst ?u) t b = Some (qd_of_config b tc)"
    by (rule update_topic_configs_master [OF wrapper_ok_topics [OF assms(1)] tc])
  have maps: "snd (update_mapping_infos (topic_queue_mapping_info_map w) r') = Returned ()" for r'
    using assms(1) by (simp add: wrapper_ok_def update_mapping_infos_returns)
  obtain r2 where u: "?u = (r2, Returned ())" using snd by (cases ?u) auto
  show "snd (update_topics_on_registration cfg cl addr b w first False acting r) = Returned ()"
    by (simp add: update_topics_on_registration_def Let_def u maps)
  have "queue_of (fst (update_mapping_infos (topic_queue_mapping_info_map w) r2)) t b = queue_of r2 t b"
    by (simp add: queue_of_def)
  with q show "queue_of (fst (update_topics_on_registration cfg cl addr b w first False acting r)) t b =
      Some (qd_of_config b tc)"
    by (simp add: update_topics_on_registration_def Let_def u)
qed

section \<open>Routes\<close>

lemma collect_brokers_fst:
  "fst (collect_brokers r names (bds, fs)) = bds @ List.map_filter (hm_get (broker_addr_table r)) names"
  by (induction names arbitrary: bds fs) (auto simp: map_filter_simps split: option.splits)

lemma collect_brokers_eq:
  "collect_brokers r names ([], []) = (bds, fs) \<Longrightarrow>
   bds = List.map_filter (hm_get (broker_addr_table r)) names"
  using collect_brokers_fst [of r names "[]" "[]"] by simp

lemma pickup_queue_datas:
  "pickup_topic_route_data cfg t r = Some route \<Longrightarrow>
   \<exists>qm. hm_get (topic_queue_table r) t = Some qm \<and> queue_datas route = hm_values qm \<and>
     (broker_datas route = List.map_filter (hm_get (broker_addr_table r)) (hm_keys qm) \<or>
      broker_datas route = map (act_as_master (hm_values qm))
        (List.map_filter (hm_get (broker_addr_table r)) (hm_keys qm)))"
  by (auto simp: pickup_topic_route_data_def Let_def dest!: collect_brokers_eq
      split: option.splits prod.splits if_splits)

lemma pickup_found:
  assumes "queue_of r t b = Some qd" "hm_get (broker_addr_table r) b = Some bd"
  shows "\<exists>route bd'. pickup_topic_route_data cfg t r = Some route \<and> qd \<in> set (queue_datas route) \<and>
    bd' \<in> set (broker_datas route) \<and> (bd' = bd \<or> bd' = act_as_master (queue_datas route) bd)"
proof -
  obtain qm where qm: "hm_get (topic_queue_table r) t = Some qm" "hm_get qm b = Some qd"
    using assms(1) by (auto simp: queue_of_def split: option.splits)
  obtain bds fs where c: "collect_brokers r (hm_keys qm) ([], []) = (bds, fs)" by fastforce
  with collect_brokers_fst [of r "hm_keys qm" "[]" "[]"]
  have bds: "bds = List.map_filter (hm_get (broker_addr_table r)) (hm_keys qm)" by simp
  have mem: "bd \<in> set bds"
    using qm(2) assms(2) by (force simp: bds set_map_filter_iff hm_keys_iff)
  then have ne: "bds \<noteq> []" by auto
  have qd: "qd \<in> set (hm_values qm)"
    using hm_get_Some_mem [OF qm(2)] by (force simp: hm_values_def)
  show ?thesis
    using mem qd unfolding pickup_topic_route_data_def qm(1) option.case c prod.case Let_def
    by (auto simp: ne)
qed

lemma act_as_master_id: "hm_contains (bd_broker_addrs bd) master_id \<Longrightarrow> act_as_master qds bd = bd"
  by (simp add: act_as_master_def)

lemma act_as_master_name [simp]: "bd_broker_name (act_as_master qds bd) = bd_broker_name bd"
  by (simp add: act_as_master_def split: option.splits)

lemma act_as_master_addrs:
  assumes "hm_inv (bd_broker_addrs bd)"
  shows "set (hm_values (bd_broker_addrs (act_as_master qds bd))) = set (hm_values (bd_broker_addrs bd))"
proof -
  have same: "set (hm_values (hm_insert master_id a (hm_remove m (bd_broker_addrs bd)))) =
      set (hm_values (bd_broker_addrs bd))"
    if "\<not> hm_contains (bd_broker_addrs bd) master_id" "hm_get (bd_broker_addrs bd) m = Some a" for m a
  proof -
    have "v \<in> set (hm_values (hm_insert master_id a (hm_remove m (bd_broker_addrs bd)))) \<longleftrightarrow>
        v \<in> set (hm_values (bd_broker_addrs bd))" for v
      using that assms by (auto simp: hm_values_iff) (metis option.inject option.distinct(1))+
    then show ?thesis by blast
  qed
  then show ?thesis
    by (auto simp: act_as_master_def split: option.splits)
qed

lemma act_as_master_promotes:
  assumes "queue_map_ok known qm" "hm_get qm (bd_broker_name bd) = Some qd"
    and "\<not> perm_is_writeable (qd_perm qd)" "bd_enable_acting_master bd"
    and "bd_broker_addrs bd \<noteq> []" "hm_get (bd_broker_addrs bd) master_id = None"
    and "min_key (bd_broker_addrs bd) = Some i" "hm_get (bd_broker_addrs bd) i = Some addr"
  shows "hm_get (bd_broker_addrs (act_as_master (hm_values qm) bd)) master_id = Some addr"
proof -
  have inv: "hm_inv qm" using assms(1) by (simp add: queue_map_ok_def)
  have "qd \<in> set (hm_values qm)" "qd_broker_name qd = bd_broker_name bd"
    using assms(2) inv queue_map_ok_get [OF assms(1,2)] by (auto simp: hm_values_iff)
  then obtain x where x: "find (\<lambda>qd. qd_broker_name qd = bd_broker_name bd) (hm_values qm) = Some x"
    by (cases "find (\<lambda>qd. qd_broker_name qd = bd_broker_name bd) (hm_values qm)")
       (auto simp: find_None_iff)
  then have "x \<in> set (hm_values qm)" "qd_broker_name x = bd_broker_name bd"
    by (auto simp: find_Some_iff)
  then have "x = qd"
    using inv assms(2) queue_map_ok_get [OF assms(1)] by (auto simp: hm_values_iff)
  with x assms(3-8) show ?thesis by (simp add: act_as_master_def)
qed

lemma pickup_acting:
  assumes "hm_get (topic_queue_table r) t = Some qm" "hm_get qm b = Some qd"
    and "hm_get (broker_addr_table r) b = Some bd"
    and "support_acting_master cfg" "\<not> prefix sync_broker_member_group_prefix t"
    and "bd_broker_addrs bd \<noteq> []" "hm_get (bd_broker_addrs bd) master_id = None"
  shows "\<exists>route. pickup_topic_route_data cfg t r = Some route \<and>
    act_as_master (hm_values qm) bd \<in> set (broker_datas route)"
proof -
  obtain bds fs where c: "collect_brokers r (hm_keys qm) ([], []) = (bds, fs)" by fastforce
  have mem: "bd \<in> set bds"
    using assms(2,3) by (force simp: collect_brokers_eq [OF c] set_map_filter_iff hm_keys_iff)
  then have ne: "bds \<noteq> []" by auto
  have qne: "hm_values qm \<noteq> []" using assms(2) by (auto simp: hm_values_def)
  have "list_ex (\<lambda>bd. bd_broker_addrs bd \<noteq> [] \<and> \<not> hm_contains (bd_broker_addrs bd) master_id) bds"
    using mem assms(6,7) by (auto simp: list_ex_iff)
  then show ?thesis
    using mem ne qne assms(4,5) unfolding pickup_topic_route_data_def assms(1) option.case c prod.case Let_def
    by (simp del: hm_contains_iff)
qed

section \<open>Registration of a master\<close>

text \<open>
  The registration of a master is admitted if no other address is registered as the master of the broker and, where the broker has no master yet,
  the number of its topics is not one: such a registration is refused.
\<close>

definition master_admitted :: "string \<Rightarrow> string \<Rightarrow> topic_config_wrapper \<Rightarrow> route_info \<Rightarrow> bool" where
  "master_admitted b addr w r \<longleftrightarrow>
     (case hm_get (broker_addr_table r) b of
        None \<Rightarrow> length (topic_config_table w) \<noteq> 1
      | Some bd \<Rightarrow>
          (case hm_get (bd_broker_addrs bd) master_id of
             None \<Rightarrow> length (topic_config_table w) \<noteq> 1
           | Some a \<Rightarrow> a = addr))"

lemma register_broker_master:
  assumes inv: "route_inv r" and w: "wrapper_ok w" and tc: "(t, tc) \<in> set (topic_config_table w)"
    and adm: "master_admitted b addr w r"
    and out_def: "out = register_broker cfg now cl addr b master_id ha zone timeout acting w fs remote r"
  shows "\<exists>res. snd out = Returned (Some res)"
    and "queue_of (fst out) t b = Some (qd_of_config b tc)"
    and "\<exists>bd. hm_get (broker_addr_table (fst out)) b = Some bd \<and>
           hm_get (bd_broker_addrs bd) master_id = Some addr"
proof -
  let ?act = "case acting of Some x \<Rightarrow> x | None \<Rightarrow> False"
  define r1 where "r1 = enter_cluster cl b r"
  obtain bd0 created where e: "enter_broker cl b zone ?act r1 = (bd0, created)" by fastforce
  define bd1 where "bd1 = remove_broker_by_addr master_id addr bd0"
  define r2 where "r2 = put_broker b bd1 r1"
  define bd2 where "bd2 = bd1\<lparr>bd_broker_addrs := hm_insert master_id addr (bd_broker_addrs bd1)\<rparr>"
  define r3 where "r3 = put_broker b bd2 r2"
  have inv0: "hm_inv (bd_broker_addrs bd0)"
    using enter_broker_ok [OF enter_cluster_ok [OF inv [unfolded route_inv_def], of cl b, folded r1_def] e]
    by (simp add: broker_ok_def addrs_ok_def)
  have bd0: "hm_get (bd_broker_addrs bd0) master_id = Some a \<Longrightarrow> a = addr" for a
    using e adm by (auto simp: enter_broker_def r1_def enter_cluster_def bd_new_def master_admitted_def split: option.splits)
  have many: "hm_contains (bd_broker_addrs bd1) master_id \<or> length (topic_config_table w) \<noteq> 1"
    using e adm by (auto simp: enter_broker_def r1_def enter_cluster_def master_admitted_def hm_contains_iff bd1_def
        get_remove_broker_by_addr [OF inv0] split: option.splits)
  have no_conflict: "\<not> registration_conflict cl addr master_id w bd1 r2"
    using bd0 by (auto simp: registration_conflict_def bd1_def get_remove_broker_by_addr [OF inv0]
        split: option.splits if_splits)
  define first where "first \<longleftrightarrow> created \<or> hm_get (bd_broker_addrs bd1) master_id = None \<or>
      hm_get (bd_broker_addrs bd1) master_id = Some []"
  define out3 where "out3 = update_topics_on_registration cfg cl addr b w first False
      (bd_enable_acting_master bd2) r3"
  have out3: "snd out3 = Returned ()" "queue_of (fst out3) t b = Some (qd_of_config b tc)"
    unfolding out3_def by (rule update_topics_master [OF w tc])+
  have brokers: "hm_get (broker_addr_table (fst out3)) b = Some bd2"
    using same_brokers_topics [of r3]
    by (simp add: out3_def same_brokers_def r3_def put_broker_def)
  define minch where "minch \<longleftrightarrow> master_id < (case min_key (bd_broker_addrs bd0) of Some m \<Rightarrow> m | None \<Rightarrow> 0)"
  have out: "out = finish_registration cfg now cl addr master_id ha timeout w fs remote bd2 minch (fst out3)"
    using no_conflict many out3(1)
    unfolding out_def register_broker_def Let_def r1_def [symmetric] e prod.case bd1_def [symmetric]
      r2_def [symmetric] bd2_def [symmetric] r3_def [symmetric] minch_def [symmetric]
      first_def [symmetric]
    by (cases out3) (auto simp add: out3_def)
  show "\<exists>res. snd out = Returned (Some res)"
    unfolding out by (rule finish_registration_returns)
  show "queue_of (fst out) t b = Some (qd_of_config b tc)"
    using out3(2) by (simp add: out queue_of_def)
  show "\<exists>bd. hm_get (broker_addr_table (fst out)) b = Some bd \<and>
           hm_get (bd_broker_addrs bd) master_id = Some addr"
    using brokers by (simp add: out bd2_def)
qed

section \<open>Removal of a broker\<close>

lemma hm_get_clean:
  assumes "hm_inv (topic_queue_table r)"
  shows "hm_get (topic_queue_table (clean_topic_by_un_register_requests removed reduced r)) t =
    (case hm_get (topic_queue_table r) t of
       None \<Rightarrow> None
     | Some qm \<Rightarrow> if fold hm_remove removed qm = [] then None
                  else Some (fold (wipe_reduced r) reduced (fold hm_remove removed qm)))"
proof -
  have "topic_queue_table (clean_topic_by_un_register_requests removed reduced r) =
      hm_map (\<lambda>_. fold (wipe_reduced r) reduced)
        (hm_retain (\<lambda>_ qm. qm \<noteq> []) (hm_map (\<lambda>_. fold hm_remove removed) (topic_queue_table r)))"
    by (simp add: clean_topic_by_un_register_requests_def hm_map_def hm_retain_def)
  then show ?thesis
    using assms by (simp add: hm_get_retain split: option.splits)
qed

lemma clean_brokers [simp]:
  "broker_addr_table (clean_topic_by_un_register_requests removed reduced r) = broker_addr_table r"
  by (simp add: clean_topic_by_un_register_requests_def)

lemma hm_get_wipe_reduced:
  "hm_get (wipe_reduced r b qm) b' =
     (if b' = b \<and> (case hm_get (broker_addr_table r) b of None \<Rightarrow> False
                    | Some bd \<Rightarrow> bd_enable_acting_master bd \<and> is_no_master_exists b r)
      then map_option (\<lambda>qd. qd\<lparr>qd_perm := qd_perm qd AND NOT perm_write\<rparr>) (hm_get qm b)
      else hm_get qm b')"
  by (auto simp: wipe_reduced_def split: option.splits)

lemma queue_of_clean:
  assumes "hm_inv (topic_queue_table r)"
  shows "queue_of (clean_topic_by_un_register_requests removed [] r) t b =
      (if b \<in> set removed then None else queue_of r t b)"
    and "queue_of (clean_topic_by_un_register_requests [] [x] r) t b =
      (if b = x \<and> (case hm_get (broker_addr_table r) x of None \<Rightarrow> False
                    | Some bd \<Rightarrow> bd_enable_acting_master bd \<and> is_no_master_exists x r)
       then map_option (\<lambda>qd. qd\<lparr>qd_perm := qd_perm qd AND NOT perm_write\<rparr>) (queue_of r t x)
       else queue_of r t b)"
proof -
  have empty: "hm_get qm b = None" if "b \<notin> set removed" "fold hm_remove removed qm = []" for qm
    using that by (metis hm_get_empty hm_get_removes)
  show "queue_of (clean_topic_by_un_register_requests removed [] r) t b =
      (if b \<in> set removed then None else queue_of r t b)"
    by (simp add: queue_of_def hm_get_clean [OF assms] hm_get_removes empty split: option.splits)
  show "queue_of (clean_topic_by_un_register_requests [] [x] r) t b =
      (if b = x \<and> (case hm_get (broker_addr_table r) x of None \<Rightarrow> False
                    | Some bd \<Rightarrow> bd_enable_acting_master bd \<and> is_no_master_exists x r)
       then map_option (\<lambda>qd. qd\<lparr>qd_perm := qd_perm qd AND NOT perm_write\<rparr>) (queue_of r t x)
       else queue_of r t b)"
    by (auto simp: queue_of_def hm_get_clean [OF assms] hm_get_wipe_reduced split: option.splits)
qed

lemma notify_reduced_tables:
  "topic_queue_table (notify_reduced ns r) = topic_queue_table r \<and>
   broker_addr_table (notify_reduced ns r) = broker_addr_table r \<and>
   broker_live_table (notify_reduced ns r) = broker_live_table r"
proof -
  have one: "topic_queue_table (notify_min_broker_id_changed addrs offline ha r) = topic_queue_table r"
    "broker_live_table (notify_min_broker_id_changed addrs offline ha r) = broker_live_table r"
    for addrs offline ha r
    by (simp_all add: notify_min_broker_id_changed_def Let_def split: option.splits)
  show ?thesis
    unfolding notify_reduced_def
    by (induction ns arbitrary: r) (auto simp: one split: prod.splits option.splits)
qed

lemma un_register_last_address:
  assumes "route_inv r" "hm_get (broker_addr_table r) (ur_broker_name q) = Some bd"
    and "hm_all (\<lambda>_ a. a = ur_broker_addr q) (bd_broker_addrs bd)"
    and r'_def: "r' = un_register_broker cfg [q] r"
  shows "hm_get (broker_addr_table r') = (hm_get (broker_addr_table r))(ur_broker_name q := None)"
    and "queue_of r' t b = (if b = ur_broker_name q then None else queue_of r t b)"
    and "hm_get (topic_queue_table r') t = Some qm \<Longrightarrow> qm \<noteq> []"
proof -
  have none: "hm_retain (\<lambda>_ a. ur_broker_addr q \<noteq> a) (bd_broker_addrs bd) = []"
    using assms(3) by (auto simp: hm_retain_def hm_all_def list_all_iff filter_empty_conv)
  define r1 where "r1 = us_tables (un_register_one q
      \<lparr>us_tables = r, us_removed = [], us_reduced = [], us_notify = []\<rparr>)"
  have r1: "broker_addr_table r1 = hm_remove (ur_broker_name q) (broker_addr_table r)"
      "topic_queue_table r1 = topic_queue_table r"
    using assms(2) none by (simp_all add: r1_def un_register_one_def Let_def)
  have r': "r' = clean_topic_by_un_register_requests [ur_broker_name q] [] r1"
    using assms(2) none unfolding r'_def un_register_broker_def r1_def
    by (simp add: un_register_one_def Let_def hs_insert_def)
  have inv: "hm_inv (topic_queue_table r1)" using assms(1) by (simp add: r1 route_inv_def tables_ok_invs)
  show "hm_get (broker_addr_table r') = (hm_get (broker_addr_table r))(ur_broker_name q := None)"
    by (auto simp: r' r1 fun_eq_iff)
  show "queue_of r' t b = (if b = ur_broker_name q then None else queue_of r t b)"
    unfolding r' queue_of_clean(1) [OF inv] by (simp add: queue_of_def r1)
  show "hm_get (topic_queue_table r') t = Some qm \<Longrightarrow> qm \<noteq> []"
    by (auto simp: r' hm_get_clean [OF inv] split: option.splits if_splits)
qed

lemma un_register_one_address:
  assumes "route_inv r" "hm_get (broker_addr_table r) (ur_broker_name q) = Some bd"
    and "addrs = hm_retain (\<lambda>_ a. ur_broker_addr q \<noteq> a) (bd_broker_addrs bd)" "addrs \<noteq> []"
    and r'_def: "r' = un_register_broker cfg [q] r"
  shows "hm_get (broker_addr_table r') =
      (hm_get (broker_addr_table r))(ur_broker_name q := Some (bd\<lparr>bd_broker_addrs := addrs\<rparr>))"
    and "queue_of r' t b =
      (if b = ur_broker_name q \<and> bd_enable_acting_master bd \<and> the (min_key addrs) > 0
       then map_option (\<lambda>qd. qd\<lparr>qd_perm := qd_perm qd AND NOT perm_write\<rparr>) (queue_of r t b)
       else queue_of r t b)"
proof -
  let ?b = "ur_broker_name q"
  define s where "s = un_register_one q \<lparr>us_tables = r, us_removed = [], us_reduced = [], us_notify = []\<rparr>"
  have s: "broker_addr_table (us_tables s) = hm_insert ?b (bd\<lparr>bd_broker_addrs := addrs\<rparr>) (broker_addr_table r)"
      "topic_queue_table (us_tables s) = topic_queue_table r" "us_removed s = []" "us_reduced s = [?b]"
    using assms(2,4) unfolding s_def un_register_one_def Let_def
    by (simp_all add: assms(3) [symmetric] hs_insert_def)
  define r1 where "r1 = clean_topic_by_un_register_requests [] [?b] (us_tables s)"
  have tabs: "topic_queue_table r' = topic_queue_table r1" "broker_addr_table r' = broker_addr_table r1"
    unfolding r'_def un_register_broker_def Let_def
    by (simp_all add: s_def [symmetric] s(3,4) r1_def [symmetric] notify_reduced_tables)
  have inv: "hm_inv (topic_queue_table (us_tables s))"
    using assms(1) by (simp add: s route_inv_def tables_ok_invs)
  have m: "is_no_master_exists ?b (us_tables s) \<longleftrightarrow> the (min_key addrs) > 0"
    using assms(4) by (auto simp: is_no_master_exists_def s split: option.splits)
  show "hm_get (broker_addr_table r') =
      (hm_get (broker_addr_table r))(?b := Some (bd\<lparr>bd_broker_addrs := addrs\<rparr>))"
    by (auto simp: tabs r1_def s fun_eq_iff)
  have q: "queue_of (us_tables s) = queue_of r" by (rule queue_of_topic_table) (rule s(2))
  have bs: "hm_get (broker_addr_table (us_tables s)) ?b = Some (bd\<lparr>bd_broker_addrs := addrs\<rparr>)"
    by (simp add: s)
  have "queue_of r' t b = queue_of r1 t b" by (simp add: queue_of_def tabs)
  also have "\<dots> = (if b = ?b \<and> bd_enable_acting_master bd \<and> the (min_key addrs) > 0
       then map_option (\<lambda>qd. qd\<lparr>qd_perm := qd_perm qd AND NOT perm_write\<rparr>) (queue_of r t b)
       else queue_of r t b)"
    unfolding r1_def queue_of_clean(2) [OF inv] by (simp add: m q bs)
  finally show "queue_of r' t b =
      (if b = ?b \<and> bd_enable_acting_master bd \<and> the (min_key addrs) > 0
       then map_option (\<lambda>qd. qd\<lparr>qd_perm := qd_perm qd AND NOT perm_write\<rparr>) (queue_of r t b)
       else queue_of r t b)" .
qed

lemma un_register_live:
  "broker_live_table (un_register_broker cfg [q] r) =
     hm_remove (BrokerAddrInfo (ur_cluster_name q) (ur_broker_addr q)) (broker_live_table r)"
proof -
  have "broker_live_table (us_tables (un_register_one q s)) =
      hm_remove (BrokerAddrInfo (ur_cluster_name q) (ur_broker_addr q)) (broker_live_table (us_tables s))" for s
    by (simp add: un_register_one_def Let_def split: option.splits)
  then show ?thesis
    by (simp add: un_register_broker_def Let_def notify_reduced_tables
        clean_topic_by_un_register_requests_def)
qed

lemma on_connection_disconnected_live:
  "i \<noteq> info \<Longrightarrow> hm_get (broker_live_table (on_connection_disconnected cfg info r)) i =
     hm_get (broker_live_table r) i"
  by (cases info) (auto simp: on_connection_disconnected_def setup_un_register_request_def un_register_live
      split: option.splits)

definition live_expired :: "i64 \<Rightarrow> broker_live_info \<Rightarrow> bool" where
  "live_expired now live \<longleftrightarrow>
     wrap_i64 (bl_heartbeat_timeout_millis live + bl_last_update_timestamp live) < now"

lemma scan_keeps:
  "\<forall>live. (i, live) \<in> set l \<longrightarrow> \<not> live_expired now live \<Longrightarrow>
   hm_get (broker_live_table (fold (\<lambda>(info, live) r.
      if wrap_i64 (bl_heartbeat_timeout_millis live + bl_last_update_timestamp live) < now
      then on_connection_disconnected cfg info r else r) l r)) i = hm_get (broker_live_table r) i"
proof (induction l arbitrary: r)
  case (Cons e l)
  obtain info live where e: "e = (info, live)" by (cases e)
  have "hm_get (broker_live_table (if live_expired now live then on_connection_disconnected cfg info r else r)) i =
      hm_get (broker_live_table r) i"
    using Cons.prems e by (cases "info = i") (auto simp: on_connection_disconnected_live)
  with Cons e show ?case by (simp add: live_expired_def)
qed simp

section \<open>Permissions and stale topics\<close>

lemma queue_of_write_perm:
  "queue_of (fst (operate_write_perm_of_broker b code r)) t b' =
     (if b' = b then map_option (\<lambda>qd. qd\<lparr>qd_perm := new_perm code (qd_perm qd)\<rparr>) (queue_of r t b)
      else queue_of r t b')"
  by (auto simp: queue_of_def operate_write_perm_of_broker_def split: option.splits)

lemma count_topics:
  "0 \<le> cnt \<Longrightarrow> cnt + int (length qms) < 2 ^ 31 \<Longrightarrow>
   fold (\<lambda>qm cnt. if P qm then wrap_i32 (cnt + 1) else cnt) qms cnt = cnt + int (length (filter P qms))"
proof (induction qms arbitrary: cnt)
  case (Cons qm qms)
  have "wrap_i32 (cnt + 1) = cnt + 1" using Cons.prems by (simp add: is_i32_def)
  then show ?case using Cons by simp
qed simp

lemma delete_topic_of_broker_absent:
  assumes "queue_of r t b = None" "hm_get (topic_queue_table r) t' = Some qm" "qm \<noteq> []"
  shows "hm_get (topic_queue_table (delete_topic_of_broker b t r)) t' = Some qm"
proof (cases "hm_get (topic_queue_table r) t")
  case None
  then show ?thesis using assms by (simp add: delete_topic_of_broker_def)
next
  case (Some m)
  with assms(1) have "hm_remove b m = m"
    by (auto simp: queue_of_def hm_remove_def hm_get_def AList.delete_eq filter_id_conv
        intro!: filter_True dest: weak_map_of_SomeI)
  with Some assms show ?thesis by (auto simp: delete_topic_of_broker_def Let_def)
qed

lemma delete_topics_absent:
  assumes "hm_inv (topic_queue_table r)" "hm_get (topic_queue_table r) t = Some qm" "qm \<noteq> []"
  shows "hm_get (topic_queue_table (delete_topics_on_registration cfg b w r)) t = Some qm"
proof -
  have fold: "hm_get (topic_queue_table r) t = Some qm \<Longrightarrow> \<forall>t \<in> set ts. queue_of r t b = None \<Longrightarrow>
      hm_get (topic_queue_table (fold (delete_topic_of_broker b) ts r)) t = Some qm" for ts r
  proof (induction ts arbitrary: r)
    case (Cons t1 ts)
    have "queue_of r t2 b = None \<Longrightarrow> queue_of (delete_topic_of_broker b t1 r) t2 b = None" for t2
      by (auto simp: queue_of_def delete_topic_of_broker_def Let_def split: option.splits)
    with Cons assms(3) show ?case by (simp add: delete_topic_of_broker_absent)
  qed simp
  have "queue_of r t b = None" if "t \<notin> set (topic_set_of_broker_name b r)" for t
    using that assms(1)
    by (auto simp: topic_set_of_broker_name_def hm_keys_iff hm_get_retain queue_of_def
        split: option.splits if_splits)
  then show ?thesis
    using assms by (simp add: delete_topics_on_registration_def Let_def fold)
qed

section \<open>A sample name server\<close>

text \<open>One master that registered two topics, and a slave that joined it later.\<close>

definition sample_cfg :: namesrv_config where
  "sample_cfg = (nc_default [] [] [])\<lparr>delete_topic_with_broker_registration := True,
     cfg_notify_min_broker_id_changed := True, support_acting_master := True\<rparr>"

definition sample_config :: "string \<Rightarrow> topic_config" where
  "sample_config t = \<lparr>tc_topic_name = Some t, tc_read_queue_nums = 4, tc_write_queue_nums = 8,
     tc_perm = 6, tc_topic_filter_type = SingleTag, tc_topic_sys_flag = 0, tc_order = False,
     tc_attributes = []\<rparr>"

definition sample_wrapper :: "string list \<Rightarrow> topic_config_wrapper" where
  "sample_wrapper ts = \<lparr>topic_queue_mapping_info_map = [],
     topic_config_table = map (\<lambda>t. (t, sample_config t)) ts,
     wrapper_data_version = \<lparr>state_version = 0, timestamp = 1, counter = 1\<rparr>\<rparr>"

definition sample_master :: route_op where
  "sample_master = RegisterBroker 10 ''c'' ''a0'' ''b'' 0 ''ha'' None None (Some True)
     (sample_wrapper [''t1'', ''t2'']) [] ''s0''"

definition sample_slave :: route_op where
  "sample_slave = RegisterBroker 20 ''c'' ''a1'' ''b'' 1 ''ha'' None None (Some True)
     (sample_wrapper [''t1'', ''t2'']) [] ''s1''"

definition sample_routes :: route_info where
  "sample_routes = route_step sample_cfg sample_slave (route_step sample_cfg sample_master ri_new)"

lemma sample_reachable: "reachable (route_step sample_cfg) ri_new sample_routes"
  unfolding sample_routes_def by (intro reachable.intros)

lemma sample_inv: "route_inv sample_routes"
  by (rule routes.reachable_inv [OF sample_reachable])

lemma sample_queues:
  "hm_get (topic_queue_table sample_routes) ''t1'' =
     Some [(''b'', qd_of_config ''b'' (sample_config ''t1''))]"
  by code_simp

lemma sample_queue: "queue_of sample_routes ''t1'' ''b'' = Some (qd_of_config ''b'' (sample_config ''t1''))"
  unfolding queue_of_def sample_queues by (simp add: hm_get_def)

lemma sample_broker:
  "hm_get (broker_addr_table sample_routes) ''b'' =
     Some \<lparr>bd_cluster = ''c'', bd_broker_name = ''b'', bd_broker_addrs = [(0, ''a0''), (1, ''a1'')],
           bd_zone_name = None, bd_enable_acting_master = True\<rparr>"
  by code_simp

section \<open>Properties\<close>

text \<open>
  C1. The name server's tables stay consistent in every reachable state, whatever brokers
  register, unregister, time out or disconnect in whatever order, and also after a registration
  that ended in a panic: a queue entry is filed under its own broker name, its broker is
  registered, filed under its name and a member of its cluster, and the addresses of a broker are
  pairwise different.
\<close>

theorem route_tables_consistent:
  assumes "reachable (route_step cfg) ri_new r"
    and "hm_get (topic_queue_table r) t = Some qm" and "hm_get qm b = Some qd"
  shows "qd_broker_name qd = b \<and>
    (\<exists>bd. hm_get (broker_addr_table r) b = Some bd \<and> bd_broker_name bd = b \<and>
       in_cluster (cluster_addr_table r) (bd_cluster bd) b \<and> distinct (hm_values (bd_broker_addrs bd)))"
proof -
  have inv: "route_inv r" by (rule routes.reachable_inv [OF assms(1)])
  then have ok: "tables_ok (hm_contains (broker_addr_table r)) r" by (simp add: route_inv_def)
  from queue_map_ok_get [OF tables_ok_get(1) [OF ok assms(2)] assms(3)]
  obtain bd where "qd_broker_name qd = b" "hm_get (broker_addr_table r) b = Some bd" by auto
  with tables_ok_get(2) [OF ok, of b bd] show ?thesis
    by (auto simp: broker_ok_def addrs_ok_def)
qed

theorem route_tables_consistent_witness:
  "\<exists>bd. hm_get (broker_addr_table sample_routes) ''b'' = Some bd \<and> bd_broker_name bd = ''b''"
  using route_tables_consistent [OF sample_reachable sample_queues, of "''b''"] by (auto simp: hm_get_def)

text \<open>
  C25. Whatever route a client is given, it is complete and names registered brokers only: the
  queue entries and the broker data it carries are for exactly the same brokers.
\<close>

theorem routes_name_registered_brokers:
  assumes "reachable (route_step cfg) ri_new r"
    and "pickup_topic_route_data cfg' t r = Some route"
  shows "set (map qd_broker_name (queue_datas route)) = set (map bd_broker_name (broker_datas route)) \<and>
    (\<forall>bd \<in> set (broker_datas route). hm_contains (broker_addr_table r) (bd_broker_name bd))"
proof -
  have ok: "tables_ok (hm_contains (broker_addr_table r)) r"
    using routes.reachable_inv [OF assms(1)] by (simp add: route_inv_def)
  obtain qm where qm: "hm_get (topic_queue_table r) t = Some qm" "queue_datas route = hm_values qm"
    and bds: "map bd_broker_name (broker_datas route) =
        map bd_broker_name (List.map_filter (hm_get (broker_addr_table r)) (hm_keys qm))"
    using pickup_queue_datas [OF assms(2)] by fastforce
  have qok: "queue_map_ok (hm_contains (broker_addr_table r)) qm" by (rule tables_ok_get(1) [OF ok qm(1)])
  have keys: "set (map qd_broker_name (hm_values qm)) = set (hm_keys qm)"
    using qok by (force simp: queue_map_ok_def hm_all_def list_all_iff hm_values_def hm_keys_def)
  have known: "\<exists>bd. hm_get (broker_addr_table r) b = Some bd \<and> bd_broker_name bd = b" if "b \<in> set (hm_keys qm)" for b
    using that queue_map_ok_get [OF qok, of b] tables_ok_get(2) [OF ok, of b]
    by (auto simp: hm_keys_iff broker_ok_def)
  have named: "bd_broker_name bd = b" if "hm_get (broker_addr_table r) b = Some bd" for b bd
    using tables_ok_get(2) [OF ok that] by (simp add: broker_ok_def)
  have names: "set (map bd_broker_name (broker_datas route)) = set (hm_keys qm)"
    unfolding bds using known named by (force simp: set_map_filter_iff)
  have "hm_contains (broker_addr_table r) (bd_broker_name bd)" if "bd \<in> set (broker_datas route)" for bd
  proof -
    have "bd_broker_name bd \<in> set (hm_keys qm)"
      using that unfolding names [symmetric] by simp
    from known [OF this] show ?thesis by auto
  qed
  then show ?thesis
    by (simp only: qm(2) keys names) blast
qed

theorem routes_name_registered_brokers_witness:
  "set (map qd_broker_name (queue_datas (the (pickup_topic_route_data sample_cfg ''t1'' sample_routes)))) =
   set (map bd_broker_name (broker_datas (the (pickup_topic_route_data sample_cfg ''t1'' sample_routes))))"
proof -
  have "\<exists>route. pickup_topic_route_data sample_cfg ''t1'' sample_routes = Some route"
    using pickup_found [OF sample_queue sample_broker] by blast
  then show ?thesis using routes_name_registered_brokers [OF sample_reachable] by auto
qed

text \<open>
  C13. A master whose registration is admitted is found by clients: if no other address is registered as the master of the broker, and the broker
  has its master already or does not register exactly one topic, the registration succeeds, and the
  route of every topic it brought carries its address under the master id and the queue entry of
  the topic. The entry has the numbers of read and write queues of the configuration exchanged.
\<close>

theorem registered_master_is_routable:
  assumes "route_inv r" and "wrapper_ok w" and "(t, tc) \<in> set (topic_config_table w)"
    and "master_admitted b addr w r"
    and "register_broker cfg now cl addr b master_id ha zone timeout acting w fs remote r = (r', res)"
  shows "\<exists>ans route bd qd. res = Returned (Some ans) \<and> pickup_topic_route_data cfg' t r' = Some route \<and>
    bd \<in> set (broker_datas route) \<and> hm_get (bd_broker_addrs bd) master_id = Some addr \<and>
    qd \<in> set (queue_datas route) \<and> qd_perm qd = tc_perm tc \<and>
    qd_read_queue_nums qd = tc_write_queue_nums tc \<and> qd_write_queue_nums qd = tc_read_queue_nums tc"
proof -
  note reg = register_broker_master [OF assms(1-4) refl, of cfg now cl ha zone timeout acting fs remote,
      unfolded assms(5) fst_conv snd_conv]
  obtain bd where bd: "hm_get (broker_addr_table r') b = Some bd"
    "hm_get (bd_broker_addrs bd) master_id = Some addr" using reg(3) by blast
  then have act: "act_as_master qds bd = bd" for qds by (simp add: act_as_master_id)
  obtain route where route: "pickup_topic_route_data cfg' t r' = Some route"
    "qd_of_config b tc \<in> set (queue_datas route)" "bd \<in> set (broker_datas route)"
    using pickup_found [OF reg(2) bd(1), of cfg'] act by auto
  then show ?thesis
    using reg(1) bd(2) by (fastforce simp: qd_of_config_def qd_new_def)
qed

theorem registered_master_is_routable_witness:
  "\<exists>route. pickup_topic_route_data sample_cfg ''t1''
     (fst (register_broker sample_cfg 10 ''c'' ''a0'' ''b'' master_id ''ha'' None None None
        (sample_wrapper [''t1'', ''t2'']) [] ''s0'' ri_new)) = Some route"
proof -
  have w: "wrapper_ok (sample_wrapper [''t1'', ''t2''])"
    by (simp add: wrapper_ok_def sample_wrapper_def sample_config_def hm_inv_def hm_all_def)
  obtain r' res where reg: "register_broker sample_cfg 10 ''c'' ''a0'' ''b'' master_id ''ha'' None None None
      (sample_wrapper [''t1'', ''t2'']) [] ''s0'' ri_new = (r', res)" by fastforce
  show ?thesis
    unfolding reg fst_conv
    using registered_master_is_routable [OF route_inv_new w _ _ reg, of "''t1''" "sample_config ''t1''" sample_cfg]
    by (auto simp: ri_new_def sample_wrapper_def master_admitted_def)
qed

text \<open>
  C24. A broker that unregisters its last address disappears: it leaves the broker table and every
  topic, no other queue entry changes, and a topic that has no broker left is deleted.
\<close>

theorem unregistered_broker_disappears:
  assumes "route_inv r" and "hm_get (broker_addr_table r) (ur_broker_name q) = Some bd"
    and "hm_all (\<lambda>_ a. a = ur_broker_addr q) (bd_broker_addrs bd)"
  shows "hm_get (broker_addr_table (un_register_broker cfg [q] r)) =
           (hm_get (broker_addr_table r))(ur_broker_name q := None) \<and>
         queue_of (un_register_broker cfg [q] r) =
           (\<lambda>t b. if b = ur_broker_name q then None else queue_of r t b) \<and>
         (\<forall>t. hm_get (topic_queue_table (un_register_broker cfg [q] r)) t \<noteq> Some [])"
  using un_register_last_address(1,2) [OF assms refl, of cfg] un_register_last_address(3) [OF assms refl, of cfg _ "[]"]
  by (auto simp: fun_eq_iff)

theorem unregistered_broker_disappears_witness:
  "hm_get (broker_addr_table (un_register_broker sample_cfg
      [\<lparr>ur_broker_name = ''b'', ur_broker_addr = ''a0'', ur_cluster_name = ''c'', ur_broker_id = 0\<rparr>]
      (route_step sample_cfg sample_master ri_new))) ''b'' = None"
proof -
  have inv: "route_inv (route_step sample_cfg sample_master ri_new)"
    by (rule route_inv_step [OF route_inv_new])
  have bd: "hm_get (broker_addr_table (route_step sample_cfg sample_master ri_new)) ''b'' =
     Some \<lparr>bd_cluster = ''c'', bd_broker_name = ''b'', bd_broker_addrs = [(0, ''a0'')],
           bd_zone_name = None, bd_enable_acting_master = True\<rparr>"
    by code_simp
  show ?thesis
    using unregistered_broker_disappears [OF inv, of "\<lparr>ur_broker_name = ''b'', ur_broker_addr = ''a0'',
        ur_cluster_name = ''c'', ur_broker_id = 0\<rparr>" _ sample_cfg] bd
    by (simp add: hm_all_def)
qed

text \<open>
  C18. When a master leaves a broker group that runs with an acting master, the slave with the
  smallest id takes over: the queues of the broker are no longer writeable, and the route of its
  topics names that slave's address under the master id.
\<close>

theorem acting_master_takes_over:
  assumes inv: "route_inv r" and bd: "hm_get (broker_addr_table r) (ur_broker_name q) = Some bd"
    and acting: "bd_enable_acting_master bd" "support_acting_master cfg"
      "\<not> prefix sync_broker_member_group_prefix t"
    and master: "hm_get (bd_broker_addrs bd) master_id = Some (ur_broker_addr q)"
    and slave: "min_key (hm_retain (\<lambda>_ a. ur_broker_addr q \<noteq> a) (bd_broker_addrs bd)) = Some i"
      "hm_get (bd_broker_addrs bd) i = Some addr"
    and queue: "queue_of r t (ur_broker_name q) = Some qd"
  shows "\<exists>route bd'. pickup_topic_route_data cfg t (un_register_broker cfg [q] r) = Some route \<and>
    bd' \<in> set (broker_datas route) \<and> bd_broker_name bd' = ur_broker_name q \<and>
    hm_get (bd_broker_addrs bd') master_id = Some addr \<and>
    \<not> perm_is_writeable (qd_perm (the (queue_of (un_register_broker cfg [q] r) t (ur_broker_name q))))"
proof -
  let ?b = "ur_broker_name q"
  define addrs where "addrs = hm_retain (\<lambda>_ a. ur_broker_addr q \<noteq> a) (bd_broker_addrs bd)"
  define r' where "r' = un_register_broker cfg [q] r"
  have ok: "tables_ok (hm_contains (broker_addr_table r)) r" using inv by (simp add: route_inv_def)
  have bok: "broker_ok (cluster_addr_table r) ?b bd" by (rule tables_ok_get(2) [OF ok bd])
  then have ainv: "hm_inv (bd_broker_addrs bd)" by (simp add: broker_ok_def addrs_ok_def)
  have ne: "addrs \<noteq> []" using slave(1) by (auto simp: addrs_def)
  have get: "hm_get addrs k = (case hm_get (bd_broker_addrs bd) k of None \<Rightarrow> None
      | Some a \<Rightarrow> if ur_broker_addr q \<noteq> a then Some a else None)" for k
    by (simp add: addrs_def hm_get_retain [OF ainv])
  have no_master: "hm_get addrs master_id = None" using master by (simp add: get)
  have i: "min_key addrs = Some i" "hm_get addrs i = Some addr"
    using slave min_key_in [of addrs i] by (auto simp: addrs_def [symmetric] get split: option.splits if_splits)
  then have "i \<noteq> 0" using no_master by (auto simp: master_id_def)
  then have pos: "the (min_key addrs) > 0" using i by (simp add: word_gt_0)
  note un = un_register_one_address [OF inv bd addrs_def ne refl, of cfg, folded r'_def]
  have bd': "hm_get (broker_addr_table r') ?b = Some (bd\<lparr>bd_broker_addrs := addrs\<rparr>)" by (simp add: un(1))
  have wiped: "queue_of r' t ?b = Some (qd\<lparr>qd_perm := qd_perm qd AND NOT perm_write\<rparr>)"
    using queue acting(1) pos by (simp add: un(2))
  have inv': "tables_ok (hm_contains (broker_addr_table r')) r'"
    using un_register_broker_ok [OF inv] by (simp add: r'_def route_inv_def)
  obtain qm where qm: "hm_get (topic_queue_table r') t = Some qm"
    "hm_get qm ?b = Some (qd\<lparr>qd_perm := qd_perm qd AND NOT perm_write\<rparr>)"
    using wiped by (auto simp: queue_of_def split: option.splits)
  have acts: "hm_get (bd_broker_addrs (act_as_master (hm_values qm) (bd\<lparr>bd_broker_addrs := addrs\<rparr>))) master_id = Some addr"
    using i no_master ne acting(1) bok qm(2)
    by (intro act_as_master_promotes [OF tables_ok_get(1) [OF inv' qm(1)],
          where qd = "qd\<lparr>qd_perm := qd_perm qd AND NOT perm_write\<rparr>"])
       (simp_all add: broker_ok_def)
  obtain route where route: "pickup_topic_route_data cfg t r' = Some route"
    "act_as_master (hm_values qm) (bd\<lparr>bd_broker_addrs := addrs\<rparr>) \<in> set (broker_datas route)"
    using pickup_acting [OF qm(1) _ bd'] qm(2) acting(2,3) ne no_master by auto
  have "\<not> perm_is_writeable (qd_perm (the (queue_of r' t ?b)))"
    by (simp add: wiped)
  then show ?thesis
    using route acts bok by (auto simp: r'_def broker_ok_def)
qed

theorem acting_master_takes_over_witness:
  "\<exists>route bd'. pickup_topic_route_data sample_cfg ''t1'' (un_register_broker sample_cfg
       [\<lparr>ur_broker_name = ''b'', ur_broker_addr = ''a0'', ur_cluster_name = ''c'', ur_broker_id = 0\<rparr>]
       sample_routes) = Some route \<and>
     bd' \<in> set (broker_datas route) \<and> hm_get (bd_broker_addrs bd') master_id = Some ''a1''"
  using acting_master_takes_over [OF sample_inv, of "\<lparr>ur_broker_name = ''b'', ur_broker_addr = ''a0'',
      ur_cluster_name = ''c'', ur_broker_id = 0\<rparr>" _ sample_cfg "''t1''" 1 "''a1''"]
    sample_broker sample_queue
  by (force simp: sample_cfg_def sync_broker_member_group_prefix_def hm_get_def hm_retain_def master_id_def)

text \<open>
  Wiping the write permission of a broker makes none of its queues writeable, granting it sets
  exactly read and write on all of them; the queues of other brokers keep theirs, and the answer
  is the number of topics the broker serves.
\<close>

lemma write_perm_of_broker:
  assumes "length (topic_queue_table r) < 2 ^ 31"
  shows "queue_of (fst (wipe_write_perm_of_broker_by_lock b r)) t b =
           map_option (\<lambda>qd. qd\<lparr>qd_perm := qd_perm qd AND NOT perm_write\<rparr>) (queue_of r t b) \<and>
         queue_of (fst (add_write_perm_of_broker_by_lock b r)) t b =
           map_option (\<lambda>qd. qd\<lparr>qd_perm := 6\<rparr>) (queue_of r t b) \<and>
         (b' \<noteq> b \<longrightarrow> queue_of (fst (wipe_write_perm_of_broker_by_lock b r)) t b' = queue_of r t b' \<and>
                     queue_of (fst (add_write_perm_of_broker_by_lock b r)) t b' = queue_of r t b') \<and>
         snd (wipe_write_perm_of_broker_by_lock b r) =
           int (length (filter (\<lambda>qm. hm_contains qm b) (hm_values (topic_queue_table r)))) \<and>
         snd (add_write_perm_of_broker_by_lock b r) = snd (wipe_write_perm_of_broker_by_lock b r)"
proof -
  have six: "perm_read OR perm_write = 6" by (simp add: perm_read_def perm_write_def)
  have "snd (operate_write_perm_of_broker b code r) =
      int (length (filter (\<lambda>qm. hm_contains qm b) (hm_values (topic_queue_table r))))" for code
    using count_topics [of 0 "hm_values (topic_queue_table r)" "\<lambda>qm. hm_contains qm b"] assms
    by (simp add: operate_write_perm_of_broker_def hm_values_def)
  then show ?thesis
    by (simp add: wipe_write_perm_of_broker_by_lock_def add_write_perm_of_broker_by_lock_def
        queue_of_write_perm six)
qed

text \<open>
  The option to delete a broker's topics on registration deletes none: whatever topics the
  registering broker brings, every topic that has a queue entry keeps all of them, also a topic
  that the broker no longer serves.
\<close>

lemma stale_topics_survive_registration:
  assumes "route_inv r" and "hm_get (topic_queue_table r) t = Some qm" and "qm \<noteq> []"
  shows "hm_get (topic_queue_table (delete_topics_on_registration cfg b w r)) t = Some qm"
  using assms by (intro delete_topics_absent) (simp_all add: route_inv_def tables_ok_invs)

text \<open>
  A registration with an older state version than the one the broker id's current address is
  live with does not take over the id: the call answers with an empty result, the address under
  the id and every route entry stay, and the liveness entry of the refused address is dropped.
\<close>

lemma outdated_registration_is_ignored:
  assumes "route_inv r" and "hm_get (broker_addr_table r) b = Some bd"
    and "hm_get (bd_broker_addrs bd) i = Some old" and "old \<noteq> addr"
    and "hm_get (broker_live_table r) (BrokerAddrInfo cl old) = Some live"
    and "state_version (wrapper_data_version w) < state_version (bl_data_version live)"
    and "register_broker cfg now cl addr b i ha zone timeout acting w fs remote r = (r', res)"
  shows "res = Returned (Some rr_default) \<and>
    (\<exists>bd'. hm_get (broker_addr_table r') b = Some bd' \<and> hm_get (bd_broker_addrs bd') i = Some old) \<and>
    topic_queue_table r' = topic_queue_table r \<and>
    hm_get (broker_live_table r') (BrokerAddrInfo cl addr) = None"
proof -
  let ?act = "case acting of Some x \<Rightarrow> x | None \<Rightarrow> False"
  define r1 where "r1 = enter_cluster cl b r"
  define bd0 where "bd0 = bd\<lparr>bd_enable_acting_master := ?act, bd_zone_name := zone\<rparr>"
  define bd1 where "bd1 = remove_broker_by_addr i addr bd0"
  have e: "enter_broker cl b zone ?act r1 = (bd0, False)"
    using assms(2) by (simp add: enter_broker_def r1_def enter_cluster_def bd0_def)
  have inv: "hm_inv (bd_broker_addrs bd0)"
    using tables_ok_get(2) [OF assms(1) [unfolded route_inv_def] assms(2)]
    by (simp add: bd0_def broker_ok_def addrs_ok_def)
  have bd1: "hm_get (bd_broker_addrs bd1) i = Some old"
    using assms(3) by (simp add: bd1_def get_remove_broker_by_addr [OF inv]) (simp add: bd0_def)
  have live: "broker_live_table (put_broker b bd1 r1) = broker_live_table r"
    by (simp add: put_broker_def r1_def enter_cluster_def)
  have "registration_conflict cl addr i w bd1 (put_broker b bd1 r1)"
    using assms(4-6) by (simp add: registration_conflict_def bd1 live)
  then have "(r', res) = ((put_broker b bd1 r1)\<lparr>broker_live_table :=
      hm_remove (BrokerAddrInfo cl addr) (broker_live_table (put_broker b bd1 r1))\<rparr>, Returned (Some rr_default))"
    unfolding assms(7) [symmetric] register_broker_def Let_def r1_def [symmetric] e prod.case
      bd1_def [symmetric] by simp
  then show ?thesis
    using bd1 by (simp add: put_broker_def r1_def enter_cluster_def)
qed

text \<open>
  The periodic scan disconnects expired brokers only: a liveness entry whose heartbeat is not
  overdue survives it unchanged.
\<close>

lemma scan_keeps_live_brokers:
  assumes "route_inv r" and "hm_get (broker_live_table r) info = Some live" and "\<not> live_expired now live"
  shows "hm_get (broker_live_table (scan_not_active_broker cfg now r)) info = Some live"
proof -
  have "hm_inv (broker_live_table r)" using assms(1) by (simp add: route_inv_def tables_ok_invs)
  then have "\<forall>l. (info, l) \<in> set (broker_live_table r) \<longrightarrow> \<not> live_expired now l"
    using assms(2,3) by (auto simp: hm_mem_iff)
  then show ?thesis
    using assms(2) by (simp add: scan_not_active_broker_def scan_keeps)
qed

text \<open>
  A registration that is refused because an unknown broker brings a single topic still leaves
  its traces: the broker is listed without any address, and its name is in the cluster.
\<close>

lemma refused_registration_leaves_broker:
  "case register_broker cfg now cl addr b i ha zone timeout acting (sample_wrapper [t]) fs remote ri_new of
     (r', res) \<Rightarrow> res = Returned None \<and>
       map_option bd_broker_addrs (hm_get (broker_addr_table r') b) = Some [] \<and>
       in_cluster (cluster_addr_table r') cl b"
proof -
  have "enter_broker cl b zone act (enter_cluster cl b ri_new) =
      ((bd_new cl b [] zone)\<lparr>bd_enable_acting_master := act\<rparr>, True)" for act
    by (simp add: enter_broker_def enter_cluster_def ri_new_def)
  then show ?thesis
    by (simp add: register_broker_def Let_def bd_new_def remove_broker_by_addr_def hm_retain_def
        registration_conflict_def sample_wrapper_def put_broker_def enter_cluster_def in_cluster_def)
qed

end
