(* ===== verification/KV_Config.thy ===== *)
theory KV_Config
  imports Rust_Maps
begin

text \<open>
  The key-value configuration of the name server
  (\<open>rocketmq-namesrv/src/kvconfig/kvconfig_mananger.rs\<close>): a table of namespaces that is written
  to a file after every change. The JSON codec of \<open>serde_json\<close> is a pair of arguments
  \<open>encode\<close>/\<open>decode\<close>, and so is whether a write to the disk succeeds. The configuration refines
  the \<open>table\<close> contract with pairs of namespace and key as keys.
\<close>

section \<open>Model\<close>

type_synonym kv_table = "(string, (string, string) hmap) hmap"

record kv_manager =
  config_table :: kv_table
  kv_file :: "string option"

definition kv_new :: kv_manager where
  "kv_new = \<lparr>config_table = [], kv_file = None\<rparr>"

text \<open>\<open>string_to_file\<close> and \<open>file_to_string\<close>: a file that does not exist reads as empty text.\<close>

definition string_to_file :: "bool \<Rightarrow> string \<Rightarrow> kv_manager \<Rightarrow> kv_manager" where
  "string_to_file disk_ok content m = (if disk_ok then m\<lparr>kv_file := Some content\<rparr> else m)"

definition file_to_string :: "kv_manager \<Rightarrow> string" where
  "file_to_string m = (case kv_file m of None \<Rightarrow> [] | Some content \<Rightarrow> content)"

definition persist :: "(kv_table \<Rightarrow> string) \<Rightarrow> bool \<Rightarrow> kv_manager \<Rightarrow> kv_manager" where
  "persist encode disk_ok m = string_to_file disk_ok (encode (config_table m)) m"

text \<open>The decoded wrapper carries an optional table; text that does not decode panics.\<close>

definition load :: "(string \<Rightarrow> kv_table option option) \<Rightarrow> kv_manager \<Rightarrow> kv_manager outcome" where
  "load decode m =
     (case decode (file_to_string m) of
        None \<Rightarrow> Panicked
      | Some None \<Rightarrow> Returned m
      | Some (Some tbl) \<Rightarrow> Returned (m\<lparr>config_table := hm_extend (config_table m) tbl\<rparr>))"

definition put_kv_config ::
  "(kv_table \<Rightarrow> string) \<Rightarrow> bool \<Rightarrow> string \<Rightarrow> string \<Rightarrow> string \<Rightarrow> kv_manager \<Rightarrow> kv_manager" where
  "put_kv_config encode disk_ok namespace key v m =
     (let ns = (case hm_get (config_table m) namespace of Some t \<Rightarrow> t | None \<Rightarrow> [])
      in persist encode disk_ok
           (m\<lparr>config_table := hm_insert namespace (hm_insert key v ns) (config_table m)\<rparr>))"

definition delete_kv_config ::
  "(kv_table \<Rightarrow> string) \<Rightarrow> bool \<Rightarrow> string \<Rightarrow> string \<Rightarrow> kv_manager \<Rightarrow> kv_manager" where
  "delete_kv_config encode disk_ok namespace key m =
     (case hm_get (config_table m) namespace of
        None \<Rightarrow> m
      | Some ns \<Rightarrow>
          persist encode disk_ok
            (m\<lparr>config_table := hm_insert namespace (hm_remove key ns) (config_table m)\<rparr>))"

text \<open>The source encodes the table of the namespace as JSON; here it is the table itself.\<close>

definition get_kv_list_by_namespace :: "string \<Rightarrow> kv_manager \<Rightarrow> (string, string) hmap option" where
  "get_kv_list_by_namespace namespace m = hm_get (config_table m) namespace"

definition get_kvconfig :: "string \<Rightarrow> string \<Rightarrow> kv_manager \<Rightarrow> string option" where
  "get_kvconfig namespace key m =
     (case hm_get (config_table m) namespace of None \<Rightarrow> None | Some kv_table \<Rightarrow> hm_get kv_table key)"

datatype kv_op = PutKv bool string string string | DeleteKv bool string string

fun kv_step :: "(kv_table \<Rightarrow> string) \<Rightarrow> kv_op \<Rightarrow> kv_manager \<Rightarrow> kv_manager" where
  "kv_step encode (PutKv ok namespace key v) m = put_kv_config encode ok namespace key v m"
| "kv_step encode (DeleteKv ok namespace key) m = delete_kv_config encode ok namespace key m"

fun disk_was_ok :: "kv_op \<Rightarrow> bool" where
  "disk_was_ok (PutKv ok namespace key v) = ok"
| "disk_was_ok (DeleteKv ok namespace key) = ok"

definition kv_inv :: "kv_manager \<Rightarrow> bool" where
  "kv_inv m \<longleftrightarrow> hm_inv (config_table m) \<and> hm_all (\<lambda>_. hm_inv) (config_table m)"

text \<open>The file holds the current table, or nothing was configured yet.\<close>

definition saved :: "(kv_table \<Rightarrow> string) \<Rightarrow> kv_manager \<Rightarrow> bool" where
  "saved encode m \<longleftrightarrow> kv_file m = Some (encode (config_table m)) \<or> config_table m = []"

section \<open>Lemmas\<close>

lemma config_table_persist [simp]: "config_table (persist encode ok m) = config_table m"
  by (simp add: persist_def string_to_file_def)

lemma kv_inv_put: "kv_inv m \<Longrightarrow> kv_inv (put_kv_config encode ok ns k v m)"
  by (auto simp: put_kv_config_def kv_inv_def Let_def split: option.splits
      intro!: hm_all_insert hm_inv_insert dest: hm_all_get)

lemma kv_inv_delete: "kv_inv m \<Longrightarrow> kv_inv (delete_kv_config encode ok ns k m)"
  by (auto simp: delete_kv_config_def kv_inv_def split: option.splits
      intro!: hm_all_insert hm_inv_remove dest: hm_all_get)

interpretation kv: table "\<lambda>m (ns, k). get_kvconfig ns k m"
  "\<lambda>(ns, k) v. put_kv_config encode ok ns k v" "\<lambda>(ns, k). delete_kv_config encode ok ns k" kv_new kv_inv
proof
  fix m and k k' :: "string \<times> string" and v :: string
  obtain ns key where k: "k = (ns, key)" by (cases k)
  obtain ns' key' where k': "k' = (ns', key')" by (cases k')
  show "(case k of (ns, k) \<Rightarrow> get_kvconfig ns k kv_new) = None"
    by (simp add: k get_kvconfig_def kv_new_def)
  show "kv_inv kv_new" by (simp add: kv_inv_def kv_new_def)
  assume m: "kv_inv m"
  then show "kv_inv ((case k of (ns, k) \<Rightarrow> \<lambda>v. put_kv_config encode ok ns k v) v m)"
    and "kv_inv ((case k of (ns, k) \<Rightarrow> delete_kv_config encode ok ns k) m)"
    by (simp_all add: k kv_inv_put kv_inv_delete)
  show "(case k' of (ns, ka) \<Rightarrow> get_kvconfig ns ka ((case k of (ns, k) \<Rightarrow> \<lambda>v. put_kv_config encode ok ns k v) v m)) =
      (if k' = k then Some v else case k' of (ns, k) \<Rightarrow> get_kvconfig ns k m)"
    by (auto simp: k k' get_kvconfig_def put_kv_config_def Let_def split: option.splits)
  show "(case k' of (ns, ka) \<Rightarrow> get_kvconfig ns ka ((case k of (ns, k) \<Rightarrow> delete_kv_config encode ok ns k) m)) =
      (if k' = k then None else case k' of (ns, k) \<Rightarrow> get_kvconfig ns k m)"
    by (auto simp: k k' get_kvconfig_def delete_kv_config_def split: option.splits)
qed

lemma saved_step:
  assumes "saved encode m" "disk_was_ok op"
  shows "saved encode (kv_step encode op m)"
  using assms
  by (cases op) (auto simp: saved_def put_kv_config_def delete_kv_config_def persist_def string_to_file_def
      Let_def split: option.splits)

lemma saved_run:
  "saved encode m \<Longrightarrow> list_all disk_was_ok ops \<Longrightarrow> saved encode (fold (kv_step encode) ops m)"
  by (induction ops arbitrary: m) (auto simp: saved_step)

lemma kv_inv_step: "kv_inv m \<Longrightarrow> kv_inv (kv_step encode op m)"
  by (cases op) (auto simp: kv_inv_put kv_inv_delete)

interpretation kv_steps: preserved "kv_step encode" kv_new kv_inv
  by unfold_locales (simp_all add: kv_inv_step, simp add: kv_inv_def kv_new_def)

lemma get_extend_empty:
  assumes "hm_inv tbl"
  shows "hm_get (hm_extend [] tbl) k = hm_get tbl k"
proof -
  have "map_of (rev tbl) = map_of tbl"
    using assms by (subst map_of_inject_set) (auto simp: hm_inv_def simp flip: rev_map)
  then show ?thesis
    by (auto simp: hm_get_extend) (simp_all add: hm_get_def split: option.splits)
qed

section \<open>Properties\<close>

text \<open>
  The configuration is a map from namespace and key to value: a look-up finds the last value
  put under exactly this namespace and key unless it was deleted since, and no other entry is
  affected.
\<close>

lemma kv_config_is_a_map:
  "get_kvconfig ns' k' (put_kv_config encode ok ns k v m) =
     (if ns' = ns \<and> k' = k then Some v else get_kvconfig ns' k' m) \<and>
   get_kvconfig ns' k' (delete_kv_config encode ok ns k m) =
     (if ns' = ns \<and> k' = k then None else get_kvconfig ns' k' m)"
  by (auto simp: get_kvconfig_def put_kv_config_def delete_kv_config_def Let_def split: option.splits)

text \<open>
  The configuration survives a restart: after any sequence of changes whose writes to the disk
  succeed, a new manager that loads the file answers every look-up as the old one, when something
  was configured and the JSON codec reads back what it wrote.
\<close>

lemma kv_config_survives_restart:
  assumes "m = fold (kv_step encode) ops kv_new" and "list_all disk_was_ok ops"
    and "config_table m \<noteq> []" and "decode (encode (config_table m)) = Some (Some (config_table m))"
  shows "\<exists>m'. load decode (kv_new\<lparr>kv_file := kv_file m\<rparr>) = Returned m' \<and>
    get_kvconfig ns k m' = get_kvconfig ns k m"
proof -
  have "saved encode m" unfolding assms(1) by (rule saved_run [OF _ assms(2)]) (simp add: saved_def kv_new_def)
  then have disk: "kv_file m = Some (encode (config_table m))" using assms(3) by (simp add: saved_def)
  have "kv_inv m" unfolding assms(1) by (rule kv_steps.run_inv [OF kv_steps.inv_init])
  then have inv: "hm_inv (config_table m)" by (simp add: kv_inv_def)
  show ?thesis
    using get_extend_empty [OF inv]
    by (simp add: load_def file_to_string_def disk assms(4) get_kvconfig_def kv_new_def)
qed

text \<open>
  Loading when the file does not exist yet panics, because the empty text the reader returns
  is not valid JSON.
\<close>

lemma load_without_file_panics:
  assumes "decode [] = None"
  shows "load decode kv_new = Panicked"
  using assms by (simp add: load_def file_to_string_def kv_new_def)

end
