(* ===== verification/Namesrv_Processor.thy ===== *)
theory Namesrv_Processor
  imports Route_Properties KV_Config
begin

text \<open>
  The request handlers of the name server
  (\<open>rocketmq-namesrv/src/processor/default_request_processor.rs\<close>, \<open>client_request_processor.rs\<close>)
  and the queue of unregistration requests (\<open>route/batch_unregistration_service.rs\<close>). A request is
  given with its header decoded, as the derived header codec delivers it; a header that does not
  decode is the request \<open>Undecodable\<close>. The body of an answer is the value the source encodes.
  Arguments of the handlers, collected in a record \<open>namesrv_env\<close>, are the codecs of third-party
  crates (the CRC-32 of \<open>crc32fast\<close>, the JSON and deflate decoders of registration bodies, the
  JSON encoder of the configuration file) and the state of the disk.
\<close>

section \<open>Requests and answers\<close>

record register_broker_header =
  rh_broker_name :: string
  rh_broker_addr :: string
  rh_cluster_name :: string
  rh_ha_server_addr :: string
  rh_broker_id :: u64
  rh_heartbeat_timeout_millis :: "i64 option"
  rh_enable_acting_master :: "bool option"
  rh_compressed :: bool
  rh_body_crc32 :: u32

text \<open>The ordinal of a known protocol version; \<open>None\<close> when the number is not one.\<close>

record register_request =
  rq_header :: register_broker_header
  rq_version :: "nat option"
  rq_zone_name :: "string option"
  rq_body :: "u8 list option"
  rq_remote_addr :: socket_addr

datatype ns_request =
    Undecodable
  | PutKvConfig string string string
  | GetKvConfig string string
  | DeleteKvConfig string string
  | QueryDataVersion string string "data_version option"
  | RegisterBrokerRequest register_request
  | UnregisterBrokerRequest un_register_request
  | BrokerHeartbeat string string
  | GetBrokerMemberGroup string string
  | GetBrokerClusterInfo
  | WipeWritePerm string
  | AddWritePerm string
  | GetAllTopicListFromNameserver
  | DeleteTopicInNamesrv string "string option"
  | RegisterTopicInNamesrv string "queue_data list option"
  | GetKvlistByNamespace string
  | GetTopicsByCluster string
  | GetSystemTopicListFromNs
  | GetUnitTopicList
  | GetHasUnitSubTopicList
  | GetHasUnitSubUnunitTopicList
  | UpdateNamesrvConfig "(unit + string) option"
  | GetNamesrvConfig
  | OtherRequest

datatype response_code = RcSuccess | RcSystemError | RcNoPermission | RcTopicNotExist | RcQueryNotFound

datatype response_header =
    NoHeader
  | KvConfigHeader "string option"
  | DataVersionHeader bool
  | RegisterBrokerHeader string string
  | TopicCountHeader i32

datatype response_body =
    NoBody
  | RouteBody topic_route_data
  | KvListBody "(string, string) hmap"
  | DataVersionBody data_version
  | MemberGroupBody "broker_member_group option"
  | ClusterInfoBody "(string, broker_data) hmap option" "(string, string hset) hmap option"
  | TopicListBody topic_list
  | ConfigBody "(string, json_value) hmap"

record ns_response =
  resp_code :: response_code
  resp_remark :: "string option"
  resp_header :: response_header
  resp_body :: response_body

definition response_command :: "response_code \<Rightarrow> ns_response" where
  "response_command code =
     \<lparr>resp_code = code, resp_remark = None, resp_header = NoHeader, resp_body = NoBody\<rparr>"

datatype ns_error = HeaderDecodeError

record namesrv_env =
  env_hash :: "u8 list \<Rightarrow> u32"
  env_decode_body :: "u8 list \<Rightarrow> bool \<Rightarrow> nat \<Rightarrow> (topic_config_wrapper \<times> string list) outcome"
  env_decode_wrapper :: "u8 list \<Rightarrow> topic_config_wrapper outcome"
  env_encode_kv :: "kv_table \<Rightarrow> string"
  env_disk_ok :: bool

record name_server =
  ns_config :: namesrv_config
  ns_routes :: route_info
  ns_kv :: kv_manager
  ns_unregister_queue :: "un_register_request list"
  ns_unregister_capacity :: nat
  need_check_namesrv_ready :: bool
  startup_time_millis :: u64

definition ns_start :: "namesrv_config \<Rightarrow> u64 \<Rightarrow> name_server" where
  "ns_start c now =
     \<lparr>ns_config = c, ns_routes = ri_new, ns_kv = kv_new, ns_unregister_queue = [],
      ns_unregister_capacity = nat (unregister_broker_queue_capacity c),
      need_check_namesrv_ready = True, startup_time_millis = now\<rparr>"

text \<open>
  The queue of the unregistrations is a bounded channel: its constructor panics on a capacity of zero, and on one that
  is negative, which the cast to \<open>usize\<close> makes larger than the channel allows. A server that starts has the state above.
\<close>

definition ns_new :: "namesrv_config \<Rightarrow> u64 \<Rightarrow> name_server outcome" where
  "ns_new c now = (if unregister_broker_queue_capacity c \<le> 0 then Panicked else Returned (ns_start c now))"

definition namespace_order_topic_config :: string where
  "namespace_order_topic_config = ''ORDER_TOPIC_CONFIG''"

section \<open>Handlers\<close>

definition crc32 :: "namesrv_env \<Rightarrow> u8 list \<Rightarrow> u32" where
  "crc32 env buf = (if buf = [] then 0 else env_hash env buf AND 0x7FFFFFFF)"

definition check_sum_crc32 :: "namesrv_env \<Rightarrow> u8 list option \<Rightarrow> register_broker_header \<Rightarrow> bool" where
  "check_sum_crc32 env body h =
     (if rh_body_crc32 h = 0 then True
      else (case body of None \<Rightarrow> True | Some bytes \<Rightarrow> crc32 env bytes = rh_body_crc32 h))"

text \<open>The default wrapper carries a fresh data version.\<close>

definition wrapper_default :: "i64 \<Rightarrow> topic_config_wrapper" where
  "wrapper_default now =
     \<lparr>topic_queue_mapping_info_map = [], topic_config_table = [],
      wrapper_data_version = \<lparr>state_version = 0, timestamp = now, counter = 0\<rparr>\<rparr>"

definition extract_register_broker_body_from_request ::
  "namesrv_env \<Rightarrow> i64 \<Rightarrow> register_request \<Rightarrow> nat \<Rightarrow> (topic_config_wrapper \<times> string list) outcome" where
  "extract_register_broker_body_from_request env now q version =
     (case rq_body q of
        None \<Rightarrow> Returned (wrapper_default now, [])
      | Some bytes \<Rightarrow>
          if bytes = [] then Returned (wrapper_default now, [])
          else env_decode_body env bytes (rh_compressed (rq_header q)) version)"

definition extract_register_topic_config_from_request ::
  "namesrv_env \<Rightarrow> i64 \<Rightarrow> register_request \<Rightarrow> topic_config_wrapper outcome" where
  "extract_register_topic_config_from_request env now q =
     (case rq_body q of
        None \<Rightarrow> Returned (wrapper_default now)
      | Some bytes \<Rightarrow> if bytes = [] then Returned (wrapper_default now) else env_decode_wrapper env bytes)"

definition version_v3011 :: nat where "version_v3011 = 37"

type_synonym ns_result = "name_server \<times> (ns_error + ns_response) outcome"

definition process_register_broker ::
  "namesrv_env \<Rightarrow> i64 \<Rightarrow> register_request \<Rightarrow> name_server \<Rightarrow> ns_result" where
  "process_register_broker env now q s =
     (let h = rq_header q
      in if \<not> check_sum_crc32 env (rq_body q) h then
           (s, Returned (Inr ((response_command RcSystemError)\<lparr>resp_remark := Some ''crc32 not match''\<rparr>)))
         else
           (case rq_version q of
              None \<Rightarrow> (s, Panicked)
            | Some version \<Rightarrow>
                (case
                   (if version \<ge> version_v3011
                    then extract_register_broker_body_from_request env now q version
                    else bind_outcome (extract_register_topic_config_from_request env now q)
                           (\<lambda>w. Returned (w, [])))
                 of
                   Panicked \<Rightarrow> (s, Panicked)
                 | Returned (w, filter_server_list) \<Rightarrow>
                     (case register_broker (ns_config s) now (rh_cluster_name h) (rh_broker_addr h)
                             (rh_broker_name h) (rh_broker_id h) (rh_ha_server_addr h) (rq_zone_name q)
                             (rh_heartbeat_timeout_millis h) (rh_enable_acting_master h) w
                             filter_server_list (rq_remote_addr q) (ns_routes s) of
                        (r, Panicked) \<Rightarrow> (s\<lparr>ns_routes := r\<rparr>, Panicked)
                      | (r, Returned None) \<Rightarrow>
                          (s\<lparr>ns_routes := r\<rparr>,
                           Returned (Inr ((response_command RcSystemError)
                             \<lparr>resp_remark := Some ''register broker failed''\<rparr>)))
                      | (r, Returned (Some result)) \<Rightarrow>
                          (s\<lparr>ns_routes := r\<rparr>,
                           Returned (Inr ((response_command RcSuccess)
                             \<lparr>resp_header := RegisterBrokerHeader (rr_ha_server_addr result)
                                (rr_master_addr result),
                              resp_body :=
                                (if return_order_topic_config_to_broker (ns_config s) then
                                   (case get_kv_list_by_namespace namespace_order_topic_config (ns_kv s) of
                                      Some t \<Rightarrow> KvListBody t | None \<Rightarrow> NoBody)
                                 else NoBody)\<rparr>))))))
     )"

text \<open>The bounded channel of the batch unregistration service.\<close>

definition submit_unregister_broker_request ::
  "un_register_request \<Rightarrow> name_server \<Rightarrow> name_server \<times> bool" where
  "submit_unregister_broker_request q s =
     (if length (ns_unregister_queue s) < ns_unregister_capacity s
      then (s\<lparr>ns_unregister_queue := ns_unregister_queue s @ [q]\<rparr>, True) else (s, False))"

definition process_unregister_broker :: "un_register_request \<Rightarrow> name_server \<Rightarrow> ns_result" where
  "process_unregister_broker q s =
     (case submit_unregister_broker_request q s of
        (s', True) \<Rightarrow> (s', Returned (Inr (response_command RcSuccess)))
      | (s', False) \<Rightarrow> (s', Returned (Inr (response_command RcSystemError))))"

text \<open>One round of the service: at most ten requests, in the order of their submission.\<close>

definition unregistration_limit :: nat where "unregistration_limit = 10"

definition drain_unregister_queue :: "name_server \<Rightarrow> name_server" where
  "drain_unregister_queue s =
     s\<lparr>ns_routes := un_register_broker (ns_config s)
         (take unregistration_limit (ns_unregister_queue s)) (ns_routes s),
       ns_unregister_queue := drop unregistration_limit (ns_unregister_queue s)\<rparr>"

definition query_data_version ::
  "i64 \<Rightarrow> string \<Rightarrow> string \<Rightarrow> data_version option \<Rightarrow> name_server \<Rightarrow> ns_result" where
  "query_data_version now cluster_name broker_addr body s =
     (case body of
        None \<Rightarrow> (s, Panicked)
      | Some dv \<Rightarrow>
          let changed = is_broker_topic_config_changed cluster_name broker_addr dv (ns_routes s);
              r = update_broker_info_update_timestamp now cluster_name broker_addr (ns_routes s);
              response = (response_command RcSuccess)\<lparr>resp_header := DataVersionHeader changed\<rparr>
          in (s\<lparr>ns_routes := r\<rparr>,
              Returned (Inr
                (case query_broker_topic_config cluster_name broker_addr r of
                   Some v \<Rightarrow> response\<lparr>resp_body := DataVersionBody v\<rparr>
                 | None \<Rightarrow> response))))"

text \<open>The left injection stands for a body that is not valid UTF-8.\<close>

definition update_config :: "(unit + string) option \<Rightarrow> name_server \<Rightarrow> ns_result" where
  "update_config body s =
     (case body of
        None \<Rightarrow> (s, Returned (Inr ((response_command RcSuccess)\<lparr>resp_remark := Some []\<rparr>)))
      | Some (Inl _) \<Rightarrow>
          (s, Returned (Inr ((response_command RcSystemError)
                \<lparr>resp_remark := Some ''UnsupportedEncodingException''\<rparr>)))
      | Some (Inr text) \<Rightarrow>
          (case string_to_properties text of
             None \<Rightarrow>
               (s, Returned (Inr ((response_command RcSystemError)
                     \<lparr>resp_remark := Some ''string_to_properties error''\<rparr>)))
           | Some properties \<Rightarrow>
               if validate_blacklist_config_exist properties (get_config_blacklist (ns_config s)) then
                 (s, Returned (Inr ((response_command RcNoPermission)
                       \<lparr>resp_remark := Some ''Cannot update config in blacklist.''\<rparr>)))
               else
                 (case nc_update properties (ns_config s) of
                    (c, Inl e) \<Rightarrow>
                      (s\<lparr>ns_config := c\<rparr>,
                       Returned (Inr ((response_command RcSystemError)\<lparr>resp_remark := Some ''Update error''\<rparr>)))
                  | (c, Inr _) \<Rightarrow>
                      (s\<lparr>ns_config := c\<rparr>,
                       Returned (Inr ((response_command RcSuccess)\<lparr>resp_remark := Some []\<rparr>))))))"

definition ok :: "ns_response \<Rightarrow> (ns_error + ns_response) outcome" where
  "ok response = Returned (Inr response)"

definition with_body :: "response_body \<Rightarrow> ns_response" where
  "with_body b = (response_command RcSuccess)\<lparr>resp_body := b\<rparr>"

definition disabled :: ns_response where
  "disabled = (response_command RcSystemError)\<lparr>resp_remark := Some ''disable''\<rparr>"

definition ns_put_kv_config :: "namesrv_env \<Rightarrow> string \<Rightarrow> string \<Rightarrow> string \<Rightarrow> name_server \<Rightarrow> ns_result" where
  "ns_put_kv_config env namespace key v s =
     (if namespace = [] \<or> key = [] then
        (s, ok ((response_command RcSystemError)\<lparr>resp_remark := Some ''namespace or key is empty''\<rparr>))
      else
        (s\<lparr>ns_kv := put_kv_config (env_encode_kv env) (env_disk_ok env) namespace key v (ns_kv s)\<rparr>,
         ok (response_command RcSuccess)))"

definition ns_get_kv_config :: "string \<Rightarrow> string \<Rightarrow> name_server \<Rightarrow> ns_response" where
  "ns_get_kv_config namespace key s =
     (case get_kvconfig namespace key (ns_kv s) of
        Some v \<Rightarrow> (response_command RcSuccess)\<lparr>resp_header := KvConfigHeader (Some v)\<rparr>
      | None \<Rightarrow> (response_command RcQueryNotFound)\<lparr>resp_remark :=
          Some (''No config item, Namespace: '' @ namespace @ '' Key: '' @ key)\<rparr>)"

definition ns_get_kv_list_by_namespace :: "string \<Rightarrow> name_server \<Rightarrow> ns_response" where
  "ns_get_kv_list_by_namespace namespace s =
     (case get_kv_list_by_namespace namespace (ns_kv s) of
        Some t \<Rightarrow> with_body (KvListBody t)
      | None \<Rightarrow> (response_command RcQueryNotFound)\<lparr>resp_remark :=
          Some (''No config item, Namespace: '' @ namespace)\<rparr>)"

definition ns_count :: "route_info \<times> i32 \<Rightarrow> name_server \<Rightarrow> ns_result" where
  "ns_count res s =
     (s\<lparr>ns_routes := fst res\<rparr>,
      ok ((response_command RcSuccess)\<lparr>resp_header := TopicCountHeader (snd res)\<rparr>))"

definition ns_delete_kv_config :: "namesrv_env \<Rightarrow> string \<Rightarrow> string \<Rightarrow> name_server \<Rightarrow> ns_result" where
  "ns_delete_kv_config env namespace key s =
     (s\<lparr>ns_kv := delete_kv_config (env_encode_kv env) (env_disk_ok env) namespace key (ns_kv s)\<rparr>,
      ok (response_command RcSuccess))"

definition process_broker_heartbeat :: "i64 \<Rightarrow> string \<Rightarrow> string \<Rightarrow> name_server \<Rightarrow> ns_result" where
  "process_broker_heartbeat now cl addr s =
     (s\<lparr>ns_routes := update_broker_info_update_timestamp now cl addr (ns_routes s)\<rparr>,
      ok (response_command RcSuccess))"

definition ns_get_broker_member_group :: "string \<Rightarrow> string \<Rightarrow> name_server \<Rightarrow> ns_response" where
  "ns_get_broker_member_group cl bn s = with_body (MemberGroupBody (get_broker_member_group cl bn (ns_routes s)))"

definition get_broker_cluster_info :: "name_server \<Rightarrow> ns_response" where
  "get_broker_cluster_info s =
     with_body (case get_all_cluster_info (ns_routes s) of (b, c) \<Rightarrow> ClusterInfoBody b c)"

definition wipe_write_perm_of_broker :: "string \<Rightarrow> name_server \<Rightarrow> ns_result" where
  "wipe_write_perm_of_broker bn s = ns_count (wipe_write_perm_of_broker_by_lock bn (ns_routes s)) s"

definition add_write_perm_of_broker :: "string \<Rightarrow> name_server \<Rightarrow> ns_result" where
  "add_write_perm_of_broker bn s = ns_count (add_write_perm_of_broker_by_lock bn (ns_routes s)) s"

definition get_all_topic_list_from_nameserver :: "name_server \<Rightarrow> ns_response" where
  "get_all_topic_list_from_nameserver s =
     (if enable_all_topic_list (ns_config s)
      then with_body (TopicListBody (get_all_topic_list (ns_routes s))) else disabled)"

definition delete_topic_in_name_srv :: "string \<Rightarrow> string option \<Rightarrow> name_server \<Rightarrow> ns_result" where
  "delete_topic_in_name_srv topic cl s =
     (s\<lparr>ns_routes := delete_topic topic cl (ns_routes s)\<rparr>, ok (response_command RcSuccess))"

definition register_topic_to_name_srv :: "string \<Rightarrow> queue_data list option \<Rightarrow> name_server \<Rightarrow> ns_result" where
  "register_topic_to_name_srv topic body s =
     (case body of
        None \<Rightarrow> s
      | Some qds \<Rightarrow>
          if qds \<noteq> [] then s\<lparr>ns_routes := register_topic topic qds (ns_routes s)\<rparr> else s,
      ok (response_command RcSuccess))"

definition ns_get_topics_by_cluster :: "string \<Rightarrow> name_server \<Rightarrow> ns_response" where
  "ns_get_topics_by_cluster cl s =
     (if \<not> enable_topic_list (ns_config s) then disabled
      else with_body (TopicListBody (get_topics_by_cluster cl (ns_routes s))))"

definition get_system_topic_list_from_ns :: "name_server \<Rightarrow> ns_response" where
  "get_system_topic_list_from_ns s = with_body (TopicListBody (get_system_topic_list (ns_routes s)))"

definition get_unit_topic_list :: "name_server \<Rightarrow> ns_response" where
  "get_unit_topic_list s =
     (if enable_topic_list (ns_config s)
      then with_body (TopicListBody (get_unit_topics (ns_routes s))) else disabled)"

definition ns_get_has_unit_sub_topic_list :: "name_server \<Rightarrow> ns_response" where
  "ns_get_has_unit_sub_topic_list s =
     (if enable_topic_list (ns_config s)
      then with_body (TopicListBody (get_has_unit_sub_topic_list (ns_routes s))) else disabled)"

definition ns_get_has_unit_sub_un_unit_topic_list :: "name_server \<Rightarrow> ns_response" where
  "ns_get_has_unit_sub_un_unit_topic_list s =
     (if enable_topic_list (ns_config s)
      then with_body (TopicListBody (get_has_unit_sub_un_unit_topic_list (ns_routes s))) else disabled)"

definition get_config :: "name_server \<Rightarrow> ns_response" where
  "get_config s = (with_body (ConfigBody (config_values (ns_config s))))\<lparr>resp_remark := Some []\<rparr>"

fun process_request :: "namesrv_env \<Rightarrow> i64 \<Rightarrow> ns_request \<Rightarrow> name_server \<Rightarrow> ns_result" where
  "process_request env now Undecodable s = (s, Returned (Inl HeaderDecodeError))"
| "process_request env now (PutKvConfig namespace key v) s = ns_put_kv_config env namespace key v s"
| "process_request env now (GetKvConfig namespace key) s = (s, ok (ns_get_kv_config namespace key s))"
| "process_request env now (DeleteKvConfig namespace key) s = ns_delete_kv_config env namespace key s"
| "process_request env now (QueryDataVersion cl addr body) s = query_data_version now cl addr body s"
| "process_request env now (RegisterBrokerRequest q) s = process_register_broker env now q s"
| "process_request env now (UnregisterBrokerRequest q) s = process_unregister_broker q s"
| "process_request env now (BrokerHeartbeat cl addr) s = process_broker_heartbeat now cl addr s"
| "process_request env now (GetBrokerMemberGroup cl bn) s = (s, ok (ns_get_broker_member_group cl bn s))"
| "process_request env now GetBrokerClusterInfo s = (s, ok (get_broker_cluster_info s))"
| "process_request env now (WipeWritePerm bn) s = wipe_write_perm_of_broker bn s"
| "process_request env now (AddWritePerm bn) s = add_write_perm_of_broker bn s"
| "process_request env now GetAllTopicListFromNameserver s = (s, ok (get_all_topic_list_from_nameserver s))"
| "process_request env now (DeleteTopicInNamesrv topic cl) s = delete_topic_in_name_srv topic cl s"
| "process_request env now (RegisterTopicInNamesrv topic body) s = register_topic_to_name_srv topic body s"
| "process_request env now (GetKvlistByNamespace namespace) s = (s, ok (ns_get_kv_list_by_namespace namespace s))"
| "process_request env now (GetTopicsByCluster cl) s = (s, ok (ns_get_topics_by_cluster cl s))"
| "process_request env now GetSystemTopicListFromNs s = (s, ok (get_system_topic_list_from_ns s))"
| "process_request env now GetUnitTopicList s = (s, ok (get_unit_topic_list s))"
| "process_request env now GetHasUnitSubTopicList s = (s, ok (ns_get_has_unit_sub_topic_list s))"
| "process_request env now GetHasUnitSubUnunitTopicList s = (s, ok (ns_get_has_unit_sub_un_unit_topic_list s))"
| "process_request env now (UpdateNamesrvConfig body) s = update_config body s"
| "process_request env now GetNamesrvConfig s = (s, ok (get_config s))"
| "process_request env now OtherRequest s = (s, ok (response_command RcSystemError))"

lemmas handler_defs = ns_put_kv_config_def ns_delete_kv_config_def query_data_version_def
  process_broker_heartbeat_def wipe_write_perm_of_broker_def add_write_perm_of_broker_def
  delete_topic_in_name_srv_def register_topic_to_name_srv_def ns_count_def Let_def

section \<open>Route requests of clients\<close>

definition apply_topic_url :: string where
  "apply_topic_url = ''https://rocketmq.apache.org/docs/bestPractice/06FAQ''"

definition suggest_todo :: "string \<Rightarrow> string" where
  "suggest_todo url = [newline] @ ''See '' @ url @ '' for further details.''"

text \<open>Clock and start time are \<open>u64\<close> milliseconds; the cast of the waiting time sign-extends.\<close>

definition get_route_info_by_topic :: "u64 \<Rightarrow> string \<Rightarrow> name_server \<Rightarrow> name_server \<times> ns_response" where
  "get_route_info_by_topic now topic s =
     (let c = ns_config s;
          namesrv_ready = (need_check_namesrv_ready s \<and>
            now - startup_time_millis s \<ge> of_int (wait_seconds_for_service c) * 1000)
      in if need_wait_for_service c \<and> \<not> namesrv_ready then
           (s, (response_command RcSystemError)\<lparr>resp_remark := Some ''name remoting_server not ready''\<rparr>)
         else
           (case pickup_topic_route_data c topic (ns_routes s) of
              None \<Rightarrow>
                (s, (response_command RcTopicNotExist)\<lparr>resp_remark :=
                   Some (''No topic route info in name remoting_server for the topic:'' @ topic @
                         suggest_todo apply_topic_url)\<rparr>)
            | Some route \<Rightarrow>
                (s\<lparr>need_check_namesrv_ready := False\<rparr>,
                 with_body (RouteBody
                   (if order_message_enable c
                    then route\<lparr>order_topic_conf := get_kvconfig namespace_order_topic_config topic (ns_kv s)\<rparr>
                    else route)))))"

section \<open>The running name server\<close>

text \<open>Requests of brokers and clients, and the background tasks, one at a time.\<close>

datatype ns_op =
    Handle namesrv_env i64 ns_request
  | HandleRoute u64 string
  | DrainUnregisterQueue
  | ScanBrokers i64
  | Disconnected socket_addr

fun ns_step :: "ns_op \<Rightarrow> name_server \<Rightarrow> name_server" where
  "ns_step (Handle env now q) s = fst (process_request env now q s)"
| "ns_step (HandleRoute now topic) s = fst (get_route_info_by_topic now topic s)"
| "ns_step DrainUnregisterQueue s = drain_unregister_queue s"
| "ns_step (ScanBrokers now) s = s\<lparr>ns_routes := scan_not_active_broker (ns_config s) now (ns_routes s)\<rparr>"
| "ns_step (Disconnected addr) s =
     s\<lparr>ns_routes := connection_disconnected (ns_config s) addr (ns_routes s)\<rparr>"

definition ns_inv :: "name_server \<Rightarrow> bool" where
  "ns_inv s \<longleftrightarrow> route_inv (ns_routes s) \<and> kv_inv (ns_kv s) \<and>
     length (ns_unregister_queue s) \<le> ns_unregister_capacity s"

text \<open>The fields the default blacklist protects, and that it is in force.\<close>

definition blacklist_keys :: "string list" where
  "blacklist_keys = [''configBlackList'', ''configStorePath'', ''kvConfigPath'']"

definition config_protected :: "namesrv_config \<Rightarrow> name_server \<Rightarrow> bool" where
  "config_protected c s \<longleftrightarrow>
     kv_config_path (ns_config s) = kv_config_path c \<and>
     config_store_path (ns_config s) = config_store_path c \<and>
     config_black_list (ns_config s) = config_black_list c"

text \<open>A server that waits for its service, with two registered brokers.\<close>

definition sample_env :: namesrv_env where
  "sample_env = \<lparr>env_hash = (\<lambda>bytes. sum_list (map (\<lambda>b. ucast b) bytes)),
     env_decode_body = (\<lambda>bytes compressed version. Panicked), env_decode_wrapper = (\<lambda>bytes. Panicked),
     env_encode_kv = (\<lambda>t. []), env_disk_ok = True\<rparr>"

definition sample_server :: name_server where
  "sample_server = (ns_start (sample_cfg\<lparr>need_wait_for_service := True, order_message_enable := True\<rparr>) 0)
     \<lparr>ns_routes := sample_routes\<rparr>"

section \<open>Lemmas\<close>

lemma ns_inv_routes [simp]: "ns_inv s \<Longrightarrow> route_inv r \<Longrightarrow> ns_inv (s\<lparr>ns_routes := r\<rparr>)"
  by (simp add: ns_inv_def)

lemma ns_inv_kv [simp]: "ns_inv s \<Longrightarrow> kv_inv m \<Longrightarrow> ns_inv (s\<lparr>ns_kv := m\<rparr>)"
  by (simp add: ns_inv_def)

lemma ns_inv_other [simp]:
  "ns_inv (s\<lparr>ns_config := c\<rparr>) = ns_inv s"
  "ns_inv (s\<lparr>need_check_namesrv_ready := b\<rparr>) = ns_inv s"
  by (simp_all add: ns_inv_def)

lemma ns_invD: "ns_inv s \<Longrightarrow> route_inv (ns_routes s)" "ns_inv s \<Longrightarrow> kv_inv (ns_kv s)"
  by (simp_all add: ns_inv_def)

lemma process_register_broker_inv:
  assumes "ns_inv s"
  shows "ns_inv (fst (process_register_broker env now q s))"
proof -
  have "ns_inv (s\<lparr>ns_routes := fst (register_broker (ns_config s) now cl addr b i ha zone timeout acting w fs
      remote (ns_routes s))\<rparr>)" for cl addr b i ha zone timeout acting w fs remote
    using assms by (simp add: register_broker_ok ns_invD)
  then show ?thesis
    using assms unfolding process_register_broker_def Let_def
    by (auto split: option.splits outcome.splits prod.splits; metis fst_conv)
qed

lemma wipe_add_ok:
  "route_inv r \<Longrightarrow> route_inv (fst (wipe_write_perm_of_broker_by_lock b r))"
  "route_inv r \<Longrightarrow> route_inv (fst (add_write_perm_of_broker_by_lock b r))"
  by (simp_all add: wipe_write_perm_of_broker_by_lock_def add_write_perm_of_broker_by_lock_def operate_write_perm_ok)

lemma update_config_parts:
  "ns_routes (fst (update_config body s)) = ns_routes s"
  "ns_kv (fst (update_config body s)) = ns_kv s"
  "ns_unregister_queue (fst (update_config body s)) = ns_unregister_queue s"
  "ns_unregister_capacity (fst (update_config body s)) = ns_unregister_capacity s"
  by (auto simp: update_config_def split: option.splits sum.splits prod.splits)

lemma update_config_inv: "ns_inv s \<Longrightarrow> ns_inv (fst (update_config body s))"
  by (simp add: ns_inv_def update_config_parts)

lemma submit_inv: "ns_inv s \<Longrightarrow> ns_inv (fst (submit_unregister_broker_request q s))"
  by (simp add: ns_inv_def submit_unregister_broker_request_def)

lemma process_unregister_broker_state:
  "fst (process_unregister_broker q s) = fst (submit_unregister_broker_request q s)"
  by (simp add: process_unregister_broker_def split: prod.splits bool.splits)

lemma process_request_inv: "ns_inv s \<Longrightarrow> ns_inv (fst (process_request env now q s))"
  by (cases q)
     (auto simp: handler_defs process_register_broker_inv process_unregister_broker_state submit_inv
       update_config_inv
       update_timestamp_ok register_topic_ok delete_topic_ok kv_inv_put kv_inv_delete wipe_add_ok ns_invD
       split: option.splits)

lemma ns_step_inv: "ns_inv s \<Longrightarrow> ns_inv (ns_step op s)"
  by (cases op)
     (auto simp: process_request_inv get_route_info_by_topic_def Let_def scan_not_active_broker_ok
       connection_disconnected_ok ns_invD drain_unregister_queue_def un_register_broker_ok
       split: option.splits, auto simp: ns_inv_def un_register_broker_ok)

lemma ns_start_inv: "ns_inv (ns_start c now)"
  by (simp add: ns_inv_def ns_start_def route_inv_new kv_inv_def kv_new_def)

interpretation name_server: preserved ns_step "ns_start c now" ns_inv
  by unfold_locales (simp_all add: ns_start_inv ns_step_inv)

text \<open>Only the configuration update touches the configuration.\<close>

lemma process_request_config:
  "ns_config (fst (process_request env now q s)) =
     (case q of UpdateNamesrvConfig body \<Rightarrow> ns_config (fst (update_config body s)) | _ \<Rightarrow> ns_config s)"
proof -
  have "ns_config (fst (process_register_broker env now q s)) = ns_config s" for q
    unfolding process_register_broker_def Let_def
    by (auto split: option.splits outcome.splits prod.splits)
  then show ?thesis
    by (cases q) (auto simp: handler_defs process_unregister_broker_def
       submit_unregister_broker_request_def split: option.splits)
qed

lemma update_config_protected:
  assumes "set blacklist_keys \<subseteq> set (get_config_blacklist (ns_config s))"
  shows "config_protected (ns_config s) (fst (update_config body s))"
proof (cases "\<exists>str props. body = Some (Inr str) \<and> string_to_properties str = Some props \<and>
    \<not> validate_blacklist_config_exist props (get_config_blacklist (ns_config s))")
  case True
  then obtain str props where b: "body = Some (Inr str)" "string_to_properties str = Some props"
    and v: "\<not> validate_blacklist_config_exist props (get_config_blacklist (ns_config s))" by blast
  have keys: "k \<notin> set (hm_keys props)" if "k \<in> set blacklist_keys" for k
    using validated_keys [OF v] that assms by blast
  have "ns_config (fst (update_config body s)) = fst (nc_update props (ns_config s))"
    using v by (simp add: update_config_def b split: prod.splits sum.splits)
  then show ?thesis
    using keys by (simp add: config_protected_def blacklist_keys_def nc_update_protected)
next
  case False
  then have "ns_config (fst (update_config body s)) = ns_config s"
    by (auto simp: update_config_def split: option.splits sum.splits)
  then show ?thesis by (simp add: config_protected_def)
qed

lemma ns_step_protected:
  assumes "config_protected c s" "set blacklist_keys \<subseteq> set (get_config_blacklist c)"
  shows "config_protected c (ns_step op s)"
proof -
  have same: "get_config_blacklist (ns_config s) = get_config_blacklist c"
    using assms(1) by (simp add: config_protected_def get_config_blacklist_def)
  have upd: "config_protected c (fst (update_config body s))" for body
    using update_config_protected [of s body] assms by (auto simp: same config_protected_def)
  have "config_protected c (fst (process_request env now q s))" for env now q
    using assms(1) upd by (cases q) (auto simp: config_protected_def process_request_config
        simp del: process_request.simps)
  then show ?thesis
    using assms(1)
    by (cases op) (auto simp: get_route_info_by_topic_def drain_unregister_queue_def Let_def
        config_protected_def split: option.splits)
qed

lemma protected_run:
  assumes "reachable ns_step (ns_start c t0) s" "set blacklist_keys \<subseteq> set (get_config_blacklist c)"
  shows "config_protected c s"
  using assms(1)
proof (induction rule: reachable.induct)
  case reachable_init
  then show ?case by (simp add: config_protected_def ns_start_def)
next
  case (reachable_step s op)
  then show ?case using ns_step_protected assms(2) by blast
qed

lemma drain_times:
  "ns_unregister_queue ((drain_unregister_queue ^^ n) s) = drop (10 * n) (ns_unregister_queue s)"
  by (induction n) (simp_all add: drain_unregister_queue_def unregistration_limit_def add.commute)

lemma sample_answer: "resp_code (snd (get_route_info_by_topic 50000 ''t1'' sample_server)) = RcSuccess"
  by code_simp

section \<open>Properties\<close>

text \<open>
  The name server as a whole keeps its invariant whatever requests arrive and whatever its
  background tasks do in whatever order: the routing tables are consistent, the configuration table
  has unique keys, and the queue of unregistrations never exceeds its capacity.
\<close>

lemma name_server_invariant:
  assumes "reachable ns_step (ns_start c t0) s"
  shows "route_inv (ns_routes s) \<and> kv_inv (ns_kv s) \<and>
    length (ns_unregister_queue s) \<le> ns_unregister_capacity s"
  using name_server.reachable_inv [OF assms] by (simp add: ns_inv_def)

text \<open>
  C27. The blacklist protects the name server's paths: started with the default configuration, no
  sequence of requests, configuration updates included, changes the path of the key-value file,
  the path of the configuration file or the blacklist itself.
\<close>

theorem blacklist_protects_paths:
  assumes "reachable ns_step (ns_start (nc_default home kv_path store_path) t0) s"
  shows "kv_config_path (ns_config s) = kv_path \<and> config_store_path (ns_config s) = store_path \<and>
    get_config_blacklist (ns_config s) = [''configBlackList'', ''configStorePath'', ''kvConfigPath'']"
proof -
  let ?c = "nc_default home kv_path store_path"
  have "config_protected ?c s"
    by (rule protected_run [OF assms]) (simp add: default_blacklist blacklist_keys_def)
  then show ?thesis
    using default_blacklist [of home kv_path store_path]
    by (simp add: config_protected_def get_config_blacklist_def) (simp add: nc_default_def)
qed

theorem blacklist_protects_paths_witness:
  "kv_config_path (ns_config (ns_step (Handle sample_env 0 (UpdateNamesrvConfig (Some (Inr ''kvConfigPath=/tmp''))))
     (ns_start (nc_default ''h'' ''kv'' ''st'') 0))) = ''kv''"
proof -
  have "reachable ns_step (ns_start (nc_default ''h'' ''kv'' ''st'') 0)
     (ns_step (Handle sample_env 0 (UpdateNamesrvConfig (Some (Inr ''kvConfigPath=/tmp''))))
     (ns_start (nc_default ''h'' ''kv'' ''st'') 0))"
    by (intro reachable.intros)
  from blacklist_protects_paths [OF this] show ?thesis by simp
qed

text \<open>
  With the option to wait for the service, a name server answers route requests for one topic
  only once: after the first successful answer every further route request, at whatever time, is
  refused as not ready.
\<close>

lemma route_service_stops_after_first_answer:
  assumes "need_wait_for_service (ns_config s)"
    and "get_route_info_by_topic now topic s = (s', response)" and "resp_code response = RcSuccess"
  shows "resp_code (snd (get_route_info_by_topic now' topic' s')) = RcSystemError"
proof -
  have "s' = s\<lparr>need_check_namesrv_ready := False\<rparr>"
    using assms(2,3)
    by (auto simp: get_route_info_by_topic_def Let_def response_command_def with_body_def
        split: if_splits option.splits)
  with assms(1) show ?thesis
    by (simp add: get_route_info_by_topic_def Let_def response_command_def)
qed

text \<open>
  The order configuration of a topic that an administrator stores reaches the clients: it is
  part of every route of the topic that is handed out afterwards, when ordered messages are enabled.
\<close>

lemma order_config_reaches_clients:
  assumes "order_message_enable (ns_config s)" and "topic \<noteq> []"
    and "s' = fst (process_request env now (PutKvConfig namespace_order_topic_config topic v) s)"
    and "get_route_info_by_topic t topic s' = (s'', response)" and "resp_code response = RcSuccess"
  shows "\<exists>route. resp_body response = RouteBody route \<and> order_topic_conf route = Some v"
proof -
  have s': "s' = s\<lparr>ns_kv := put_kv_config (env_encode_kv env) (env_disk_ok env)
      namespace_order_topic_config topic v (ns_kv s)\<rparr>"
    using assms(2,3) by (simp add: ns_put_kv_config_def namespace_order_topic_config_def)
  have "get_kvconfig namespace_order_topic_config topic (ns_kv s') = Some v"
    by (simp add: s' get_kvconfig_def put_kv_config_def Let_def)
  then show ?thesis
    using assms(1,4,5)
    by (auto simp: get_route_info_by_topic_def Let_def response_command_def with_body_def s'
        split: if_splits option.splits)
qed

end
