(* ===== verification/Process_Queue.thy ===== *)
theory Process_Queue
  imports Rust_Maps Rust_Text "HOL-Library.Multiset"
begin

text \<open>
  The local buffer of a consumer for one message queue
  (\<open>rocketmq-client/src/consumer/consumer_impl/process_queue.rs\<close>): the messages that were pulled
  and not yet consumed, sorted by offset, with counters for flow control. Each operation is one step;
  in the source it runs under the write lock of the map, except for the expiry of messages, which takes the
  lock anew for each message. The model of a message has the fields the queue reads.
  A panic in the middle of an operation keeps what the operation changed before. The call that
  sends an expired message back to the broker has no effect on the queue and is not part of the
  model.
\<close>

section \<open>Model\<close>

record pq_message =
  queue_offset :: i64
  msg_body :: "u8 list option"
  msg_properties :: "(string, string) hmap"

record process_queue =
  msg_tree_map :: "(i64, pq_message) btmap"
  msg_count :: u64
  msg_size :: u64
  consuming_msg_orderly_tree_map :: "(i64, pq_message) btmap"
  try_unlock_times :: i64
  queue_offset_max :: u64
  pq_dropped :: bool
  last_pull_timestamp :: u64
  last_consume_timestamp :: u64
  pq_locked :: bool
  last_lock_timestamp :: u64
  consuming :: bool
  msg_acc_cnt :: i64

definition pq_new :: "u64 \<Rightarrow> process_queue" where
  "pq_new now =
     \<lparr>msg_tree_map = [], msg_count = 0, msg_size = 0, consuming_msg_orderly_tree_map = [],
      try_unlock_times = 0, queue_offset_max = 0, pq_dropped = False, last_pull_timestamp = now,
      last_consume_timestamp = now, pq_locked = False, last_lock_timestamp = now, consuming = False,
      msg_acc_cnt = 0\<rparr>"

definition set_dropped :: "bool \<Rightarrow> process_queue \<Rightarrow> process_queue" where
  "set_dropped b q = q\<lparr>pq_dropped := b\<rparr>"

definition set_locked :: "bool \<Rightarrow> process_queue \<Rightarrow> process_queue" where
  "set_locked b q = q\<lparr>pq_locked := b\<rparr>"

definition set_last_pull_timestamp :: "u64 \<Rightarrow> process_queue \<Rightarrow> process_queue" where
  "set_last_pull_timestamp t q = q\<lparr>last_pull_timestamp := t\<rparr>"

definition set_last_lock_timestamp :: "u64 \<Rightarrow> process_queue \<Rightarrow> process_queue" where
  "set_last_lock_timestamp t q = q\<lparr>last_lock_timestamp := t\<rparr>"

definition inc_try_unlock_times :: "process_queue \<Rightarrow> process_queue" where
  "inc_try_unlock_times q = q\<lparr>try_unlock_times := wrap_i64 (try_unlock_times q + 1)\<rparr>"

text \<open>The two limits come from the environment.\<close>

definition is_pull_expired :: "u64 \<Rightarrow> u64 \<Rightarrow> process_queue \<Rightarrow> bool" where
  "is_pull_expired max_idle now q \<longleftrightarrow> now - last_pull_timestamp q > max_idle"

definition pq_is_lock_expired :: "u64 \<Rightarrow> u64 \<Rightarrow> process_queue \<Rightarrow> bool" where
  "pq_is_lock_expired max_live now q \<longleftrightarrow> now - last_lock_timestamp q > max_live"

definition property_max_offset :: string where "property_max_offset = ''MAX_OFFSET''"

definition property_consume_start_timestamp :: string where
  "property_consume_start_timestamp = ''CONSUME_START_TIME''"

subsection \<open>Putting messages\<close>

definition acc_total :: "pq_message list \<Rightarrow> i64 outcome" where
  "acc_total messages =
     (if messages \<noteq> [] then
        (case hm_get (msg_properties (last messages)) property_max_offset of
           Some property \<Rightarrow>
             (case parse_signed 64 property of
                Some n \<Rightarrow> Returned (wrap_i64 (n - queue_offset (last messages)))
              | None \<Rightarrow> Panicked)
         | None \<Rightarrow> Returned 0)
      else Returned 0)"

fun insert_messages :: "pq_message list \<Rightarrow> u64 \<Rightarrow> process_queue \<Rightarrow> process_queue \<times> u64 outcome" where
  "insert_messages [] valid_msg_cnt q = (q, Returned valid_msg_cnt)"
| "insert_messages (m # ms) valid_msg_cnt q =
     (let prev = bt_get (msg_tree_map q) (queue_offset m);
          q1 = q\<lparr>msg_tree_map := bt_insert (queue_offset m) m (msg_tree_map q)\<rparr>
      in if prev = None then
           (let q2 = q1\<lparr>queue_offset_max := word_of_int (queue_offset m)\<rparr>
            in (case msg_body m of
                  None \<Rightarrow> (q2, Panicked)
                | Some body \<Rightarrow>
                    insert_messages ms (valid_msg_cnt + 1)
                      (q2\<lparr>msg_size := msg_size q2 + of_nat (length body)\<rparr>)))
         else insert_messages ms valid_msg_cnt q1)"

definition put_message :: "pq_message list \<Rightarrow> process_queue \<Rightarrow> process_queue \<times> bool outcome" where
  "put_message messages q =
     (case acc_total messages of
        Panicked \<Rightarrow> (q, Panicked)
      | Returned acc \<Rightarrow>
          (case insert_messages messages 0 q of
             (q1, Panicked) \<Rightarrow> (q1, Panicked)
           | (q1, Returned valid_msg_cnt) \<Rightarrow>
               let q2 = q1\<lparr>msg_count := msg_count q1 + valid_msg_cnt\<rparr>;
                   dispatch_to_consume = (msg_tree_map q2 \<noteq> [] \<and> \<not> consuming q2);
                   q3 = (if dispatch_to_consume then q2\<lparr>consuming := True\<rparr> else q2);
                   q4 = (if acc > 0 then q3\<lparr>msg_acc_cnt := acc\<rparr> else q3)
               in (q4, Returned dispatch_to_consume)))"

definition get_max_span :: "process_queue \<Rightarrow> u64" where
  "get_max_span q =
     (case (bt_first (msg_tree_map q), bt_last (msg_tree_map q)) of
        (Some lo, Some hi) \<Rightarrow> word_of_int (fst hi - fst lo)
      | _ \<Rightarrow> 0)"

subsection \<open>Removing messages\<close>

definition count_down :: "u64 \<Rightarrow> process_queue \<Rightarrow> process_queue" where
  "count_down removed_cnt q =
     (let q1 = q\<lparr>msg_count := msg_count q - removed_cnt\<rparr>
      in if msg_count q1 = 0 then q1\<lparr>msg_size := 0\<rparr> else q1)"

definition first_offset :: "i64 \<Rightarrow> process_queue \<Rightarrow> i64" where
  "first_offset result q =
     (case bt_first (msg_tree_map q) of Some (k, _) \<Rightarrow> k | None \<Rightarrow> result)"

fun remove_messages :: "pq_message list \<Rightarrow> u64 \<Rightarrow> i64 \<Rightarrow> process_queue \<Rightarrow> process_queue \<times> i64 outcome" where
  "remove_messages [] removed_cnt result q = (q, Returned result)"
| "remove_messages (m # ms) removed_cnt result q =
     (let q1 = q\<lparr>msg_tree_map := bt_remove (queue_offset m) (msg_tree_map q)\<rparr>
      in (case bt_get (msg_tree_map q) (queue_offset m) of
            Some prev \<Rightarrow>
              (case msg_body m of
                 None \<Rightarrow> (q1, Panicked)
               | Some body \<Rightarrow>
                   let q2 = count_down (removed_cnt + 1) (q1\<lparr>msg_size := msg_size q1 - of_nat (length body)\<rparr>)
                   in remove_messages ms (removed_cnt + 1) (first_offset result q2) q2)
          | None \<Rightarrow>
              let q2 = count_down removed_cnt q1
              in remove_messages ms removed_cnt (first_offset result q2) q2))"

definition remove_message :: "pq_message list \<Rightarrow> process_queue \<Rightarrow> process_queue \<times> i64 outcome" where
  "remove_message messages q =
     (if msg_tree_map q = [] then (q, Returned (-1))
      else remove_messages messages 0 (wrap_i64 (sint (queue_offset_max q) + 1)) q)"

text \<open>The oldest message, when its consumption started too long ago.\<close>

definition expired_first :: "u64 \<Rightarrow> u64 \<Rightarrow> process_queue \<Rightarrow> pq_message option outcome" where
  "expired_first consume_timeout now q =
     (case bt_first (msg_tree_map q) of
        None \<Rightarrow> Returned None
      | Some (_, m) \<Rightarrow>
          (case hm_get (msg_properties m) property_consume_start_timestamp of
             None \<Rightarrow> Returned None
           | Some started \<Rightarrow>
               (case parse_unsigned 64 started of
                  None \<Rightarrow> Panicked
                | Some t \<Rightarrow>
                    Returned (if now - of_nat t > consume_timeout * 1000 * 60 then Some m else None))))"

fun clean_loop :: "nat \<Rightarrow> u64 \<Rightarrow> u64 \<Rightarrow> process_queue \<Rightarrow> process_queue \<times> unit outcome" where
  "clean_loop 0 consume_timeout now q = (q, Returned ())"
| "clean_loop (Suc n) consume_timeout now q =
     (case expired_first consume_timeout now q of
        Panicked \<Rightarrow> (q, Panicked)
      | Returned None \<Rightarrow> (q, Returned ())
      | Returned (Some m) \<Rightarrow>
          if bt_first (msg_tree_map q) \<noteq> None \<and>
             fst (the (bt_first (msg_tree_map q))) = queue_offset m then
            (case remove_message [m] q of
               (q', Panicked) \<Rightarrow> (q', Panicked)
             | (q', Returned _) \<Rightarrow> clean_loop n consume_timeout now q')
          else clean_loop n consume_timeout now q)"

text \<open>The first argument is \<open>None\<close> without a consumer, else whether it consumes in order.\<close>

definition clean_expired_msg ::
  "bool option \<Rightarrow> u64 \<Rightarrow> u64 \<Rightarrow> process_queue \<Rightarrow> process_queue \<times> unit outcome" where
  "clean_expired_msg push_consumer consume_timeout now q =
     (case push_consumer of
        None \<Rightarrow> (q, Returned ())
      | Some consume_orderly \<Rightarrow>
          if consume_orderly then (q, Returned ())
          else clean_loop (min 16 (length (msg_tree_map q))) consume_timeout now q)"

subsection \<open>Ordered consumption\<close>

definition rollback :: "process_queue \<Rightarrow> process_queue" where
  "rollback q =
     q\<lparr>msg_tree_map := fold (\<lambda>(k, v). bt_insert k v) (consuming_msg_orderly_tree_map q) (msg_tree_map q),
       consuming_msg_orderly_tree_map := []\<rparr>"

fun subtract_sizes :: "pq_message list \<Rightarrow> process_queue \<Rightarrow> process_queue \<times> unit outcome" where
  "subtract_sizes [] q = (q, Returned ())"
| "subtract_sizes (m # ms) q =
     (case msg_body m of
        None \<Rightarrow> (q, Panicked)
      | Some body \<Rightarrow> subtract_sizes ms (q\<lparr>msg_size := msg_size q - of_nat (length body)\<rparr>))"

definition commit :: "process_queue \<Rightarrow> process_queue \<times> i64 outcome" where
  "commit q =
     (let offset = (case bt_last (consuming_msg_orderly_tree_map q) of
            Some (key, _) \<Rightarrow> wrap_i64 (key + 1) | None \<Rightarrow> -1);
          q1 = q\<lparr>msg_count := msg_count q - of_nat (length (consuming_msg_orderly_tree_map q))\<rparr>
      in (case (if msg_count q1 = 0 then (q1\<lparr>msg_size := 0\<rparr>, Returned ())
                else subtract_sizes (map snd (consuming_msg_orderly_tree_map q1)) q1) of
            (q2, Panicked) \<Rightarrow> (q2, Panicked)
          | (q2, Returned _) \<Rightarrow> (q2\<lparr>consuming_msg_orderly_tree_map := []\<rparr>, Returned offset)))"

definition consume_again_one :: "pq_message \<Rightarrow> process_queue \<Rightarrow> process_queue" where
  "consume_again_one m q =
     q\<lparr>consuming_msg_orderly_tree_map := bt_remove (queue_offset m) (consuming_msg_orderly_tree_map q),
       msg_tree_map := bt_insert (queue_offset m) m (msg_tree_map q)\<rparr>"

definition make_message_to_consume_again :: "pq_message list \<Rightarrow> process_queue \<Rightarrow> process_queue" where
  "make_message_to_consume_again messages q = fold consume_again_one messages q"

definition take_messages :: "u32 \<Rightarrow> process_queue \<Rightarrow> process_queue \<times> pq_message list" where
  "take_messages batch_size q =
     (q\<lparr>msg_tree_map := drop (unat batch_size) (msg_tree_map q)\<rparr>,
      map snd (take (unat batch_size) (msg_tree_map q)))"

definition contains_message :: "pq_message \<Rightarrow> process_queue \<Rightarrow> bool" where
  "contains_message m q \<longleftrightarrow> bt_get (msg_tree_map q) (queue_offset m) \<noteq> None"

definition pq_clear :: "process_queue \<Rightarrow> process_queue" where
  "pq_clear q =
     q\<lparr>msg_tree_map := [], consuming_msg_orderly_tree_map := [], msg_count := 0, msg_size := 0,
       queue_offset_max := 0\<rparr>"

section \<open>Steps\<close>

datatype pq_op =
    PutMessages "pq_message list"
  | RemoveMessages "pq_message list"
  | CleanExpired "bool option" u64 u64
  | Rollback
  | Commit
  | ConsumeAgain "pq_message list"
  | TakeMessages u32
  | ClearQueue
  | SetDropped bool
  | SetLocked bool

fun pq_step :: "pq_op \<Rightarrow> process_queue \<Rightarrow> process_queue" where
  "pq_step (PutMessages ms) q = fst (put_message ms q)"
| "pq_step (RemoveMessages ms) q = fst (remove_message ms q)"
| "pq_step (CleanExpired c timeout now) q = fst (clean_expired_msg c timeout now q)"
| "pq_step Rollback q = rollback q"
| "pq_step Commit q = fst (commit q)"
| "pq_step (ConsumeAgain ms) q = make_message_to_consume_again ms q"
| "pq_step (TakeMessages n) q = fst (take_messages n q)"
| "pq_step ClearQueue q = pq_clear q"
| "pq_step (SetDropped b) q = set_dropped b q"
| "pq_step (SetLocked b) q = set_locked b q"

text \<open>
  A message of the broker's log: the offset determines the body. Consumption without order uses
  the steps below, one message at a time.
\<close>

definition of_log :: "(i64 \<Rightarrow> u8 list) \<Rightarrow> pq_message \<Rightarrow> bool" where
  "of_log log m \<longleftrightarrow> msg_body m = Some (log (queue_offset m)) \<and> 0 \<le> queue_offset m \<and> queue_offset m < 2 ^ 63"

fun concurrent_op :: "(i64 \<Rightarrow> u8 list) \<Rightarrow> pq_op \<Rightarrow> bool" where
  "concurrent_op log (PutMessages ms) = list_all (of_log log) ms"
| "concurrent_op log (RemoveMessages ms) = (list_all (of_log log) ms \<and> length ms \<le> 1)"
| "concurrent_op log (ConsumeAgain ms) = False"
| "concurrent_op log (TakeMessages n) = False"
| "concurrent_op log op = True"

definition offsets :: "process_queue \<Rightarrow> i64 list" where
  "offsets q = map fst (msg_tree_map q)"

definition bytes_held :: "(i64 \<Rightarrow> u8 list) \<Rightarrow> i64 list \<Rightarrow> u64" where
  "bytes_held log ks = sum_list (map (\<lambda>k. of_nat (length (log k))) ks)"

definition filed :: "process_queue \<Rightarrow> bool" where
  "filed q \<longleftrightarrow> bt_inv (msg_tree_map q) \<and> consuming_msg_orderly_tree_map q = [] \<and>
     (\<forall>(k, m) \<in> set (msg_tree_map q). queue_offset m = k)"

definition accounted :: "(i64 \<Rightarrow> u8 list) \<Rightarrow> u64 \<Rightarrow> process_queue \<Rightarrow> bool" where
  "accounted log pending q \<longleftrightarrow> filed q \<and>
     (\<forall>(k, m) \<in> set (msg_tree_map q). of_log log m) \<and>
     msg_count q + pending = of_nat (length (msg_tree_map q)) \<and>
     msg_size q = bytes_held log (offsets q)"

section \<open>Lemmas\<close>

lemma bt_get_None_iff: "bt_get m k = None \<longleftrightarrow> k \<notin> fst ` set m"
  by (simp add: bt_get_def map_of_eq_None_iff)

lemma bt_get_in: "bt_get m k = Some v \<Longrightarrow> (k, v) \<in> set m"
  by (simp add: bt_get_def map_of_SomeD)

lemma bt_insert_keys:
  "k \<notin> fst ` set m \<Longrightarrow> mset (map fst (bt_insert k v m)) = add_mset k (mset (map fst m))"
  "bt_inv m \<Longrightarrow> k \<in> fst ` set m \<Longrightarrow> map fst (bt_insert k v m) = map fst m"
  by (induction k v m rule: bt_insert.induct) (auto simp: bt_inv_def)

lemma bt_insert_entries: "set (bt_insert k v m) \<subseteq> insert (k, v) (set m)"
  by (induction k v m rule: bt_insert.induct) auto

lemma bt_remove_keys: "map fst (bt_remove k m) = filter (\<lambda>k'. k' \<noteq> k) (map fst m)"
  by (simp add: bt_remove_def AList.delete_eq filter_map o_def case_prod_unfold eq_commute)

lemma bt_remove_entries: "set (bt_remove k m) \<subseteq> set m"
  by (auto simp: bt_remove_def AList.delete_eq)

lemma remove_key_mset:
  assumes "distinct ks" "k \<in> set ks"
  shows "add_mset k (mset (filter (\<lambda>k'. k' \<noteq> k) ks)) = mset ks"
proof -
  have "filter (\<lambda>k'. k' \<noteq> k) ks = remove1 k ks"
    using assms(1) by (simp add: distinct_remove1_removeAll removeAll_filter_not_eq eq_commute)
  then show ?thesis using assms(2) by (simp add: insert_DiffM del: mset_filter)
qed

lemma bytes_held_sum: "bytes_held log ks = (\<Sum>k \<in># mset ks. of_nat (length (log k)))"
  by (simp add: bytes_held_def flip: sum_mset_sum_list)

lemma bytes_held_mset: "mset ks = mset ks' \<Longrightarrow> bytes_held log ks = bytes_held log ks'"
  by (simp add: bytes_held_sum)

lemma bytes_held_Cons: "bytes_held log (k # ks) = of_nat (length (log k)) + bytes_held log ks"
  by (simp add: bytes_held_def)

lemma bt_inv_drop: "bt_inv m \<Longrightarrow> bt_inv (drop n m)"
  by (simp add: bt_inv_def sorted_wrt_drop flip: drop_map)

lemma filed_step:
  assumes "filed q"
  shows "filed (q\<lparr>msg_tree_map := bt_insert (queue_offset m) m (msg_tree_map q)\<rparr>)"
    and "filed (q\<lparr>msg_tree_map := bt_remove k (msg_tree_map q)\<rparr>)"
    and "filed (q\<lparr>msg_tree_map := drop n (msg_tree_map q)\<rparr>)"
  using assms bt_insert_entries [of "queue_offset m" m "msg_tree_map q"]
    bt_remove_entries [of k "msg_tree_map q"] set_drop_subset [of n "msg_tree_map q"]
  by (auto simp: filed_def bt_inv_drop)

lemma filed_other [simp]:
  "filed (q\<lparr>msg_count := c\<rparr>) = filed q" "filed (q\<lparr>msg_size := z\<rparr>) = filed q"
  "filed (q\<lparr>queue_offset_max := x\<rparr>) = filed q" "filed (q\<lparr>consuming := b\<rparr>) = filed q"
  "filed (q\<lparr>msg_acc_cnt := a\<rparr>) = filed q"
  by (simp_all add: filed_def)

lemma accounted_length:
  assumes "accounted log c q"
  shows "length (msg_tree_map q) < 2 ^ 64"
proof -
  have "distinct (offsets q)" "set (offsets q) \<subseteq> {0 ..< 2 ^ 63}"
    using assms bt_inv_distinct by (fastforce simp: accounted_def filed_def of_log_def offsets_def)+
  then have "length (offsets q) \<le> card {0 ..< 2 ^ 63 :: int}"
    using card_mono [of "{0 ..< 2 ^ 63 :: int}" "set (offsets q)"] by (simp add: distinct_card)
  then show ?thesis by (simp add: offsets_def)
qed

lemma insert_accounted:
  assumes "accounted log c q" "list_all (of_log log) ms"
  shows "\<exists>q' c'. insert_messages ms c q = (q', Returned c') \<and> accounted log c' q'"
  using assms
proof (induction ms arbitrary: c q)
  case (Cons m ms)
  let ?k = "queue_offset m"
  let ?q1 = "q\<lparr>msg_tree_map := bt_insert ?k m (msg_tree_map q)\<rparr>"
  have filed: "filed ?q1" using Cons.prems(1) filed_step(1) by (auto simp: accounted_def)
  have log: "\<forall>(k, m') \<in> set (bt_insert ?k m (msg_tree_map q)). of_log log m'"
    using Cons.prems bt_insert_entries [of ?k m "msg_tree_map q"] by (fastforce simp: accounted_def)
  have body: "msg_body m = Some (log ?k)" using Cons.prems(2) by (simp add: of_log_def)
  show ?case
  proof (cases "?k \<in> fst ` set (msg_tree_map q)")
    case True
    then have keys: "map fst (bt_insert ?k m (msg_tree_map q)) = map fst (msg_tree_map q)"
      using Cons.prems(1) by (intro bt_insert_keys(2)) (simp_all add: accounted_def filed_def)
    then have "length (bt_insert ?k m (msg_tree_map q)) = length (msg_tree_map q)"
      by (metis length_map)
    then have "accounted log c ?q1"
      using Cons.prems(1) filed log keys by (simp add: accounted_def offsets_def)
    then show ?thesis
      using Cons True by (simp add: bt_get_None_iff)
  next
    case False
    let ?q3 = "?q1\<lparr>queue_offset_max := word_of_int ?k, msg_size := msg_size q + of_nat (length (log ?k))\<rparr>"
    have keys: "mset (map fst (bt_insert ?k m (msg_tree_map q))) = mset (?k # map fst (msg_tree_map q))"
      using bt_insert_keys(1) [OF False] by simp
    then have "length (bt_insert ?k m (msg_tree_map q)) = Suc (length (msg_tree_map q))"
      by (metis length_Cons length_map mset_eq_length)
    moreover have "bytes_held log (map fst (bt_insert ?k m (msg_tree_map q))) =
        of_nat (length (log ?k)) + bytes_held log (offsets q)"
      using bytes_held_mset [OF keys] by (simp add: bytes_held_Cons offsets_def)
    ultimately have "accounted log (c + 1) ?q3"
      using Cons.prems(1) filed log by (auto simp: accounted_def offsets_def algebra_simps)
    from Cons.IH [OF this] Cons.prems(2) False show ?thesis by (simp add: bt_get_None_iff Let_def body)
  qed
qed simp

lemma accounted_flags [simp]:
  "accounted log c (q\<lparr>consuming := b\<rparr>) = accounted log c q"
  "accounted log c (q\<lparr>msg_acc_cnt := a\<rparr>) = accounted log c q"
  by (simp_all add: accounted_def offsets_def)

lemma put_accounted:
  assumes "accounted log 0 q" "list_all (of_log log) ms"
  shows "accounted log 0 (fst (put_message ms q))"
proof -
  obtain q' c' where ins: "insert_messages ms 0 q = (q', Returned c')" and acc: "accounted log c' q'"
    using insert_accounted [OF assms] by blast
  then have "accounted log 0 (q'\<lparr>msg_count := msg_count q' + c'\<rparr>)"
    by (simp add: accounted_def offsets_def)
  with assms(1) show ?thesis
    by (simp add: put_message_def ins Let_def split: outcome.splits)
qed

lemma count_down_accounted:
  assumes "accounted log 0 (q\<lparr>msg_count := msg_count q - n\<rparr>)"
  shows "accounted log 0 (count_down n q)"
proof (cases "msg_count q = n")
  case True
  then have "of_nat (length (msg_tree_map q)) = (0 :: u64)"
    using assms by (simp add: accounted_def)
  then have "2 ^ 64 dvd length (msg_tree_map q)" by (simp add: word_of_nat_eq_0_iff)
  with accounted_length [OF assms] have "msg_tree_map q = []"
    using nat_dvd_not_less [of "length (msg_tree_map q)" "2 ^ 64"] by auto
  then show ?thesis using assms True by (simp add: count_down_def accounted_def offsets_def bytes_held_def)
qed (use assms in \<open>simp add: count_down_def Let_def\<close>)

lemma remove_accounted:
  assumes acc: "accounted log 0 q" and m: "of_log log m"
  shows "accounted log 0 (fst (remove_message [m] q))"
proof (cases "queue_offset m \<in> fst ` set (msg_tree_map q)")
  case True
  let ?k = "queue_offset m"
  let ?t = "bt_remove ?k (msg_tree_map q)"
  let ?q2 = "q\<lparr>msg_tree_map := ?t, msg_size := msg_size q - of_nat (length (log ?k))\<rparr>"
  have d: "distinct (map fst (msg_tree_map q))" using acc bt_inv_distinct by (auto simp: accounted_def filed_def)
  have keys: "mset (map fst (msg_tree_map q)) = mset (?k # map fst ?t)"
    using remove_key_mset [OF d, of ?k] True by (simp add: bt_remove_keys)
  then have "length (msg_tree_map q) = Suc (length ?t)"
    by (metis length_Cons length_map mset_eq_length)
  moreover have "bytes_held log (offsets q) = of_nat (length (log ?k)) + bytes_held log (map fst ?t)"
    using bytes_held_mset [OF keys] by (simp add: bytes_held_Cons offsets_def)
  moreover have "filed ?q2" using acc filed_step(2) by (auto simp: accounted_def)
  moreover have "\<forall>(k, m') \<in> set ?t. of_log log m'"
    using acc bt_remove_entries [of ?k "msg_tree_map q"] by (fastforce simp: accounted_def)
  ultimately have "accounted log 0 (?q2\<lparr>msg_count := msg_count ?q2 - 1\<rparr>)"
    using acc by (auto simp: accounted_def offsets_def)
  from count_down_accounted [OF this] have "accounted log 0 (count_down 1 ?q2)" .
  moreover obtain v where "bt_get (msg_tree_map q) ?k = Some v"
    using True bt_get_None_iff by fastforce
  then have "fst (remove_message [m] q) = count_down 1 ?q2"
    using m by (cases "msg_tree_map q = []") (simp_all add: remove_message_def Let_def of_log_def)
  ultimately show ?thesis by simp
next
  case False
  then have "bt_remove (queue_offset m) (msg_tree_map q) = msg_tree_map q"
    by (simp add: bt_remove_def delete_idem)
  moreover have "accounted log 0 (count_down 0 q)" using acc by (intro count_down_accounted) simp
  moreover have "bt_get (msg_tree_map q) (queue_offset m) = None"
    using False by (simp add: bt_get_None_iff)
  ultimately show ?thesis using acc by (simp add: remove_message_def Let_def)
qed

lemma clean_accounted: "accounted log 0 q \<Longrightarrow> accounted log 0 (fst (clean_loop n timeout now q))"
proof (induction n timeout now q rule: clean_loop.induct)
  case (2 n timeout now q)
  have "of_log log m" if e: "expired_first timeout now q = Returned (Some m)" for m
  proof -
    obtain k rest where "msg_tree_map q = (k, m) # rest"
      using e by (cases "msg_tree_map q")
        (auto simp: expired_first_def split: option.splits if_splits prod.splits)
    with 2(3) show ?thesis by (simp add: accounted_def)
  qed
  then have "accounted log 0 (fst (remove_message [m] q))"
    if "expired_first timeout now q = Returned (Some m)" for m
    using that remove_accounted [OF 2(3)] by blast
  with 2 show ?case
    by (fastforce split: outcome.splits option.splits prod.splits)
qed simp

lemma commit_accounted:
  assumes "accounted log 0 q"
  shows "accounted log 0 (fst (commit q))"
proof -
  have none: "consuming_msg_orderly_tree_map q = []" using assms by (simp add: accounted_def filed_def)
  have "fst (commit q) = count_down 0 q\<lparr>consuming_msg_orderly_tree_map := []\<rparr>"
    by (simp add: commit_def none count_down_def Let_def)
  moreover have "accounted log 0 (count_down 0 q)" using assms by (intro count_down_accounted) simp
  ultimately show ?thesis by (simp add: accounted_def filed_def offsets_def)
qed

lemma other_accounted:
  assumes "accounted log 0 q"
  shows "accounted log 0 (rollback q)" "accounted log 0 (pq_clear q)"
    "accounted log 0 (set_dropped b q)" "accounted log 0 (set_locked b q)"
  using assms by (simp_all add: rollback_def pq_clear_def set_dropped_def set_locked_def accounted_def
      filed_def offsets_def bytes_held_def)

lemma step_accounted:
  assumes "accounted log 0 q" "concurrent_op log op"
  shows "accounted log 0 (pq_step op q)"
proof (cases op)
  case (RemoveMessages ms)
  then show ?thesis
    using assms remove_accounted by (cases ms) (auto simp: remove_message_def)
qed (use assms in \<open>auto simp: put_accounted clean_expired_msg_def clean_accounted commit_accounted
    other_accounted split: option.splits\<close>)

lemma run_accounted:
  "accounted log 0 q \<Longrightarrow> list_all (concurrent_op log) ops \<Longrightarrow> accounted log 0 (fold pq_step ops q)"
  by (induction ops arbitrary: q) (auto simp: step_accounted)

lemma new_accounted: "accounted log 0 (pq_new t)"
  by (simp add: accounted_def filed_def pq_new_def offsets_def bytes_held_def)

subsection \<open>All steps keep messages filed and the second map empty\<close>

lemma insert_filed: "filed q \<Longrightarrow> filed (fst (insert_messages ms c q))"
proof (induction ms arbitrary: c q)
  case (Cons m ms)
  show ?case
    using filed_step(1) [OF Cons.prems, of m] by (simp add: Let_def Cons.IH split: option.splits)
qed simp

lemma put_filed: "filed q \<Longrightarrow> filed (fst (put_message ms q))"
  using insert_filed [of q ms 0] by (auto simp: put_message_def Let_def split: outcome.splits prod.splits)

lemma count_down_filed [simp]: "filed (count_down c q) = filed q"
  by (simp add: count_down_def Let_def)

lemma count_down_tree [simp]: "msg_tree_map (count_down c q) = msg_tree_map q"
  by (simp add: count_down_def Let_def)

lemma remove_messages_filed: "filed q \<Longrightarrow> filed (fst (remove_messages ms c res q))"
proof (induction ms arbitrary: c res q)
  case (Cons m ms)
  show ?case
    using filed_step(2) [OF Cons.prems, of "queue_offset m"]
    by (simp add: Let_def Cons.IH split: option.splits)
qed simp

lemma remove_filed: "filed q \<Longrightarrow> filed (fst (remove_message ms q))"
  by (simp add: remove_message_def remove_messages_filed)

lemma clean_filed: "filed q \<Longrightarrow> filed (fst (clean_loop n timeout now q))"
proof (induction n arbitrary: q)
  case (Suc n)
  have "filed q'" if "remove_message [m] q = (q', r)" for m q' r
    using remove_filed [OF Suc.prems, of "[m]"] that by simp
  then show ?case
    using Suc.prems Suc.IH by (simp split: outcome.splits option.splits prod.splits)
qed simp

lemma consume_again_filed: "filed q \<Longrightarrow> filed (make_message_to_consume_again ms q)"
proof (induction ms arbitrary: q)
  case (Cons m ms)
  have "consuming_msg_orderly_tree_map q = []" using Cons.prems by (simp add: filed_def)
  then have "consume_again_one m q = q\<lparr>msg_tree_map := bt_insert (queue_offset m) m (msg_tree_map q)\<rparr>"
    by (simp add: consume_again_one_def bt_remove_def)
  then show ?case
    using Cons filed_step(1) [OF Cons.prems, of m] by (simp add: make_message_to_consume_again_def)
qed (simp add: make_message_to_consume_again_def)

lemma commit_empty:
  "filed q \<Longrightarrow> snd (commit q) = Returned (-1) \<and> filed (fst (commit q))"
  by (simp add: filed_def commit_def bt_last_def Let_def)

lemma rollback_empty: "filed q \<Longrightarrow> rollback q = q"
  by (simp add: filed_def rollback_def)

lemma filed_pq_step: "filed q \<Longrightarrow> filed (pq_step op q)"
  by (cases op) (auto simp: put_filed remove_filed clean_expired_msg_def clean_filed consume_again_filed
      commit_empty rollback_empty take_messages_def filed_step(3) split: option.splits,
      auto simp: pq_clear_def set_dropped_def set_locked_def filed_def)

interpretation process_queues: preserved pq_step "pq_new t" filed
  by unfold_locales (simp_all add: filed_pq_step, simp add: filed_def pq_new_def)

subsection \<open>The result of a removal\<close>

lemma offsets_count_down [simp]: "offsets (count_down c q) = offsets q"
  by (simp add: offsets_def)

lemma first_offset_hd: "first_offset res q = (if offsets q = [] then res else hd (offsets q))"
  by (cases "msg_tree_map q") (auto simp: first_offset_def offsets_def)

lemma offsets_removed [simp]:
  "offsets (q\<lparr>msg_tree_map := bt_remove k (msg_tree_map q), msg_size := z\<rparr>) = filter (\<lambda>k'. k' \<noteq> k) (offsets q)"
  "offsets (q\<lparr>msg_tree_map := bt_remove k (msg_tree_map q)\<rparr>) = filter (\<lambda>k'. k' \<noteq> k) (offsets q)"
  by (simp_all add: offsets_def bt_remove_keys)

lemma remove_messages_Cons:
  assumes "remove_messages (m # ms) c res q = (q', Returned r)"
  shows "\<exists>q2 c2. remove_messages ms c2 (first_offset res q2) q2 = (q', Returned r) \<and>
    offsets q2 = filter (\<lambda>k. k \<noteq> queue_offset m) (offsets q)"
proof (cases "bt_get (msg_tree_map q) (queue_offset m)")
  case None
  with assms show ?thesis
    by (intro exI [of _ "count_down c (q\<lparr>msg_tree_map := bt_remove (queue_offset m) (msg_tree_map q)\<rparr>)"]
        exI [of _ c]) (simp add: Let_def)
next
  case (Some prev)
  then obtain body where "msg_body m = Some body"
    using assms by (cases "msg_body m") (auto simp: Let_def)
  with assms Some show ?thesis
    by (intro exI [of _ "count_down (c + 1) (q\<lparr>msg_tree_map := bt_remove (queue_offset m) (msg_tree_map q),
        msg_size := msg_size q - of_nat (length body)\<rparr>)"] exI [of _ "c + 1"]) (simp add: Let_def)
qed

lemma remove_messages_offsets:
  "remove_messages ms c res q = (q', Returned r) \<Longrightarrow>
     offsets q' = filter (\<lambda>k. k \<notin> queue_offset ` set ms) (offsets q) \<and>
     (ms = [] \<longrightarrow> r = res) \<and> (ms \<noteq> [] \<longrightarrow> offsets q' \<noteq> [] \<longrightarrow> r = hd (offsets q'))"
proof (induction ms arbitrary: c res q)
  case (Cons m ms)
  obtain q2 c2 where step: "remove_messages ms c2 (first_offset res q2) q2 = (q', Returned r)"
    and offs: "offsets q2 = filter (\<lambda>k. k \<noteq> queue_offset m) (offsets q)"
    using remove_messages_Cons [OF Cons.prems] by blast
  from Cons.IH [OF step] have IH: "offsets q' = filter (\<lambda>k. k \<notin> queue_offset ` set ms) (offsets q2)"
    "ms = [] \<Longrightarrow> r = first_offset res q2" "ms \<noteq> [] \<Longrightarrow> offsets q' \<noteq> [] \<Longrightarrow> r = hd (offsets q')"
    by blast+
  have "offsets q' = filter (\<lambda>k. k \<notin> queue_offset ` set (m # ms)) (offsets q)"
    by (simp add: IH(1) offs conj_commute)
  moreover have "r = hd (offsets q')" if "offsets q' \<noteq> []"
  proof (cases "ms = []")
    case True
    then have "offsets q' = offsets q2" using IH(1) by simp
    with that True IH(2) show ?thesis by (simp add: first_offset_hd)
  qed (use that IH(3) in simp)
  ultimately show ?case by simp
qed simp

text \<open>All the messages are in the queue: every one is counted, with the running count.\<close>

lemma remove_messages_present:
  assumes "distinct (map queue_offset ms)" "queue_offset ` set ms \<subseteq> set (offsets q)"
    "list_all (\<lambda>m. msg_body m \<noteq> None) ms"
  shows "\<exists>q' r. remove_messages ms c res q = (q', Returned r) \<and>
    msg_count q' = msg_count q - (\<Sum>i < length ms. c + 1 + of_nat i)"
  using assms
proof (induction ms arbitrary: c res q)
  case (Cons m ms)
  obtain body where body: "msg_body m = Some body" using Cons.prems(3) by auto
  obtain prev where prev: "bt_get (msg_tree_map q) (queue_offset m) = Some prev"
    using Cons.prems(2) bt_get_None_iff [of "msg_tree_map q" "queue_offset m"] by (auto simp: offsets_def)
  have rest: "queue_offset ` set ms \<subseteq> {k \<in> set (offsets q). k \<noteq> queue_offset m}"
    using Cons.prems(1,2) by (auto intro: rev_image_eqI)
  let ?q2 = "count_down (c + 1) (q\<lparr>msg_tree_map := bt_remove (queue_offset m) (msg_tree_map q),
        msg_size := msg_size q - of_nat (length body)\<rparr>)"
  have "\<exists>q' r. remove_messages ms (c + 1) (first_offset res ?q2) ?q2 = (q', Returned r) \<and>
      msg_count q' = msg_count ?q2 - (\<Sum>i < length ms. c + 1 + 1 + of_nat i)"
    by (rule Cons.IH) (use Cons.prems rest in simp_all)
  then obtain q' r where rem: "remove_messages ms (c + 1) (first_offset res ?q2) ?q2 = (q', Returned r)"
    and cnt': "msg_count q' = msg_count ?q2 - (\<Sum>i < length ms. c + 1 + 1 + of_nat i)" by blast
  have cnt: "msg_count ?q2 = msg_count q - (c + 1)" by (simp add: count_down_def Let_def)
  have sum: "(\<Sum>i < length (m # ms). c + 1 + of_nat i) = (c + 1) + (\<Sum>i < length ms. c + 1 + 1 + of_nat i)"
    by (simp add: sum.lessThan_Suc_shift algebra_simps del: sum.lessThan_Suc)
  have "msg_count q' = msg_count q - (\<Sum>i < length (m # ms). c + 1 + of_nat i)"
    unfolding cnt' cnt sum by (rule diff_diff_eq)
  moreover have "remove_messages (m # ms) c res q = (q', Returned r)"
    using rem by (simp add: Let_def body prev)
  ultimately show ?case by blast
qed simp

lemma drained_result:
  assumes "remove_messages ms c res q = (q', Returned r)" "offsets q = map queue_offset ms" "ms \<noteq> []"
    "distinct (offsets q)"
  shows "r = (if length ms = 1 then res else queue_offset (last ms))"
  using assms
proof (induction ms arbitrary: c res q)
  case (Cons m ms)
  obtain q2 c2 where step: "remove_messages ms c2 (first_offset res q2) q2 = (q', Returned r)"
    and "offsets q2 = filter (\<lambda>k. k \<noteq> queue_offset m) (offsets q)"
    using remove_messages_Cons [OF Cons.prems(1)] by blast
  then have offs: "offsets q2 = map queue_offset ms"
    using Cons.prems(2,4) by (auto simp: filter_id_conv intro: rev_image_eqI)
  show ?case
  proof (cases "ms = []")
    case True
    then show ?thesis using step offs by (simp add: first_offset_hd)
  next
    case False
    have "r = (if length ms = 1 then first_offset res q2 else queue_offset (last ms))"
      using Cons.IH [OF step offs False] offs Cons.prems(2,4) by simp
    then show ?thesis using offs False by (cases ms) (auto simp: first_offset_hd)
  qed
qed simp

definition sample_message :: "i64 \<Rightarrow> pq_message" where
  "sample_message k = \<lparr>queue_offset = k, msg_body = Some [1, 2], msg_properties = []\<rparr>"

definition sample_queue_ops :: "pq_op list" where
  "sample_queue_ops = [PutMessages (map sample_message [5, 6, 7])]"

section \<open>Properties\<close>

text \<open>
  C26. Flow control is exact for consumption without order: as long as messages are removed one at a
  time, the counters are the number and the total body size of the messages in the buffer, whatever
  was put, removed, cleaned as expired or cleared before.
\<close>

theorem process_queue_accounting:
  assumes "list_all (concurrent_op log) ops" and "q = fold pq_step ops (pq_new t)"
  shows "unat (msg_count q) = length (msg_tree_map q) \<and> msg_size q = bytes_held log (offsets q)"
proof -
  have acc: "accounted log 0 q" unfolding assms(2) by (rule run_accounted [OF new_accounted assms(1)])
  with accounted_length [OF acc] show ?thesis by (simp add: accounted_def unat_of_nat)
qed

theorem process_queue_accounting_witness:
  "unat (msg_count (fold pq_step (sample_queue_ops @ [RemoveMessages [sample_message 6]]) (pq_new 0))) = 2"
proof -
  let ?ops = "sample_queue_ops @ [RemoveMessages [sample_message 6]]"
  have ops: "list_all (concurrent_op (\<lambda>k. [1, 2])) ?ops"
    by (simp add: sample_queue_ops_def sample_message_def of_log_def)
  have "length (msg_tree_map (fold pq_step ?ops (pq_new 0))) = 2" by code_simp
  then show ?thesis using process_queue_accounting [OF ops refl, of 0] by simp
qed

text \<open>
  C14. What a removal reports for committing. A removal of at least one message takes out exactly the given messages, and
  the offset it reports never passes a message that is still in the buffer: if others remain the offset is the
  smallest of theirs. A removal of no message changes nothing, but it reports the offset after that of the message
  that was put last, whatever is still in the buffer.
\<close>

theorem commit_offset_never_passes_held_message:
  assumes "reachable pq_step (pq_new t) q" and "remove_message ms q = (q', Returned r)" and "msg_tree_map q \<noteq> []"
  shows "(ms \<noteq> [] \<longrightarrow> set (offsets q') = set (offsets q) - queue_offset ` set ms \<and>
      (\<forall>k \<in> set (offsets q'). r \<le> k) \<and> (offsets q' \<noteq> [] \<longrightarrow> r \<in> set (offsets q'))) \<and>
    (ms = [] \<longrightarrow> q' = q \<and> r = wrap_i64 (sint (queue_offset_max q) + 1))"
proof -
  have "filed q'"
    using remove_filed [OF process_queues.reachable_inv [OF assms(1)], of ms] assms(2) by simp
  then have sorted: "sorted_wrt (<) (offsets q')" by (simp add: filed_def bt_inv_def offsets_def)
  have empty: "q' = q \<and> r = wrap_i64 (sint (queue_offset_max q) + 1)" if "ms = []"
    using assms(2,3) that by (auto simp: remove_message_def)
  have "set (offsets q') = set (offsets q) - queue_offset ` set ms \<and> (\<forall>k \<in> set (offsets q'). r \<le> k) \<and>
      (offsets q' \<noteq> [] \<longrightarrow> r \<in> set (offsets q'))" if ms: "ms \<noteq> []"
  proof -
    have res: "offsets q' = filter (\<lambda>k. k \<notin> queue_offset ` set ms) (offsets q)"
      "offsets q' \<noteq> [] \<Longrightarrow> r = hd (offsets q')"
      using remove_messages_offsets [of ms 0 "wrap_i64 (sint (queue_offset_max q) + 1)" q q' r] ms assms(2,3)
      by (simp_all add: remove_message_def)
    have "r \<le> k" if "k \<in> set (offsets q')" for k
      using that sorted res(2) by (cases "offsets q'") auto
    moreover have "r \<in> set (offsets q')" if "offsets q' \<noteq> []"
      using that res(2) by simp
    moreover have "set (offsets q') = set (offsets q) - queue_offset ` set ms"
      using res(1) by auto
    ultimately show ?thesis by blast
  qed
  with empty show ?thesis by blast
qed

theorem commit_offset_never_passes_held_message_witness:
  "snd (remove_message [sample_message 5] (fold pq_step sample_queue_ops (pq_new 0))) = Returned 6 \<and>
   offsets (fst (remove_message [sample_message 5] (fold pq_step sample_queue_ops (pq_new 0)))) = [6, 7] \<and>
   snd (remove_message [] (fold pq_step sample_queue_ops (pq_new 0))) = Returned 8"
proof -
  let ?q = "fold pq_step sample_queue_ops (pq_new 0)"
  have reach: "reachable pq_step (pq_new 0) ?q"
    by (simp add: sample_queue_ops_def reachable.intros del: pq_step.simps)
  have val: "snd (remove_message [sample_message 5] ?q) = Returned 6" by code_simp
  have offs: "offsets (fst (remove_message [sample_message 5] ?q)) = [6, 7]" by code_simp
  have ne: "msg_tree_map ?q \<noteq> []" by code_simp
  have none: "remove_message [] ?q = (?q, Returned (wrap_i64 (sint (queue_offset_max ?q) + 1)))"
    using ne by (simp add: remove_message_def)
  have top: "wrap_i64 (sint (queue_offset_max ?q) + 1) = 8" by code_simp
  have rem: "remove_message [sample_message 5] ?q = (fst (remove_message [sample_message 5] ?q), Returned 6)"
    using val by (simp add: prod_eq_iff)
  from commit_offset_never_passes_held_message [OF reach rem ne] commit_offset_never_passes_held_message [OF reach none ne]
  show ?thesis using val offs none top by simp
qed

text \<open>
  Removing several messages in one batch miscounts: a batch of \<open>n\<close> messages of the buffer takes
  \<open>1 + 2 + \<dots> + n\<close> off the message counter instead of \<open>n\<close>. And when a batch of two or more
  empties the buffer, the reported offset is that of the last consumed message instead of the one
  after it.
\<close>

lemma batch_removal_miscounts:
  assumes "distinct (map queue_offset ms)" and "queue_offset ` set ms \<subseteq> set (offsets q)"
    and "list_all (\<lambda>m. msg_body m \<noteq> None) ms" and "ms \<noteq> []"
  shows "\<exists>q' r. remove_message ms q = (q', Returned r) \<and>
    msg_count q' = msg_count q - of_nat (length ms * (length ms + 1) div 2) \<and>
    (offsets q = map queue_offset ms \<longrightarrow> length ms \<ge> 2 \<longrightarrow> r = queue_offset (last ms))"
proof -
  let ?res = "wrap_i64 (sint (queue_offset_max q) + 1)"
  have sum: "(\<Sum>i < n. (0 :: u64) + 1 + of_nat i) = of_nat (n * (n + 1) div 2)" for n
    using gauss_sum_nat [of n] by (simp flip: of_nat_sum of_nat_Suc)
      (simp add: atLeast0AtMost lessThan_Suc_atMost [symmetric] sum.lessThan_Suc_shift del: sum.lessThan_Suc)
  obtain q' r where rem: "remove_messages ms 0 ?res q = (q', Returned r)"
    and cnt: "msg_count q' = msg_count q - of_nat (length ms * (length ms + 1) div 2)"
    using remove_messages_present [OF assms(1,2,3), of 0 ?res] unfolding sum by blast
  have "msg_tree_map q \<noteq> []" using assms(2,4) by (auto simp: offsets_def)
  then have "remove_message ms q = (q', Returned r)" using rem by (simp add: remove_message_def)
  moreover have "r = queue_offset (last ms)" if "offsets q = map queue_offset ms" "length ms \<ge> 2"
    using drained_result [OF rem that(1) assms(4)] assms(1) that by auto
  ultimately show ?thesis using cnt by blast
qed

text \<open>
  Ordered consumption loses its bookkeeping: taking messages does not enter them into the map of
  messages being consumed, which stays empty in every reachable state. So a commit always reports
  \<open>-1\<close>, a rollback changes nothing, and messages that were taken do not come back by it.
\<close>

lemma taken_messages_are_lost:
  assumes "reachable pq_step (pq_new t) q"
  shows "snd (commit q) = Returned (-1) \<and> rollback q = q \<and>
    (\<forall>m \<in> set (snd (take_messages n q)). \<not> contains_message m (rollback (fst (take_messages n q))))"
proof -
  have filed: "filed q" by (rule process_queues.reachable_inv [OF assms])
  let ?t = "fst (take_messages n q)"
  have "rollback ?t = ?t" using rollback_empty filed_step(3) [OF filed] by (simp add: take_messages_def)
  moreover have "\<not> contains_message m ?t" if taken: "m \<in> set (snd (take_messages n q))" for m
  proof -
    obtain k where k: "(k, m) \<in> set (take (unat n) (msg_tree_map q))"
      using taken by (auto simp: take_messages_def)
    then have "queue_offset m = k" using filed by (auto simp: filed_def dest: in_set_takeD)
    with k have "queue_offset m \<in> set (take (unat n) (offsets q))"
      by (force simp: offsets_def take_map)
    moreover have "distinct (take (unat n) (offsets q) @ drop (unat n) (offsets q))"
      using filed bt_inv_distinct by (auto simp: filed_def offsets_def)
    ultimately have "queue_offset m \<notin> set (drop (unat n) (offsets q))"
      by (auto simp del: append_take_drop_id)
    then show ?thesis
      by (simp add: contains_message_def take_messages_def bt_get_None_iff offsets_def drop_map)
  qed
  ultimately show ?thesis using filed commit_empty rollback_empty by simp
qed

end
