(* ===== verification/Byte_Codec.thy ===== *)
theory Byte_Codec
  imports Rust_Maps "HOL-Library.Monad_Syntax"
begin

text \<open>
  Byte buffers as the codecs of the sources use them through the \<open>Buf\<close> and \<open>BufMut\<close> traits:
  big-endian integers written at the end and read from the front, and UTF-8 text. A reader takes a
  buffer and gives a value and the rest of the buffer, or \<open>None\<close> where the Rust method panics
  because the buffer is too short. The locale \<open>codec\<close> is the contract of a writer with its
  reader; repeated reading until the buffer is empty is proved correct in it once.
\<close>

section \<open>Integers\<close>

type_synonym bytes = "u8 list"

fun be_bytes :: "nat \<Rightarrow> nat \<Rightarrow> bytes" where
  "be_bytes 0 v = []"
| "be_bytes (Suc n) v = be_bytes n (v div 256) @ [of_nat (v mod 256)]"

definition be_value :: "bytes \<Rightarrow> nat" where
  "be_value bs = foldl (\<lambda>acc b. acc * 256 + unat b) 0 bs"

definition take_bytes :: "nat \<Rightarrow> bytes \<Rightarrow> (bytes \<times> bytes) option" where
  "take_bytes n bs = (if n \<le> length bs then Some (take n bs, drop n bs) else None)"

text \<open>Unsigned and two's complement fields of \<open>n\<close> bytes.\<close>

definition put_unsigned :: "nat \<Rightarrow> nat \<Rightarrow> bytes" where
  "put_unsigned n v = be_bytes n v"

definition get_unsigned :: "nat \<Rightarrow> bytes \<Rightarrow> (nat \<times> bytes) option" where
  "get_unsigned n bs = map_option (\<lambda>(b, rest). (be_value b, rest)) (take_bytes n bs)"

definition put_signed :: "nat \<Rightarrow> int \<Rightarrow> bytes" where
  "put_signed n i = be_bytes n (nat (i mod 2 ^ (8 * n)))"

definition to_signed :: "nat \<Rightarrow> nat \<Rightarrow> int" where
  "to_signed n v = (if v < 2 ^ (8 * n - 1) then int v else int v - 2 ^ (8 * n))"

definition get_signed :: "nat \<Rightarrow> bytes \<Rightarrow> (int \<times> bytes) option" where
  "get_signed n bs = map_option (\<lambda>(v, rest). (to_signed n v, rest)) (get_unsigned n bs)"

abbreviation "put_u8 \<equiv> put_unsigned 1"
abbreviation "put_u16 \<equiv> put_unsigned 2"
abbreviation "put_u32 \<equiv> put_unsigned 4"
abbreviation "put_i16 \<equiv> put_signed 2"
abbreviation "put_i32 \<equiv> put_signed 4"
abbreviation "put_i64 \<equiv> put_signed 8"
abbreviation "get_u8 \<equiv> get_unsigned 1"
abbreviation "get_u16 \<equiv> get_unsigned 2"
abbreviation "get_u32 \<equiv> get_unsigned 4"
abbreviation "get_i16 \<equiv> get_signed 2"
abbreviation "get_i32 \<equiv> get_signed 4"
abbreviation "get_i64 \<equiv> get_signed 8"

definition fits_unsigned :: "nat \<Rightarrow> nat \<Rightarrow> bool" where
  "fits_unsigned n v \<longleftrightarrow> v < 2 ^ (8 * n)"

definition fits_signed :: "nat \<Rightarrow> int \<Rightarrow> bool" where
  "fits_signed n i \<longleftrightarrow> - (2 ^ (8 * n - 1)) \<le> i \<and> i < 2 ^ (8 * n - 1)"

text \<open>The cast of a signed integer to \<open>usize\<close>, on a target of 64 bits.\<close>

definition as_usize :: "int \<Rightarrow> nat" where
  "as_usize i = nat (i mod 2 ^ 64)"

section \<open>UTF-8\<close>

text \<open>
  The first character of a text: \<open>Inr n\<close> when it is well-formed and has \<open>n\<close> bytes, \<open>Inl n\<close> when
  the first \<open>n\<close> bytes are a maximal ill-formed part.
\<close>

definition is_cont :: "u8 \<Rightarrow> bool" where
  "is_cont b \<longleftrightarrow> 0x80 \<le> b \<and> b \<le> 0xBF"

definition second_ok :: "u8 \<Rightarrow> u8 \<Rightarrow> bool" where
  "second_ok b c \<longleftrightarrow>
     (if b = 0xE0 then 0xA0 \<le> c \<and> c \<le> 0xBF
      else if b = 0xED then 0x80 \<le> c \<and> c \<le> 0x9F
      else if b = 0xF0 then 0x90 \<le> c \<and> c \<le> 0xBF
      else if b = 0xF4 then 0x80 \<le> c \<and> c \<le> 0x8F
      else is_cont c)"

definition nth_ok :: "bytes \<Rightarrow> nat \<Rightarrow> (u8 \<Rightarrow> bool) \<Rightarrow> bool" where
  "nth_ok bs i P \<longleftrightarrow> i < length bs \<and> P (bs ! i)"

definition utf8_char :: "bytes \<Rightarrow> nat + nat" where
  "utf8_char bs =
     (let b = hd bs
      in if b < 0x80 then Inr 1
         else if 0xC2 \<le> b \<and> b \<le> 0xDF then (if nth_ok bs 1 is_cont then Inr 2 else Inl 1)
         else if 0xE0 \<le> b \<and> b \<le> 0xEF then
           (if \<not> nth_ok bs 1 (second_ok b) then Inl 1
            else if nth_ok bs 2 is_cont then Inr 3 else Inl 2)
         else if 0xF0 \<le> b \<and> b \<le> 0xF4 then
           (if \<not> nth_ok bs 1 (second_ok b) then Inl 1
            else if \<not> nth_ok bs 2 is_cont then Inl 2
            else if nth_ok bs 3 is_cont then Inr 4 else Inl 3)
         else Inl 1)"

lemma utf8_char_pos: "utf8_char bs = Inl n \<Longrightarrow> 0 < n" "utf8_char bs = Inr n \<Longrightarrow> 0 < n"
  by (auto simp: utf8_char_def Let_def split: if_splits)

text \<open>\<open>str::from_utf8\<close> accepts and \<open>String::from_utf8_lossy\<close> repairs.\<close>

function valid_utf8 :: "bytes \<Rightarrow> bool" where
  "valid_utf8 bs =
     (if bs = [] then True
      else (case utf8_char bs of Inl _ \<Rightarrow> False | Inr n \<Rightarrow> valid_utf8 (drop n bs)))"
  by pat_completeness auto
termination
  by (relation "measure length") (simp_all add: utf8_char_pos)

definition replacement_character :: bytes where
  "replacement_character = [0xEF, 0xBF, 0xBD]"

function from_utf8_lossy :: "bytes \<Rightarrow> bytes" where
  "from_utf8_lossy bs =
     (if bs = [] then []
      else (case utf8_char bs of
              Inl n \<Rightarrow> replacement_character @ from_utf8_lossy (drop n bs)
            | Inr n \<Rightarrow> take n bs @ from_utf8_lossy (drop n bs)))"
  by pat_completeness auto
termination
  by (relation "measure length") (simp_all add: utf8_char_pos)

declare valid_utf8.simps [simp del] from_utf8_lossy.simps [simp del]

section \<open>Reading to the end\<close>

fun read_all :: "nat \<Rightarrow> (bytes \<Rightarrow> ('a \<times> bytes) option) \<Rightarrow> bytes \<Rightarrow> 'a list option" where
  "read_all fuel get [] = Some []"
| "read_all 0 get bs = None"
| "read_all (Suc fuel) get bs = do { (x, rest) \<leftarrow> get bs; xs \<leftarrow> read_all fuel get rest; Some (x # xs) }"

section \<open>Facts on integers\<close>

lemma length_be_bytes [simp]: "length (be_bytes n v) = n"
  by (induction n arbitrary: v) auto

lemma be_value_append [simp]: "be_value (bs @ [b]) = be_value bs * 256 + unat b"
  by (simp add: be_value_def)

lemma be_value_bytes [simp]: "be_value (be_bytes n v) = v mod 2 ^ (8 * n)"
proof (induction n arbitrary: v)
  case (Suc n)
  have "unat (of_nat (v mod 256) :: u8) = v mod 256" by (simp add: unat_of_nat)
  moreover have "v mod (256 * 2 ^ (8 * n)) = 256 * (v div 256 mod 2 ^ (8 * n)) + v mod 256"
    by (rule mod_mult2_eq)
  ultimately show ?case using Suc by (simp add: power_add mult.commute add.commute)
qed (simp add: be_value_def)

lemma take_bytes_append [simp]: "length a = n \<Longrightarrow> take_bytes n (a @ rest) = Some (a, rest)"
  by (simp add: take_bytes_def)

lemma take_bytes_length: "take_bytes n bs = Some (a, rest) \<Longrightarrow> length bs = n + length rest"
  by (auto simp: take_bytes_def split: if_splits)

lemma length_put [simp]: "length (put_unsigned n v) = n" "length (put_signed n i) = n"
  by (simp_all add: put_unsigned_def put_signed_def)

lemma get_put_unsigned [simp]:
  "fits_unsigned n v \<Longrightarrow> get_unsigned n (put_unsigned n v @ rest) = Some (v, rest)"
  by (simp add: get_unsigned_def put_unsigned_def fits_unsigned_def)

lemma to_signed_wrap:
  assumes "0 < n" "fits_signed n i"
  shows "to_signed n (nat (i mod 2 ^ (8 * n))) = i"
proof -
  let ?h = "2 ^ (8 * n - 1) :: int"
  have two: "2 ^ (8 * n) = 2 * ?h" using assms(1) by (simp flip: power_Suc)
  show ?thesis
  proof (cases "i < 0")
    case True
    then have "(i + 2 ^ (8 * n)) mod 2 ^ (8 * n) = i + 2 ^ (8 * n)"
      using assms(2) two by (intro mod_pos_pos_trivial) (auto simp: fits_signed_def)
    then have "i mod 2 ^ (8 * n) = i + 2 ^ (8 * n)" by simp
    then show ?thesis using True assms(2) two by (auto simp: to_signed_def fits_signed_def nat_less_iff)
  next
    case False
    then have "i mod 2 ^ (8 * n) = i" using assms(2) two by (simp add: fits_signed_def mod_pos_pos_trivial)
    then show ?thesis using False assms(2) by (auto simp: to_signed_def fits_signed_def nat_less_iff)
  qed
qed

lemma get_put_signed [simp]:
  "0 < n \<Longrightarrow> fits_signed n i \<Longrightarrow> get_signed n (put_signed n i @ rest) = Some (i, rest)"
  by (simp add: get_signed_def get_unsigned_def put_signed_def to_signed_wrap nat_mod_distrib nat_power_eq)

lemma get_unsigned_length: "get_unsigned n bs = Some (v, rest) \<Longrightarrow> length bs = n + length rest"
  by (auto simp: get_unsigned_def dest: take_bytes_length)

lemma get_signed_length: "get_signed n bs = Some (v, rest) \<Longrightarrow> length bs = n + length rest"
  by (auto simp: get_signed_def dest: get_unsigned_length)

lemma as_usize_nonneg [simp]: "0 \<le> i \<Longrightarrow> i < 2 ^ 64 \<Longrightarrow> as_usize i = nat i"
  by (simp add: as_usize_def)

section \<open>Facts on text\<close>

lemma from_utf8_lossy_valid: "valid_utf8 bs \<Longrightarrow> from_utf8_lossy bs = bs"
proof (induction bs rule: valid_utf8.induct)
  case (1 bs)
  show ?case
  proof (cases "bs = []")
    case False
    with 1(2) obtain n where "utf8_char bs = Inr n" "valid_utf8 (drop n bs)"
      by (subst (asm) valid_utf8.simps) (auto split: sum.splits)
    with 1(1) False show ?thesis by (subst from_utf8_lossy.simps) simp
  qed (simp add: from_utf8_lossy.simps)
qed

lemma valid_ascii: "\<forall>b \<in> set bs. b < 0x80 \<Longrightarrow> valid_utf8 bs"
  by (induction bs) (simp_all add: valid_utf8.simps utf8_char_def Let_def)

section \<open>The codec contract\<close>

locale codec =
  fixes put :: "'a \<Rightarrow> bytes" and get :: "bytes \<Rightarrow> ('a \<times> bytes) option" and ok :: "'a \<Rightarrow> bool"
  assumes get_put: "ok x \<Longrightarrow> get (put x @ rest) = Some (x, rest)"
    and get_consumes: "get bs = Some (x, rest) \<Longrightarrow> length rest < length bs"
begin

text \<open>No encoding is a proper prefix of another.\<close>

lemma prefix_free:
  assumes "ok x" "ok y" "put x @ a = put y @ b"
  shows "x = y \<and> a = b"
  using get_put [OF assms(1), of a] get_put [OF assms(2), of b] unfolding assms(3) by simp

lemma put_inj: "ok x \<Longrightarrow> ok y \<Longrightarrow> put x = put y \<Longrightarrow> x = y"
  using prefix_free [of x y "[]" "[]"] by simp

lemma put_ne:
  assumes "ok x"
  shows "put x \<noteq> []"
  using get_consumes [OF get_put [OF assms], of "[]"] by auto

text \<open>A stream of encodings is read back completely; one unit of fuel for each byte is enough.\<close>

lemma read_all_concat:
  assumes "list_all ok xs" "length xs \<le> fuel"
  shows "read_all fuel get (concat (map put xs)) = Some xs"
  using assms
proof (induction xs arbitrary: fuel)
  case (Cons x xs)
  then obtain fuel' where fuel: "fuel = Suc fuel'" by (cases fuel) auto
  obtain b bs where ne: "put x @ concat (map put xs) = b # bs"
    using put_ne [of x] Cons.prems(1) by (cases "put x") auto
  have "get (b # bs) = Some (x, concat (map put xs))"
    using get_put [of x "concat (map put xs)"] Cons.prems(1) ne by simp
  then show ?case using Cons fuel ne by simp
qed simp

lemma length_concat_put: "list_all ok xs \<Longrightarrow> length xs \<le> length (concat (map put xs))"
proof (induction xs)
  case (Cons x xs)
  then show ?case using put_ne [of x] by (cases "put x") auto
qed simp

text \<open>More fuel than bytes changes nothing: reading terminates because every read consumes.\<close>

lemma read_all_enough: "length bs \<le> fuel \<Longrightarrow> read_all fuel get bs = read_all (length bs) get bs"
proof (induction "length bs" arbitrary: bs fuel rule: less_induct)
  case less
  show ?case
  proof (cases bs)
    case (Cons b bs')
    then obtain fuel' where fuel: "fuel = Suc fuel'" using less.prems by (cases fuel) auto
    have "read_all fuel' get rest = read_all (length bs') get rest" if g: "get (b # bs') = Some (x, rest)" for x rest
    proof -
      have "length rest < length bs" using get_consumes [OF g] Cons by simp
      with less.hyps [of rest fuel'] less.hyps [of rest "length bs'"] less.prems fuel Cons show ?thesis by simp
    qed
    then show ?thesis by (auto simp: Cons fuel split: bind_splits)
  qed simp
qed

end

lemma get_unsigned_consumes: "0 < n \<Longrightarrow> get_unsigned n bs = Some (v, rest) \<Longrightarrow> length rest < length bs"
  using get_unsigned_length by fastforce

lemma get_signed_consumes: "0 < n \<Longrightarrow> get_signed n bs = Some (v, rest) \<Longrightarrow> length rest < length bs"
  using get_signed_length by fastforce

interpretation u8: codec put_u8 get_u8 "fits_unsigned 1"
  by unfold_locales (simp, erule get_unsigned_consumes [rotated], simp)

interpretation u16: codec put_u16 get_u16 "fits_unsigned 2"
  by unfold_locales (simp, erule get_unsigned_consumes [rotated], simp)

interpretation u32: codec put_u32 get_u32 "fits_unsigned 4"
  by unfold_locales (simp, erule get_unsigned_consumes [rotated], simp)

interpretation i16: codec put_i16 get_i16 "fits_signed 2"
  by unfold_locales (simp, erule get_signed_consumes [rotated], simp)

interpretation i32: codec put_i32 get_i32 "fits_signed 4"
  by unfold_locales (simp, erule get_signed_consumes [rotated], simp)

interpretation i64: codec put_i64 get_i64 "fits_signed 8"
  by unfold_locales (simp, erule get_signed_consumes [rotated], simp)

end
