(* ===== verification/Remoting_Codec.thy ===== *)
theory Remoting_Codec
  imports Byte_Codec "HOL-Library.Sublist"
begin

text \<open>
  The wire format of commands (\<open>rocketmq-remoting/src/protocol/remoting_command.rs\<close>,
  \<open>rocketmq_serializable.rs\<close> and \<open>codec/remoting_command_codec.rs\<close>): the compact header format,
  the framing with total length, serialization type and header length, and the incremental decoder
  of a byte stream. Text is its UTF-8 bytes. The JSON header format is the work of \<open>serde_json\<close>
  and an argument, a pair of encoder and decoder. A custom header is given by what its trait
  methods return.
\<close>

section \<open>Commands\<close>

datatype language_code =
    JAVA | CPP | DOTNET | PYTHON | DELPHI | ERLANG | RUBY | OTHER | HTTP | GO | PHP | OMS | RUST

fun language_value_of :: "nat \<Rightarrow> language_code option" where
  "language_value_of code =
     (if code = 0 then Some JAVA else if code = 1 then Some CPP else if code = 2 then Some DOTNET
      else if code = 3 then Some PYTHON else if code = 4 then Some DELPHI
      else if code = 5 then Some ERLANG else if code = 6 then Some RUBY
      else if code = 7 then Some OTHER else if code = 8 then Some HTTP else if code = 9 then Some GO
      else if code = 10 then Some PHP else if code = 11 then Some OMS
      else if code = 12 then Some RUST else None)"

fun language_get_code :: "language_code \<Rightarrow> nat" where
  "language_get_code JAVA = 0"
| "language_get_code CPP = 1"
| "language_get_code DOTNET = 2"
| "language_get_code PYTHON = 3"
| "language_get_code DELPHI = 4"
| "language_get_code ERLANG = 5"
| "language_get_code RUBY = 6"
| "language_get_code OTHER = 7"
| "language_get_code HTTP = 8"
| "language_get_code GO = 9"
| "language_get_code PHP = 10"
| "language_get_code OMS = 11"
| "language_get_code RUST = 12"

datatype serialize_type = JSON | ROCKETMQ

definition serialize_value_of :: "nat \<Rightarrow> serialize_type option" where
  "serialize_value_of code = (if code = 0 then Some JSON else if code = 1 then Some ROCKETMQ else None)"

fun serialize_get_code :: "serialize_type \<Rightarrow> nat" where
  "serialize_get_code JSON = 0"
| "serialize_get_code ROCKETMQ = 1"

type_synonym ext_fields = "(bytes, bytes) hmap"

record custom_header =
  to_map :: "ext_fields option"
  support_fast_codec :: bool
  encode_fast :: bytes

record remoting_command =
  rc_code :: i32
  rc_language :: language_code
  rc_version :: i32
  rc_opaque :: i32
  rc_flag :: i32
  rc_remark :: "bytes option"
  rc_ext_fields :: "ext_fields option"
  rc_body :: "bytes option"
  rc_suspended :: bool
  rc_custom_header :: "custom_header option"
  rc_serialize_type :: serialize_type

datatype rpc_error =
    DecodingError nat nat
  | RemotingCommandDecoderError
  | NotSupportSerializeType nat

subsection \<open>Flags\<close>

definition rpc_type :: nat where "rpc_type = 0"
definition rpc_oneway :: nat where "rpc_oneway = 1"

definition mark_response_type :: "remoting_command \<Rightarrow> remoting_command" where
  "mark_response_type c = c\<lparr>rc_flag := rc_flag c OR 2 ^ rpc_type\<rparr>"

definition mark_oneway_rpc :: "remoting_command \<Rightarrow> remoting_command" where
  "mark_oneway_rpc c = c\<lparr>rc_flag := rc_flag c OR 2 ^ rpc_oneway\<rparr>"

definition is_response_type :: "remoting_command \<Rightarrow> bool" where
  "is_response_type c \<longleftrightarrow> rc_flag c AND 2 ^ rpc_type = 2 ^ rpc_type"

definition is_oneway_rpc :: "remoting_command \<Rightarrow> bool" where
  "is_oneway_rpc c \<longleftrightarrow> rc_flag c AND 2 ^ rpc_oneway = 2 ^ rpc_oneway"

section \<open>The compact header\<close>

definition write_str :: "bool \<Rightarrow> bytes \<Rightarrow> bytes" where
  "write_str use_short_length s =
     (if use_short_length then put_u16 (length s) else put_u32 (length s)) @ s"

definition read_str :: "bool \<Rightarrow> nat \<Rightarrow> bytes \<Rightarrow> ((rpc_error + bytes option) \<times> bytes) option" where
  "read_str use_short_length limit buf = do {
     (len, rest) \<leftarrow> (if use_short_length then get_u16 buf else get_u32 buf);
     if len = 0 then Some (Inr None, rest)
     else if len > limit then Some (Inl (DecodingError len limit), rest)
     else do { (s, rest') \<leftarrow> take_bytes len rest; Some (Inr (Some s), rest') } }"

definition put_field :: "bytes \<times> bytes \<Rightarrow> bytes" where
  "put_field kv =
     (if fst kv = [] \<or> snd kv = [] then []
      else put_u16 (length (fst kv)) @ fst kv @ put_i32 (int (length (snd kv))) @ snd kv)"

definition map_serialize :: "ext_fields \<Rightarrow> bytes option" where
  "map_serialize m =
     (let total_length = sum_list (map (\<lambda>(k, v). if k = [] \<or> v = [] then 0 else 2 + length k + 4 + length v) m)
      in if total_length = 0 then None else Some (concat (map put_field m)))"

definition cal_total_len :: "nat \<Rightarrow> nat \<Rightarrow> nat" where
  "cal_total_len remark_len ext_len = 2 + 1 + 2 + 4 + 4 + (4 + remark_len) + (4 + ext_len)"

definition put_sized :: "bytes option \<Rightarrow> bytes" where
  "put_sized b = (case b of Some bs \<Rightarrow> put_i32 (int (length bs)) @ bs | None \<Rightarrow> put_i32 0)"

definition rocket_mq_protocol_encode_bytes :: "remoting_command \<Rightarrow> bytes" where
  "rocket_mq_protocol_encode_bytes c =
     put_i16 (rc_code c) @ put_u8 (language_get_code (rc_language c)) @ put_i16 (rc_version c) @
     put_i32 (rc_opaque c) @ put_i32 (rc_flag c) @ put_sized (rc_remark c) @
     put_sized (Option.bind (rc_ext_fields c) map_serialize)"

text \<open>
  The loop of \<open>map_deserialize\<close>; each round reads at least six bytes, so one unit of fuel for each
  byte of the buffer is enough. An empty key or value is an \<open>unwrap\<close> of \<open>None\<close>.
\<close>

fun map_deserialize_loop ::
  "nat \<Rightarrow> nat \<Rightarrow> nat \<Rightarrow> bytes \<Rightarrow> ext_fields \<Rightarrow> ((rpc_error + ext_fields) \<times> bytes) option" where
  "map_deserialize_loop 0 len end_index buf m = None"
| "map_deserialize_loop (Suc fuel) len end_index buf m =
     (if length buf > end_index then do {
        (key, rest) \<leftarrow> read_str True len buf;
        (case key of
           Inl e \<Rightarrow> Some (Inl e, rest)
         | Inr None \<Rightarrow> None
         | Inr (Some k) \<Rightarrow> do {
             (val, rest') \<leftarrow> read_str False len rest;
             (case val of
                Inl e \<Rightarrow> Some (Inl e, rest')
              | Inr None \<Rightarrow> None
              | Inr (Some v) \<Rightarrow> map_deserialize_loop fuel len end_index rest' (hm_insert k v m)) }) }
      else Some (Inr m, buf))"

definition map_deserialize :: "bytes \<Rightarrow> nat \<Rightarrow> ((rpc_error + ext_fields) \<times> bytes) option" where
  "map_deserialize buf len =
     map_deserialize_loop (Suc (length buf)) len (as_usize (int (length buf) - int len)) buf []"

definition rocket_mq_protocol_decode ::
  "serialize_type \<Rightarrow> bytes \<Rightarrow> nat \<Rightarrow> ((rpc_error + remoting_command) \<times> bytes) option" where
  "rocket_mq_protocol_decode default_type buf header_len = do {
     (code, buf) \<leftarrow> get_i16 buf;
     (lang, buf) \<leftarrow> get_u8 buf;
     language \<leftarrow> language_value_of lang;
     (version, buf) \<leftarrow> get_i16 buf;
     (opaque, buf) \<leftarrow> get_i32 buf;
     (flag, buf) \<leftarrow> get_i32 buf;
     (remark, buf) \<leftarrow> read_str False header_len buf;
     (case remark of
        Inl e \<Rightarrow> Some (Inl e, buf)
      | Inr rmk \<Rightarrow> do {
          (n, buf) \<leftarrow> get_i32 buf;
          (ext, buf) \<leftarrow>
            (if as_usize n > 0 then
               if as_usize n > header_len then Some (Inl (DecodingError (as_usize n) header_len), buf)
               else map_deserialize buf (as_usize n)
             else Some (Inr [], buf));
          (case ext of
             Inl e \<Rightarrow> Some (Inl e, buf)
           | Inr m \<Rightarrow> Some (Inr \<lparr>rc_code = code, rc_language = language, rc_version = version,
               rc_opaque = opaque, rc_flag = flag, rc_remark = rmk, rc_ext_fields = Some m,
               rc_body = None, rc_suspended = False, rc_custom_header = None,
               rc_serialize_type = default_type\<rparr>, buf)) }) }"

section \<open>Framing\<close>

definition make_custom_header_to_net :: "remoting_command \<Rightarrow> remoting_command" where
  "make_custom_header_to_net c =
     (case rc_custom_header c of
        None \<Rightarrow> c
      | Some header \<Rightarrow>
          (case rc_ext_fields c of
             None \<Rightarrow> c\<lparr>rc_ext_fields := to_map header\<rparr>
           | Some ext \<Rightarrow>
               (case to_map header of
                  Some val \<Rightarrow> c\<lparr>rc_ext_fields := Some (hm_extend ext val)\<rparr>
                | None \<Rightarrow> c)))"

definition mark_protocol_type :: "i32 \<Rightarrow> serialize_type \<Rightarrow> i32" where
  "mark_protocol_type source t = push_bit 24 (int (serialize_get_code t)) OR (source AND 0x00FFFFFF)"

definition parse_header_length :: "i32 \<Rightarrow> nat" where
  "parse_header_length sz = nat (sz AND 0xFFFFFF)"

definition parse_serialize_type :: "i32 \<Rightarrow> rpc_error + serialize_type" where
  "parse_serialize_type sz =
     (let code = nat (drop_bit 24 sz mod 256)
      in (case serialize_value_of code of None \<Rightarrow> Inl (NotSupportSerializeType code) | Some t \<Rightarrow> Inr t))"

text \<open>The JSON codec of the header; a command that does not encode gives \<open>None\<close>.\<close>

record json_codec =
  json_encode :: "remoting_command \<Rightarrow> bytes option"
  json_decode :: "bytes \<Rightarrow> remoting_command option"

definition header_encode :: "json_codec \<Rightarrow> remoting_command \<Rightarrow> remoting_command \<times> bytes option" where
  "header_encode j c =
     (let c' = make_custom_header_to_net c
      in (c', if rc_serialize_type c' = ROCKETMQ then Some (rocket_mq_protocol_encode_bytes c')
              else json_encode j c'))"

definition encode_header_with_body_length :: "json_codec \<Rightarrow> remoting_command \<Rightarrow> nat \<Rightarrow> bytes option" where
  "encode_header_with_body_length j c body_length = do {
     header_data \<leftarrow> snd (header_encode j c);
     Some (put_i32 (wrap_i32 (int (4 + length header_data + body_length))) @
       put_i32 (mark_protocol_type (wrap_i32 (int (length header_data))) (rc_serialize_type c)) @ header_data) }"

definition encode_header :: "json_codec \<Rightarrow> remoting_command \<Rightarrow> bytes option" where
  "encode_header j c =
     encode_header_with_body_length j c (case rc_body c of Some body \<Rightarrow> length body | None \<Rightarrow> 0)"

text \<open>
  The header of the fast encoder. The compact format needs the custom header, whose absence is an
  \<open>unwrap\<close> of \<open>None\<close>; the two length fields are filled in afterwards.
\<close>

definition rocketmq_protocol_encode :: "remoting_command \<Rightarrow> bytes option" where
  "rocketmq_protocol_encode c = do {
     header \<leftarrow> rc_custom_header c;
     let fields = (if support_fast_codec header then encode_fast header else []) @
       (case rc_ext_fields c of
          Some ext \<Rightarrow> concat (map (\<lambda>(k, v). if k = [] \<or> v = [] then [] else write_str True k @ write_str True v) ext)
        | None \<Rightarrow> []);
     Some (put_unsigned 2 (nat (rc_code c mod 2 ^ 16)) @ put_u8 (language_get_code (rc_language c)) @
       put_unsigned 2 (nat (rc_version c mod 2 ^ 16)) @ put_i32 (rc_opaque c) @ put_i32 (rc_flag c) @
       (case rc_remark c of Some remark \<Rightarrow> write_str True remark | None \<Rightarrow> put_i32 0) @
       put_i32 (wrap_i32 (int (length fields))) @ fields) }"

definition body_length :: "remoting_command \<Rightarrow> nat" where
  "body_length c = (case rc_body c of Some body \<Rightarrow> length body | None \<Rightarrow> 0)"

definition fast_header_encode :: "json_codec \<Rightarrow> remoting_command \<Rightarrow> bytes option" where
  "fast_header_encode j c =
     (case rc_serialize_type c of
        JSON \<Rightarrow>
          (let header = json_encode j (make_custom_header_to_net c);
               header_length = wrap_i32 (int (case header of Some h \<Rightarrow> length h | None \<Rightarrow> 0));
               total_length = wrap_i32 (4 + header_length + wrap_i32 (int (body_length c)))
           in Some (put_i32 total_length @ put_i32 (mark_protocol_type header_length JSON) @
                (case header of Some h \<Rightarrow> h | None \<Rightarrow> [])))
      | ROCKETMQ \<Rightarrow> do {
          let c' = (case rc_custom_header c of
              Some header \<Rightarrow> if support_fast_codec header then c else make_custom_header_to_net c
            | None \<Rightarrow> c);
          header \<leftarrow> rocketmq_protocol_encode c';
          let header_size = wrap_i32 (int (length header));
          Some (put_i32 (wrap_i32 (header_size + wrap_i32 (int (body_length c)))) @
            put_i32 (mark_protocol_type header_size ROCKETMQ) @ header) })"

text \<open>\<open>RemotingCommandCodec::encode\<close>.\<close>

definition codec_encode :: "json_codec \<Rightarrow> remoting_command \<Rightarrow> bytes option" where
  "codec_encode j c =
     map_option (\<lambda>h. h @ (case rc_body c of Some body \<Rightarrow> body | None \<Rightarrow> [])) (fast_header_encode j c)"

definition header_decode ::
  "json_codec \<Rightarrow> serialize_type \<Rightarrow> bytes \<Rightarrow> nat \<Rightarrow> serialize_type \<Rightarrow> (rpc_error + remoting_command) option" where
  "header_decode j default_type src header_length t =
     (case t of
        JSON \<Rightarrow>
          (case json_decode j src of
             Some c \<Rightarrow> Some (Inr (c\<lparr>rc_serialize_type := JSON\<rparr>))
           | None \<Rightarrow> Some (Inl RemotingCommandDecoderError))
      | ROCKETMQ \<Rightarrow> do {
          (r, rest) \<leftarrow> rocket_mq_protocol_decode default_type src header_length;
          Some (case r of Inl e \<Rightarrow> Inl e | Inr c \<Rightarrow> Inr (c\<lparr>rc_serialize_type := ROCKETMQ\<rparr>)) })"

text \<open>
  One step of the stream decoder: the buffer afterwards and, without an error, a command when a
  whole frame was there. Sizes are \<open>usize\<close> and wrap around.
\<close>

definition decode_command ::
  "json_codec \<Rightarrow> serialize_type \<Rightarrow> bytes \<Rightarrow> (bytes \<times> (rpc_error + remoting_command option)) option" where
  "decode_command j default_type src =
     (if length src < 4 then Some (src, Inr None)
      else do {
        (sz, _) \<leftarrow> get_i32 src;
        let total_size = as_usize sz;
        let frame = (total_size + 4) mod 2 ^ 64;
        if length src < frame then Some (src, Inr None)
        else do {
          (cmd_data, src') \<leftarrow> take_bytes frame src;
          (_, cmd_data) \<leftarrow> take_bytes 4 cmd_data;
          if length cmd_data < 4 then Some (src', Inr None)
          else do {
            (ori_header_length, cmd_data) \<leftarrow> get_i32 cmd_data;
            let header_length = parse_header_length ori_header_length;
            let room = as_usize (int total_size - 4);
            if header_length > room then Some (src', Inl RemotingCommandDecoderError)
            else (case parse_serialize_type ori_header_length of
              Inl e \<Rightarrow> Some (src', Inl e)
            | Inr protocol_type \<Rightarrow> do {
                (header_data, cmd_data) \<leftarrow> take_bytes header_length cmd_data;
                cmd \<leftarrow> header_decode j default_type header_data header_length protocol_type;
                (case cmd of
                   Inl e \<Rightarrow> Some (src', Inl e)
                 | Inr c \<Rightarrow>
                     if room > header_length then do {
                       (body, _) \<leftarrow> take_bytes (room - header_length) cmd_data;
                       Some (src', Inr (Some (c\<lparr>rc_body := Some body\<rparr>))) }
                     else Some (src', Inr (Some c))) }) } } })"

text \<open>Decoding until no whole frame is left; the specification of a reader of the stream.\<close>

fun decode_stream ::
  "nat \<Rightarrow> json_codec \<Rightarrow> serialize_type \<Rightarrow> bytes \<Rightarrow> (remoting_command list \<times> bytes) option" where
  "decode_stream 0 j d src = None"
| "decode_stream (Suc n) j d src =
     (case decode_command j d src of
        Some (src', Inr (Some c)) \<Rightarrow> map_option (\<lambda>(cs, rest). (c # cs, rest)) (decode_stream n j d src')
      | Some (src', Inr None) \<Rightarrow> Some ([], src')
      | _ \<Rightarrow> None)"

section \<open>Headers\<close>

text \<open>The values a header can carry.\<close>

definition field_ok :: "bytes \<times> bytes \<Rightarrow> bool" where
  "field_ok kv \<longleftrightarrow> length (fst kv) < 2 ^ 16 \<and> length (snd kv) < 2 ^ 31"

definition ext_of :: "remoting_command \<Rightarrow> ext_fields" where
  "ext_of c = (case rc_ext_fields c of Some m \<Rightarrow> m | None \<Rightarrow> [])"

definition sent_fields :: "ext_fields \<Rightarrow> ext_fields" where
  "sent_fields m = filter (\<lambda>(k, v). k \<noteq> [] \<and> v \<noteq> []) m"

definition wire_ok :: "remoting_command \<Rightarrow> bool" where
  "wire_ok c \<longleftrightarrow> fits_signed 2 (rc_code c) \<and> fits_signed 2 (rc_version c) \<and>
     fits_signed 4 (rc_opaque c) \<and> fits_signed 4 (rc_flag c) \<and>
     length (rocket_mq_protocol_encode_bytes c) < 2 ^ 24 \<and>
     hm_inv (ext_of c) \<and> list_all field_ok (ext_of c)"

text \<open>What arrives: empty texts are not sent, and the local fields have their defaults.\<close>

definition received :: "serialize_type \<Rightarrow> remoting_command \<Rightarrow> remoting_command" where
  "received t c =
     c\<lparr>rc_remark := (if rc_remark c = Some [] then None else rc_remark c),
       rc_ext_fields := Some (sent_fields (ext_of c)), rc_body := None, rc_suspended := False,
       rc_custom_header := None, rc_serialize_type := t\<rparr>"

lemma language_roundtrip [simp]: "language_value_of (language_get_code l) = Some l"
  by (cases l) simp_all

lemma language_fits [simp]: "fits_unsigned 1 (language_get_code l)"
  by (cases l) (simp_all add: fits_unsigned_def)

declare language_value_of.simps [simp del]

lemma put_signed_nat: "v < 2 ^ (8 * n) \<Longrightarrow> put_signed n (int v) = put_unsigned n v"
  by (simp add: put_signed_def put_unsigned_def nat_mod_distrib nat_power_eq)

lemma read_str_short:
  "length t < 2 ^ 16 \<Longrightarrow> length t \<le> limit \<Longrightarrow> t \<noteq> [] \<Longrightarrow>
     read_str True limit (put_u16 (length t) @ t @ rest) = Some (Inr (Some t), rest)"
  by (simp add: read_str_def fits_unsigned_def)

lemma read_str_long:
  "length t < 2 ^ 31 \<Longrightarrow> length t \<le> limit \<Longrightarrow>
     read_str False limit (put_i32 (int (length t)) @ t @ rest) =
       Some (Inr (if t = [] then None else Some t), rest)"
  by (simp add: read_str_def fits_unsigned_def put_signed_nat)

lemma length_put_field: "length (put_field kv) =
    (if fst kv = [] \<or> snd kv = [] then 0 else 6 + length (fst kv) + length (snd kv))"
  by (simp add: put_field_def)

lemma concat_put_sent: "concat (map put_field (sent_fields m)) = concat (map put_field m)"
  unfolding sent_fields_def by (induction m) (auto simp: put_field_def)

lemma length_sent: "length (sent_fields m) \<le> length (concat (map put_field m))"
  unfolding sent_fields_def by (induction m) (auto simp: length_put_field)

lemma total_length_serialized:
  "sum_list (map (\<lambda>(k, v). if k = [] \<or> v = [] then 0 else 2 + length k + 4 + length v) m) =
     length (concat (map put_field m))"
  by (induction m) (auto simp: length_put_field)

lemma map_serialize_bytes:
  "put_sized (map_serialize m) = put_i32 (int (length (concat (map put_field m)))) @ concat (map put_field m)"
  unfolding map_serialize_def Let_def total_length_serialized
  by (cases "concat (map put_field m) = []") (simp_all add: put_sized_def del: concat_eq_Nil_conv)

lemma put_sized_ext:
  "put_sized (Option.bind (rc_ext_fields c) map_serialize) =
     put_i32 (int (length (concat (map put_field (ext_of c))))) @ concat (map put_field (ext_of c))"
  by (cases "rc_ext_fields c") (simp_all add: ext_of_def map_serialize_bytes, simp add: put_sized_def)

lemma put_sized_remark:
  "put_sized r = put_i32 (int (length (case r of Some t \<Rightarrow> t | None \<Rightarrow> []))) @ (case r of Some t \<Rightarrow> t | None \<Rightarrow> [])"
  by (cases r) (simp_all add: put_sized_def)

lemma map_deserialize_loop_fields:
  assumes "list_all (\<lambda>kv. field_ok kv \<and> fst kv \<noteq> [] \<and> snd kv \<noteq> [] \<and> length (fst kv) \<le> len \<and> length (snd kv) \<le> len) fs"
    and "hm_inv (m @ fs)" and "length fs < fuel"
  shows "map_deserialize_loop fuel len (length rest) (concat (map put_field fs) @ rest) m = Some (Inr (m @ fs), rest)"
  using assms
proof (induction fs arbitrary: fuel m)
  case Nil
  then show ?case by (cases fuel) simp_all
next
  case (Cons kv fs)
  obtain k v where kv: "kv = (k, v)" by fastforce
  obtain fuel' where fuel: "fuel = Suc fuel'" using Cons.prems(3) by (cases fuel) auto
  have ok: "k \<noteq> []" "v \<noteq> []" "length k < 2 ^ 16" "length v < 2 ^ 31" "length k \<le> len" "length v \<le> len"
    using Cons.prems(1) by (simp_all add: kv field_ok_def)
  have "hm_get m k = None"
    using Cons.prems(2) by (auto simp: kv hm_inv_def hm_get_def map_of_eq_None_iff)
  then have "map_deserialize_loop fuel' len (length rest) (concat (map put_field fs) @ rest) (hm_insert k v m) =
      Some (Inr ((m @ [(k, v)]) @ fs), rest)"
    using Cons.IH [of "m @ [(k, v)]" fuel'] Cons.prems fuel by (simp add: hm_insert_fresh kv)
  moreover have "put_field (k, v) = put_u16 (length k) @ k @ put_i32 (int (length v)) @ v"
    using ok by (simp add: put_field_def)
  ultimately show ?case using ok by (simp add: fuel kv read_str_short read_str_long)
qed

lemma map_deserialize_fields:
  assumes "list_all field_ok m" "hm_inv m" "length (concat (map put_field m)) < 2 ^ 31"
  shows "map_deserialize (concat (map put_field m)) (length (concat (map put_field m))) =
    Some (Inr (sent_fields m), [])"
proof -
  let ?bs = "concat (map put_field m)"
  have "length (put_field kv) \<le> length ?bs" if "kv \<in> set m" for kv
    using that by (induction m) (auto simp: le_add1 trans_le_add2)
  then have fit: "list_all (\<lambda>kv. field_ok kv \<and> fst kv \<noteq> [] \<and> snd kv \<noteq> [] \<and>
      length (fst kv) \<le> length ?bs \<and> length (snd kv) \<le> length ?bs) (sent_fields m)"
    using assms(1) by (fastforce simp: sent_fields_def list_all_iff length_put_field split: if_splits)
  have inv: "hm_inv ([] @ sent_fields m)"
    using assms(2) by (simp add: hm_inv_def sent_fields_def distinct_map_filter)
  show ?thesis
    using map_deserialize_loop_fields [OF fit inv, of "Suc (length ?bs)" "[]"] length_sent [of m]
    by (simp add: map_deserialize_def concat_put_sent as_usize_def)
qed

lemma protocol_decode_fields:
  assumes "fits_signed 2 code" "fits_signed 2 version" "fits_signed 4 opaque" "fits_signed 4 flag"
    and "length r < 2 ^ 31" "length r \<le> hl" "length f < 2 ^ 31"
    and ext: "(if as_usize (int (length f)) > 0 then
        if as_usize (int (length f)) > hl then Some (Inl (DecodingError (as_usize (int (length f))) hl), f)
        else map_deserialize f (as_usize (int (length f)))
      else Some (Inr [], f)) = Some (Inr m, [])"
  shows "rocket_mq_protocol_decode t (put_i16 code @ put_u8 (language_get_code l) @ put_i16 version @
     put_i32 opaque @ put_i32 flag @ put_i32 (int (length r)) @ r @ put_i32 (int (length f)) @ f) hl =
   Some (Inr \<lparr>rc_code = code, rc_language = l, rc_version = version, rc_opaque = opaque, rc_flag = flag,
     rc_remark = (if r = [] then None else Some r), rc_ext_fields = Some m, rc_body = None,
     rc_suspended = False, rc_custom_header = None, rc_serialize_type = t\<rparr>, [])"
proof -
  have "fits_signed 4 (int (length f))" using assms(7) by (simp add: fits_signed_def)
  then show ?thesis
    unfolding rocket_mq_protocol_decode_def
    by (simp only: get_put_signed get_put_unsigned language_fits language_roundtrip read_str_long assms
        bind.bind_lunit prod.case sum.case zero_less_numeral)
qed

lemma protocol_decode_encode:
  assumes "wire_ok c"
  shows "rocket_mq_protocol_decode t (rocket_mq_protocol_encode_bytes c)
    (length (rocket_mq_protocol_encode_bytes c)) = Some (Inr (received t c), [])"
proof -
  let ?e = "rocket_mq_protocol_encode_bytes c"
  let ?f = "concat (map put_field (ext_of c))"
  let ?r = "case rc_remark c of Some r \<Rightarrow> r | None \<Rightarrow> []"
  have enc: "?e = put_i16 (rc_code c) @ put_u8 (language_get_code (rc_language c)) @ put_i16 (rc_version c) @
     put_i32 (rc_opaque c) @ put_i32 (rc_flag c) @ put_i32 (int (length ?r)) @ ?r @
     put_i32 (int (length ?f)) @ ?f"
    by (simp add: rocket_mq_protocol_encode_bytes_def put_sized_ext put_sized_remark [of "rc_remark c"])
  have small: "length ?e < 2 ^ 24" using assms by (simp add: wire_ok_def)
  have len: "length ?e = 21 + length ?r + length ?f" by (simp only: enc length_append length_put)
  then have bounds: "length ?r < 2 ^ 31" "length ?f < 2 ^ 31" "length ?r \<le> length ?e" "length ?f \<le> length ?e"
    using small by simp_all
  have ext: "(if as_usize (int (length ?f)) > 0 then
        if as_usize (int (length ?f)) > length ?e then Some (Inl (DecodingError (as_usize (int (length ?f))) (length ?e)), ?f)
        else map_deserialize ?f (as_usize (int (length ?f)))
      else Some (Inr [], ?f)) = Some (Inr (sent_fields (ext_of c)), [])"
  proof (cases "?f = []")
    case True
    then have "sent_fields (ext_of c) = []" using length_sent [of "ext_of c"] by (simp del: concat_eq_Nil_conv)
    then show ?thesis using True by (simp add: as_usize_def del: concat_eq_Nil_conv)
  next
    case False
    then show ?thesis
      using map_deserialize_fields [of "ext_of c"] assms bounds by (simp add: wire_ok_def del: concat_eq_Nil_conv)
  qed
  have rmk: "(if ?r = [] then None else Some ?r) = (if rc_remark c = Some [] then None else rc_remark c)"
    by (simp split: option.splits)
  have "fits_signed 2 (rc_code c)" "fits_signed 2 (rc_version c)" "fits_signed 4 (rc_opaque c)"
    "fits_signed 4 (rc_flag c)"
    using assms by (simp_all add: wire_ok_def)
  from protocol_decode_fields [OF this bounds(1,3,2) ext, of t "rc_language c", folded enc, unfolded rmk]
  show ?thesis by (simp add: received_def)
qed

section \<open>Frames\<close>

lemma mark_value:
  assumes "n < 2 ^ 24"
  shows "mark_protocol_type (int n) t = int (serialize_get_code t) * 2 ^ 24 + int n"
proof -
  have low: "take_bit 24 (int n) = int n" using assms by (simp add: take_bit_eq_mod)
  have "mark_protocol_type (int n) t = concat_bit 24 (int n) (int (serialize_get_code t))"
    by (simp add: mark_protocol_type_def concat_bit_def take_bit_eq_mask mask_eq_exp_minus_1 or.commute)
  then show ?thesis by (simp add: concat_bit_eq low push_bit_eq_mult)
qed

lemma parse_mark:
  assumes "n < 2 ^ 24"
  shows "parse_header_length (mark_protocol_type (int n) t) = n"
    and "parse_serialize_type (mark_protocol_type (int n) t) = Inr t"
    and "fits_signed 4 (mark_protocol_type (int n) t)"
proof -
  have mask: "x AND 0xFFFFFF = x mod 2 ^ 24" for x :: int
    using take_bit_eq_mask [of 24 x] by (simp add: take_bit_eq_mod mask_eq_exp_minus_1)
  show "parse_header_length (mark_protocol_type (int n) t) = n"
    using assms by (simp add: parse_header_length_def mark_value mask)
  show "parse_serialize_type (mark_protocol_type (int n) t) = Inr t"
    using assms div_add_self1 [of "2 ^ 24" "int n"]
    by (cases t) (simp_all add: parse_serialize_type_def mark_value drop_bit_eq_div serialize_value_of_def)
  show "fits_signed 4 (mark_protocol_type (int n) t)"
    using assms by (cases t) (simp_all add: mark_value fits_signed_def)
qed

text \<open>A frame for a header and a body.\<close>

definition frame :: "serialize_type \<Rightarrow> bytes \<Rightarrow> bytes \<Rightarrow> bytes" where
  "frame t h b = put_i32 (int (4 + length h + length b)) @ put_i32 (mark_protocol_type (int (length h)) t) @ h @ b"

definition frame_ok :: "bytes \<Rightarrow> bytes \<Rightarrow> bool" where
  "frame_ok h b \<longleftrightarrow> length h < 2 ^ 24 \<and> 4 + length h + length b < 2 ^ 31"

lemma length_frame [simp]: "length (frame t h b) = 8 + length h + length b"
  by (simp add: frame_def)

lemma frame_total:
  "frame_ok h b \<Longrightarrow> get_i32 (frame t h b @ rest) =
     Some (int (4 + length h + length b), put_i32 (mark_protocol_type (int (length h)) t) @ h @ b @ rest)"
  by (simp add: frame_def frame_ok_def fits_signed_def)

lemma take_bytes_self: "take_bytes (length b) b = Some (b, [])"
  by (simp add: take_bytes_def)

lemma decode_frame:
  assumes "frame_ok h b" and "header_decode j d h (length h) t = Some r"
  shows "decode_command j d (frame t h b @ rest) =
    Some (rest, case r of Inl e \<Rightarrow> Inl e | Inr c \<Rightarrow> Inr (Some (if b = [] then c else c\<lparr>rc_body := Some b\<rparr>)))"
proof -
  let ?n = "4 + length h + length b"
  have usz: "as_usize (int ?n) = ?n" "as_usize (int ?n - 4) = length h + length b"
    using assms(1) by (simp_all add: frame_ok_def)
  have fr: "(?n + 4) mod 2 ^ 64 = length (frame t h b)" using assms(1) by (simp add: frame_ok_def)
  have four: "take_bytes 4 (frame t h b) = Some (put_i32 (int ?n), put_i32 (mark_protocol_type (int (length h)) t) @ h @ b)"
    by (simp add: frame_def)
  have marked: "get_i32 (put_i32 (mark_protocol_type (int (length h)) t) @ h @ b) =
      Some (mark_protocol_type (int (length h)) t, h @ b)"
    using assms(1) parse_mark(3) by (simp add: frame_ok_def)
  have parsed: "parse_header_length (mark_protocol_type (int (length h)) t) = length h"
    "parse_serialize_type (mark_protocol_type (int (length h)) t) = Inr t"
    using assms(1) parse_mark by (simp_all add: frame_ok_def)
  show ?thesis
    unfolding decode_command_def frame_total [OF assms(1)] Let_def bind.bind_lunit prod.case usz fr
    by (simp add: four marked parsed assms(2) take_bytes_self split: sum.splits)
qed

lemma decode_short_total:
  assumes "n < 2 ^ 31" "4 \<le> n" "hl < 2 ^ 24" "length x = n - 4" "n - 4 < hl"
  shows "decode_command j d (put_i32 (int n) @ put_i32 (mark_protocol_type (int hl) t) @ x @ r) =
    Some (r, Inl RemotingCommandDecoderError)"
proof -
  let ?m = "put_i32 (mark_protocol_type (int hl) t)"
  have total: "get_i32 (put_i32 (int n) @ ?m @ x @ r) = Some (int n, ?m @ x @ r)"
    using assms(1) by (simp add: fits_signed_def)
  have cut: "take_bytes (n + 4) (put_i32 (int n) @ ?m @ x @ r) = Some (put_i32 (int n) @ ?m @ x, r)"
    using take_bytes_append [of "put_i32 (int n) @ ?m @ x" "n + 4" r] assms(2,4) by simp
  have usz: "as_usize (int n) = n" "as_usize (int n - 4) = n - 4" "(n + 4) mod 2 ^ 64 = n + 4"
    using assms(1,2) by simp_all
  have marked: "get_i32 (?m @ x) = Some (mark_protocol_type (int hl) t, x)"
    using parse_mark(3) [OF assms(3)] by simp
  have long: "\<not> length (put_i32 (int n) @ ?m @ x @ r) < 4" "\<not> length (put_i32 (int n) @ ?m @ x @ r) < n + 4"
    "\<not> length (?m @ x) < 4"
    using assms(2,4) by simp_all
  have four: "take_bytes 4 (put_i32 (int n) @ ?m @ x) = Some (put_i32 (int n), ?m @ x)" by simp
  show ?thesis
    unfolding decode_command_def
    by (simp only: Let_def total bind.bind_lunit prod.case usz cut four marked parse_mark(1) [OF assms(3)] long
        assms(5) if_True if_False simp_thms)
qed

lemma decode_partial_frame:
  assumes "frame_ok h b" "strict_prefix p (frame t h b)"
  shows "decode_command j d p = Some (p, Inr None)"
proof (cases "length p < 4")
  case False
  let ?n = "4 + length h + length b"
  let ?tail = "put_i32 (mark_protocol_type (int (length h)) t) @ h @ b"
  obtain r where r: "frame t h b = p @ r" using assms(2) by (auto simp: strict_prefix_def prefix_def)
  have "put_i32 (int ?n) @ ?tail = p @ r" using r by (simp add: frame_def)
  then obtain p' where p: "p = put_i32 (int ?n) @ p'"
    using False by (metis append_eq_append_conv_if append_take_drop_id length_put(2) not_less)
  have "get_i32 p = Some (int ?n, p')"
    unfolding p by (rule get_put_signed) (use assms(1) in \<open>simp_all add: frame_ok_def fits_signed_def\<close>)
  moreover have "as_usize (int ?n) = ?n" "(?n + 4) mod 2 ^ 64 = length (frame t h b)"
    using assms(1) by (simp_all add: frame_ok_def)
  moreover have "length p < length (frame t h b)"
    using assms(2) by (rule prefix_length_less)
  ultimately show ?thesis
    using False unfolding decode_command_def by (simp only: Let_def bind.bind_lunit prod.case if_True if_False)
qed (simp add: decode_command_def)

text \<open>The frame with the header of \<open>encode_header\<close>, and what the peer makes of a frame.\<close>

definition body_bytes :: "remoting_command \<Rightarrow> bytes" where
  "body_bytes c = (case rc_body c of Some body \<Rightarrow> body | None \<Rightarrow> [])"

definition wire_bytes :: "json_codec \<Rightarrow> remoting_command \<Rightarrow> bytes" where
  "wire_bytes j c = (case encode_header j c of Some h \<Rightarrow> h @ body_bytes c | None \<Rightarrow> [])"

definition sendable :: "json_codec \<Rightarrow> remoting_command \<Rightarrow> bool" where
  "sendable j c \<longleftrightarrow>
     (case snd (header_encode j c) of Some h \<Rightarrow> frame_ok h (body_bytes c) | None \<Rightarrow> False) \<and>
     (rc_serialize_type c = ROCKETMQ \<longrightarrow> wire_ok (make_custom_header_to_net c))"

definition local_defaults :: "remoting_command \<Rightarrow> remoting_command" where
  "local_defaults c = c\<lparr>rc_body := None, rc_suspended := False, rc_custom_header := None\<rparr>"

definition delivered :: "remoting_command \<Rightarrow> remoting_command" where
  "delivered c =
     (let c' = make_custom_header_to_net c;
          head = (if rc_serialize_type c = ROCKETMQ then received ROCKETMQ c' else local_defaults c')
      in if body_bytes c = [] then head else head\<lparr>rc_body := Some (body_bytes c)\<rparr>)"

text \<open>The law of the JSON codec: decoding inverts encoding but for the fields it skips.\<close>

definition json_law :: "json_codec \<Rightarrow> bool" where
  "json_law j \<longleftrightarrow> (\<forall>c h. json_encode j c = Some h \<longrightarrow> json_decode j h = Some (local_defaults c))"

lemma custom_header_type [simp]: "rc_serialize_type (make_custom_header_to_net c) = rc_serialize_type c"
  by (simp add: make_custom_header_to_net_def split: option.splits)

lemma wire_bytes_frame:
  assumes "sendable j c"
  obtains h where "snd (header_encode j c) = Some h" "frame_ok h (body_bytes c)"
    "wire_bytes j c = frame (rc_serialize_type c) h (body_bytes c)"
proof -
  obtain h where h: "snd (header_encode j c) = Some h" "frame_ok h (body_bytes c)"
    using assms by (auto simp: sendable_def split: option.splits)
  have len: "(case rc_body c of Some body \<Rightarrow> length body | None \<Rightarrow> 0) = length (body_bytes c)"
    by (simp add: body_bytes_def split: option.splits)
  have wrap: "wrap_i32 (int (4 + length h + length (body_bytes c))) = int (4 + length h + length (body_bytes c))"
    "wrap_i32 (int (length h)) = int (length h)"
    using h(2) by (simp_all add: frame_ok_def is_i32_def)
  have "wire_bytes j c = frame (rc_serialize_type c) h (body_bytes c)"
    unfolding wire_bytes_def encode_header_def encode_header_with_body_length_def len h(1) bind.bind_lunit wrap
    by (simp add: frame_def)
  with h that show thesis by blast
qed

lemma header_decode_sent:
  assumes "json_law j" "sendable j c" "snd (header_encode j c) = Some h"
  shows "header_decode j d h (length h) (rc_serialize_type c) =
    Some (Inr (if rc_serialize_type c = ROCKETMQ then received ROCKETMQ (make_custom_header_to_net c)
      else local_defaults (make_custom_header_to_net c)))"
proof (cases "rc_serialize_type c")
  case JSON
  then have "json_decode j h = Some (local_defaults (make_custom_header_to_net c))"
    using assms(1,3) by (simp add: header_encode_def json_law_def Let_def)
  then show ?thesis using JSON by (simp add: header_decode_def local_defaults_def)
next
  case ROCKETMQ
  then have "h = rocket_mq_protocol_encode_bytes (make_custom_header_to_net c)"
    "wire_ok (make_custom_header_to_net c)"
    using assms(2,3) by (simp_all add: header_encode_def sendable_def Let_def)
  then show ?thesis using ROCKETMQ protocol_decode_encode [of "make_custom_header_to_net c" d]
    by (simp add: header_decode_def received_def)
qed

lemma decode_sent:
  assumes "json_law j" "sendable j c"
  shows "decode_command j d (wire_bytes j c @ rest) = Some (rest, Inr (Some (delivered c)))"
proof -
  obtain h where h: "snd (header_encode j c) = Some h" "frame_ok h (body_bytes c)"
    "wire_bytes j c = frame (rc_serialize_type c) h (body_bytes c)"
    using wire_bytes_frame [OF assms(2)] .
  show ?thesis
    unfolding h(3) decode_frame [OF h(2) header_decode_sent [OF assms h(1)]]
    by (simp add: delivered_def Let_def)
qed

lemma decode_partial_sent:
  assumes "sendable j c" "strict_prefix p (wire_bytes j c)"
  shows "decode_command j d p = Some (p, Inr None)"
  using wire_bytes_frame [OF assms(1)] decode_partial_frame assms(2) by metis

text \<open>Commands for examples, with a JSON codec that knows one of them.\<close>

definition sample_command :: "serialize_type \<Rightarrow> remoting_command" where
  "sample_command t = \<lparr>rc_code = 105, rc_language = RUST, rc_version = 475, rc_opaque = 7, rc_flag = 0,
     rc_remark = Some [104, 105], rc_ext_fields = Some [([97], [98, 99])], rc_body = None,
     rc_suspended = False, rc_custom_header = None, rc_serialize_type = t\<rparr>"

definition sample_json :: json_codec where
  "sample_json = \<lparr>json_encode = (\<lambda>c. if local_defaults c = sample_command JSON then Some [123, 125] else None),
     json_decode = (\<lambda>h. Some (sample_command JSON))\<rparr>"

lemma sample_json_law: "json_law sample_json"
  by (simp add: json_law_def sample_json_def)

lemma sample_wire: "length (rocket_mq_protocol_encode_bytes (sample_command t)) = 32" "wire_ok (sample_command t)"
  by (simp_all add: wire_ok_def sample_command_def rocket_mq_protocol_encode_bytes_def put_sized_def
      map_serialize_def put_field_def fits_signed_def ext_of_def hm_inv_def field_ok_def)

lemma sample_sendable: "sendable sample_json (sample_command t)"
  using sample_wire
  by (cases t) (simp_all add: sendable_def header_encode_def make_custom_header_to_net_def sample_json_def
      local_defaults_def frame_ok_def body_bytes_def Let_def, simp_all add: sample_command_def)

section \<open>Properties\<close>

text \<open>
  What a connection sends is the output of \<open>codec_encode\<close>, the fast encoder and the body. For a command in the JSON
  format it is the frame above.
\<close>

lemma codec_encode_json:
  assumes "sendable j c" "rc_serialize_type c = JSON"
  shows "codec_encode j c = Some (wire_bytes j c)"
proof -
  obtain h where h: "snd (header_encode j c) = Some h" "frame_ok h (body_bytes c)" "wire_bytes j c = frame JSON h (body_bytes c)"
    using wire_bytes_frame [OF assms(1)] assms(2) by metis
  have enc: "json_encode j (make_custom_header_to_net c) = Some h" using h(1) assms(2) by (simp add: header_encode_def Let_def)
  have len: "body_length c = length (body_bytes c)" by (simp add: body_length_def body_bytes_def split: option.splits)
  define n where "n = length (body_bytes c)"
  have wrap: "wrap_i32 (int (length h)) = int (length h)" "wrap_i32 (int n) = int n" "wrap_i32 (4 + int (length h) + int n) = int (4 + length h + n)"
    using h(2) by (simp_all add: frame_ok_def n_def is_i32_def)
  have "fast_header_encode j c = Some (put_i32 (int (4 + length h + n)) @ put_i32 (mark_protocol_type (int (length h)) JSON) @ h)"
    using assms(2) by (simp add: fast_header_encode_def enc len n_def [symmetric] Let_def wrap)
  then show ?thesis unfolding h(3) by (simp add: codec_encode_def frame_def body_bytes_def n_def split: option.splits)
qed

lemma decode_stream_sent:
  assumes "json_law j" and "list_all (sendable j) cs" and "sendable j c" and "strict_prefix p (wire_bytes j c)"
    and "length cs < fuel"
  shows "decode_stream fuel j d (concat (map (wire_bytes j) cs) @ p) = Some (map delivered cs, p)"
  using assms(2,5)
proof (induction cs arbitrary: fuel)
  case Nil
  then show ?case using decode_partial_sent [OF assms(3,4)] by (cases fuel) simp_all
next
  case (Cons a cs)
  then obtain n where "fuel = Suc n" by (cases fuel) auto
  then show ?case
    using Cons decode_sent [OF assms(1), of a d "concat (map (wire_bytes j) cs) @ p"] by simp
qed

text \<open>
  C8. Commands in the JSON format survive the wire: a stream of them as the codec of a connection encodes them, cut off
  anywhere in the middle of a further command, is decoded into exactly the commands that were sent,
  in order, with their bodies, and the incomplete rest is left in the buffer untouched until more
  bytes arrive. The frames of the other format do not have this property, see \<open>fast_compact_frame_is_rejected\<close>.
\<close>

theorem command_stream_roundtrip:
  assumes "json_law j" and "list_all (\<lambda>c. rc_serialize_type c = JSON \<and> sendable j c) (cs @ [c])"
    and "map (codec_encode j) cs = map Some frames" and "codec_encode j c = Some next_frame" and "strict_prefix p next_frame"
    and "length cs < fuel"
  shows "decode_stream fuel j d (concat frames @ p) = Some (map delivered cs, p)"
proof -
  have "map Some frames = map Some (map (wire_bytes j) cs)"
    unfolding assms(3) [symmetric] map_map using assms(2) by (auto simp: list_all_iff codec_encode_json)
  then have "frames = map (wire_bytes j) cs" by (rule map_injective) (simp add: inj_def)
  moreover have "next_frame = wire_bytes j c" using assms(2,4) codec_encode_json [of j c] by simp
  moreover have "list_all (sendable j) cs" "sendable j c" using assms(2) by (auto simp: list_all_iff)
  ultimately show ?thesis using decode_stream_sent [OF assms(1)] assms(5,6) by simp
qed

theorem command_stream_roundtrip_witness:
  "\<exists>frame. codec_encode sample_json (sample_command JSON) = Some frame \<and>
     decode_stream 5 sample_json JSON (concat [frame, frame] @ take 5 frame) =
       Some (map delivered [sample_command JSON, sample_command JSON], take 5 frame)"
proof -
  let ?c = "sample_command JSON" and ?w = "wire_bytes sample_json (sample_command JSON)"
  have j: "rc_serialize_type ?c = JSON" by (simp add: sample_command_def)
  have enc: "codec_encode sample_json ?c = Some ?w" by (rule codec_encode_json [OF sample_sendable j])
  obtain h where "?w = frame (rc_serialize_type ?c) h (body_bytes ?c)" using wire_bytes_frame [OF sample_sendable] .
  then have long: "5 < length ?w" by simp
  have "take 5 ?w \<noteq> ?w"
  proof
    assume "take 5 ?w = ?w"
    then have "length (take 5 ?w) = length ?w" by (rule arg_cong)
    with long show False by (simp only: length_take)
  qed
  then have p: "strict_prefix (take 5 ?w) ?w" using take_is_prefix by (simp add: strict_prefix_def)
  have "decode_stream 5 sample_json JSON (concat [?w, ?w] @ take 5 ?w) = Some (map delivered [?c, ?c], take 5 ?w)"
    by (rule command_stream_roundtrip [OF sample_json_law _ _ enc p]) (simp_all add: sample_sendable j enc)
  with enc show ?thesis by blast
qed

text \<open>
  The compact header format is lossless for what it sends: decoding gives the code, language,
  version, request number, flag, remark and exactly the non-empty extension fields.
\<close>

lemma compact_header_roundtrip:
  assumes "wire_ok c"
  shows "rocket_mq_protocol_decode t (rocket_mq_protocol_encode_bytes c)
    (length (rocket_mq_protocol_encode_bytes c)) = Some (Inr (received t c), [])"
  using protocol_decode_encode [OF assms] .

text \<open>
  The fast encoder of the compact format writes frames its own decoder rejects: the total
  length it writes does not include the header length field. A command with a body of less than
  four bytes is answered with an error, and four bytes of the frame stay in the stream in front of
  the next command.
\<close>

lemma fast_compact_frame_is_rejected:
  assumes "rc_serialize_type c = ROCKETMQ" and "codec_encode j c = Some bs"
    and "length bs < 2 ^ 24" and "body_length c < 4"
  shows "\<exists>front suffix4. bs = front @ suffix4 \<and> length suffix4 = 4 \<and>
    decode_command j d (bs @ rest) = Some (suffix4 @ rest, Inl RemotingCommandDecoderError)"
proof -
  let ?c = "case rc_custom_header c of
      Some header \<Rightarrow> if support_fast_codec header then c else make_custom_header_to_net c | None \<Rightarrow> c"
  obtain h where h: "rocketmq_protocol_encode ?c = Some h"
    and bs: "bs = put_i32 (wrap_i32 (wrap_i32 (int (length h)) + wrap_i32 (int (body_length c)))) @
      put_i32 (mark_protocol_type (wrap_i32 (int (length h))) ROCKETMQ) @ h @ body_bytes c"
    using assms(1,2) by (auto simp: codec_encode_def fast_header_encode_def body_bytes_def Let_def
        split: bind_splits)
  have len: "length (body_bytes c) = body_length c"
    by (simp add: body_bytes_def body_length_def split: option.splits)
  have small: "length h < 2 ^ 24" "4 \<le> length h"
    using assms(3) h by (auto simp: bs rocketmq_protocol_encode_def write_str_def Let_def split: bind_splits option.splits)
  let ?n = "length h + body_length c"
  have wrap: "wrap_i32 (int (length h)) = int (length h)" "wrap_i32 (int (body_length c)) = int (body_length c)"
    "wrap_i32 (int (length h) + int (body_length c)) = int ?n"
    using small assms(4) by (simp_all add: is_i32_def)
  note bs' = bs [unfolded wrap]
  define x where "x = take (?n - 4) (h @ body_bytes c)"
  define suffix4 where "suffix4 = drop (?n - 4) (h @ body_bytes c)"
  have split: "h @ body_bytes c = x @ suffix4"
    unfolding x_def suffix4_def by (rule append_take_drop_id [symmetric])
  have "length suffix4 = 4" using small len by (simp add: suffix4_def)
  moreover have "bs = (put_i32 (int ?n) @ put_i32 (mark_protocol_type (int (length h)) ROCKETMQ) @ x) @ suffix4"
    unfolding bs' split by simp
  moreover have "length x = ?n - 4" using len by (simp add: x_def)
  then have "decode_command j d (bs @ rest) = Some (suffix4 @ rest, Inl RemotingCommandDecoderError)"
    unfolding bs' split append_assoc
    by (intro decode_short_total) (use small assms(4) len in simp_all)
  ultimately show ?thesis by blast
qed

end
