(* ===== verification/Message_Codec.thy ===== *)
theory Message_Codec
  imports Byte_Codec Flags
begin

text \<open>
  The formats of messages
  (\<open>rocketmq-common/src/common/message/message_decoder.rs\<close>, \<open>message.rs\<close>,
  \<open>utils/message_utils.rs\<close> and \<open>utils/util_all.rs\<close>): the text of the properties, the inner
  messages of a batch, the stored record of a message, and message ids. Text is its UTF-8 bytes.
  The compression crates and the CRC-32 of \<open>crc32fast\<close> are arguments. A \<open>None\<close> of a reader is a
  panic.
\<close>

section \<open>Properties\<close>

type_synonym properties = "(bytes, bytes) hmap"

definition name_value_separator :: u8 where "name_value_separator = 1"
definition property_separator :: u8 where "property_separator = 2"

definition insert_property :: "bytes \<Rightarrow> properties \<Rightarrow> properties" where
  "insert_property seg m =
     (if length seg \<ge> 3 then
        (let k = takeWhile (\<lambda>b. b \<noteq> name_value_separator) seg
         in if length k < length seg \<and> 0 < length k \<and> length k < length seg - 1
            then hm_insert k (drop (Suc (length k)) seg) m else m)
      else m)"

function properties_loop :: "bytes \<Rightarrow> properties \<Rightarrow> properties" where
  "properties_loop bs m =
     (if bs = [] then m
      else let seg = takeWhile (\<lambda>b. b \<noteq> property_separator) bs
           in properties_loop (drop (Suc (length seg)) bs) (insert_property seg m))"
  by pat_completeness auto
termination
  by (relation "measure (length \<circ> fst)") (auto simp: Let_def)

declare properties_loop.simps [simp del]

definition string_to_message_properties :: "bytes option \<Rightarrow> properties" where
  "string_to_message_properties properties =
     (case properties of None \<Rightarrow> [] | Some s \<Rightarrow> properties_loop s [])"

definition str_to_message_properties :: "bytes option \<Rightarrow> properties" where
  "str_to_message_properties properties =
     (case properties of None \<Rightarrow> [] | Some s \<Rightarrow> properties_loop s [])"

definition message_properties_to_string :: "properties \<Rightarrow> bytes" where
  "message_properties_to_string m =
     concat (map (\<lambda>(k, v). k @ [name_value_separator] @ v @ [property_separator]) m)"

section \<open>Messages\<close>

record message =
  m_topic :: bytes
  m_flag :: i32
  m_properties :: properties
  m_body :: "bytes option"
  m_compressed_body :: "bytes option"
  m_transaction_id :: "bytes option"

definition message_default :: message where
  "message_default = \<lparr>m_topic = [], m_flag = 0, m_properties = [], m_body = None,
     m_compressed_body = None, m_transaction_id = None\<rparr>"

datatype inet_addr = V4 bytes nat | V6 bytes nat

fun octets :: "inet_addr \<Rightarrow> bytes" where
  "octets (V4 ip p) = ip"
| "octets (V6 ip p) = ip"

fun port :: "inet_addr \<Rightarrow> nat" where
  "port (V4 ip p) = p"
| "port (V6 ip p) = p"

record message_ext =
  me_message :: message
  me_broker_name :: bytes
  me_queue_id :: i32
  me_store_size :: i32
  me_queue_offset :: i64
  me_sys_flag :: u32
  me_born_timestamp :: i64
  me_born_host :: inet_addr
  me_store_timestamp :: i64
  me_store_host :: inet_addr
  me_msg_id :: string
  me_commit_log_offset :: i64
  me_body_crc :: u32
  me_reconsume_times :: i32
  me_prepared_transaction_offset :: i64

definition message_ext_default :: message_ext where
  "message_ext_default =
     \<lparr>me_message = message_default, me_broker_name = [], me_queue_id = 0, me_store_size = 0,
      me_queue_offset = 0, me_sys_flag = 0, me_born_timestamp = 0,
      me_born_host = V4 [127, 0, 0, 1] 10911, me_store_timestamp = 0,
      me_store_host = V4 [127, 0, 0, 1] 10911, me_msg_id = [], me_commit_log_offset = 0,
      me_body_crc = 0, me_reconsume_times = 0, me_prepared_transaction_offset = 0\<rparr>"

section \<open>Inner messages of a batch\<close>

definition encode_message :: "message \<Rightarrow> bytes option" where
  "encode_message m = do {
     body \<leftarrow> m_body m;
     let properties = message_properties_to_string (m_properties m);
     let store_size = 4 + 4 + 4 + 4 + (4 + length body) + (2 + length properties);
     Some (put_i32 (int store_size) @ put_i32 0 @ put_u32 0 @ put_i32 (m_flag m) @
       put_i32 (int (length body)) @ body @ put_i16 (int (length properties)) @ properties) }"

fun encode_messages :: "message list \<Rightarrow> bytes option" where
  "encode_messages [] = Some []"
| "encode_messages (m # ms) = do { b \<leftarrow> encode_message m; bs \<leftarrow> encode_messages ms; Some (b @ bs) }"

definition decode_message :: "bytes \<Rightarrow> (message \<times> bytes) option" where
  "decode_message buf = do {
     (_, buf) \<leftarrow> get_i32 buf;
     (_, buf) \<leftarrow> get_i32 buf;
     (_, buf) \<leftarrow> get_i32 buf;
     (flag, buf) \<leftarrow> get_i32 buf;
     (body_len, buf) \<leftarrow> get_i32 buf;
     (body, buf) \<leftarrow> take_bytes (as_usize body_len) buf;
     (properties_length, buf) \<leftarrow> get_i16 buf;
     (properties, buf) \<leftarrow> take_bytes (as_usize properties_length) buf;
     if valid_utf8 properties
     then Some (message_default\<lparr>m_body := Some body, m_properties := str_to_message_properties (Some properties),
       m_flag := flag\<rparr>, buf)
     else None }"

text \<open>Every message has at least 22 bytes, so the length of the buffer bounds the rounds.\<close>

definition decode_messages :: "bytes \<Rightarrow> message list option" where
  "decode_messages buf = read_all (length buf) decode_message buf"

text \<open>
  The loop of \<open>count_inner_msg_num\<close>. A size of zero makes no progress, and the loop does not end;
  the result is then \<open>None\<close>.
\<close>

partial_function (option) count_inner_loop :: "u32 \<Rightarrow> bytes \<Rightarrow> u32 outcome option" where
  "count_inner_loop count bs =
     (if bs = [] then Some (Returned count)
      else (case get_i32 bs of
              None \<Rightarrow> Some Panicked
            | Some (sz, _) \<Rightarrow>
                if as_usize sz > length bs then Some (Returned count)
                else count_inner_loop (count + 1) (drop (as_usize sz) bs)))"

declare count_inner_loop.simps [code]

definition count_inner_msg_num :: "bytes option \<Rightarrow> u32 outcome option" where
  "count_inner_msg_num bs = (case bs of None \<Rightarrow> Some (Returned 0) | Some b \<Rightarrow> count_inner_loop 0 b)"

section \<open>Message ids\<close>

definition hex_array :: string where "hex_array = ''0123456789ABCDEF''"

definition bytes_to_string :: "bytes \<Rightarrow> string" where
  "bytes_to_string src =
     concat (map (\<lambda>byte. let v = unat byte in [hex_array ! (v div 16), hex_array ! (v mod 16)]) src)"

definition char_to_byte :: "char \<Rightarrow> u8" where
  "char_to_byte c =
     (let n = (of_char c :: nat)
      in if 48 \<le> n \<and> n \<le> 57 then of_nat (n - 48)
         else if 65 \<le> n \<and> n \<le> 70 then of_nat (n - 65) + 10 else 0)"

definition to_uppercase :: "char \<Rightarrow> char" where
  "to_uppercase c = (let n = (of_char c :: nat) in if 97 \<le> n \<and> n \<le> 122 then char_of (n - 32) else c)"

fun hex_pairs :: "string \<Rightarrow> bytes" where
  "hex_pairs (a # b # s) = (push_bit 4 (char_to_byte a) OR char_to_byte b) # hex_pairs s"
| "hex_pairs s = []"

text \<open>For ASCII text, as all message ids are.\<close>

definition string_to_bytes :: "string \<Rightarrow> bytes option" where
  "string_to_bytes hex_string =
     (if hex_string = [] then None else Some (hex_pairs (map to_uppercase hex_string)))"

definition socket_address_to_vec :: "inet_addr \<Rightarrow> bytes" where
  "socket_address_to_vec a = octets a @ put_i32 (int (port a))"

definition build_message_id :: "inet_addr \<Rightarrow> i64 \<Rightarrow> string" where
  "build_message_id a wrote_offset = bytes_to_string (octets a @ put_i32 (int (port a)) @ put_i64 wrote_offset)"

definition decode_message_id :: "string \<Rightarrow> (inet_addr \<times> i64) option" where
  "decode_message_id msg_id = do {
     buf \<leftarrow> string_to_bytes msg_id;
     (a, buf) \<leftarrow>
       (if length msg_id = 32 then do {
          (ip, buf) \<leftarrow> take_bytes 4 buf;
          (p, buf) \<leftarrow> get_i32 buf;
          Some (V4 ip (nat (p mod 2 ^ 16)), buf) }
        else do {
          (ip, buf) \<leftarrow> take_bytes 16 buf;
          (p, buf) \<leftarrow> get_i32 buf;
          Some (V6 ip (nat (p mod 2 ^ 16)), buf) });
     (off, buf) \<leftarrow> get_i64 buf;
     Some (a, off) }"

text \<open>The ids of a batch, separated by commas.\<close>

fun join_ids :: "string list \<Rightarrow> string" where
  "join_ids [] = []"
| "join_ids [s] = s"
| "join_ids (s # ss) = s @ '','' @ join_ids ss"

definition build_batch_message_id :: "inet_addr \<Rightarrow> nat \<Rightarrow> nat \<Rightarrow> i64 list \<Rightarrow> string option" where
  "build_batch_message_id a store_host_length batch_size phy_pos =
     (if batch_size = 0 then Some []
      else if length (socket_address_to_vec a) \<noteq> store_host_length then None
      else Some (join_ids (map (\<lambda>off. bytes_to_string (socket_address_to_vec a @ put_i64 off)) phy_pos)))"

section \<open>Stored messages\<close>

datatype message_version = MsgV1 | MsgV2

definition message_magic_code :: i32 where "message_magic_code = -626843481"
definition message_magic_code_v2 :: i32 where "message_magic_code_v2 = -626843477"
definition born_timestamp_position :: nat where
  "born_timestamp_position = 4 + 4 + 4 + 4 + 4 + 8 + 8 + 4 + 8"

definition value_of_magic_code :: "i32 \<Rightarrow> message_version option" where
  "value_of_magic_code magic_code =
     (if magic_code = message_magic_code then Some MsgV1
      else if magic_code = message_magic_code_v2 then Some MsgV2 else None)"

fun get_topic_length :: "message_version \<Rightarrow> bytes \<Rightarrow> (nat \<times> bytes) option" where
  "get_topic_length MsgV1 buf = get_u8 buf"
| "get_topic_length MsgV2 buf = map_option (\<lambda>(n, rest). (as_usize n, rest)) (get_i16 buf)"

fun get_topic_length_size :: "message_version \<Rightarrow> nat" where
  "get_topic_length_size MsgV1 = 1"
| "get_topic_length_size MsgV2 = 2"

text \<open>The crates: CRC-32, compression at a level, and decompression.\<close>

record message_env =
  me_hash :: "bytes \<Rightarrow> u32"
  me_compress :: "compression_type \<Rightarrow> bytes \<Rightarrow> bytes option"
  me_decompress :: "compression_type \<Rightarrow> bytes \<Rightarrow> bytes option"

definition body_crc32 :: "message_env \<Rightarrow> bytes \<Rightarrow> u32" where
  "body_crc32 env buf = (if buf = [] then 0 else me_hash env buf AND 0x7FFFFFFF)"

definition has_flag :: "u32 \<Rightarrow> u32 \<Rightarrow> bool" where
  "has_flag sys_flag f \<longleftrightarrow> sys_flag AND f \<noteq> 0"

definition get_host :: "bool \<Rightarrow> bytes \<Rightarrow> (inet_addr \<times> bytes) option" where
  "get_host v6 buf = do {
     (ip, buf) \<leftarrow> take_bytes (if v6 then 16 else 4) buf;
     (p, buf) \<leftarrow> get_i32 buf;
     Some ((if v6 then V6 else V4) ip (nat (p mod 2 ^ 16)), buf) }"

definition put_host :: "inet_addr \<Rightarrow> bytes" where
  "put_host a = octets a @ put_i32 (int (port a))"

text \<open>Step 15 of \<open>decode\<close>: \<open>Some (None, _)\<close> is the early return on a wrong checksum.\<close>

definition decode_body ::
  "message_env \<Rightarrow> bool \<Rightarrow> bool \<Rightarrow> bool \<Rightarrow> u32 \<Rightarrow> i32 \<Rightarrow> u32 \<Rightarrow> nat \<Rightarrow> nat \<Rightarrow> i32 \<Rightarrow> bytes
   \<Rightarrow> (bytes option option \<times> bytes) option" where
  "decode_body env read_body de_compress_body check_crc sys_flag flag body_crc born_ip store_ip body_len buf =
     (if body_len > 0 then
        if read_body then do {
          (body, buf) \<leftarrow> take_bytes (as_usize body_len) buf;
          if check_crc \<and> body_crc32 env body \<noteq> body_crc then Some (None, buf)
          else if de_compress_body \<and> sys_flag AND compressed_flag = compressed_flag then
            (case find_by_value (drop_bit 8 (word_of_int flag AND compression_type_comparator)) of
               Panicked \<Rightarrow> None
             | Returned t \<Rightarrow> do { plain \<leftarrow> me_decompress env t body; Some (Some (Some plain), buf) })
          else Some (Some (Some body), buf) }
        else do {
          (_, buf) \<leftarrow> take_bytes (born_timestamp_position + born_ip + 4 + 8 + store_ip + 4 + 4 + 8 + 4 +
            as_usize body_len) buf;
          Some (Some None, buf) }
      else Some (Some None, buf))"

definition properties_string_key :: bytes where
  "properties_string_key = map (of_nat \<circ> of_char) ''propertiesString''"

definition decode_tail ::
  "message_version \<Rightarrow> bool \<Rightarrow> bytes \<Rightarrow> ((bytes \<times> properties) \<times> bytes) option" where
  "decode_tail version is_set_properties_string buf = do {
     (topic_len, buf) \<leftarrow> get_topic_length version buf;
     (topic, buf) \<leftarrow> take_bytes topic_len buf;
     if \<not> valid_utf8 topic then None
     else do {
       (properties_length, buf) \<leftarrow> get_i16 buf;
       if properties_length > 0 then do {
         (text_bytes, buf) \<leftarrow> take_bytes (as_usize properties_length) buf;
         let properties_string = from_utf8_lossy text_bytes;
         let props = string_to_message_properties (Some properties_string);
         Some ((topic, if is_set_properties_string then hm_insert properties_string_key properties_string props
                       else props), buf) }
       else Some ((topic, []), buf) } }"

definition decode ::
  "message_env \<Rightarrow> bool \<Rightarrow> bool \<Rightarrow> bool \<Rightarrow> bool \<Rightarrow> bool \<Rightarrow> bytes \<Rightarrow> (message_ext option \<times> bytes) option" where
  "decode env read_body de_compress_body is_client is_set_properties_string check_crc buf =
     (if is_client then None
      else do {
        (store_size, buf) \<leftarrow> get_i32 buf;
        (magic_code, buf) \<leftarrow> get_i32 buf;
        version \<leftarrow> value_of_magic_code magic_code;
        (body_crc, buf) \<leftarrow> get_u32 buf;
        (queue_id, buf) \<leftarrow> get_i32 buf;
        (flag, buf) \<leftarrow> get_i32 buf;
        (queue_offset, buf) \<leftarrow> get_i64 buf;
        (physic_offset, buf) \<leftarrow> get_i64 buf;
        (flags, buf) \<leftarrow> get_u32 buf;
        let sys_flag = of_nat flags;
        (born_time_stamp, buf) \<leftarrow> get_i64 buf;
        (born_host, buf) \<leftarrow> get_host (has_flag sys_flag bornhost_v6_flag) buf;
        (store_timestamp, buf) \<leftarrow> get_i64 buf;
        (store_host, buf) \<leftarrow> get_host (has_flag sys_flag storehostaddress_v6_flag) buf;
        (reconsume_times, buf) \<leftarrow> get_i32 buf;
        (prepared_transaction_offset, buf) \<leftarrow> get_i64 buf;
        (body_len, buf) \<leftarrow> get_i32 buf;
        (body, buf) \<leftarrow> decode_body env read_body de_compress_body check_crc sys_flag flag (of_nat body_crc)
          (if has_flag sys_flag bornhost_v6_flag then 16 else 4)
          (if has_flag sys_flag storehostaddress_v6_flag then 16 else 4) body_len buf;
        (case body of
           None \<Rightarrow> Some (None, buf)
         | Some read \<Rightarrow> do {
             ((topic, props), buf) \<leftarrow> decode_tail version is_set_properties_string buf;
             Some (Some \<lparr>me_message = message_default\<lparr>m_flag := flag, m_body := read, m_topic := topic,
                 m_properties := props\<rparr>,
               me_broker_name = [], me_queue_id = queue_id, me_store_size = store_size,
               me_queue_offset = queue_offset, me_sys_flag = sys_flag, me_born_timestamp = born_time_stamp,
               me_born_host = born_host, me_store_timestamp = store_timestamp, me_store_host = store_host,
               me_msg_id = build_message_id store_host physic_offset,
               me_commit_log_offset = physic_offset, me_body_crc = of_nat body_crc,
               me_reconsume_times = reconsume_times,
               me_prepared_transaction_offset = prepared_transaction_offset\<rparr>, buf) }) })"

text \<open>The body to write; \<open>Some None\<close> is the error of the compressor.\<close>

definition encoded_body :: "message_env \<Rightarrow> bool \<Rightarrow> u32 \<Rightarrow> bytes \<Rightarrow> bytes option option" where
  "encoded_body env need_compress sys_flag body =
     (if need_compress \<and> sys_flag AND compressed_flag = compressed_flag then
        (case get_compression_type sys_flag of Panicked \<Rightarrow> None | Returned t \<Rightarrow> Some (me_compress env t body))
      else Some (Some body))"

definition put_front :: "message_ext \<Rightarrow> bytes" where
  "put_front e =
     put_u32 (unat (me_body_crc e)) @ put_i32 (me_queue_id e) @ put_i32 (m_flag (me_message e)) @
     put_i64 (me_queue_offset e) @ put_i64 (me_commit_log_offset e) @ put_u32 (unat (me_sys_flag e)) @
     put_i64 (me_born_timestamp e) @ put_host (me_born_host e)"

definition put_rest :: "message_ext \<Rightarrow> bytes \<Rightarrow> bytes" where
  "put_rest e body =
     put_i32 (me_reconsume_times e) @ put_i64 (me_prepared_transaction_offset e) @
     put_i32 (int (length body)) @ body @
     put_i16 (int (length (m_topic (me_message e)))) @ m_topic (me_message e) @
     put_i16 (int (length (message_properties_to_string (m_properties (me_message e))))) @
     message_properties_to_string (m_properties (me_message e))"

definition encode :: "message_env \<Rightarrow> message_ext \<Rightarrow> bool \<Rightarrow> bytes option option" where
  "encode env e need_compress = do {
     body \<leftarrow> m_body (me_message e);
     new_body \<leftarrow> encoded_body env need_compress (me_sys_flag e) body;
     Some (map_option (\<lambda>b.
       put_i32 (me_store_size e) @ put_i32 message_magic_code @ put_front e @
       put_i64 (me_store_timestamp e) @ put_host (me_store_host e) @ put_rest e b) new_body) }"

definition encode_uniquely :: "message_env \<Rightarrow> message_ext \<Rightarrow> bool \<Rightarrow> bytes option option" where
  "encode_uniquely env e need_compress = do {
     body \<leftarrow> m_body (me_message e);
     new_body \<leftarrow> encoded_body env need_compress (me_sys_flag e) body;
     Some (map_option (\<lambda>b.
       put_i32 (me_store_size e) @ put_i32 message_magic_code @ put_front e @ put_rest e b) new_body) }"

text \<open>\<open>decodes_batch\<close>: whole records until one fails its checksum.\<close>

fun decodes_batch_loop :: "nat \<Rightarrow> message_env \<Rightarrow> bool \<Rightarrow> bool \<Rightarrow> bytes \<Rightarrow> message_ext list option" where
  "decodes_batch_loop fuel env read_body decompress_body [] = Some []"
| "decodes_batch_loop 0 env read_body decompress_body bs = None"
| "decodes_batch_loop (Suc fuel) env read_body decompress_body bs = do {
     (r, rest) \<leftarrow> decode env read_body decompress_body False False False bs;
     (case r of
        None \<Rightarrow> Some []
      | Some e \<Rightarrow> do { es \<leftarrow> decodes_batch_loop fuel env read_body decompress_body rest; Some (e # es) }) }"

definition decodes_batch :: "message_env \<Rightarrow> bool \<Rightarrow> bool \<Rightarrow> bytes \<Rightarrow> message_ext list option" where
  "decodes_batch env read_body decompress_body bs =
     decodes_batch_loop (length bs) env read_body decompress_body bs"

text \<open>The checksum property: ten digits, the lowest first.\<close>

fun crc_digits :: "nat \<Rightarrow> nat \<Rightarrow> bytes" where
  "crc_digits 0 crc = []"
| "crc_digits (Suc n) crc =
     (if crc > 0 then (48 + of_nat (crc mod 10)) # crc_digits n (crc div 10) else 48 # crc_digits n crc)"

definition create_crc32 :: "u32 \<Rightarrow> bytes" where
  "create_crc32 crc =
     map (of_nat \<circ> of_char) ''__CRC32#'' @ [name_value_separator] @ crc_digits 10 (unat crc) @ [property_separator]"

text \<open>
  \<open>decode_properties\<close> reads at fixed positions. The buffer is advanced to the topic length before
  the position of the properties, which counts from its start, is used.
\<close>

definition sysflag_position :: nat where "sysflag_position = 4 + 4 + 4 + 4 + 4 + 8 + 8"
definition message_magic_code_position :: nat where "message_magic_code_position = 4"

definition body_size_position :: "u32 \<Rightarrow> nat" where
  "body_size_position sys_flag =
     4 + 4 + 4 + 4 + 4 + 8 + 8 + 4 + 8 + (if sys_flag AND bornhost_v6_flag = 0 then 8 else 20) + 8 +
     (if sys_flag AND storehostaddress_v6_flag = 0 then 8 else 20) + 4 + 8"

definition decode_properties :: "bytes \<Rightarrow> properties option option" where
  "decode_properties bs =
     (if length bs < sysflag_position + 4 then Some None
      else do {
        (flags, _) \<leftarrow> get_u32 (drop sysflag_position bs);
        (magic_code, _) \<leftarrow> get_i32 (drop message_magic_code_position bs);
        (case value_of_magic_code magic_code of
           None \<Rightarrow> Some None
         | Some version \<Rightarrow>
             let body_pos = body_size_position (of_nat flags)
             in if length bs < body_pos + 4 then Some None
                else do {
                  (body_size, _) \<leftarrow> get_i32 (drop body_pos bs);
                  let topic_length_position = (body_pos + 4 + as_usize body_size) mod 2 ^ 64;
                  if length bs < topic_length_position then Some None
                  else do {
                    (topic_length, bs') \<leftarrow> get_topic_length version (drop topic_length_position bs);
                    let properties_position = topic_length_position + get_topic_length_size version + topic_length;
                    if length bs' < properties_position + 2 then Some None
                    else do {
                      (properties_length, after) \<leftarrow> get_i16 (drop properties_position bs');
                      if properties_length > 0 then
                        if length after < as_usize properties_length then Some None
                        else let properties_bytes = take (as_usize properties_length) after
                             in Some (if valid_utf8 properties_bytes
                                      then Some (string_to_message_properties (Some properties_bytes)) else None)
                      else Some None } } }) })"

section \<open>Lemmas on properties and batches\<close>

definition property_ok :: "bytes \<times> bytes \<Rightarrow> bool" where
  "property_ok kv \<longleftrightarrow> fst kv \<noteq> [] \<and> snd kv \<noteq> [] \<and> name_value_separator \<notin> set (fst kv) \<and>
     property_separator \<notin> set (fst kv) \<and> property_separator \<notin> set (snd kv)"

definition properties_ok :: "properties \<Rightarrow> bool" where
  "properties_ok m \<longleftrightarrow> hm_inv m \<and> list_all property_ok m"

lemma takeWhile_separator: "x \<notin> set xs \<Longrightarrow> takeWhile (\<lambda>b. b \<noteq> x) (xs @ x # ys) = xs"
  by (induction xs) auto

lemma insert_property_pair:
  "property_ok (k, v) \<Longrightarrow> insert_property (k @ name_value_separator # v) m = hm_insert k v m"
  by (cases k; cases v) (auto simp: insert_property_def property_ok_def takeWhile_separator
      takeWhile_separator [of _ "_ # _", simplified] Let_def)

lemma properties_loop_pair:
  assumes "property_ok (k, v)"
  shows "properties_loop (k @ [name_value_separator] @ v @ [property_separator] @ rest) m =
    properties_loop rest (hm_insert k v m)"
proof -
  let ?seg = "k @ name_value_separator # v"
  have "property_separator \<notin> set ?seg"
    using assms by (simp add: property_ok_def name_value_separator_def property_separator_def)
  then have "takeWhile (\<lambda>b. b \<noteq> property_separator) (?seg @ property_separator # rest) = ?seg"
    by (rule takeWhile_separator)
  then show ?thesis
    using insert_property_pair [OF assms, of m]
    by (subst properties_loop.simps) (simp add: Let_def)
qed

lemma properties_loop_all:
  assumes "list_all property_ok kvs" "hm_inv (m @ kvs)"
  shows "properties_loop (message_properties_to_string kvs) m = m @ kvs"
  using assms
proof (induction kvs arbitrary: m)
  case Nil
  then show ?case by (simp add: message_properties_to_string_def properties_loop.simps)
next
  case (Cons kv kvs)
  obtain k v where kv: "kv = (k, v)" by fastforce
  have "hm_get m k = None"
    using Cons.prems(2) by (auto simp: kv hm_inv_def hm_get_def map_of_eq_None_iff)
  moreover have "message_properties_to_string (kv # kvs) =
      k @ [name_value_separator] @ v @ [property_separator] @ message_properties_to_string kvs"
    by (simp add: message_properties_to_string_def kv)
  ultimately show ?case
    using Cons.IH [of "m @ [(k, v)]"] Cons.prems properties_loop_pair [of k v "message_properties_to_string kvs" m]
    by (simp add: kv hm_insert_fresh)
qed

lemma properties_of_string:
  "properties_ok m \<Longrightarrow> properties_loop (message_properties_to_string m) [] = m"
  using properties_loop_all [of m "[]"] by (simp add: properties_ok_def)

text \<open>A message that can be an inner message of a batch.\<close>

definition inner_ok :: "message \<Rightarrow> bool" where
  "inner_ok m \<longleftrightarrow> m_topic m = [] \<and> m_compressed_body m = None \<and> m_transaction_id m = None \<and>
     fits_signed 4 (m_flag m) \<and> properties_ok (m_properties m) \<and>
     (case m_body m of None \<Rightarrow> False | Some body \<Rightarrow>
        22 + length body + length (message_properties_to_string (m_properties m)) < 2 ^ 31) \<and>
     length (message_properties_to_string (m_properties m)) < 2 ^ 15 \<and>
     valid_utf8 (message_properties_to_string (m_properties m))"

definition put_message_bytes :: "message \<Rightarrow> bytes" where
  "put_message_bytes m = (case encode_message m of Some bs \<Rightarrow> bs | None \<Rightarrow> [])"

lemma inner_body: "inner_ok m \<Longrightarrow> \<exists>body. m_body m = Some body"
  by (auto simp: inner_ok_def split: option.splits)

lemma decode_message_bytes:
  assumes "inner_ok m"
  shows "decode_message (put_message_bytes m @ rest) = Some (m, rest)"
proof -
  obtain body where body: "m_body m = Some body" using inner_body [OF assms] by blast
  let ?p = "message_properties_to_string (m_properties m)"
  let ?n = "4 + 4 + 4 + 4 + (4 + length body) + (2 + length ?p)"
  have small: "?n < 2 ^ 31" "length body < 2 ^ 31" "length ?p < 2 ^ 15"
    using assms by (simp_all add: inner_ok_def body)
  have fits: "fits_signed 4 (int ?n)" "fits_signed 4 0" "fits_signed 4 (m_flag m)"
    "fits_signed 4 (int (length body))" "fits_signed 2 (int (length ?p))"
    using small assms by (simp_all add: fits_signed_def inner_ok_def)
  have third: "put_u32 0 = put_i32 0" by (simp add: put_unsigned_def put_signed_def)
  have bytes: "put_message_bytes m @ rest = put_i32 (int ?n) @ put_i32 0 @ put_i32 0 @ put_i32 (m_flag m) @
      put_i32 (int (length body)) @ body @ put_i16 (int (length ?p)) @ ?p @ rest"
    by (simp add: put_message_bytes_def encode_message_def body third Let_def)
  have usz: "as_usize (int (length body)) = length body" "as_usize (int (length ?p)) = length ?p"
    using small by simp_all
  have "str_to_message_properties (Some ?p) = m_properties m" "valid_utf8 ?p"
    using assms properties_of_string by (simp_all add: str_to_message_properties_def inner_ok_def)
  then have "decode_message (put_message_bytes m @ rest) =
      Some (message_default\<lparr>m_body := Some body, m_properties := m_properties m, m_flag := m_flag m\<rparr>, rest)"
    unfolding decode_message_def bytes
    by (simp only: get_put_signed fits take_bytes_append usz bind.bind_lunit prod.case zero_less_numeral if_True)
  moreover have "message_default\<lparr>m_body := Some body, m_properties := m_properties m, m_flag := m_flag m\<rparr> = m"
    using assms body by (simp add: message_default_def inner_ok_def)
  ultimately show ?thesis by simp
qed

lemma decode_message_consumes:
  "decode_message bs = Some (m, rest) \<Longrightarrow> length rest < length bs"
  by (auto simp: decode_message_def split: bind_splits if_splits
      dest!: get_signed_length take_bytes_length)

interpretation inner: codec put_message_bytes decode_message inner_ok
  by unfold_locales (simp_all add: decode_message_bytes decode_message_consumes)

lemma encode_messages_concat:
  "list_all inner_ok ms \<Longrightarrow> encode_messages ms = Some (concat (map put_message_bytes ms))"
proof (induction ms)
  case (Cons m ms)
  then obtain body where "m_body m = Some body" using inner_body by fastforce
  then show ?case using Cons by (simp add: put_message_bytes_def encode_message_def Let_def)
qed simp

lemma count_inner_step:
  assumes "inner_ok m"
  shows "count_inner_loop c (put_message_bytes m @ rest) = count_inner_loop (c + 1) rest"
proof -
  obtain body where body: "m_body m = Some body" using inner_body [OF assms] by blast
  let ?n = "22 + (length body + length (message_properties_to_string (m_properties m)))"
  have small: "?n < 2 ^ 31" using assms by (simp add: inner_ok_def body)
  obtain tail where bytes: "put_message_bytes m = put_i32 (int ?n) @ tail" and len: "length (put_message_bytes m) = ?n"
    by (simp add: put_message_bytes_def encode_message_def body Let_def)
  have "get_i32 (put_message_bytes m @ rest) = Some (int ?n, tail @ rest)"
    unfolding bytes append_assoc by (rule get_put_signed) (use small in \<open>simp_all add: fits_signed_def\<close>)
  moreover have "put_message_bytes m \<noteq> []" using len by auto
  moreover have "as_usize (int ?n) = ?n" using small by simp
  ultimately show ?thesis
    using len by (subst count_inner_loop.simps) simp
qed

lemma count_inner_batch:
  "list_all inner_ok ms \<Longrightarrow>
     count_inner_loop c (concat (map put_message_bytes ms)) = Some (Returned (c + of_nat (length ms)))"
proof (induction ms arbitrary: c)
  case Nil
  then show ?case by (subst count_inner_loop.simps) simp
next
  case (Cons m ms)
  then show ?case by (simp add: count_inner_step algebra_simps)
qed

lemma count_inner_zero:
  assumes "count_inner_loop c bs = Some r"
  shows "bs \<noteq> [] \<longrightarrow> (\<forall>rest. get_i32 bs \<noteq> Some (0, rest))"
proof (rule count_inner_loop.raw_induct [OF _ assms])
  fix f c bs r
  assume IH: "\<And>c bs r. f c bs = Some r \<Longrightarrow> bs \<noteq> [] \<longrightarrow> (\<forall>rest. get_i32 bs \<noteq> Some (0, rest))"
    and step: "(if bs = [] then Some (Returned c)
      else case get_i32 bs of None \<Rightarrow> Some Panicked
           | Some (sz, _) \<Rightarrow> if length bs < as_usize sz then Some (Returned c)
               else f (c + 1) (drop (as_usize sz) bs)) = Some r"
  show "bs \<noteq> [] \<longrightarrow> (\<forall>rest. get_i32 bs \<noteq> Some (0, rest))"
  proof (intro impI allI notI)
    fix rest assume ne: "bs \<noteq> []" and zero: "get_i32 bs = Some (0, rest)"
    then have "f (c + 1) bs = Some r" using step by (simp add: as_usize_def)
    from IH [OF this] ne zero show False by blast
  qed
qed

section \<open>Lemmas on message ids\<close>

lemma hex_digits:
  assumes "i < 16"
  shows "to_uppercase (hex_array ! i) = hex_array ! i \<and> char_to_byte (hex_array ! i) = of_nat i"
proof -
  have "i \<in> {0, 1, 2, 3, 4, 5, 6, 7, 8, 9, 10, 11, 12, 13, 14, 15}"
    using assms unfolding insert_iff empty_iff by presburger
  then show ?thesis
    by (elim insertE emptyE) (simp_all add: hex_array_def to_uppercase_def char_to_byte_def)
qed

lemma nibbles: "push_bit 4 (of_nat (unat b div 16)) OR of_nat (unat b mod 16) = b" for b :: u8
proof -
  have "unat b div 16 = unat (drop_bit 4 b)" "unat b mod 16 = unat (take_bit 4 b)"
    by (simp_all add: drop_bit_eq_div take_bit_eq_mod unat_div_distrib unat_mod_distrib)
  then have "of_nat (unat b div 16) = drop_bit 4 b" and "of_nat (unat b mod 16) = take_bit 4 b"
    by simp_all
  moreover have "push_bit 4 (drop_bit 4 b) OR take_bit 4 b = b"
    by (rule bit_word_eqI) (auto simp: bit_simps)
  ultimately show ?thesis by simp
qed

lemma hex_pairs_bytes: "hex_pairs (map to_uppercase (bytes_to_string bs)) = bs"
proof (induction bs)
  case (Cons b bs)
  have "unat b div 16 < 16" using unsigned_less [of b, where ?'a = nat] by simp
  then show ?case
    using Cons hex_digits [of "unat b div 16"] hex_digits [of "unat b mod 16"] nibbles [of b]
    by (simp add: bytes_to_string_def Let_def)
qed (simp add: bytes_to_string_def)

lemma length_bytes_to_string [simp]: "length (bytes_to_string bs) = 2 * length bs"
  by (induction bs) (simp_all add: bytes_to_string_def Let_def)

lemma bytes_to_string_Nil [simp]: "bytes_to_string bs = [] \<longleftrightarrow> bs = []"
  by (cases bs) (simp_all add: bytes_to_string_def Let_def)

lemma string_to_bytes_hex: "bs \<noteq> [] \<Longrightarrow> string_to_bytes (bytes_to_string bs) = Some bs"
  using hex_pairs_bytes [of bs] by (simp add: string_to_bytes_def)

fun addr_ok :: "inet_addr \<Rightarrow> bool" where
  "addr_ok (V4 ip p) \<longleftrightarrow> length ip = 4 \<and> p < 2 ^ 16"
| "addr_ok (V6 ip p) \<longleftrightarrow> length ip = 16 \<and> p < 2 ^ 16"

lemma message_id_decodes:
  assumes "addr_ok a" "fits_signed 8 off"
  shows "decode_message_id (build_message_id a off) = Some (a, off)"
proof -
  have p: "fits_signed 4 (int (port a))" "nat (int (port a) mod 2 ^ 16) = port a"
    using assms(1) by (cases a; simp add: fits_signed_def)+
  let ?bs = "octets a @ put_i32 (int (port a)) @ put_i64 off"
  have bs: "string_to_bytes (build_message_id a off) = Some ?bs"
    unfolding build_message_id_def by (rule string_to_bytes_hex) (cases a, use assms(1) in auto)
  have last: "get_i64 (put_i64 off) = Some (off, [])"
    using get_put_signed [of 8 off "[]"] assms(2) by simp
  show ?thesis
  proof (cases a)
    case (V4 ip q)
    then have "length (build_message_id a off) = 32" "length ip = 4"
      using assms(1) by (simp_all add: build_message_id_def)
    with p V4 last show ?thesis unfolding decode_message_id_def bs by simp
  next
    case (V6 ip q)
    then have "length (build_message_id a off) = 56" "length ip = 16"
      using assms(1) by (simp_all add: build_message_id_def)
    with p V6 last show ?thesis unfolding decode_message_id_def bs by simp
  qed
qed

section \<open>Lemmas on stored messages\<close>

fun host_ok :: "bool \<Rightarrow> inet_addr \<Rightarrow> bool" where
  "host_ok v6 (V4 ip p) \<longleftrightarrow> \<not> v6 \<and> length ip = 4 \<and> p < 2 ^ 16"
| "host_ok v6 (V6 ip p) \<longleftrightarrow> v6 \<and> length ip = 16 \<and> p < 2 ^ 16"

abbreviation "props_text e \<equiv> message_properties_to_string (m_properties (me_message e))"

text \<open>The fields in front of the topic fit their places.\<close>

definition head_ok :: "message_ext \<Rightarrow> bytes \<Rightarrow> bool" where
  "head_ok e body \<longleftrightarrow>
     fits_signed 4 (me_store_size e) \<and> fits_signed 4 (me_queue_id e) \<and> fits_signed 4 (m_flag (me_message e)) \<and>
     fits_signed 8 (me_queue_offset e) \<and> fits_signed 8 (me_commit_log_offset e) \<and>
     fits_signed 8 (me_born_timestamp e) \<and> fits_signed 8 (me_store_timestamp e) \<and>
     fits_signed 4 (me_reconsume_times e) \<and> fits_signed 8 (me_prepared_transaction_offset e) \<and>
     host_ok (has_flag (me_sys_flag e) bornhost_v6_flag) (me_born_host e) \<and>
     host_ok (has_flag (me_sys_flag e) storehostaddress_v6_flag) (me_store_host e) \<and> length body < 2 ^ 31"

definition record_ok :: "message_ext \<Rightarrow> bool" where
  "record_ok e \<longleftrightarrow>
     (case m_body (me_message e) of None \<Rightarrow> False | Some b \<Rightarrow> head_ok e b) \<and>
     length (m_topic (me_message e)) < 2 ^ 15 \<and> valid_utf8 (m_topic (me_message e)) \<and>
     properties_ok (m_properties (me_message e)) \<and> length (props_text e) < 2 ^ 15 \<and> valid_utf8 (props_text e)"

text \<open>A record with a given magic code, and what reading it gives for a topic and properties.\<close>

definition tail_bytes :: "message_ext \<Rightarrow> bytes" where
  "tail_bytes e =
     put_i16 (int (length (m_topic (me_message e)))) @ m_topic (me_message e) @
     put_i16 (int (length (props_text e))) @ props_text e"

definition record_head :: "i32 \<Rightarrow> message_ext \<Rightarrow> bytes \<Rightarrow> bytes" where
  "record_head magic e body =
     put_i32 (me_store_size e) @ put_i32 magic @ put_front e @ put_i64 (me_store_timestamp e) @
     put_host (me_store_host e) @ put_i32 (me_reconsume_times e) @ put_i64 (me_prepared_transaction_offset e) @
     put_i32 (int (length body)) @ body"

definition record_bytes :: "i32 \<Rightarrow> message_ext \<Rightarrow> bytes \<Rightarrow> bytes" where
  "record_bytes magic e body = record_head magic e body @ tail_bytes e"

definition read_as :: "message_ext \<Rightarrow> bytes \<Rightarrow> bytes \<Rightarrow> properties \<Rightarrow> message_ext" where
  "read_as e body topic props =
     e\<lparr>me_message := message_default\<lparr>m_flag := m_flag (me_message e),
         m_body := (if body = [] then None else Some body), m_topic := topic, m_properties := props\<rparr>,
       me_broker_name := [], me_msg_id := build_message_id (me_store_host e) (me_commit_log_offset e)\<rparr>"

lemma encode_record:
  "m_body (me_message e) = Some body \<Longrightarrow>
     encode env e False = Some (Some (record_bytes message_magic_code e body))"
  by (simp add: encode_def encoded_body_def put_rest_def record_bytes_def record_head_def tail_bytes_def)

lemma get_put_host: "host_ok v6 a \<Longrightarrow> get_host v6 (put_host a @ rest) = Some (a, rest)"
  by (cases a) (simp_all add: get_host_def put_host_def fits_signed_def)

lemma fits_u32 [simp]: "fits_unsigned 4 (unat w)" for w :: u32
  using unsigned_less [of w, where ?'a = nat] by (simp add: fits_unsigned_def)

lemma of_nat_unat: "of_nat (unat w) = w" for w :: u32
  by simp

lemma decode_body_plain:
  "length body < 2 ^ 31 \<Longrightarrow>
     decode_body env True False False fl f crc x y (int (length body)) (body @ rest) =
       Some (Some (if body = [] then None else Some body), rest)"
  by (simp add: decode_body_def)

lemma decode_record_head:
  assumes ok: "head_ok e body"
    and magic: "value_of_magic_code magic = Some version" "fits_signed 4 magic"
  shows "decode env True False False False False (record_head magic e body @ rest) = do {
     ((topic, props), buf) \<leftarrow> decode_tail version False rest;
     Some (Some (read_as e body topic props), buf) }"
proof -
  have fits: "fits_signed 4 (me_store_size e)" "fits_signed 4 (me_queue_id e)" "fits_signed 4 (m_flag (me_message e))"
    "fits_signed 8 (me_queue_offset e)" "fits_signed 8 (me_commit_log_offset e)"
    "fits_signed 8 (me_born_timestamp e)" "fits_signed 8 (me_store_timestamp e)"
    "fits_signed 4 (me_reconsume_times e)" "fits_signed 8 (me_prepared_transaction_offset e)"
    using ok by (simp_all add: head_ok_def)
  have hosts: "host_ok (has_flag (me_sys_flag e) bornhost_v6_flag) (me_born_host e)"
    "host_ok (has_flag (me_sys_flag e) storehostaddress_v6_flag) (me_store_host e)"
    using ok by (simp_all add: head_ok_def)
  have small: "length body < 2 ^ 31" "fits_signed 4 (int (length body))"
    using ok by (simp_all add: head_ok_def fits_signed_def)
  have result: "read_as e body topic props = \<lparr>me_message = message_default\<lparr>m_flag := m_flag (me_message e),
      m_body := (if body = [] then None else Some body), m_topic := topic, m_properties := props\<rparr>,
      me_broker_name = [], me_queue_id = me_queue_id e, me_store_size = me_store_size e,
      me_queue_offset = me_queue_offset e, me_sys_flag = me_sys_flag e, me_born_timestamp = me_born_timestamp e,
      me_born_host = me_born_host e, me_store_timestamp = me_store_timestamp e, me_store_host = me_store_host e,
      me_msg_id = build_message_id (me_store_host e) (me_commit_log_offset e),
      me_commit_log_offset = me_commit_log_offset e, me_body_crc = me_body_crc e,
      me_reconsume_times = me_reconsume_times e,
      me_prepared_transaction_offset = me_prepared_transaction_offset e\<rparr>" for topic props
    by (simp add: read_as_def)
  show ?thesis
    unfolding decode_def record_head_def put_front_def append_assoc result
    by (simp only: get_put_signed get_put_unsigned fits fits_u32 magic hosts get_put_host small decode_body_plain
        bind.bind_lunit prod.case zero_less_numeral Let_def of_nat_unat option.case if_False)
qed

lemma decode_record:
  assumes ok: "record_ok e" and body: "m_body (me_message e) = Some body"
    and magic: "value_of_magic_code magic = Some version" "fits_signed 4 magic"
  shows "decode env True False False False False (record_bytes magic e body @ rest) = do {
     ((topic, props), buf) \<leftarrow> decode_tail version False (tail_bytes e @ rest);
     Some (Some (read_as e body topic props), buf) }"
  using decode_record_head [OF _ magic, of e body env "tail_bytes e @ rest"] ok
  by (simp add: record_bytes_def record_ok_def body)

lemma decode_tail_v2:
  assumes "record_ok e"
  shows "decode_tail MsgV2 False (tail_bytes e @ rest) =
    Some ((m_topic (me_message e), m_properties (me_message e)), rest)"
proof -
  let ?t = "m_topic (me_message e)" and ?p = "props_text e"
  have ok: "length ?t < 2 ^ 15" "valid_utf8 ?t" "properties_ok (m_properties (me_message e))"
    "length ?p < 2 ^ 15" "valid_utf8 ?p"
    using assms by (simp_all add: record_ok_def)
  have fits: "fits_signed 2 (int (length ?t))" "fits_signed 2 (int (length ?p))"
    using ok by (simp_all add: fits_signed_def)
  have "properties_loop ?p [] = m_properties (me_message e)" by (rule properties_of_string [OF ok(3)])
  moreover have "m_properties (me_message e) = []" if "?p = []"
    using that \<open>properties_loop ?p [] = _\<close> by (simp add: properties_loop.simps)
  ultimately show ?thesis
    using ok fits from_utf8_lossy_valid [OF ok(5)]
    by (cases "?p = []") (simp_all add: decode_tail_def tail_bytes_def string_to_message_properties_def Let_def)
qed

lemma decode_tail_v1:
  assumes "length (m_topic (me_message e)) < 256" "decode_tail MsgV1 sp (tail_bytes e @ rest) = Some ((topic, props), buf)"
  shows "topic = []"
proof -
  have "put_i16 (int (length (m_topic (me_message e)))) = put_u8 0 @ put_u8 (length (m_topic (me_message e)))"
    using assms(1) by (simp add: put_signed_def put_unsigned_def numeral_2_eq_2)
  then show ?thesis
    using assms by (auto simp: decode_tail_def tail_bytes_def fits_unsigned_def Let_def take_bytes_def
        split: bind_splits if_splits)
qed

text \<open>Data for examples.\<close>

definition sample_inner :: message where
  "sample_inner = message_default\<lparr>m_flag := 3, m_properties := [([75], [118])], m_body := Some [1, 2]\<rparr>"

definition sample_stored :: message_ext where
  "sample_stored = message_ext_default\<lparr>me_message := sample_inner\<lparr>m_topic := [84]\<rparr>, me_commit_log_offset := 9\<rparr>"

lemma sample_properties: "properties_ok [([75], [118])]" "message_properties_to_string [([75], [118])] = [75, 1, 118, 2]"
  by (simp_all add: properties_ok_def property_ok_def hm_inv_def message_properties_to_string_def
      name_value_separator_def property_separator_def)

lemma sample_inner_ok: "inner_ok sample_inner"
  by (simp add: inner_ok_def sample_inner_def message_default_def sample_properties fits_signed_def valid_ascii)

lemma sample_stored_ok: "record_ok sample_stored"
  by (simp add: record_ok_def head_ok_def sample_stored_def sample_inner_def message_default_def message_ext_default_def
      sample_properties fits_signed_def valid_ascii has_flag_def)

section \<open>Statements\<close>

text \<open>
  A batch of messages is read back as it was written, properties included, whatever the number
  of messages: encoding succeeds and decoding gives exactly the messages.
\<close>

lemma message_batch_roundtrip:
  assumes "list_all inner_ok ms"
  shows "\<exists>bs. encode_messages ms = Some bs \<and> decode_messages bs = Some ms"
proof -
  let ?bs = "concat (map put_message_bytes ms)"
  have "read_all (length ?bs) decode_message ?bs = Some ms"
    by (rule inner.read_all_concat [OF assms inner.length_concat_put [OF assms]])
  then show ?thesis using encode_messages_concat [OF assms] by (simp add: decode_messages_def)
qed

text \<open>
  C33. Counting the messages of a batch returns and is right for every encoded batch. It never
  returns for a buffer that starts with a message size of zero, because the loop makes no progress.
\<close>

theorem inner_count_terminates_on_batches:
  assumes "list_all inner_ok ms" and "encode_messages ms = Some bs" and "get_i32 junk = Some (0, rest)"
  shows "count_inner_msg_num (Some bs) = Some (Returned (of_nat (length ms))) \<and>
    count_inner_msg_num (Some junk) = None"
proof -
  have "junk \<noteq> []" using get_signed_length [OF assms(3)] by auto
  then have "count_inner_loop 0 junk = None"
    using count_inner_zero [of 0 junk] assms(3) by (cases "count_inner_loop 0 junk") auto
  moreover have "bs = concat (map put_message_bytes ms)"
    using encode_messages_concat [OF assms(1)] assms(2) by simp
  ultimately show ?thesis
    using count_inner_batch [OF assms(1), of 0] by (simp add: count_inner_msg_num_def)
qed

theorem inner_count_terminates_on_batches_witness:
  "count_inner_msg_num (Some (put_i32 0 @ [7])) = None"
proof -
  have "get_i32 (put_i32 0 @ [7]) = Some (0, [7])" by (rule get_put_signed) (simp_all add: fits_signed_def)
  from inner_count_terminates_on_batches [OF _ _ this, of "[]" "[]"] show ?thesis by simp
qed

text \<open>
  A message id identifies the host and the position of a message: decoding the id built from an
  IPv4 or IPv6 address, a port and a log offset gives them back.
\<close>

lemma message_id_roundtrip:
  assumes "addr_ok a" and "fits_signed 8 off"
  shows "decode_message_id (build_message_id a off) = Some (a, off)"
  using message_id_decodes [OF assms] .

text \<open>
  The decoder of stored messages inverts the encoder but for the magic code: with the magic
  code of the second version in its place, every field of an encoded message is read back, in front
  of whatever follows in the buffer. As the encoder writes it, with the code of the first version
  and a topic length of two bytes, the topic is lost: decoding panics or gives an empty topic.
\<close>

lemma stored_message_roundtrip_needs_v2:
  assumes "record_ok e" and "encode env e False = Some (Some bs)" and "m_body (me_message e) = Some body"
    and "length (m_topic (me_message e)) < 256"
  shows "decode env True False False False False (take 4 bs @ put_i32 message_magic_code_v2 @ drop 8 bs @ rest) =
      Some (Some (read_as e body (m_topic (me_message e)) (m_properties (me_message e))), rest) \<and>
    (decode env True False False False False (bs @ rest) = None \<or>
      (\<exists>props rest'. decode env True False False False False (bs @ rest) =
        Some (Some (read_as e body [] props), rest')))"
proof
  have codes: "value_of_magic_code message_magic_code_v2 = Some MsgV2" "fits_signed 4 message_magic_code_v2"
    "value_of_magic_code message_magic_code = Some MsgV1" "fits_signed 4 message_magic_code"
    by (simp_all add: value_of_magic_code_def message_magic_code_def message_magic_code_v2_def fits_signed_def)
  have bs: "bs = record_bytes message_magic_code e body"
    using encode_record [OF assms(3), of env] assms(2) by simp
  have "take 4 bs @ put_i32 message_magic_code_v2 @ drop 8 bs = record_bytes message_magic_code_v2 e body"
    unfolding bs record_bytes_def record_head_def by simp
  then show "decode env True False False False False (take 4 bs @ put_i32 message_magic_code_v2 @ drop 8 bs @ rest) =
      Some (Some (read_as e body (m_topic (me_message e)) (m_properties (me_message e))), rest)"
    using decode_record [OF assms(1,3) codes(1,2), of env rest] decode_tail_v2 [OF assms(1), of rest]
    by (simp flip: append_assoc)
  show "decode env True False False False False (bs @ rest) = None \<or>
      (\<exists>props rest'. decode env True False False False False (bs @ rest) =
        Some (Some (read_as e body [] props), rest'))"
  proof (cases "decode_tail MsgV1 False (tail_bytes e @ rest)")
    case None
    then show ?thesis unfolding bs decode_record [OF assms(1,3) codes(3,4)] by simp
  next
    case (Some r)
    obtain topic props rest' where r: "r = ((topic, props), rest')" by (metis surj_pair)
    have "topic = []" by (rule decode_tail_v1 [OF assms(4)]) (use Some r in simp)
    then show ?thesis unfolding bs decode_record [OF assms(1,3) codes(3,4)] by (auto simp: Some r)
  qed
qed

end
