(* ===== verification/Store_Encoder.thy ===== *)
theory Store_Encoder
  imports Message_Codec
begin

text \<open>
  The encoder the broker's store appends messages with
  (\<open>rocketmq-store/src/message_encoder/message_ext_encoder.rs\<close>): the length of a record, the record
  of one message, of a message without its properties, and of the messages of a batch. Written
  records are read with \<open>Message_Codec\<close>. The result \<open>None\<close> of an operation is a panic. Arithmetic
  on \<open>i32\<close> and \<open>i16\<close> wraps.
\<close>

section \<open>State\<close>

datatype put_message_status =
  PutOk | FlushDiskTimeout | FlushSlaveTimeout | SlaveNotAvailable | ServiceNotAvailable
| CreateMappedFileFailed | MessageIllegal | PropertiesSizeExceeded | OsPageCacheBusy | UnknownError
| InSyncReplicasNotEnough | PutToRemoteBrokerFail | LmqConsumeQueueNumExceeded
| WheelTimerFlowControl | WheelTimerMsgIllegal | WheelTimerNotEnable

text \<open>The append result of a \<open>PutMessageResult\<close> of the encoder is always absent.\<close>

record put_message_result =
  put_status :: put_message_status
  put_remote :: bool

definition put_refused :: "put_message_status \<Rightarrow> put_message_result" where
  "put_refused st = \<lparr>put_status = st, put_remote = False\<rparr>"

record store_config =
  sc_max_message_size :: i32
  sc_enabled_append_prop_crc :: bool
  sc_enable_multi_dispatch :: bool

record message_ext_encoder =
  byte_buf :: bytes
  max_message_body_size :: i32
  max_message_size :: i32
  crc32_reserved_length :: i32
  enc_config :: store_config

record message_ext_broker_inner =
  bi_ext :: message_ext
  bi_properties_string :: bytes
  bi_tags_code :: i64
  bi_version :: message_version

record message_ext_batch =
  mb_inner :: message_ext_broker_inner
  mb_is_inner_batch :: bool

record put_message_context =
  pc_topic_queue_table_key :: bytes
  pc_phy_pos :: "i64 list"
  pc_batch_size :: i32

section \<open>Operations\<close>

definition i32_max :: i32 where "i32_max = 2 ^ 31 - 1"

definition crc32_reserved_len :: i32 where
  "crc32_reserved_len = int (length ''__CRC32#'' + 1 + 10 + 1)"

definition room_for_body :: "i32 \<Rightarrow> i32" where
  "room_for_body body_size =
     (if wrap_i32 (i32_max - body_size) \<ge> 64 * 1024 then wrap_i32 (body_size + 64 * 1024) else i32_max)"

definition new_encoder :: "store_config \<Rightarrow> message_ext_encoder" where
  "new_encoder cfg =
     \<lparr>byte_buf = [], max_message_body_size = sc_max_message_size cfg,
      max_message_size = room_for_body (sc_max_message_size cfg),
      crc32_reserved_length = (if sc_enabled_append_prop_crc cfg then crc32_reserved_len else 0),
      enc_config = cfg\<rparr>"

definition host_length :: "u32 \<Rightarrow> u32 \<Rightarrow> i32" where
  "host_length sys_flag v6_flag = (if sys_flag AND v6_flag = 0 then 8 else 20)"

definition cal_msg_length_no_properties :: "message_version \<Rightarrow> u32 \<Rightarrow> i32 \<Rightarrow> i32 \<Rightarrow> i32" where
  "cal_msg_length_no_properties version sys_flag body_length topic_length =
     wrap_i32 (4 + 4 + 4 + 4 + 4 + 8 + 8 + 4 + 8 + host_length sys_flag bornhost_v6_flag + 8 +
       host_length sys_flag storehostaddress_v6_flag + 4 + 8 + 4 + max body_length 0 +
       int (get_topic_length_size version) + topic_length)"

definition cal_msg_length :: "message_version \<Rightarrow> u32 \<Rightarrow> i32 \<Rightarrow> i32 \<Rightarrow> i32 \<Rightarrow> i32" where
  "cal_msg_length version sys_flag body_length topic_length properties_length =
     wrap_i32 (4 + 4 + 4 + 4 + 4 + 8 + 8 + 4 + 8 + host_length sys_flag bornhost_v6_flag + 8 +
       host_length sys_flag storehostaddress_v6_flag + 4 + 8 + 4 + max body_length 0 +
       int (get_topic_length_size version) + topic_length + 2 + max properties_length 0)"

fun get_magic_code :: "message_version \<Rightarrow> i32" where
  "get_magic_code MsgV1 = message_magic_code"
| "get_magic_code MsgV2 = message_magic_code_v2"

text \<open>Field 16 of a record; its fields 1 to 15 are \<open>record_head\<close>.\<close>

definition put_topic :: "message_version \<Rightarrow> bytes \<Rightarrow> bytes" where
  "put_topic version topic_data =
     (if version = MsgV2 then put_u16 (length topic_data) else put_u8 (length topic_data)) @ topic_data"

definition stored_body :: "message_ext_broker_inner \<Rightarrow> bytes" where
  "stored_body m = (case m_body (me_message (bi_ext m)) of None \<Rightarrow> [] | Some b \<Rightarrow> b)"

abbreviation inner_topic :: "message_ext_broker_inner \<Rightarrow> bytes" where
  "inner_topic m \<equiv> m_topic (me_message (bi_ext m))"

definition encode_without_properties ::
  "message_ext_encoder \<Rightarrow> message_ext_broker_inner \<Rightarrow> message_ext_encoder \<times> put_message_result option" where
  "encode_without_properties enc m =
     (let body = stored_body m
      in if length body > as_usize (max_message_body_size enc) then (enc, Some (put_refused MessageIllegal))
         else let msg_len = cal_msg_length_no_properties (bi_version m) (me_sys_flag (bi_ext m))
                    (wrap_i32 (int (length body))) (wrap_i32 (int (length (inner_topic m))))
              in (enc\<lparr>byte_buf := byte_buf enc @
                    record_head (get_magic_code (bi_version m))
                      ((bi_ext m)\<lparr>me_store_size := msg_len, me_queue_offset := 0, me_commit_log_offset := 0\<rparr>) body @
                    put_topic (bi_version m) (inner_topic m)\<rparr>, None))"

definition retry_group_topic_prefix :: bytes where
  "retry_group_topic_prefix = map (of_nat \<circ> of_char) ''%RETRY%''"

definition property_inner_multi_dispatch :: bytes where
  "property_inner_multi_dispatch = map (of_nat \<circ> of_char) ''INNER_MULTI_DISPATCH''"

definition is_multi_dispatch_msg :: "message_ext_broker_inner \<Rightarrow> bool" where
  "is_multi_dispatch_msg m \<longleftrightarrow>
     (case hm_get (m_properties (me_message (bi_ext m))) property_inner_multi_dispatch of
        None \<Rightarrow> False | Some s \<Rightarrow> s \<noteq> []) \<and>
     take (length retry_group_topic_prefix) (inner_topic m) = retry_group_topic_prefix"

text \<open>
  \<open>advance\<close> of the \<open>bytes\<close> crate drops bytes at the front of the buffer, and panics when there are
  fewer.
\<close>

definition advance :: "nat \<Rightarrow> bytes \<Rightarrow> bytes option" where
  "advance n buf = (if n \<le> length buf then Some (drop n buf) else None)"

definition needs_separator :: "bytes \<Rightarrow> bool" where
  "needs_separator data \<longleftrightarrow> data \<noteq> [] \<and> last data \<noteq> property_separator"

definition encoder_encode ::
  "message_ext_encoder \<Rightarrow> message_ext_broker_inner \<Rightarrow> (message_ext_encoder \<times> put_message_result option) option" where
  "encoder_encode enc0 m =
     (let enc = enc0\<lparr>byte_buf := []\<rparr>
      in if sc_enable_multi_dispatch (enc_config enc) \<and> is_multi_dispatch_msg m
         then Some (encode_without_properties enc m)
         else
           let data = bi_properties_string m;
               reserved = as_usize (crc32_reserved_length enc);
               separate = crc32_reserved_length enc > 0 \<and> needs_separator data;
               properties_length = length data + (if separate then 1 else 0) + reserved
           in if properties_length > 32767 then Some (enc, Some (put_refused PropertiesSizeExceeded))
              else let body = stored_body m;
                       msg_len = cal_msg_length (bi_version m) (me_sys_flag (bi_ext m))
                         (wrap_i32 (int (length body))) (wrap_i32 (int (length (inner_topic m))))
                         (wrap_i32 (int properties_length))
                   in if length body > as_usize (max_message_body_size enc)
                      then Some (enc, Some (put_refused MessageIllegal))
                      else if msg_len > max_message_size enc
                      then Some (enc, Some (put_refused MessageIllegal))
                      else do {
                        buf \<leftarrow> advance reserved
                          (record_head (get_magic_code (bi_version m))
                             ((bi_ext m)\<lparr>me_store_size := msg_len, me_commit_log_offset := 0\<rparr>) body @
                           put_topic (bi_version m) (inner_topic m) @ put_u16 properties_length @
                           (if properties_length > reserved then data else []) @
                           (if separate then [property_separator] else []));
                        Some (enc\<lparr>byte_buf := buf\<rparr>, None) })"

definition wrap_i16 :: "int \<Rightarrow> int" where
  "wrap_i16 i = (i + 2 ^ 15) mod 2 ^ 16 - 2 ^ 15"

text \<open>One round of \<open>encode_batch\<close>: an inner message is read and its record appended to the buffer.\<close>

definition encode_inner ::
  "message_ext_encoder \<Rightarrow> message_ext_broker_inner \<Rightarrow> bytes \<Rightarrow> bytes \<Rightarrow> bytes \<Rightarrow> (bytes \<times> bytes) option" where
  "encode_inner enc m batch_prop_data buf messages = do {
     (_, messages) \<leftarrow> get_i32 messages;
     (_, messages) \<leftarrow> get_i32 messages;
     (body_crc, messages) \<leftarrow> get_i32 messages;
     (flag, messages) \<leftarrow> get_i32 messages;
     (body_len, messages) \<leftarrow> get_i32 messages;
     (body, messages) \<leftarrow> take_bytes (as_usize body_len) messages;
     (properties_len, messages) \<leftarrow> get_i16 messages;
     (properties_body, messages) \<leftarrow> take_bytes (as_usize properties_len) messages;
     let batch_prop_len = int (length batch_prop_data);
     let separate = properties_len > 0 \<and> batch_prop_len > 0 \<and> needs_separator properties_body;
     let total_prop_len =
       wrap_i16 (wrap_i16 (properties_len + batch_prop_len + (if separate then 1 else 0)) +
         wrap_i16 (crc32_reserved_length enc));
     let e = bi_ext m;
     let msg_len = cal_msg_length (bi_version m) (me_sys_flag e) body_len
       (wrap_i32 (int (length (inner_topic m)))) total_prop_len;
     buf \<leftarrow> advance (as_usize (crc32_reserved_length enc))
       (buf @ record_head (get_magic_code (bi_version m))
          (e\<lparr>me_message := (me_message e)\<lparr>m_flag := flag\<rparr>, me_store_size := msg_len,
             me_body_crc := word_of_int body_crc, me_queue_offset := 0, me_commit_log_offset := 0,
             me_prepared_transaction_offset := 0\<rparr>) body @
        put_topic (bi_version m) (inner_topic m) @ put_i16 total_prop_len @ properties_body @
        (if batch_prop_len > 0 then (if separate then [property_separator] else []) @ batch_prop_data else []));
     Some (buf, messages) }"

text \<open>Every round reads at least 22 bytes, so the length of the input bounds the rounds.\<close>

fun encode_batch_loop ::
  "nat \<Rightarrow> message_ext_encoder \<Rightarrow> message_ext_broker_inner \<Rightarrow> bytes \<Rightarrow> bytes \<Rightarrow> bytes \<Rightarrow> nat \<Rightarrow> (bytes \<times> nat) option" where
  "encode_batch_loop fuel enc m props buf [] n = Some (buf, n)"
| "encode_batch_loop 0 enc m props buf messages n = None"
| "encode_batch_loop (Suc fuel) enc m props buf messages n = do {
     (buf, messages) \<leftarrow> encode_inner enc m props buf messages;
     encode_batch_loop fuel enc m props buf messages (Suc n) }"

definition encode_batch ::
  "message_ext_encoder \<Rightarrow> message_ext_batch \<Rightarrow> put_message_context \<Rightarrow>
   (message_ext_encoder \<times> put_message_context \<times> bytes option) option" where
  "encode_batch enc0 batch ctx =
     (let enc = enc0\<lparr>byte_buf := []\<rparr>; m = mb_inner batch
      in case m_body (me_message (bi_ext m)) of
           None \<Rightarrow> Some (enc, ctx, None)
         | Some messages \<Rightarrow>
             if length messages > as_usize (max_message_body_size enc) then Some (enc, ctx, None)
             else let props = message_properties_to_string (m_properties (me_message (bi_ext m)))
                  in if length props > 32767 then Some (enc, ctx, None)
                     else do {
                       (buf, n) \<leftarrow> encode_batch_loop (length messages) enc m props [] messages 0;
                       Some (enc, ctx\<lparr>pc_batch_size := int n, pc_phy_pos := replicate n 0\<rparr>, Some buf) })"

definition get_encoder_buffer :: "message_ext_encoder \<Rightarrow> message_ext_encoder \<times> bytes" where
  "get_encoder_buffer enc = (enc\<lparr>byte_buf := []\<rparr>, byte_buf enc)"

definition get_max_message_body_size :: "message_ext_encoder \<Rightarrow> i32" where
  "get_max_message_body_size enc = max_message_body_size enc"

definition update_encoder_buffer_capacity :: "message_ext_encoder \<Rightarrow> i32 \<Rightarrow> message_ext_encoder" where
  "update_encoder_buffer_capacity enc body_size =
     (let n = as_usize (room_for_body body_size)
      in enc\<lparr>max_message_body_size := body_size, max_message_size := room_for_body body_size,
           byte_buf := take n (byte_buf enc) @ replicate (n - length (byte_buf enc)) 0\<rparr>)"

section \<open>Lengths and the tail of a record\<close>

definition topic_fits :: "message_version \<Rightarrow> bytes \<Rightarrow> bool" where
  "topic_fits version topic \<longleftrightarrow> valid_utf8 topic \<and> length topic < (case version of MsgV1 \<Rightarrow> 2 ^ 8 | MsgV2 \<Rightarrow> 2 ^ 15)"

lemma topic_fits_length: "topic_fits version topic \<Longrightarrow> length topic < 2 ^ 15"
  by (cases version) (auto simp: topic_fits_def)

lemma magic_codes [simp]:
  "value_of_magic_code (get_magic_code v) = Some v" "fits_signed 4 (get_magic_code v)"
  by (cases v; simp add: value_of_magic_code_def message_magic_code_def message_magic_code_v2_def fits_signed_def)+

lemma length_put_host: "host_ok (has_flag fl v6) a \<Longrightarrow> int (length (put_host a)) = host_length fl v6"
  by (cases a) (auto simp: put_host_def host_length_def has_flag_def)

lemma length_put_topic: "length (put_topic v topic) = get_topic_length_size v + length topic"
  by (cases v) (simp_all add: put_topic_def)

lemma length_record_head:
  assumes "head_ok e body"
  shows "int (length (record_head magic e body)) = 4 + 4 + 4 + 4 + 4 + 8 + 8 + 4 + 8 +
    host_length (me_sys_flag e) bornhost_v6_flag + 8 + host_length (me_sys_flag e) storehostaddress_v6_flag +
    4 + 8 + 4 + int (length body)"
  using assms length_put_host [of "me_sys_flag e" bornhost_v6_flag "me_born_host e"]
    length_put_host [of "me_sys_flag e" storehostaddress_v6_flag "me_store_host e"]
  by (simp add: record_head_def put_front_def head_ok_def)

lemma length_record_head_resized:
  "length (record_head magic (e\<lparr>me_store_size := n, me_commit_log_offset := c\<rparr>) body) =
     length (record_head magic e body)"
  by (simp add: record_head_def put_front_def)

lemma host_length_le: "0 < host_length fl v6" "host_length fl v6 \<le> 20"
  by (simp_all add: host_length_def)

lemma cal_msg_length_exact:
  assumes "body < 2 ^ 31 - 2 ^ 17" "topic < 2 ^ 15" "props < 2 ^ 15"
  shows "cal_msg_length v fl (int body) (int topic) (int props) =
    4 + 4 + 4 + 4 + 4 + 8 + 8 + 4 + 8 + host_length fl bornhost_v6_flag + 8 +
    host_length fl storehostaddress_v6_flag + 4 + 8 + 4 + int body + int (get_topic_length_size v) +
    int topic + 2 + int props"
proof -
  have "get_topic_length_size v \<le> 2" by (cases v) simp_all
  then show ?thesis
    unfolding cal_msg_length_def
    using assms host_length_le [of fl bornhost_v6_flag] host_length_le [of fl storehostaddress_v6_flag]
    by (subst wrap_i32_id) (simp_all add: is_i32_def)
qed

lemma get_put_topic:
  assumes "topic_fits v topic"
  shows "do { (n, buf) \<leftarrow> get_topic_length v (put_topic v topic @ rest); take_bytes n buf } = Some (topic, rest)"
proof (cases v)
  case MsgV1
  then show ?thesis using assms by (simp add: put_topic_def topic_fits_def fits_unsigned_def)
next
  case MsgV2
  then have "length topic < 2 ^ 15" using assms by (simp add: topic_fits_def)
  then have "put_u16 (length topic) = put_i16 (int (length topic))" "fits_signed 2 (int (length topic))"
    by (simp_all add: put_unsigned_def put_signed_def fits_signed_def nat_mod_as_int)
  then show ?thesis using MsgV2 \<open>length topic < 2 ^ 15\<close> by (simp add: put_topic_def)
qed

lemma decode_tail_record:
  assumes topic: "topic_fits v topic" and props: "length txtb < 2 ^ 15" "valid_utf8 txtb"
  shows "decode_tail v False (put_topic v topic @ put_i16 (int (length txtb)) @ txtb @ rest) =
    Some ((topic, properties_loop txtb []), rest)"
proof -
  let ?rest = "put_i16 (int (length txtb)) @ txtb @ rest"
  obtain n buf where n: "get_topic_length v (put_topic v topic @ ?rest) = Some (n, buf)"
    and buf: "take_bytes n buf = Some (topic, ?rest)"
    using get_put_topic [OF topic, of ?rest] by (auto split: bind_splits)
  have fits: "fits_signed 2 (int (length txtb))" using props by (simp add: fits_signed_def)
  have "valid_utf8 topic" using topic by (simp add: topic_fits_def)
  then show ?thesis
    unfolding decode_tail_def n bind.bind_lunit prod.case buf
    using props fits from_utf8_lossy_valid [OF props(2)]
    by (cases "txtb = []") (simp_all add: string_to_message_properties_def Let_def
        properties_loop.simps [of "[]"])
qed

text \<open>A whole record, its size included.\<close>

definition whole_record :: "message_version \<Rightarrow> message_ext \<Rightarrow> bytes \<Rightarrow> bytes \<Rightarrow> bytes \<Rightarrow> bytes" where
  "whole_record v e body topic props =
     record_head (get_magic_code v) e body @ put_topic v topic @ put_i16 (int (length props)) @ props"

abbreviation record_size :: "message_version \<Rightarrow> message_ext \<Rightarrow> bytes \<Rightarrow> bytes \<Rightarrow> bytes \<Rightarrow> i32" where
  "record_size v e body topic props \<equiv>
     cal_msg_length v (me_sys_flag e) (int (length body)) (int (length topic)) (int (length props))"

lemma whole_record_reads:
  assumes "head_ok e body" "length body < 2 ^ 31 - 2 ^ 17" "topic_fits v topic" "length props < 2 ^ 15"
    "valid_utf8 props" "me_store_size e = record_size v e body topic props"
  shows "int (length (whole_record v e body topic props)) = me_store_size e"
    "decode env True False False False False (whole_record v e body topic props @ rest) =
       Some (Some (read_as e body topic (properties_loop props [])), rest)"
proof -
  show "int (length (whole_record v e body topic props)) = me_store_size e"
    using cal_msg_length_exact [OF assms(2) topic_fits_length [OF assms(3)] assms(4), of v "me_sys_flag e"]
      length_record_head [OF assms(1), of "get_magic_code v"]
    by (simp add: whole_record_def length_put_topic assms(6))
  show "decode env True False False False False (whole_record v e body topic props @ rest) =
       Some (Some (read_as e body topic (properties_loop props [])), rest)"
    unfolding whole_record_def append_assoc decode_record_head [OF assms(1) magic_codes]
      decode_tail_record [OF assms(3-5)] by simp
qed

lemma head_ok_resized:
  assumes "head_ok e body" "length body < 2 ^ 31 - 2 ^ 17" "topic_fits v topic" "length props < 2 ^ 15"
  shows "head_ok (e\<lparr>me_store_size := record_size v e body topic props\<rparr>) body"
proof -
  have "get_topic_length_size v \<le> 2" by (cases v) simp_all
  then have "fits_signed 4 (record_size v e body topic props)"
    unfolding cal_msg_length_exact [OF assms(2) topic_fits_length [OF assms(3)] assms(4)]
    using assms(2,4) topic_fits_length [OF assms(3)] host_length_le [of "me_sys_flag e" bornhost_v6_flag]
      host_length_le [of "me_sys_flag e" storehostaddress_v6_flag]
    by (simp add: fits_signed_def)
  then show ?thesis using assms(1) by (simp add: head_ok_def)
qed

section \<open>One message\<close>

definition storable :: "message_ext_broker_inner \<Rightarrow> bool" where
  "storable m \<longleftrightarrow> head_ok (bi_ext m) (stored_body m) \<and> length (stored_body m) < 2 ^ 31 - 2 ^ 17 \<and>
     topic_fits (bi_version m) (inner_topic m) \<and> length (bi_properties_string m) < 2 ^ 15 \<and>
     valid_utf8 (bi_properties_string m)"

abbreviation inner_size :: "message_ext_broker_inner \<Rightarrow> i32" where
  "inner_size m \<equiv> record_size (bi_version m) (bi_ext m) (stored_body m) (inner_topic m) (bi_properties_string m)"

lemma put_u16_i16: "n < 2 ^ 15 \<Longrightarrow> put_u16 n = put_i16 (int n)"
  by (simp add: put_unsigned_def put_signed_def nat_mod_as_int)

lemma wrap_i32_nat: "n < 2 ^ 31 \<Longrightarrow> wrap_i32 (int n) = int n"
  by (rule wrap_i32_id) (simp add: is_i32_def)

lemma encode_record_bytes:
  assumes "storable m" "crc32_reserved_length enc = 0"
    "\<not> (sc_enable_multi_dispatch (enc_config enc) \<and> is_multi_dispatch_msg m)"
    "length (stored_body m) \<le> as_usize (max_message_body_size enc)" "inner_size m \<le> max_message_size enc"
  shows "encoder_encode enc m = Some (enc\<lparr>byte_buf := whole_record (bi_version m)
    ((bi_ext m)\<lparr>me_store_size := inner_size m, me_commit_log_offset := 0\<rparr>) (stored_body m) (inner_topic m)
    (bi_properties_string m)\<rparr>, None)"
proof -
  have small: "length (stored_body m) < 2 ^ 31" "length (inner_topic m) < 2 ^ 31"
    "length (bi_properties_string m) < 2 ^ 31" "length (bi_properties_string m) < 2 ^ 15"
    using assms(1) topic_fits_length [of "bi_version m" "inner_topic m"] by (simp_all add: storable_def)
  show ?thesis
    using assms(2-5) small
    by (auto simp: encoder_encode_def Let_def advance_def whole_record_def wrap_i32_nat put_u16_i16)
qed

section \<open>A batch\<close>

definition merged_text :: "message_ext_broker_inner \<Rightarrow> message \<Rightarrow> bytes" where
  "merged_text m x =
     message_properties_to_string (m_properties x) @ message_properties_to_string (m_properties (me_message (bi_ext m)))"

text \<open>The fields of the record of an inner message.\<close>

definition inner_ext :: "message_ext_broker_inner \<Rightarrow> message \<Rightarrow> message_ext" where
  "inner_ext m x =
     (bi_ext m)\<lparr>me_message := (me_message (bi_ext m))\<lparr>m_flag := m_flag x\<rparr>,
       me_store_size := record_size (bi_version m) (bi_ext m) (the (m_body x)) (inner_topic m) (merged_text m x),
       me_body_crc := 0, me_queue_offset := 0, me_commit_log_offset := 0, me_prepared_transaction_offset := 0\<rparr>"

definition inner_record :: "message_ext_broker_inner \<Rightarrow> message \<Rightarrow> bytes" where
  "inner_record m x = whole_record (bi_version m) (inner_ext m x) (the (m_body x)) (inner_topic m) (merged_text m x)"

text \<open>What a reader gets: properties of the batch replace those of the message.\<close>

definition inner_stored :: "message_ext_broker_inner \<Rightarrow> message \<Rightarrow> message_ext" where
  "inner_stored m x = read_as (inner_ext m x) (the (m_body x)) (inner_topic m)
     (fold (\<lambda>(k, v). hm_insert k v) (m_properties (me_message (bi_ext m))) (m_properties x))"

definition batch_ok :: "message_ext_broker_inner \<Rightarrow> bool" where
  "batch_ok m \<longleftrightarrow> head_ok (bi_ext m) [] \<and> topic_fits (bi_version m) (inner_topic m) \<and>
     properties_ok (m_properties (me_message (bi_ext m)))"

definition fits_batch :: "message_ext_broker_inner \<Rightarrow> message \<Rightarrow> bool" where
  "fits_batch m x \<longleftrightarrow> inner_ok x \<and> length (the (m_body x)) < 2 ^ 31 - 2 ^ 17 \<and>
     length (merged_text m x) < 2 ^ 15 \<and> valid_utf8 (merged_text m x)"

lemma properties_text_complete: "\<not> needs_separator (message_properties_to_string kvs)"
  by (cases kvs rule: rev_cases) (auto simp: needs_separator_def message_properties_to_string_def)

lemma properties_loop_append:
  "list_all property_ok kvs \<Longrightarrow>
     properties_loop (message_properties_to_string kvs @ rest) m = properties_loop rest (fold (\<lambda>(k, v). hm_insert k v) kvs m)"
proof (induction kvs arbitrary: m)
  case Nil
  then show ?case by (simp add: message_properties_to_string_def)
next
  case (Cons kv kvs)
  then show ?case
    using properties_loop_pair [of "fst kv" "snd kv" "message_properties_to_string kvs @ rest" m]
    by (simp add: message_properties_to_string_def case_prod_beta)
qed

lemma properties_loop_fold:
  "list_all property_ok kvs \<Longrightarrow>
     properties_loop (message_properties_to_string kvs) m = fold (\<lambda>(k, v). hm_insert k v) kvs m"
  using properties_loop_append [of kvs "[]" m] by (simp add: properties_loop.simps)

lemma merged_properties:
  assumes "properties_ok (m_properties x)" "properties_ok (m_properties (me_message (bi_ext m)))"
  shows "properties_loop (merged_text m x) [] =
    fold (\<lambda>(k, v). hm_insert k v) (m_properties (me_message (bi_ext m))) (m_properties x)"
  using assms properties_of_string [OF assms(1)]
  by (simp add: merged_text_def properties_ok_def properties_loop_append properties_loop_fold)

lemma put_message_bytes_fields:
  assumes "inner_ok x"
  shows "put_message_bytes x = put_i32 (int (22 + length (the (m_body x)) +
      length (message_properties_to_string (m_properties x)))) @ put_i32 0 @ put_i32 0 @ put_i32 (m_flag x) @
    put_i32 (int (length (the (m_body x)))) @ the (m_body x) @
    put_i16 (int (length (message_properties_to_string (m_properties x)))) @
    message_properties_to_string (m_properties x)"
proof -
  have "put_u32 0 = put_i32 0" by (simp add: put_unsigned_def put_signed_def)
  then show ?thesis
    using inner_body [OF assms] by (auto simp: put_message_bytes_def encode_message_def Let_def add.assoc)
qed

lemma wrap_i16_nat: "n < 2 ^ 15 \<Longrightarrow> wrap_i16 (int n) = int n"
  by (simp add: wrap_i16_def)

lemma encode_inner_step:
  assumes "fits_batch m x" "batch_ok m" "crc32_reserved_length enc = 0"
  shows "encode_inner enc m (message_properties_to_string (m_properties (me_message (bi_ext m)))) buf
    (put_message_bytes x @ rest) = Some (buf @ inner_record m x, rest)"
proof -
  let ?b = "the (m_body x)" and ?p = "message_properties_to_string (m_properties x)"
    and ?q = "message_properties_to_string (m_properties (me_message (bi_ext m)))"
  have ok: "inner_ok x" "length (merged_text m x) < 2 ^ 15" "length ?b < 2 ^ 31 - 2 ^ 17"
    using assms(1) by (simp_all add: fits_batch_def)
  have merged: "merged_text m x = ?p @ ?q" by (simp add: merged_text_def)
  have small: "22 + length ?b + length ?p < 2 ^ 31" "length ?p < 2 ^ 15" "length ?b < 2 ^ 31"
    using ok inner_body [OF ok(1)] by (auto simp: inner_ok_def)
  have fits: "fits_signed 4 (int (22 + length ?b + length ?p))" "fits_signed 4 0" "fits_signed 4 (m_flag x)"
    "fits_signed 4 (int (length ?b))" "fits_signed 2 (int (length ?p))"
    using small ok(1) by (simp_all add: fits_signed_def inner_ok_def)
  have usz: "as_usize (int (length ?b)) = length ?b" "as_usize (int (length ?p)) = length ?p"
    using small by simp_all
  have lens: "wrap_i16 (int (length ?p) + int (length ?q)) = int (length ?p) + int (length ?q)"
    using wrap_i16_nat [of "length ?p + length ?q"] ok(2) by (simp add: merged)
  have topic: "wrap_i32 (int (length (inner_topic m))) = int (length (inner_topic m))"
    using assms(2) topic_fits_length [of "bi_version m" "inner_topic m"]
    by (intro wrap_i32_nat) (simp add: batch_ok_def)
  have "wrap_i16 0 = 0" by (simp add: wrap_i16_def)
  then show ?thesis
    unfolding encode_inner_def put_message_bytes_fields [OF ok(1)] append_assoc get_put_signed [OF zero_less_numeral fits(1)]
      get_put_signed [OF zero_less_numeral fits(2)] get_put_signed [OF zero_less_numeral fits(3)]
      get_put_signed [OF zero_less_numeral fits(4)] get_put_signed [OF zero_less_numeral fits(5)]
      bind.bind_lunit prod.case usz take_bytes_append [OF refl] Let_def
    by (simp add: assms(3) lens topic advance_def properties_text_complete inner_record_def whole_record_def
        inner_ext_def merged)
qed

lemma inner_record_head:
  assumes "fits_batch m x" "batch_ok m"
  shows "head_ok (inner_ext m x) (the (m_body x))" "int (length (inner_record m x)) = me_store_size (inner_ext m x)"
proof -
  have ok: "inner_ok x" "length (merged_text m x) < 2 ^ 15" "length (the (m_body x)) < 2 ^ 31 - 2 ^ 17"
    "valid_utf8 (merged_text m x)" "topic_fits (bi_version m) (inner_topic m)"
    using assms by (simp_all add: fits_batch_def batch_ok_def)
  let ?e = "(bi_ext m)\<lparr>me_message := (me_message (bi_ext m))\<lparr>m_flag := m_flag x\<rparr>,
    me_body_crc := 0, me_queue_offset := 0, me_commit_log_offset := 0, me_prepared_transaction_offset := 0\<rparr>"
  have "head_ok ?e (the (m_body x))"
    using assms(2) ok(1,3) by (simp add: head_ok_def batch_ok_def inner_ok_def fits_signed_def)
  from head_ok_resized [OF this ok(3,5,2)] show head: "head_ok (inner_ext m x) (the (m_body x))"
    by (simp add: inner_ext_def head_ok_def)
  have size: "me_store_size (inner_ext m x) =
      record_size (bi_version m) (inner_ext m x) (the (m_body x)) (inner_topic m) (merged_text m x)"
    by (simp add: inner_ext_def)
  show "int (length (inner_record m x)) = me_store_size (inner_ext m x)"
    unfolding inner_record_def by (rule whole_record_reads(1) [OF head ok(3,5,2,4) size])
qed

lemma inner_record_reads:
  assumes "fits_batch m x" "batch_ok m"
  shows "inner_record m x \<noteq> []"
    "decode env True False False False False (inner_record m x @ rest) = Some (Some (inner_stored m x), rest)"
proof -
  have ok: "inner_ok x" "length (merged_text m x) < 2 ^ 15" "length (the (m_body x)) < 2 ^ 31 - 2 ^ 17"
    "valid_utf8 (merged_text m x)" "topic_fits (bi_version m) (inner_topic m)"
    using assms by (simp_all add: fits_batch_def batch_ok_def)
  have size: "me_store_size (inner_ext m x) =
      record_size (bi_version m) (inner_ext m x) (the (m_body x)) (inner_topic m) (merged_text m x)"
    by (simp add: inner_ext_def)
  have props: "properties_loop (merged_text m x) [] =
      fold (\<lambda>(k, v). hm_insert k v) (m_properties (me_message (bi_ext m))) (m_properties x)"
    using assms(2) ok(1) by (intro merged_properties) (simp_all add: batch_ok_def inner_ok_def)
  show "decode env True False False False False (inner_record m x @ rest) = Some (Some (inner_stored m x), rest)"
    unfolding inner_record_def inner_stored_def
      whole_record_reads(2) [OF inner_record_head(1) [OF assms] ok(3,5,2,4) size] props ..
  have "4 \<le> length (inner_record m x)" by (simp add: inner_record_def whole_record_def record_head_def)
  then show "inner_record m x \<noteq> []" by auto
qed

lemma encode_batch_loop_all:
  assumes "list_all (fits_batch m) xs" "batch_ok m" "crc32_reserved_length enc = 0" "length xs \<le> fuel"
  shows "encode_batch_loop fuel enc m (message_properties_to_string (m_properties (me_message (bi_ext m)))) buf
    (concat (map put_message_bytes xs)) n = Some (buf @ concat (map (inner_record m) xs), n + length xs)"
  using assms(1,4)
proof (induction xs arbitrary: fuel buf n)
  case Nil
  then show ?case by simp
next
  case (Cons x xs)
  then obtain f where fuel: "fuel = Suc f" by (cases fuel) auto
  have step: "encode_inner enc m (message_properties_to_string (m_properties (me_message (bi_ext m)))) buf
      (put_message_bytes x @ concat (map put_message_bytes xs)) =
      Some (buf @ inner_record m x, concat (map put_message_bytes xs))"
    using encode_inner_step [OF _ assms(2,3)] Cons.prems by simp
  have "put_message_bytes x @ concat (map put_message_bytes xs) \<noteq> []"
    using inner.put_ne [of x] Cons.prems(1) by (simp add: fits_batch_def)
  then obtain b bs where bs: "put_message_bytes x @ concat (map put_message_bytes xs) = b # bs"
    by (cases "put_message_bytes x @ concat (map put_message_bytes xs)") auto
  then have "encode_batch_loop fuel enc m (message_properties_to_string (m_properties (me_message (bi_ext m)))) buf
      (concat (map put_message_bytes (x # xs))) n =
      encode_batch_loop f enc m (message_properties_to_string (m_properties (me_message (bi_ext m))))
        (buf @ inner_record m x) (concat (map put_message_bytes xs)) (Suc n)"
    using step by (simp add: fuel)
  then show ?case using Cons.IH [of f "buf @ inner_record m x" "Suc n"] Cons.prems fuel by simp
qed

lemma decodes_batch_all:
  assumes "list_all (fits_batch m) xs" "batch_ok m" "length xs \<le> fuel"
  shows "decodes_batch_loop fuel env True False (concat (map (inner_record m) xs)) = Some (map (inner_stored m) xs)"
  using assms(1,3)
proof (induction xs arbitrary: fuel)
  case Nil
  then show ?case by simp
next
  case (Cons x xs)
  then obtain f where fuel: "fuel = Suc f" by (cases fuel) auto
  have fx: "fits_batch m x" using Cons.prems by simp
  obtain b bs where bs: "inner_record m x @ concat (map (inner_record m) xs) = b # bs"
    using inner_record_reads(1) [OF fx assms(2)] by (cases "inner_record m x") auto
  have "decode env True False False False False (b # bs) =
      Some (Some (inner_stored m x), concat (map (inner_record m) xs))"
    using inner_record_reads(2) [OF fx assms(2), of env "concat (map (inner_record m) xs)"] bs by simp
  then show ?case using bs fuel Cons.IH [of f] Cons.prems by simp
qed

lemma encode_batch_records:
  assumes "list_all (fits_batch (mb_inner b)) xs" and "batch_ok (mb_inner b)"
    and "m_body (me_message (bi_ext (mb_inner b))) = encode_messages xs"
    and "crc32_reserved_length enc = 0"
    and "length (concat (map put_message_bytes xs)) \<le> as_usize (max_message_body_size enc)"
    and "length (message_properties_to_string (m_properties (me_message (bi_ext (mb_inner b))))) < 2 ^ 15"
  shows "encode_batch enc b ctx = Some (enc\<lparr>byte_buf := []\<rparr>,
    ctx\<lparr>pc_batch_size := int (length xs), pc_phy_pos := replicate (length xs) 0\<rparr>, Some (concat (map (inner_record (mb_inner b)) xs)))"
proof -
  have inner: "list_all inner_ok xs" using assms(1) by (induction xs) (auto simp: fits_batch_def)
  let ?bs = "concat (map put_message_bytes xs)" and ?out = "concat (map (inner_record (mb_inner b)) xs)"
  have body: "m_body (me_message (bi_ext (mb_inner b))) = Some ?bs"
    using encode_messages_concat [OF inner] assms(3) by simp
  have loop: "encode_batch_loop (length ?bs) (enc\<lparr>byte_buf := []\<rparr>) (mb_inner b)
      (message_properties_to_string (m_properties (me_message (bi_ext (mb_inner b))))) [] ?bs 0 =
      Some (?out, length xs)"
    using encode_batch_loop_all [OF assms(1,2) _ inner.length_concat_put [OF inner], of "enc\<lparr>byte_buf := []\<rparr>" "[]" 0]
      assms(4) by simp
  then show ?thesis using assms(5,6) by (simp add: encode_batch_def body Let_def)
qed

lemma records_length:
  assumes "list_all (fits_batch m) xs" "batch_ok m"
  shows "length xs \<le> length (concat (map (inner_record m) xs))"
  using assms(1)
proof (induction xs)
  case (Cons x xs)
  then show ?case using inner_record_reads(1) [OF _ assms(2), of x] by (cases "inner_record m x") auto
qed simp

text \<open>Data for examples: an encoder with the default limits, and messages of both versions.\<close>

definition default_store_config :: store_config where
  "default_store_config = \<lparr>sc_max_message_size = 1024 * 1024 * 4, sc_enabled_append_prop_crc = False,
     sc_enable_multi_dispatch = False\<rparr>"

definition sample_broker_inner :: "message_version \<Rightarrow> message_ext_broker_inner" where
  "sample_broker_inner v = \<lparr>bi_ext = sample_stored, bi_properties_string = [75, 1, 118, 2], bi_tags_code = 0,
     bi_version = v\<rparr>"

definition sample_crates :: message_env where
  "sample_crates = \<lparr>me_hash = (\<lambda>b. 0), me_compress = (\<lambda>t b. None), me_decompress = (\<lambda>t b. None)\<rparr>"

lemma sample_sizes:
  "room_for_body (1024 * 1024 * 4) = 4259840"
  by (simp add: room_for_body_def i32_max_def wrap_i32_def)

lemma sample_storable: "storable (sample_broker_inner v)"
  using sample_stored_ok
  by (cases v) (simp_all add: storable_def sample_broker_inner_def record_ok_def head_ok_def stored_body_def topic_fits_def
      sample_stored_def sample_inner_def valid_ascii)

definition sample_batch :: message_ext_batch where
  "sample_batch = \<lparr>mb_inner = \<lparr>bi_ext = sample_stored\<lparr>me_message := (me_message sample_stored)\<lparr>
       m_properties := [([75], [119])], m_body := encode_messages [sample_inner, sample_inner]\<rparr>\<rparr>,
     bi_properties_string = [], bi_tags_code = 0, bi_version = MsgV2\<rparr>, mb_is_inner_batch = False\<rparr>"

lemma sample_batch_ok:
  "batch_ok (mb_inner sample_batch)" "fits_batch (mb_inner sample_batch) sample_inner"
  "m_body (me_message (bi_ext (mb_inner sample_batch))) = encode_messages [sample_inner, sample_inner]"
  "length (message_properties_to_string (m_properties (me_message (bi_ext (mb_inner sample_batch))))) = 4"
proof -
  have props: "m_properties (me_message (bi_ext (mb_inner sample_batch))) = [([75], [119])]"
    "m_properties sample_inner = [([75], [118])]" "m_body sample_inner = Some [1, 2]"
    by (simp_all add: sample_batch_def sample_inner_def)
  have texts: "message_properties_to_string [([75], [119])] = [75, 1, 119, 2]" "properties_ok [([75], [119])]"
    by (simp_all add: properties_ok_def property_ok_def hm_inv_def message_properties_to_string_def
        name_value_separator_def property_separator_def)
  show "batch_ok (mb_inner sample_batch)"
    unfolding batch_ok_def props using texts(2) sample_stored_ok
    by (simp add: sample_batch_def record_ok_def head_ok_def topic_fits_def sample_stored_def sample_inner_def)
  show "fits_batch (mb_inner sample_batch) sample_inner"
    by (simp add: fits_batch_def sample_inner_ok merged_text_def props sample_properties(2) texts(1) valid_ascii)
  show "m_body (me_message (bi_ext (mb_inner sample_batch))) = encode_messages [sample_inner, sample_inner]"
    by (simp add: sample_batch_def)
  show "length (message_properties_to_string (m_properties (me_message (bi_ext (mb_inner sample_batch))))) = 4"
    by (simp add: props texts(1))
qed

section \<open>Statements\<close>

text \<open>
  C12. What the store's encoder writes is what the decoder reads: a message within the limits of the
  encoder is accepted in both versions of the format, the first field of its record is the length of
  the record, and decoding it in front of whatever follows gives every field of the message, with
  the properties its properties text says.
\<close>

theorem stored_record_decodes:
  assumes "storable m" and "crc32_reserved_length enc = 0"
    and "\<not> (sc_enable_multi_dispatch (enc_config enc) \<and> is_multi_dispatch_msg m)"
    and "length (stored_body m) \<le> as_usize (max_message_body_size enc)" and "inner_size m \<le> max_message_size enc"
  shows "\<exists>enc'. encoder_encode enc m = Some (enc', None) \<and> int (length (byte_buf enc')) = inner_size m \<and>
    decode env True False False False False (byte_buf enc' @ rest) =
      Some (Some (read_as ((bi_ext m)\<lparr>me_store_size := inner_size m, me_commit_log_offset := 0\<rparr>)
        (stored_body m) (inner_topic m) (properties_loop (bi_properties_string m) [])), rest)"
proof -
  have ok: "length (stored_body m) < 2 ^ 31 - 2 ^ 17" "topic_fits (bi_version m) (inner_topic m)"
    "length (bi_properties_string m) < 2 ^ 15" "valid_utf8 (bi_properties_string m)"
    "head_ok ((bi_ext m)\<lparr>me_commit_log_offset := 0\<rparr>) (stored_body m)"
    using assms(1) by (simp_all add: storable_def head_ok_def fits_signed_def)
  have "head_ok ((bi_ext m)\<lparr>me_store_size := inner_size m, me_commit_log_offset := 0\<rparr>) (stored_body m)"
    using head_ok_resized [OF ok(5,1,2,3)] by (simp add: head_ok_def)
  from whole_record_reads [OF this ok(1-4)] encode_record_bytes [OF assms] show ?thesis by simp
qed

theorem stored_record_decodes_witness:
  "\<exists>enc'. encoder_encode (new_encoder default_store_config) (sample_broker_inner MsgV1) = Some (enc', None) \<and>
     length (byte_buf enc') = 98 \<and>
     (\<exists>e. decode sample_crates True False False False False (byte_buf enc') = Some (Some e, []) \<and>
        m_topic (me_message e) = [84] \<and> m_properties (me_message e) = [([75], [118])])"
proof -
  let ?m = "sample_broker_inner MsgV1" and ?enc = "new_encoder default_store_config"
  have fields: "stored_body ?m = [1, 2]" "inner_topic ?m = [84]" "bi_properties_string ?m = [75, 1, 118, 2]"
    "bi_version ?m = MsgV1" "me_sys_flag (bi_ext ?m) = 0"
    by (simp_all add: stored_body_def sample_broker_inner_def sample_stored_def sample_inner_def message_ext_default_def)
  have sz: "cal_msg_length (bi_version ?m) (me_sys_flag (bi_ext ?m)) 2 1 4 = 98"
    unfolding fields by (simp add: cal_msg_length_def host_length_def wrap_i32_def)
  have enc: "crc32_reserved_length ?enc = 0" "\<not> sc_enable_multi_dispatch (enc_config ?enc)"
    "max_message_body_size ?enc = 4194304" "max_message_size ?enc = 4259840"
    using sample_sizes by (simp_all add: new_encoder_def default_store_config_def)
  have props: "properties_loop [75, 1, 118, 2] [] = [([75], [118])]"
    using properties_of_string [OF sample_properties(1)] by (simp add: sample_properties(2))
  show ?thesis
    using stored_record_decodes [OF sample_storable [of MsgV1] enc(1), of sample_crates "[]"] enc
    by (auto simp: fields(1-3) sz props read_as_def)
qed

text \<open>
  C7. A batch arrives whole: the messages a producer encodes into the body of a batch are appended by
  the store as one record each, and reading the records back gives every message, with the topic, the
  hosts and the flags of the batch, and with its own properties overridden by those of the batch. The
  context counts the messages.
\<close>

theorem stored_batch_decodes:
  assumes "list_all (fits_batch (mb_inner b)) xs" and "batch_ok (mb_inner b)"
    and "m_body (me_message (bi_ext (mb_inner b))) = encode_messages xs"
    and "crc32_reserved_length enc = 0"
    and "length (concat (map put_message_bytes xs)) \<le> as_usize (max_message_body_size enc)"
    and "length (message_properties_to_string (m_properties (me_message (bi_ext (mb_inner b))))) < 2 ^ 15"
  shows "\<exists>enc' ctx' out. encode_batch enc b ctx = Some (enc', ctx', Some out) \<and>
    pc_batch_size ctx' = int (length xs) \<and>
    decodes_batch env True False out = Some (map (inner_stored (mb_inner b)) xs)"
  using encode_batch_records [OF assms, of ctx] decodes_batch_all [OF assms(1,2) records_length [OF assms(1,2)], of env]
  by (simp add: decodes_batch_def)

theorem stored_batch_decodes_witness:
  "\<exists>enc' ctx' out. encode_batch (new_encoder default_store_config) sample_batch
      \<lparr>pc_topic_queue_table_key = [], pc_phy_pos = [], pc_batch_size = 0\<rparr> = Some (enc', ctx', Some out) \<and>
     pc_batch_size ctx' = 2 \<and>
     decodes_batch sample_crates True False out =
       Some (map (inner_stored (mb_inner sample_batch)) [sample_inner, sample_inner])"
proof -
  let ?xs = "[sample_inner, sample_inner]"
  have enc: "crc32_reserved_length (new_encoder default_store_config) = 0"
    "max_message_body_size (new_encoder default_store_config) = 4194304"
    by (simp_all add: new_encoder_def default_store_config_def)
  have len: "length (put_message_bytes sample_inner) = 28"
    by (simp add: put_message_bytes_def encode_message_def sample_inner_def sample_properties)
  show ?thesis
    using stored_batch_decodes [of sample_batch ?xs "new_encoder default_store_config" _ sample_crates]
      sample_batch_ok enc len by simp
qed

text \<open>
  C40. With a reserve for the checksum property the encoder damages what it writes: the reserve is
  skipped at the front of the buffer in place of its end, so the record starts at its twentieth
  byte, and it is forty bytes shorter than the size it should announce.
\<close>

theorem checksum_reserve_cuts_record:
  assumes "storable m" and "crc32_reserved_length enc = crc32_reserved_len"
    and "\<not> (sc_enable_multi_dispatch (enc_config enc) \<and> is_multi_dispatch_msg m)"
    and "\<not> needs_separator (bi_properties_string m)" and "length (bi_properties_string m) + 20 < 2 ^ 15"
    and "encoder_encode enc m = Some (enc', None)"
  shows "\<exists>e. me_store_size e = inner_size m + 20 \<and>
    byte_buf enc' = drop 20 (record_head (get_magic_code (bi_version m)) e (stored_body m) @
      put_topic (bi_version m) (inner_topic m) @ put_i16 (int (length (bi_properties_string m) + 20)) @
      bi_properties_string m) \<and>
    int (length (byte_buf enc')) = me_store_size e - 40"
proof -
  let ?n = "length (bi_properties_string m) + 20" and ?b = "stored_body m" and ?t = "inner_topic m"
  let ?size = "cal_msg_length (bi_version m) (me_sys_flag (bi_ext m)) (int (length ?b)) (int (length ?t)) (int ?n)"
  let ?e = "(bi_ext m)\<lparr>me_store_size := ?size, me_commit_log_offset := 0\<rparr>"
  let ?rec = "record_head (get_magic_code (bi_version m)) ?e ?b @ put_topic (bi_version m) ?t @ put_i16 (int ?n) @
    bi_properties_string m"
  have ok: "head_ok (bi_ext m) ?b" "length ?b < 2 ^ 31 - 2 ^ 17" "length ?t < 2 ^ 15"
    "length (bi_properties_string m) < 2 ^ 15"
    using assms(1) topic_fits_length by (auto simp: storable_def)
  have size: "?size = inner_size m + 20"
    using cal_msg_length_exact [OF ok(2,3) assms(5)] cal_msg_length_exact [OF ok(2,3,4)] by simp
  have wraps: "wrap_i32 (int (length ?b)) = int (length ?b)" "wrap_i32 (int (length ?t)) = int (length ?t)"
    "wrap_i32 (int ?n) = int ?n" "put_u16 ?n = put_i16 (int ?n)"
    using ok assms(5) by (simp_all add: is_i32_def put_u16_i16 [simplified])
  have usz: "as_usize crc32_reserved_len = 20" by (simp add: crc32_reserved_len_def)
  have "do { buf \<leftarrow> advance 20 ?rec; Some (enc\<lparr>byte_buf := buf\<rparr>, None :: put_message_result option) } =
      Some (enc', None)"
    using assms(2-6) wraps
    by (auto simp: encoder_encode_def Let_def usz split: if_splits)
  then have buf: "byte_buf enc' = drop 20 ?rec" and "20 \<le> length ?rec"
    by (auto simp: advance_def simp del: drop_append length_append split: if_splits)
  then have "int (length (byte_buf enc')) = int (length ?rec) - 20" unfolding buf length_drop by simp
  moreover have "int (length ?rec) = ?size - 20"
    using length_record_head [OF ok(1), of "get_magic_code (bi_version m)"]
      cal_msg_length_exact [OF ok(2,3) assms(5), of "bi_version m" "me_sys_flag (bi_ext m)"]
    by (simp add: length_record_head_resized length_put_topic)
  moreover have st: "me_store_size ?e = ?size" by simp
  ultimately have "int (length (byte_buf enc')) = me_store_size ?e - 40" unfolding st by linarith
  moreover have "me_store_size ?e = inner_size m + 20" using size by simp
  ultimately show ?thesis using buf by blast
qed

theorem checksum_reserve_cuts_record_witness:
  "\<exists>enc'. encoder_encode (new_encoder (default_store_config\<lparr>sc_enabled_append_prop_crc := True\<rparr>))
      (sample_broker_inner MsgV1) = Some (enc', None) \<and> length (byte_buf enc') = 78"
proof -
  let ?m = "sample_broker_inner MsgV1" and ?enc = "new_encoder (default_store_config\<lparr>sc_enabled_append_prop_crc := True\<rparr>)"
  have fields: "stored_body ?m = [1, 2]" "inner_topic ?m = [84]" "bi_properties_string ?m = [75, 1, 118, 2]"
    "bi_version ?m = MsgV1" "me_sys_flag (bi_ext ?m) = 0"
    by (simp_all add: stored_body_def sample_broker_inner_def sample_stored_def sample_inner_def message_ext_default_def)
  have enc: "crc32_reserved_length ?enc = crc32_reserved_len" "\<not> sc_enable_multi_dispatch (enc_config ?enc)"
    "max_message_body_size ?enc = 4194304" "max_message_size ?enc = 4259840"
    using sample_sizes by (simp_all add: new_encoder_def default_store_config_def)
  have sz: "cal_msg_length MsgV1 0 2 1 4 = 98" "cal_msg_length MsgV1 0 2 1 24 = 118"
    by (simp_all add: cal_msg_length_def host_length_def wrap_i32_def)
  have sep: "\<not> needs_separator [75, 1, 118, 2]" by (simp add: needs_separator_def property_separator_def)
  have usz: "as_usize crc32_reserved_len = 20" by (simp add: crc32_reserved_len_def)
  have "20 \<le> length (record_head magic e body)" for magic e body by (simp add: record_head_def put_front_def)
  then have "\<exists>enc'. encoder_encode ?enc ?m = Some (enc', None)"
    using enc sz sep by (simp add: encoder_encode_def Let_def fields usz advance_def is_i32_def trans_le_add1)
  then obtain enc' where enc': "encoder_encode ?enc ?m = Some (enc', None)" by blast
  have ok: "\<not> (sc_enable_multi_dispatch (enc_config ?enc) \<and> is_multi_dispatch_msg ?m)"
    "\<not> needs_separator (bi_properties_string ?m)" "length (bi_properties_string ?m) + 20 < 2 ^ 15"
    using sep enc(2) by (simp_all add: fields)
  obtain e :: message_ext where "me_store_size e = inner_size ?m + 20" "int (length (byte_buf enc')) = me_store_size e - 40"
    using checksum_reserve_cuts_record [OF sample_storable enc(1) ok enc'] by blast
  then have "int (length (byte_buf enc')) = 78" using sz by (simp add: fields)
  then show ?thesis using enc' by auto
qed

end
