(* ===== verification/Topic_Names.thy ===== *)
theory Topic_Names
  imports Rust_Maps Rust_Text
begin

text \<open>
  The names of topics and groups: the validator of \<open>rocketmq-common/src/common/topic.rs\<close>, the
  reserved names of \<open>mix_all.rs\<close>, and the namespaces of
  \<open>rocketmq-remoting/src/protocol/namespace_util.rs\<close>. Text is ASCII. The set of system topics can
  grow at run time and is an argument.
\<close>

section \<open>The topic validator\<close>

definition topic_max_length :: nat where "topic_max_length = 127"

definition valid_char_bit_map :: "char \<Rightarrow> bool" where
  "valid_char_bit_map c \<longleftrightarrow>
     c \<in> set ''%-_|'' \<or> (let n = (of_char c :: nat) in 48 \<le> n \<and> n \<le> 57 \<or> 65 \<le> n \<and> n \<le> 90 \<or> 97 \<le> n \<and> n \<le> 122)"

definition is_topic_or_group_illegal :: "string \<Rightarrow> bool" where
  "is_topic_or_group_illegal name \<longleftrightarrow> list_ex (\<lambda>c. (of_char c :: nat) \<ge> 128 \<or> \<not> valid_char_bit_map c) name"

record validate_topic_result =
  vt_valid :: bool
  vt_remark :: string

definition validate_topic :: "string \<Rightarrow> validate_topic_result" where
  "validate_topic topic =
     (if trim topic = [] then \<lparr>vt_valid = False, vt_remark = ''The specified topic is blank.''\<rparr>
      else if is_topic_or_group_illegal topic then
        \<lparr>vt_valid = False,
         vt_remark = ''The specified topic contains illegal characters, allowing only ^[%|a-zA-Z0-9_-]+$''\<rparr>
      else if length topic > topic_max_length then
        \<lparr>vt_valid = False,
         vt_remark = ''The specified topic is longer than topic max length '' @ show_nat topic_max_length @ ''.''\<rparr>
      else \<lparr>vt_valid = True, vt_remark = []\<rparr>)"

definition system_topic_set :: "string hset" where
  "system_topic_set =
     [''TBW102'', ''SCHEDULE_TOPIC_XXXX'', ''BenchmarkTest'', ''RMQ_SYS_TRANS_HALF_TOPIC'', ''RMQ_SYS_TRACE_TOPIC'',
      ''RMQ_SYS_TRANS_OP_HALF_TOPIC'', ''TRANS_CHECK_MAX_TIME_TOPIC'', ''SELF_TEST_TOPIC'', ''OFFSET_MOVED_EVENT'',
      ''CHECKPOINT_TOPIC'']"

definition not_allowed_send_topic_set :: "string hset" where
  "not_allowed_send_topic_set =
     [''SCHEDULE_TOPIC_XXXX'', ''RMQ_SYS_TRANS_HALF_TOPIC'', ''RMQ_SYS_TRANS_OP_HALF_TOPIC'',
      ''TRANS_CHECK_MAX_TIME_TOPIC'', ''SELF_TEST_TOPIC'', ''OFFSET_MOVED_EVENT'']"

definition system_topic_prefix :: string where "system_topic_prefix = ''rmq_sys_''"

definition starts_with :: "string \<Rightarrow> string \<Rightarrow> bool" where
  "starts_with s p \<longleftrightarrow> take (length p) s = p"

definition is_system_topic :: "string hset \<Rightarrow> string \<Rightarrow> bool" where
  "is_system_topic sys topic \<longleftrightarrow> topic \<in> set sys \<or> starts_with topic system_topic_prefix"

definition is_not_allowed_send_topic :: "string \<Rightarrow> bool" where
  "is_not_allowed_send_topic topic \<longleftrightarrow> topic \<in> set not_allowed_send_topic_set"

definition add_system_topic :: "string \<Rightarrow> string hset \<Rightarrow> string hset" where
  "add_system_topic topic sys = hs_insert topic sys"

section \<open>Reserved groups\<close>

definition cid_rmq_sys_prefix :: string where "cid_rmq_sys_prefix = ''CID_RMQ_SYS_''"
definition retry_prefix :: string where "retry_prefix = ''%RETRY%''"
definition dlq_prefix :: string where "dlq_prefix = ''%DLQ%''"

definition is_sys_consumer_group :: "string \<Rightarrow> bool" where
  "is_sys_consumer_group consumer_group \<longleftrightarrow> starts_with consumer_group cid_rmq_sys_prefix"

definition is_sys_consumer_group_for_no_cold_read_limit :: "string \<Rightarrow> bool" where
  "is_sys_consumer_group_for_no_cold_read_limit g \<longleftrightarrow>
     g \<in> {''DEFAULT_CONSUMER'', ''TOOLS_CONSUMER'', ''SCHEDULE_CONSUMER'', ''FILTERSRV_CONSUMER'', ''__MONITOR_CONSUMER'',
       ''SELF_TEST_C_GROUP'', ''CID_ONS-HTTP-PROXY'', ''CID_ONSAPI_PERMISSION'', ''CID_ONSAPI_OWNER'',
       ''CID_ONSAPI_PULL'', ''CID_RMQ_SYS_TRANS''} \<or> starts_with g cid_rmq_sys_prefix"

definition get_retry_topic :: "string \<Rightarrow> string" where "get_retry_topic g = retry_prefix @ g"
definition get_dlq_topic :: "string \<Rightarrow> string" where "get_dlq_topic g = dlq_prefix @ g"

section \<open>Namespaces\<close>

definition is_system_resource :: "string hset \<Rightarrow> string \<Rightarrow> bool" where
  "is_system_resource sys resource \<longleftrightarrow>
     resource \<noteq> [] \<and> (is_system_topic sys resource \<or> is_sys_consumer_group resource)"

definition is_retry_topic :: "string \<Rightarrow> bool" where
  "is_retry_topic resource \<longleftrightarrow> resource \<noteq> [] \<and> starts_with resource retry_prefix"

definition is_dlq_topic :: "string \<Rightarrow> bool" where
  "is_dlq_topic resource \<longleftrightarrow> resource \<noteq> [] \<and> starts_with resource dlq_prefix"

definition without_retry_and_dlq :: "string \<Rightarrow> string" where
  "without_retry_and_dlq r =
     (if r = [] then []
      else if is_retry_topic r then drop (length retry_prefix) r
      else if is_dlq_topic r then drop (length dlq_prefix) r
      else r)"

definition string_builder :: "string \<Rightarrow> string" where
  "string_builder r =
     (if is_retry_topic r then retry_prefix else []) @ (if is_dlq_topic r then dlq_prefix else [])"

definition without_namespace :: "string hset \<Rightarrow> string \<Rightarrow> string" where
  "without_namespace sys r =
     (if r = [] \<or> is_system_resource sys r then r
      else case split_once CHR ''%'' (without_retry_and_dlq r) of
             Some (_, rest) \<Rightarrow> string_builder r @ rest
           | None \<Rightarrow> r)"

definition without_namespace_with_namespace :: "string hset \<Rightarrow> string \<Rightarrow> string \<Rightarrow> string" where
  "without_namespace_with_namespace sys r namespace =
     (if r = [] \<or> namespace = [] then r
      else if starts_with (without_retry_and_dlq r) (namespace @ ''%'') then without_namespace sys r
      else r)"

definition is_already_with_namespace :: "string hset \<Rightarrow> string \<Rightarrow> string \<Rightarrow> bool" where
  "is_already_with_namespace sys resource namespace \<longleftrightarrow>
     \<not> (namespace = [] \<or> resource = [] \<or> is_system_resource sys resource) \<and>
     starts_with (without_retry_and_dlq resource) (namespace @ ''%'')"

definition wrap_namespace :: "string hset \<Rightarrow> string \<Rightarrow> string \<Rightarrow> string" where
  "wrap_namespace sys namespace r =
     (if namespace = [] \<or> r = [] then r
      else if is_system_resource sys r \<or> is_already_with_namespace sys r namespace then r
      else string_builder r @ namespace @ ''%'' @ without_retry_and_dlq r)"

definition wrap_namespace_and_retry :: "string hset \<Rightarrow> string \<Rightarrow> string \<Rightarrow> string option" where
  "wrap_namespace_and_retry sys namespace consumer_group =
     (if consumer_group = [] then None
      else Some (retry_prefix @ wrap_namespace sys namespace consumer_group))"

definition get_namespace_from_resource :: "string hset \<Rightarrow> string \<Rightarrow> string" where
  "get_namespace_from_resource sys resource =
     (if resource = [] \<or> is_system_resource sys resource then []
      else case split_once CHR ''%'' (without_retry_and_dlq resource) of
             Some (namespace, _) \<Rightarrow> namespace
           | None \<Rightarrow> [])"

section \<open>Lemmas\<close>

lemma starts_with_append [simp]: "starts_with (p @ s) p"
  by (simp add: starts_with_def)

lemma starts_with_split: "starts_with s p \<Longrightarrow> s = p @ drop (length p) s"
  unfolding starts_with_def by (metis append_take_drop_id)

lemma legal_char_not_separator: "valid_char_bit_map c \<Longrightarrow> c \<noteq> CHR ''@''"
  by (auto simp: valid_char_bit_map_def)

lemma legal_name_no_at: "\<not> is_topic_or_group_illegal name \<Longrightarrow> CHR ''@'' \<notin> set name"
  using legal_char_not_separator by (auto simp: is_topic_or_group_illegal_def list_ex_iff)

text \<open>A resource is its prefix and the rest.\<close>

lemma starts_with_nth: "starts_with s p \<Longrightarrow> i < length p \<Longrightarrow> s ! i = p ! i"
  unfolding starts_with_def by (metis nth_take)

lemma not_both: "is_retry_topic r \<Longrightarrow> \<not> is_dlq_topic r"
  using starts_with_nth [of r retry_prefix 1] starts_with_nth [of r dlq_prefix 1]
  by (auto simp: is_retry_topic_def is_dlq_topic_def retry_prefix_def dlq_prefix_def)

lemma resource_parts: "r \<noteq> [] \<Longrightarrow> string_builder r @ without_retry_and_dlq r = r"
  using not_both [of r] starts_with_split [of r retry_prefix] starts_with_split [of r dlq_prefix]
  by (auto simp: string_builder_def without_retry_and_dlq_def is_retry_topic_def is_dlq_topic_def)

lemma no_prefix: "s \<noteq> [] \<Longrightarrow> hd s \<noteq> CHR ''%'' \<Longrightarrow> \<not> is_retry_topic s \<and> \<not> is_dlq_topic s"
  using starts_with_nth [of s retry_prefix 0] starts_with_nth [of s dlq_prefix 0]
  by (auto simp: is_retry_topic_def is_dlq_topic_def retry_prefix_def dlq_prefix_def hd_conv_nth)

lemma prefix_kinds [simp]: "is_retry_topic (retry_prefix @ s)" "is_dlq_topic (dlq_prefix @ s)"
  by (simp_all add: is_retry_topic_def is_dlq_topic_def) (simp_all add: retry_prefix_def dlq_prefix_def)

text \<open>Text put behind the prefix, when it is no prefix itself, is what is found behind it.\<close>

lemma prefix_kept:
  assumes "s \<noteq> []" "hd s \<noteq> CHR ''%''"
  shows "without_retry_and_dlq (string_builder r @ s) = s" "string_builder (string_builder r @ s) = string_builder r"
proof -
  have dlq: "\<not> is_retry_topic (dlq_prefix @ s)" using not_both [of "dlq_prefix @ s"] by auto
  have retry: "\<not> is_dlq_topic (retry_prefix @ s)" using not_both [of "retry_prefix @ s"] by auto
  consider "string_builder r = []" | "string_builder r = retry_prefix" | "string_builder r = dlq_prefix"
    using not_both [of r] by (cases "is_retry_topic r"; cases "is_dlq_topic r") (simp_all add: string_builder_def)
  then show "without_retry_and_dlq (string_builder r @ s) = s" "string_builder (string_builder r @ s) = string_builder r"
    using no_prefix [OF assms] assms(1) dlq retry
    by (cases; simp add: without_retry_and_dlq_def; simp add: string_builder_def)+
qed

lemma wrapped:
  assumes "ns \<noteq> []" "CHR ''%'' \<notin> set ns" "r \<noteq> []" "\<not> is_system_resource sys r" "\<not> is_already_with_namespace sys r ns"
  shows "wrap_namespace sys ns r = string_builder r @ ns @ ''%'' @ without_retry_and_dlq r"
    "without_retry_and_dlq (wrap_namespace sys ns r) = ns @ ''%'' @ without_retry_and_dlq r"
    "string_builder (wrap_namespace sys ns r) = string_builder r"
    "split_once CHR ''%'' (without_retry_and_dlq (wrap_namespace sys ns r)) = Some (ns, without_retry_and_dlq r)"
proof -
  show w: "wrap_namespace sys ns r = string_builder r @ ns @ ''%'' @ without_retry_and_dlq r"
    using assms by (simp add: wrap_namespace_def)
  have hd: "ns @ ''%'' @ without_retry_and_dlq r \<noteq> []" "hd (ns @ ''%'' @ without_retry_and_dlq r) \<noteq> CHR ''%''"
    using assms(1,2) by (cases ns; auto)+
  show rest: "without_retry_and_dlq (wrap_namespace sys ns r) = ns @ ''%'' @ without_retry_and_dlq r"
    unfolding w by (rule prefix_kept(1) [OF hd])
  show "string_builder (wrap_namespace sys ns r) = string_builder r"
    unfolding w by (rule prefix_kept(2) [OF hd])
  show "split_once CHR ''%'' (without_retry_and_dlq (wrap_namespace sys ns r)) = Some (ns, without_retry_and_dlq r)"
    unfolding rest using split_once_sep [OF assms(2)] by simp
qed

lemma legal_char_no_space: "valid_char_bit_map c \<Longrightarrow> \<not> is_space c"
  by (auto simp: valid_char_bit_map_def is_space_def Let_def)

lemma legal_char_ascii: "valid_char_bit_map c \<Longrightarrow> (of_char c :: nat) < 128"
  by (auto simp: valid_char_bit_map_def Let_def)

lemma char_range:
  "c \<in> set (map char_of [lo..<hi]) \<longleftrightarrow> lo \<le> (of_char c :: nat) \<and> (of_char c :: nat) < hi" if "hi \<le> 256"
proof
  assume "c \<in> set (map char_of [lo..<hi])"
  then obtain n where "lo \<le> n" "n < hi" "c = char_of n" by auto
  then show "lo \<le> (of_char c :: nat) \<and> (of_char c :: nat) < hi" using that by simp
next
  assume *: "lo \<le> (of_char c :: nat) \<and> (of_char c :: nat) < hi"
  then show "c \<in> set (map char_of [lo..<hi])" by (simp add: image_iff) (metis atLeastLessThan_iff char_of_char)
qed

lemma legal_chars:
  "valid_char_bit_map c \<longleftrightarrow> c \<in> set ''%|-_0123456789ABCDEFGHIJKLMNOPQRSTUVWXYZabcdefghijklmnopqrstuvwxyz''"
proof -
  have digits: "c \<in> set (map char_of [48..<58]) \<longleftrightarrow> 48 \<le> (of_char c :: nat) \<and> (of_char c :: nat) < 58"
    by (rule char_range) simp
  have upper: "c \<in> set (map char_of [65..<91]) \<longleftrightarrow> 65 \<le> (of_char c :: nat) \<and> (of_char c :: nat) < 91"
    by (rule char_range) simp
  have lower: "c \<in> set (map char_of [97..<123]) \<longleftrightarrow> 97 \<le> (of_char c :: nat) \<and> (of_char c :: nat) < 123"
    by (rule char_range) simp
  have "''%|-_0123456789ABCDEFGHIJKLMNOPQRSTUVWXYZabcdefghijklmnopqrstuvwxyz'' =
      ''%|-_'' @ map char_of [48 :: nat..<58] @ map char_of [65 :: nat..<91] @ map char_of [97 :: nat..<123]"
    by code_simp
  then have "c \<in> set ''%|-_0123456789ABCDEFGHIJKLMNOPQRSTUVWXYZabcdefghijklmnopqrstuvwxyz'' \<longleftrightarrow>
      c \<in> set ''%|-_'' \<or> c \<in> set (map char_of [48 :: nat..<58]) \<or> c \<in> set (map char_of [65 :: nat..<91]) \<or>
      c \<in> set (map char_of [97 :: nat..<123])"
    by (simp only: set_append Un_iff)
  also have "\<dots> \<longleftrightarrow> valid_char_bit_map c"
    unfolding digits upper lower by (auto simp: valid_char_bit_map_def Let_def)
  finally show ?thesis by simp
qed

section \<open>Statements\<close>

text \<open>
  C32. The table of valid characters and the checks of the validator are the rule its error message
  states: a topic is accepted exactly when it is a non-empty text over letters, digits and the four
  signs, of at most 127 characters.
\<close>

theorem topic_validator_is_the_rule:
  "vt_valid (validate_topic topic) \<longleftrightarrow>
     topic \<noteq> [] \<and> length topic \<le> 127 \<and>
     set topic \<subseteq> set ''%|-_0123456789ABCDEFGHIJKLMNOPQRSTUVWXYZabcdefghijklmnopqrstuvwxyz''"
proof -
  have blank: "trim topic = topic" if "\<not> is_topic_or_group_illegal topic"
    using that legal_char_no_space by (intro trim_no_space) (auto simp: is_topic_or_group_illegal_def list_ex_iff)
  have "\<not> is_topic_or_group_illegal topic \<longleftrightarrow> (\<forall>c \<in> set topic. valid_char_bit_map c)"
    using legal_char_ascii by (auto simp: is_topic_or_group_illegal_def list_ex_iff not_le)
  also have "\<dots> \<longleftrightarrow> set topic \<subseteq> set ''%|-_0123456789ABCDEFGHIJKLMNOPQRSTUVWXYZabcdefghijklmnopqrstuvwxyz''"
    unfolding legal_chars by (rule subset_eq [symmetric])
  finally have legal: "set topic \<subseteq> set ''%|-_0123456789ABCDEFGHIJKLMNOPQRSTUVWXYZabcdefghijklmnopqrstuvwxyz'' \<longleftrightarrow>
      \<not> is_topic_or_group_illegal topic" by (rule sym)
  have "trim [] = []" by (simp add: trim_def)
  then show ?thesis unfolding legal using blank by (auto simp: validate_topic_def topic_max_length_def)
qed

text \<open>
  C31. A namespace can be put on a topic or group and taken off again: for a name that is not reserved
  by the system and does not carry the namespace, unwrapping gives the name, retry and dead letter
  prefixes included, the namespace is found on it, and wrapping twice is wrapping once.
\<close>

theorem namespace_roundtrip:
  assumes "ns \<noteq> []" and "CHR ''%'' \<notin> set ns" and "r \<noteq> []" and "\<not> is_system_resource sys r"
    and "\<not> is_already_with_namespace sys r ns" and "\<not> is_system_resource sys (wrap_namespace sys ns r)"
  shows "without_namespace sys (wrap_namespace sys ns r) = r \<and>
    without_namespace_with_namespace sys (wrap_namespace sys ns r) ns = r \<and>
    get_namespace_from_resource sys (wrap_namespace sys ns r) = ns \<and>
    wrap_namespace sys ns (wrap_namespace sys ns r) = wrap_namespace sys ns r"
proof -
  let ?w = "wrap_namespace sys ns r"
  note w = wrapped [OF assms(1-5)]
  have ne: "?w \<noteq> []" using w(1) by simp
  have without: "without_namespace sys ?w = r"
    using ne assms(6) resource_parts [OF assms(3)] by (simp add: without_namespace_def w(3,4))
  have begins: "starts_with (without_retry_and_dlq ?w) (ns @ ''%'')"
    unfolding w(2) by (simp add: starts_with_def)
  then have "without_namespace_with_namespace sys ?w ns = r"
    using ne assms(1) without by (simp add: without_namespace_with_namespace_def)
  moreover have "get_namespace_from_resource sys ?w = ns"
    using ne assms(6) by (simp add: get_namespace_from_resource_def w(4))
  moreover have "is_already_with_namespace sys ?w ns"
    using begins ne assms(1,6) by (simp add: is_already_with_namespace_def)
  then have "wrap_namespace sys ns ?w = ?w" by (simp add: wrap_namespace_def [of sys ns ?w])
  ultimately show ?thesis using without by simp
qed

theorem namespace_roundtrip_witness:
  "wrap_namespace system_topic_set ''ns'' ''%RETRY%g'' = ''%RETRY%ns%g'' \<and>
   without_namespace system_topic_set ''%RETRY%ns%g'' = ''%RETRY%g'' \<and>
   get_namespace_from_resource system_topic_set ''%RETRY%ns%g'' = ''ns''"
proof -
  have w: "wrap_namespace system_topic_set ''ns'' ''%RETRY%g'' = ''%RETRY%ns%g''" by code_simp
  have "\<not> is_system_resource system_topic_set ''%RETRY%g''" "\<not> is_system_resource system_topic_set ''%RETRY%ns%g''"
    "\<not> is_already_with_namespace system_topic_set ''%RETRY%g'' ''ns''"
    by code_simp+
  then show ?thesis using namespace_roundtrip [of "''ns''" "''%RETRY%g''" system_topic_set] by (simp add: w)
qed

end
