(* ===== verification/Consumer_Offset.thy ===== *)
theory Consumer_Offset
  imports Topic_Names Route_Data "HOL-Library.Monad_Syntax"
begin

text \<open>
  The broker's table of consumer offsets
  (\<open>rocketmq-broker/src/offset/manager/consumer_offset_manager.rs\<close>). Offsets are kept under the text
  topic, at sign, group, and under the queue. The JSON crate is an argument: how it writes and reads
  the values of the fields, and the text of an object.
\<close>

section \<open>State\<close>

type_synonym offset_table = "(string, (i32, i64) hmap) hmap"

record offset_wrapper =
  ow_data_version :: data_version
  ow_offset_table :: offset_table
  ow_reset_offset_table :: offset_table
  ow_pull_offset_table :: offset_table
  ow_version_change_counter :: i64

record offset_manager =
  om_use_server_side_reset_offset :: bool
  om_update_version_step :: i64
  om_wrapper :: offset_wrapper
  om_state_machine_version :: "i64 option"

definition new_offset_manager :: "bool \<Rightarrow> i64 \<Rightarrow> data_version \<Rightarrow> i64 option \<Rightarrow> offset_manager" where
  "new_offset_manager use_reset step dv store =
     \<lparr>om_use_server_side_reset_offset = use_reset, om_update_version_step = step,
      om_wrapper = \<lparr>ow_data_version = dv, ow_offset_table = [], ow_reset_offset_table = [],
        ow_pull_offset_table = [], ow_version_change_counter = 0\<rparr>,
      om_state_machine_version = store\<rparr>"

section \<open>Operations\<close>

definition offset_key :: "string \<Rightarrow> string \<Rightarrow> string" where
  "offset_key topic consumer_group = topic @ ''@'' @ consumer_group"

definition put_offset :: "string \<Rightarrow> i32 \<Rightarrow> i64 \<Rightarrow> offset_table \<Rightarrow> offset_table" where
  "put_offset key queue_id off tab =
     hm_insert key (hm_insert queue_id off (case hm_get tab key of None \<Rightarrow> [] | Some m \<Rightarrow> m)) tab"

definition clean_offset_by_topic :: "string \<Rightarrow> offset_manager \<Rightarrow> offset_manager" where
  "clean_offset_by_topic topic m =
     (let tab = ow_offset_table (om_wrapper m);
          keys_to_remove = filter (\<lambda>k. case split_char CHR ''@'' k of [t, g] \<Rightarrow> t = topic | _ \<Rightarrow> False) (hm_keys tab)
      in m\<lparr>om_wrapper := (om_wrapper m)\<lparr>ow_offset_table := fold hm_remove keys_to_remove tab\<rparr>\<rparr>)"

definition which_group_by_topic :: "string \<Rightarrow> offset_manager \<Rightarrow> string hset" where
  "which_group_by_topic topic m =
     fold (\<lambda>k groups. case split_char CHR ''@'' k of [t, g] \<Rightarrow> if t = topic then hs_insert g groups else groups
             | _ \<Rightarrow> groups) (hm_keys (ow_offset_table (om_wrapper m))) []"

definition which_topic_by_consumer :: "string \<Rightarrow> offset_manager \<Rightarrow> string hset" where
  "which_topic_by_consumer consumer_group m =
     fold (\<lambda>k topics. case split_char CHR ''@'' k of
              [t, g] \<Rightarrow> if g = consumer_group then hs_insert t topics else topics
             | _ \<Rightarrow> topics) (hm_keys (ow_offset_table (om_wrapper m))) []"

text \<open>The clock is read when the version advances. The remainder panics as in Rust.\<close>

definition commit_offset ::
  "i64 \<Rightarrow> string \<Rightarrow> string \<Rightarrow> i32 \<Rightarrow> i64 \<Rightarrow> offset_manager \<Rightarrow> offset_manager \<times> unit outcome" where
  "commit_offset now consumer_group topic queue_id off m =
     (let w = om_wrapper m;
          counter = wrap_i64 (ow_version_change_counter w + 1);
          w = w\<lparr>ow_offset_table := put_offset (offset_key topic consumer_group) queue_id off (ow_offset_table w),
                ow_version_change_counter := counter\<rparr>;
          step = om_update_version_step m
      in if step = 0 \<or> counter = - (2 ^ 63) \<and> step = -1 then (m\<lparr>om_wrapper := w\<rparr>, Panicked)
         else if counter mod step = 0 then
           let state_machine_version = (case om_state_machine_version m of Some v \<Rightarrow> v | None \<Rightarrow> 0)
           in (m\<lparr>om_wrapper := w\<lparr>ow_data_version :=
                 next_version_with now state_machine_version (ow_data_version w)\<rparr>\<rparr>, Returned ())
         else (m\<lparr>om_wrapper := w\<rparr>, Returned ()))"

definition has_offset_reset :: "string \<Rightarrow> string \<Rightarrow> i32 \<Rightarrow> offset_manager \<Rightarrow> bool" where
  "has_offset_reset consumer_group topic queue_id m \<longleftrightarrow>
     (case hm_get (ow_reset_offset_table (om_wrapper m)) (offset_key topic consumer_group) of
        None \<Rightarrow> False | Some inner \<Rightarrow> hm_contains inner queue_id)"

definition query_offset :: "string \<Rightarrow> string \<Rightarrow> i32 \<Rightarrow> offset_manager \<Rightarrow> i64" where
  "query_offset consumer_group topic queue_id m =
     (let key = offset_key topic consumer_group;
          found = (\<lambda>inner. case hm_get inner queue_id of Some v \<Rightarrow> v | None \<Rightarrow> -1);
          stored = (case hm_get (ow_offset_table (om_wrapper m)) key of Some inner \<Rightarrow> found inner | None \<Rightarrow> -1)
      in if om_use_server_side_reset_offset m then
           (case hm_get (ow_reset_offset_table (om_wrapper m)) key of Some inner \<Rightarrow> found inner | None \<Rightarrow> stored)
         else stored)"

definition commit_pull_offset :: "string \<Rightarrow> string \<Rightarrow> i32 \<Rightarrow> i64 \<Rightarrow> offset_manager \<Rightarrow> offset_manager" where
  "commit_pull_offset consumer_group topic queue_id off m =
     (let w = om_wrapper m
      in m\<lparr>om_wrapper := w\<lparr>ow_pull_offset_table :=
           put_offset (offset_key topic consumer_group) queue_id off (ow_pull_offset_table w)\<rparr>\<rparr>)"

definition query_then_erase_reset_offset ::
  "string \<Rightarrow> string \<Rightarrow> i32 \<Rightarrow> offset_manager \<Rightarrow> offset_manager \<times> i64 option" where
  "query_then_erase_reset_offset topic consumer_group queue_id m =
     (let w = om_wrapper m; key = offset_key topic consumer_group; tab = ow_reset_offset_table w
      in case hm_get tab key of
           None \<Rightarrow> (m, None)
         | Some inner \<Rightarrow>
             (m\<lparr>om_wrapper := w\<lparr>ow_reset_offset_table := hm_insert key (hm_remove queue_id inner) tab\<rparr>\<rparr>,
              hm_get inner queue_id))"

definition get_group_topic_map :: "offset_wrapper \<Rightarrow> (string, string hset) hmap" where
  "get_group_topic_map w =
     fold (\<lambda>k ret. case split_char CHR ''@'' k of
             [t, g] \<Rightarrow> hm_insert g (hs_insert t (case hm_get ret g of None \<Rightarrow> [] | Some ts \<Rightarrow> ts)) ret
           | _ \<Rightarrow> ret) (hm_keys (ow_offset_table w)) []"

section \<open>Persistence\<close>

record 'j offset_json =
  oj_version :: "data_version \<Rightarrow> 'j"
  oj_table :: "offset_table \<Rightarrow> 'j"
  oj_groups :: "(string, string hset) hmap \<Rightarrow> 'j"
  oj_read_version :: "'j \<Rightarrow> data_version option"
  oj_read_table :: "'j \<Rightarrow> offset_table option"
  oj_default_version :: data_version
  oj_render :: "bool \<Rightarrow> (string \<times> 'j) list \<Rightarrow> string option"
  oj_parse :: "string \<Rightarrow> (string \<times> 'j) list option"

definition serialize_offsets :: "'j offset_json \<Rightarrow> offset_wrapper \<Rightarrow> (string \<times> 'j) list" where
  "serialize_offsets js w =
     [(''dataVersion'', oj_version js (ow_data_version w)),
      (''offsetTable'', oj_table js (ow_offset_table w)),
      (''resetOffsetTable'', oj_table js (ow_reset_offset_table w)),
      (''pullOffsetTable'', oj_table js (ow_pull_offset_table w)),
      (''processedPullOffsetTable'', oj_groups js (get_group_topic_map w))]"

record offset_fields =
  of_data_version :: "data_version option"
  of_offset_table :: "offset_table option"
  of_reset_offset_table :: "offset_table option"
  of_pull_offset_table :: "offset_table option"

fun visit_fields :: "'j offset_json \<Rightarrow> (string \<times> 'j) list \<Rightarrow> offset_fields \<Rightarrow> offset_fields option" where
  "visit_fields js [] f = Some f"
| "visit_fields js ((key, j) # rest) f =
     (if key = ''dataVersion'' then
        if of_data_version f \<noteq> None then None
        else do { v \<leftarrow> oj_read_version js j; visit_fields js rest (f\<lparr>of_data_version := Some v\<rparr>) }
      else if key = ''offsetTable'' then
        if of_offset_table f \<noteq> None then None
        else do { t \<leftarrow> oj_read_table js j; visit_fields js rest (f\<lparr>of_offset_table := Some t\<rparr>) }
      else if key = ''resetOffsetTable'' then
        if of_reset_offset_table f \<noteq> None then None
        else do { t \<leftarrow> oj_read_table js j; visit_fields js rest (f\<lparr>of_reset_offset_table := Some t\<rparr>) }
      else if key = ''pullOffsetTable'' then
        if of_pull_offset_table f \<noteq> None then None
        else do { t \<leftarrow> oj_read_table js j; visit_fields js rest (f\<lparr>of_pull_offset_table := Some t\<rparr>) }
      else visit_fields js rest f)"

definition unwrap_or :: "'a \<Rightarrow> 'a option \<Rightarrow> 'a" where
  "unwrap_or d x = (case x of None \<Rightarrow> d | Some v \<Rightarrow> v)"

definition visit_map :: "'j offset_json \<Rightarrow> (string \<times> 'j) list \<Rightarrow> offset_wrapper option" where
  "visit_map js entries = do {
     f \<leftarrow> visit_fields js entries \<lparr>of_data_version = None, of_offset_table = None, of_reset_offset_table = None,
       of_pull_offset_table = None\<rparr>;
     Some \<lparr>ow_data_version = unwrap_or (oj_default_version js) (of_data_version f),
       ow_offset_table = unwrap_or [] (of_offset_table f),
       ow_reset_offset_table = unwrap_or [] (of_reset_offset_table f),
       ow_pull_offset_table = unwrap_or [] (of_pull_offset_table f), ow_version_change_counter = 0\<rparr> }"

definition encode_pretty :: "'j offset_json \<Rightarrow> bool \<Rightarrow> offset_manager \<Rightarrow> string outcome" where
  "encode_pretty js pretty_format m =
     (case oj_render js pretty_format (serialize_offsets js (om_wrapper m)) of
        None \<Rightarrow> Panicked | Some s \<Rightarrow> Returned s)"

definition decode_offsets :: "'j offset_json \<Rightarrow> string \<Rightarrow> offset_manager \<Rightarrow> offset_manager outcome" where
  "decode_offsets js json_string m =
     (if json_string = [] then Returned m
      else case Option.bind (oj_parse js json_string) (visit_map js) of
             None \<Rightarrow> Panicked
           | Some wrapper \<Rightarrow>
               if ow_offset_table wrapper = [] then Returned m
               else Returned (m\<lparr>om_wrapper := (om_wrapper m)\<lparr>
                 ow_offset_table := hm_extend (ow_offset_table (om_wrapper m)) (ow_offset_table wrapper),
                 ow_data_version := ow_data_version wrapper\<rparr>\<rparr>))"

section \<open>What the manager promises\<close>

text \<open>A partial function from topic, group and queue to the committed offset.\<close>

type_synonym offset_spec = "string \<times> string \<times> i32 \<rightharpoonup> i64"

datatype offset_op =
  Commit i64 string string i32 i64
| CommitPull string string i32 i64
| EraseReset string string i32
| Clean string

fun offset_step :: "offset_op \<Rightarrow> offset_manager \<Rightarrow> offset_manager" where
  "offset_step (Commit now g t q off) m = fst (commit_offset now g t q off m)"
| "offset_step (CommitPull g t q off) m = commit_pull_offset g t q off m"
| "offset_step (EraseReset t g q) m = fst (query_then_erase_reset_offset t g q m)"
| "offset_step (Clean t) m = clean_offset_by_topic t m"

fun spec_step :: "offset_op \<Rightarrow> offset_spec \<Rightarrow> offset_spec" where
  "spec_step (Commit now g t q off) f = f((t, g, q) \<mapsto> off)"
| "spec_step (Clean t) f = (\<lambda>(t', g, q). if t' = t then None else f (t', g, q))"
| "spec_step op f = f"

abbreviation legal_name :: "string \<Rightarrow> bool" where
  "legal_name s \<equiv> \<not> is_topic_or_group_illegal s"

fun op_legal :: "offset_op \<Rightarrow> bool" where
  "op_legal (Commit now g t q off) \<longleftrightarrow> legal_name g \<and> legal_name t"
| "op_legal (Clean t) \<longleftrightarrow> legal_name t"
| "op_legal op \<longleftrightarrow> True"

abbreviation om_table :: "offset_manager \<Rightarrow> offset_table" where
  "om_table m \<equiv> ow_offset_table (om_wrapper m)"

definition offsets_of :: "offset_manager \<Rightarrow> offset_spec" where
  "offsets_of m = (\<lambda>(t, g, q).
     if legal_name t \<and> legal_name g then Option.bind (hm_get (om_table m) (offset_key t g)) (\<lambda>inner. hm_get inner q)
     else None)"

definition offsets_inv :: "offset_manager \<Rightarrow> bool" where
  "offsets_inv m \<longleftrightarrow> ow_reset_offset_table (om_wrapper m) = [] \<and> hm_inv (om_table m) \<and>
     hm_all (\<lambda>k inner. inner \<noteq> [] \<and> (\<exists>t g. legal_name t \<and> legal_name g \<and> k = offset_key t g)) (om_table m)"

lemma split_key: "legal_name t \<Longrightarrow> legal_name g \<Longrightarrow> split_char CHR ''@'' (offset_key t g) = [t, g]"
  by (simp add: offset_key_def split_char_append split_char_no_sep legal_name_no_at)

lemma key_inj:
  "legal_name t \<Longrightarrow> legal_name g \<Longrightarrow> legal_name t' \<Longrightarrow> legal_name g' \<Longrightarrow>
     offset_key t g = offset_key t' g' \<longleftrightarrow> t = t' \<and> g = g'"
  by (metis split_key list.inject)

lemma commit_table [simp]:
  "om_table (fst (commit_offset now g t q off m)) = put_offset (offset_key t g) q off (om_table m)"
  by (simp add: commit_offset_def Let_def)

lemma reset_table_kept [simp]:
  "ow_reset_offset_table (om_wrapper (fst (commit_offset now g t q off m))) = ow_reset_offset_table (om_wrapper m)"
  by (simp add: commit_offset_def Let_def)

lemma clean_table:
  "hm_get (om_table (clean_offset_by_topic t m)) k =
     (case split_char CHR ''@'' k of [t', g] \<Rightarrow> if t' = t then None else hm_get (om_table m) k | _ \<Rightarrow> hm_get (om_table m) k)"
  by (auto simp: clean_offset_by_topic_def Let_def hm_get_removes hm_keys_iff split: list.splits)

lemma offsets_of_step:
  assumes "op_legal op"
  shows "offsets_of (offset_step op m) = spec_step op (offsets_of m)"
proof (cases op)
  case (Commit now g t q off)
  then show ?thesis
    using assms by (auto simp: offsets_of_def put_offset_def key_inj fun_eq_iff split: option.splits)
next
  case (Clean t)
  then show ?thesis by (auto simp: offsets_of_def clean_table split_key fun_eq_iff)
qed (auto simp: offsets_of_def commit_pull_offset_def query_then_erase_reset_offset_def Let_def split: option.splits)

lemma offsets_inv_step:
  assumes "op_legal op" "offsets_inv m"
  shows "offsets_inv (offset_step op m)"
proof (cases op)
  case (Commit now g t q off)
  have "hm_insert q off inner \<noteq> []" for inner :: "(i32, i64) hmap"
    using hm_nonempty_get [of "hm_insert q off inner" q off] by simp
  then show ?thesis
    using assms Commit by (auto simp: offsets_inv_def put_offset_def intro!: hm_all_insert)
qed (use assms in \<open>auto simp: offsets_inv_def commit_pull_offset_def query_then_erase_reset_offset_def
       clean_offset_by_topic_def Let_def intro!: hm_all_removes\<close>)

lemma offset_run:
  "list_all op_legal ops \<Longrightarrow> offsets_inv m \<Longrightarrow>
     offsets_inv (fold offset_step ops m) \<and> offsets_of (fold offset_step ops m) = fold spec_step ops (offsets_of m)"
  by (induction ops arbitrary: m) (simp_all add: offsets_inv_step offsets_of_step)

lemma query_is_lookup:
  assumes "offsets_inv m" "legal_name t" "legal_name g"
  shows "query_offset g t q m = (case offsets_of m (t, g, q) of Some off \<Rightarrow> off | None \<Rightarrow> -1)"
  using assms by (auto simp: offsets_inv_def query_offset_def offsets_of_def Let_def split: option.splits)

lemma set_fold_insert:
  "set (fold (\<lambda>k acc. case f k of Some x \<Rightarrow> hs_insert x acc | None \<Rightarrow> acc) ks acc0) =
     set acc0 \<union> {x. \<exists>k \<in> set ks. f k = Some x}"
  by (induction ks arbitrary: acc0) (auto split: option.splits)

text \<open>The keys of the table are the pairs of names that have an offset.\<close>

lemma stored_pairs:
  assumes "offsets_inv m"
  shows "(\<exists>q off. offsets_of m (t, g, q) = Some off) \<longleftrightarrow>
    (\<exists>k. hm_get (om_table m) k \<noteq> None \<and> split_char CHR ''@'' k = [t, g])"
proof
  assume "\<exists>q off. offsets_of m (t, g, q) = Some off"
  then have "legal_name t" "legal_name g" "hm_get (om_table m) (offset_key t g) \<noteq> None"
    by (auto simp: offsets_of_def bind_eq_Some_conv split: if_splits)
  then show "\<exists>k. hm_get (om_table m) k \<noteq> None \<and> split_char CHR ''@'' k = [t, g]"
    using split_key by blast
next
  assume "\<exists>k. hm_get (om_table m) k \<noteq> None \<and> split_char CHR ''@'' k = [t, g]"
  then obtain k inner where k: "hm_get (om_table m) k = Some inner" "split_char CHR ''@'' k = [t, g]" by auto
  then obtain t' g' where names: "legal_name t'" "legal_name g'" "k = offset_key t' g'" and "inner \<noteq> []"
    using assms hm_all_get [of _ "om_table m" k inner] by (fastforce simp: offsets_inv_def)
  moreover from this k(2) have "t' = t" "g' = g" using split_key [OF names(1,2)] by simp_all
  moreover obtain q off where "hm_get inner q = Some off" using \<open>inner \<noteq> []\<close> hm_empty_iff [of inner] by auto
  ultimately have "offsets_of m (t, g, q) = Some off" using k(1) by (simp add: offsets_of_def)
  then show "\<exists>q off. offsets_of m (t, g, q) = Some off" by blast
qed

lemma pair_parts:
  "(case xs of [t', g'] \<Rightarrow> if t' = t then Some g' else None | _ \<Rightarrow> None) = Some g \<longleftrightarrow> xs = [t, g]"
  "(case xs of [t', g'] \<Rightarrow> if g' = g then Some t' else None | _ \<Rightarrow> None) = Some t \<longleftrightarrow> xs = [t, g]"
  by (auto split: list.splits if_splits)

lemma groups_of_topic:
  assumes "offsets_inv m"
  shows "set (which_group_by_topic t m) = {g. \<exists>q off. offsets_of m (t, g, q) = Some off}"
proof -
  let ?f = "\<lambda>k. case split_char CHR ''@'' k of [t', g] \<Rightarrow> if t' = t then Some g else None | _ \<Rightarrow> None"
  have "which_group_by_topic t m =
      fold (\<lambda>k acc. case ?f k of Some x \<Rightarrow> hs_insert x acc | None \<Rightarrow> acc) (hm_keys (om_table m)) []"
    unfolding which_group_by_topic_def by (intro fold_cong) (auto split: list.splits)
  then have "set (which_group_by_topic t m) = {g. \<exists>k. hm_get (om_table m) k \<noteq> None \<and> ?f k = Some g}"
    by (simp only: set_fold_insert) (auto simp: hm_keys_iff)
  also have "\<dots> = {g. \<exists>q off. offsets_of m (t, g, q) = Some off}"
    unfolding stored_pairs [OF assms] pair_parts ..
  finally show ?thesis .
qed

lemma topics_of_group:
  assumes "offsets_inv m"
  shows "set (which_topic_by_consumer g m) = {t. \<exists>q off. offsets_of m (t, g, q) = Some off}"
proof -
  let ?f = "\<lambda>k. case split_char CHR ''@'' k of [t, g'] \<Rightarrow> if g' = g then Some t else None | _ \<Rightarrow> None"
  have "which_topic_by_consumer g m =
      fold (\<lambda>k acc. case ?f k of Some x \<Rightarrow> hs_insert x acc | None \<Rightarrow> acc) (hm_keys (om_table m)) []"
    unfolding which_topic_by_consumer_def by (intro fold_cong) (auto split: list.splits)
  then have "set (which_topic_by_consumer g m) = {t. \<exists>k. hm_get (om_table m) k \<noteq> None \<and> ?f k = Some t}"
    by (simp only: set_fold_insert) (auto simp: hm_keys_iff)
  also have "\<dots> = {t. \<exists>q off. offsets_of m (t, g, q) = Some off}"
    unfolding stored_pairs [OF assms] pair_parts ..
  finally show ?thesis .
qed

lemma new_manager_inv: "offsets_inv (new_offset_manager r step dv store)"
  "offsets_of (new_offset_manager r step dv store) = Map.empty"
  by (auto simp: offsets_inv_def offsets_of_def new_offset_manager_def hm_inv_def)

section \<open>Statements\<close>

text \<open>
  C10. The offset manager is a map from topic, group and queue to offsets: after any sequence of
  commits, pull commits, erased resets and topic clean-ups over legal names, a query gives the offset
  last committed and not cleaned, or -1, and the groups of a topic and the topics of a group are
  those with an offset. The text that joins topic and group into a key never confuses two pairs.
\<close>

theorem offset_manager_refines_map:
  assumes "list_all op_legal ops" and "legal_name t" and "legal_name g"
    and "m = fold offset_step ops (new_offset_manager use_reset step dv store)"
    and "spec = fold spec_step ops Map.empty"
  shows "query_offset g t q m = (case spec (t, g, q) of Some off \<Rightarrow> off | None \<Rightarrow> -1) \<and>
    set (which_group_by_topic t m) = {g'. \<exists>q' off. spec (t, g', q') = Some off} \<and>
    set (which_topic_by_consumer g m) = {t'. \<exists>q' off. spec (t', g, q') = Some off}"
proof -
  have "offsets_inv m" "offsets_of m = spec"
    using offset_run [OF assms(1) new_manager_inv(1)] assms(4,5) by (simp_all add: new_manager_inv(2))
  then show ?thesis
    using query_is_lookup [OF _ assms(2,3), of m q] groups_of_topic [of m t] topics_of_group [of m g] by simp
qed

theorem offset_manager_refines_map_witness:
  "query_offset ''g'' ''b'' 1 (fold offset_step
      [Commit 5 ''g'' ''a'' 0 7, Commit 6 ''g'' ''b'' 1 8, Clean ''a'', Commit 7 ''h'' ''b'' 1 9]
      (new_offset_manager True 500 \<lparr>state_version = 0, timestamp = 0, counter = 0\<rparr> None)) = 8"
proof -
  have "legal_name ''a''" "legal_name ''b''" "legal_name ''g''" "legal_name ''h''" by code_simp+
  then show ?thesis
    using offset_manager_refines_map [OF _ _ _ refl refl, of "[Commit 5 ''g'' ''a'' 0 7, Commit 6 ''g'' ''b'' 1 8, Clean ''a'',
      Commit 7 ''h'' ''b'' 1 9]" "''b''" "''g''" 1 True 500 "\<lparr>state_version = 0, timestamp = 0, counter = 0\<rparr>" None]
    by simp
qed

text \<open>
  Committed offsets survive a restart of the broker: what a manager writes is read back by a new
  manager with the same offsets and, unless there are none, the same version. The offsets of pull
  consumers and of resets are written but not restored.
\<close>

lemma offsets_survive_restart:
  assumes "\<And>v. oj_read_version js (oj_version js v) = Some v" and "\<And>t. oj_read_table js (oj_table js t) = Some t"
    and "\<And>fs s. oj_render js pretty fs = Some s \<Longrightarrow> s \<noteq> [] \<and> oj_parse js s = Some fs"
    and "hm_inv (om_table m)" and "encode_pretty js pretty m = Returned s"
  shows "\<exists>m'. decode_offsets js s (new_offset_manager use_reset step dv store) = Returned m' \<and>
    om_table m' = om_table m \<and> ow_pull_offset_table (om_wrapper m') = [] \<and>
    (om_table m \<noteq> [] \<longrightarrow> ow_data_version (om_wrapper m') = ow_data_version (om_wrapper m))"
proof -
  have s: "s \<noteq> []" "oj_parse js s = Some (serialize_offsets js (om_wrapper m))"
    using assms(3) [of "serialize_offsets js (om_wrapper m)" s] assms(5)
    by (simp_all add: encode_pretty_def split: option.splits)
  have "visit_map js (serialize_offsets js (om_wrapper m)) = Some ((om_wrapper m)\<lparr>ow_version_change_counter := 0\<rparr>)"
    using assms(1,2) by (simp add: visit_map_def serialize_offsets_def unwrap_or_def)
  moreover have "hm_extend [] (om_table m) = om_table m"
    using assms(4) hm_extend_fresh [of "[]" "om_table m"] by simp
  ultimately show ?thesis
    using s by (auto simp: decode_offsets_def new_offset_manager_def)
qed

datatype sample_json = Version_Json data_version | Table_Json offset_table | Groups_Json "(string, string hset) hmap"

definition sample_version :: data_version where
  "sample_version = \<lparr>state_version = 0, timestamp = 4, counter = 1\<rparr>"

definition sample_manager :: offset_manager where
  "sample_manager = new_offset_manager True 500 sample_version None \<lparr>om_wrapper :=
     (om_wrapper (new_offset_manager True 500 sample_version None))\<lparr>ow_offset_table := [(''a@g'', [(0, 7)])]\<rparr>\<rparr>"

definition sample_fields :: "(string \<times> sample_json) list" where
  "sample_fields =
     [(''dataVersion'', Version_Json sample_version), (''offsetTable'', Table_Json [(''a@g'', [(0, 7)])]),
      (''resetOffsetTable'', Table_Json []), (''pullOffsetTable'', Table_Json []),
      (''processedPullOffsetTable'', Groups_Json [(''g'', [''a''])])]"

text \<open>An instance of the crate that knows the text of one object.\<close>

definition sample_js :: "sample_json offset_json" where
  "sample_js = \<lparr>oj_version = Version_Json, oj_table = Table_Json, oj_groups = Groups_Json,
     oj_read_version = (\<lambda>j. case j of Version_Json v \<Rightarrow> Some v | _ \<Rightarrow> None),
     oj_read_table = (\<lambda>j. case j of Table_Json t \<Rightarrow> Some t | _ \<Rightarrow> None), oj_default_version = sample_version,
     oj_render = (\<lambda>p fs. if fs = sample_fields then Some ''{..}'' else None),
     oj_parse = (\<lambda>s. if s = ''{..}'' then Some sample_fields else None)\<rparr>"

end
