(* ===== verification/Bits_Array.thy ===== *)
theory Bits_Array
  imports Byte_Codec
begin

unbundle bit_operations_syntax

text \<open>
  The bit array of the message filter (\<open>rocketmq-filter/src/utils/bits_array.rs\<close>): bits packed into
  bytes, the lowest bit first. \<open>None\<close> is a panic.
\<close>

section \<open>Operations\<close>

record bits_array =
  ba_bytes :: bytes
  ba_bit_length :: nat

definition ba_create :: "nat \<Rightarrow> bits_array" where
  "ba_create bit_length = \<lparr>ba_bytes = replicate ((bit_length + 7) div 8) 0, ba_bit_length = bit_length\<rparr>"

definition ba_from_bytes :: "bytes \<Rightarrow> nat option \<Rightarrow> bits_array option" where
  "ba_from_bytes bs bit_length =
     (if bs = [] then None
      else let n = (case bit_length of Some n \<Rightarrow> n | None \<Rightarrow> length bs * 8)
           in if n < 1 then None
              else if n < length bs * 8 then None
              else Some \<lparr>ba_bytes = bs, ba_bit_length = n\<rparr>)"

definition check_initialized :: "bits_array \<Rightarrow> unit option" where
  "check_initialized a = (if ba_bytes a = [] then None else Some ())"

definition check_byte_position :: "nat \<Rightarrow> bits_array \<Rightarrow> unit option" where
  "check_byte_position byte_pos a = do {
     check_initialized a;
     if byte_pos \<ge> length (ba_bytes a) then None else Some () }"

definition check_bit_position :: "nat \<Rightarrow> bits_array \<Rightarrow> unit option" where
  "check_bit_position bit_pos a = do {
     check_initialized a;
     if bit_pos \<ge> ba_bit_length a then None else Some () }"

definition subscript :: "nat \<Rightarrow> nat" where "subscript bit_pos = bit_pos div 8"

definition bit_position :: "nat \<Rightarrow> u8" where "bit_position bit_pos = push_bit (bit_pos mod 8) 1"

text \<open>Indexing a vector panics outside of it.\<close>

definition byte_at :: "nat \<Rightarrow> bytes \<Rightarrow> u8 option" where
  "byte_at i bs = (if i < length bs then Some (bs ! i) else None)"

definition get_byte :: "nat \<Rightarrow> bits_array \<Rightarrow> u8 option" where
  "get_byte byte_pos a = do { check_byte_position byte_pos a; byte_at byte_pos (ba_bytes a) }"

definition set_byte :: "nat \<Rightarrow> u8 \<Rightarrow> bits_array \<Rightarrow> bits_array option" where
  "set_byte byte_pos b a = do {
     check_byte_position byte_pos a;
     Some (a\<lparr>ba_bytes := (ba_bytes a)[byte_pos := b]\<rparr>) }"

definition get_bit :: "nat \<Rightarrow> bits_array \<Rightarrow> bool option" where
  "get_bit bit_pos a = do {
     check_bit_position bit_pos a;
     b \<leftarrow> byte_at (subscript bit_pos) (ba_bytes a);
     Some (b AND bit_position bit_pos \<noteq> 0) }"

definition set_bit_at :: "nat \<Rightarrow> bool \<Rightarrow> bits_array \<Rightarrow> bits_array option" where
  "set_bit_at bit_pos v a = do {
     check_bit_position bit_pos a;
     b \<leftarrow> byte_at (subscript bit_pos) (ba_bytes a);
     let new = (if v then b OR bit_position bit_pos else b AND NOT (bit_position bit_pos));
     Some (a\<lparr>ba_bytes := (ba_bytes a)[subscript bit_pos := new]\<rparr>) }"

definition xor_bit :: "nat \<Rightarrow> bool \<Rightarrow> bits_array \<Rightarrow> bits_array option" where
  "xor_bit bit_pos v a = do {
     check_bit_position bit_pos a;
     old \<leftarrow> get_bit bit_pos a;
     set_bit_at bit_pos (old \<noteq> v) a }"

definition or_bit :: "nat \<Rightarrow> bool \<Rightarrow> bits_array \<Rightarrow> bits_array option" where
  "or_bit bit_pos v a = do {
     check_bit_position bit_pos a;
     if v then set_bit_at bit_pos True a else Some a }"

definition and_bit :: "nat \<Rightarrow> bool \<Rightarrow> bits_array \<Rightarrow> bits_array option" where
  "and_bit bit_pos v a = do {
     check_bit_position bit_pos a;
     if \<not> v then set_bit_at bit_pos False a else Some a }"

definition not_bit :: "nat \<Rightarrow> bits_array \<Rightarrow> bits_array option" where
  "not_bit bit_pos a = do {
     check_bit_position bit_pos a;
     old \<leftarrow> get_bit bit_pos a;
     set_bit_at bit_pos (\<not> old) a }"

text \<open>The loop of \<open>xor\<close>, \<open>or\<close> and \<open>and\<close>, over the bytes both arrays have.\<close>

fun combine_loop :: "(u8 \<Rightarrow> u8 \<Rightarrow> u8) \<Rightarrow> nat list \<Rightarrow> bits_array \<Rightarrow> bits_array \<Rightarrow> bits_array option" where
  "combine_loop f [] other a = Some a"
| "combine_loop f (i # is) other a = do {
     b \<leftarrow> byte_at i (ba_bytes a);
     c \<leftarrow> get_byte i other;
     combine_loop f is other (a\<lparr>ba_bytes := (ba_bytes a)[i := f b c]\<rparr>) }"

definition combine_bits :: "(u8 \<Rightarrow> u8 \<Rightarrow> u8) \<Rightarrow> bits_array \<Rightarrow> bits_array \<Rightarrow> bits_array option" where
  "combine_bits f other a = do {
     check_initialized a;
     check_initialized other;
     let min_len = min (length (ba_bytes a)) (length (ba_bytes other));
     combine_loop f [0..<min_len] other a }"

definition xor_array :: "bits_array \<Rightarrow> bits_array \<Rightarrow> bits_array option" where
  "xor_array other a = combine_bits (XOR) other a"

definition or_array :: "bits_array \<Rightarrow> bits_array \<Rightarrow> bits_array option" where
  "or_array other a = combine_bits (OR) other a"

definition and_array :: "bits_array \<Rightarrow> bits_array \<Rightarrow> bits_array option" where
  "and_array other a = combine_bits (AND) other a"

text \<open>\<open>Display\<close>: the bits of the bytes from the last to the first, the highest bit first.\<close>

definition byte_digits :: "nat \<Rightarrow> u8 \<Rightarrow> string" where
  "byte_digits j b = map (\<lambda>k. if b AND push_bit k 1 = push_bit k 1 then CHR ''1'' else CHR ''0'') (rev [0..<Suc j])"

definition show_bits :: "bits_array \<Rightarrow> string" where
  "show_bits a =
     (if ba_bytes a = [] then ''null''
      else concat (map (\<lambda>i.
        byte_digits (if i = length (ba_bytes a) - 1 \<and> ba_bit_length a mod 8 > 0 then ba_bit_length a mod 8 - 1 else 7)
          (ba_bytes a ! i) @ (if i mod 8 = 0 then [CHR 10] else [])) (rev [0..<length (ba_bytes a)])))"

section \<open>A list of bits\<close>

definition ba_ok :: "bits_array \<Rightarrow> bool" where
  "ba_ok a \<longleftrightarrow> ba_bytes a \<noteq> [] \<and> ba_bit_length a \<le> 8 * length (ba_bytes a)"

definition bits_of :: "bits_array \<Rightarrow> bool list" where
  "bits_of a = map (\<lambda>i. bit (ba_bytes a ! (i div 8)) (i mod 8)) [0..<ba_bit_length a]"

lemma length_bits_of [simp]: "length (bits_of a) = ba_bit_length a"
  by (simp add: bits_of_def)

lemma nth_bits_of: "i < ba_bit_length a \<Longrightarrow> bits_of a ! i = bit (ba_bytes a ! (i div 8)) (i mod 8)"
  by (simp add: bits_of_def)

lemma mask_bit: "b AND 2 ^ k = 0 \<longleftrightarrow> \<not> bit b k" for b :: u8
  by (rule and_exp_eq_0_iff_not_bit)

lemma in_bytes: "ba_ok a \<Longrightarrow> i < ba_bit_length a \<Longrightarrow> i div 8 < length (ba_bytes a)"
  by (auto simp: ba_ok_def)

lemma check_ok [simp]:
  "ba_ok a \<Longrightarrow> check_bit_position i a = (if i < ba_bit_length a then Some () else None)"
  by (auto simp: check_bit_position_def check_initialized_def ba_ok_def)

lemma get_bit_nth:
  "ba_ok a \<Longrightarrow> get_bit i a = (if i < length (bits_of a) then Some (bits_of a ! i) else None)"
  by (simp add: get_bit_def byte_at_def subscript_def bit_position_def in_bytes mask_bit nth_bits_of)

lemma bit_updated:
  "k < 8 \<Longrightarrow> k' < 8 \<Longrightarrow>
     bit (if v then b OR 2 ^ k else b AND NOT (2 ^ k)) k' = (if k' = k then v else bit b k')" for b :: u8
  by (auto simp: bit_simps)

lemma same_place: "i div 8 = j div 8 \<Longrightarrow> i mod 8 = j mod 8 \<Longrightarrow> i = (j :: nat)"
  by (metis div_mult_mod_eq)

lemma set_bit_update:
  assumes "ba_ok a" "i < ba_bit_length a"
  shows "\<exists>a'. set_bit_at i v a = Some a' \<and> ba_ok a' \<and> bits_of a' = (bits_of a)[i := v]"
proof -
  let ?b = "ba_bytes a ! (i div 8)"
  let ?new = "if v then ?b OR bit_position i else ?b AND NOT (bit_position i)"
  let ?a = "a\<lparr>ba_bytes := (ba_bytes a)[i div 8 := ?new]\<rparr>"
  have at: "i div 8 < length (ba_bytes a)" by (rule in_bytes [OF assms])
  have "bits_of ?a ! j = (bits_of a)[i := v] ! j" if "j < ba_bit_length a" for j
  proof (cases "j div 8 = i div 8")
    case True
    then have "bits_of ?a ! j = (if j mod 8 = i mod 8 then v else bit ?b (j mod 8))"
      using that at bit_updated [of "i mod 8" "j mod 8" v ?b]
      by (cases v; cases "j mod 8 = i mod 8") (simp_all add: nth_bits_of bit_position_def)
    moreover have "j mod 8 = i mod 8 \<longleftrightarrow> j = i" using True same_place [of j i] by auto
    ultimately show ?thesis using that True by (simp add: nth_list_update nth_bits_of)
  next
    case False
    then have "j \<noteq> i" by auto
    then show ?thesis using that False by (simp add: nth_bits_of)
  qed
  then have "bits_of ?a = (bits_of a)[i := v]" by (intro nth_equalityI) simp_all
  moreover have "set_bit_at i v a = Some ?a" using assms at by (simp add: set_bit_at_def byte_at_def subscript_def)
  ultimately show ?thesis using assms(1) by (auto simp: ba_ok_def)
qed

lemma combine_loop_bytes:
  assumes "ba_bytes other \<noteq> []" "distinct is" "\<forall>i \<in> set is. i < length (ba_bytes a) \<and> i < length (ba_bytes other)"
  shows "combine_loop f is other a = Some (a\<lparr>ba_bytes := map (\<lambda>i.
    if i \<in> set is then f (ba_bytes a ! i) (ba_bytes other ! i) else ba_bytes a ! i) [0..<length (ba_bytes a)]\<rparr>)"
  using assms(2,3)
proof (induction "is" arbitrary: a)
  case Nil
  then show ?case by (simp add: map_nth)
next
  case (Cons i "is")
  let ?a = "a\<lparr>ba_bytes := (ba_bytes a)[i := f (ba_bytes a ! i) (ba_bytes other ! i)]\<rparr>"
  have "get_byte i other = Some (ba_bytes other ! i)" "byte_at i (ba_bytes a) = Some (ba_bytes a ! i)"
    using Cons.prems assms(1)
    by (simp_all add: get_byte_def check_byte_position_def check_initialized_def byte_at_def not_le)
  then have "combine_loop f (i # is) other a = combine_loop f is other ?a" by simp
  then show ?case using Cons.IH [of ?a] Cons.prems by (auto intro!: nth_equalityI simp: nth_list_update)
qed

lemma combine_bits_bits:
  assumes "ba_ok a" "ba_ok b" "ba_bit_length a = ba_bit_length b" "length (ba_bytes a) = length (ba_bytes b)"
    and pointwise: "\<And>x y k. k < 8 \<Longrightarrow> bit (f x y) k = g (bit x k) (bit y k)"
  shows "\<exists>c. combine_bits f b a = Some c \<and> ba_ok c \<and> bits_of c = map2 g (bits_of a) (bits_of b)"
proof -
  let ?c = "a\<lparr>ba_bytes := map (\<lambda>i. f (ba_bytes a ! i) (ba_bytes b ! i)) [0..<length (ba_bytes a)]\<rparr>"
  have "combine_bits f b a = Some ?c"
    using assms(1,2,4) combine_loop_bytes [of b "[0..<length (ba_bytes a)]" a f]
    by (simp add: combine_bits_def check_initialized_def ba_ok_def Let_def)
  moreover have "bits_of ?c = map2 g (bits_of a) (bits_of b)"
    using assms(1,3) in_bytes [of a] pointwise by (intro nth_equalityI) (simp_all add: nth_bits_of)
  ultimately show ?thesis using assms(1) by (auto simp: ba_ok_def)
qed

section \<open>Statements\<close>

text \<open>
  C29. The packed array behaves as the list of its bits: reading gives the bit or panics outside of
  the array, writing, flipping and combining one bit change that bit alone, and the operations on two
  arrays of one shape combine them bit by bit.
\<close>

theorem bits_array_refines_bits:
  assumes "ba_ok a" and "ba_ok b" and "ba_bit_length a = ba_bit_length b" and "length (ba_bytes a) = length (ba_bytes b)"
  shows "get_bit i a = (if i < length (bits_of a) then Some (bits_of a ! i) else None) \<and>
    map_option bits_of (set_bit_at i v a) = (if i < length (bits_of a) then Some ((bits_of a)[i := v]) else None) \<and>
    map_option bits_of (xor_bit i v a) =
      (if i < length (bits_of a) then Some ((bits_of a)[i := bits_of a ! i \<noteq> v]) else None) \<and>
    map_option bits_of (or_bit i v a) =
      (if i < length (bits_of a) then Some ((bits_of a)[i := bits_of a ! i \<or> v]) else None) \<and>
    map_option bits_of (and_bit i v a) =
      (if i < length (bits_of a) then Some ((bits_of a)[i := bits_of a ! i \<and> v]) else None) \<and>
    map_option bits_of (not_bit i a) =
      (if i < length (bits_of a) then Some ((bits_of a)[i := \<not> bits_of a ! i]) else None) \<and>
    map_option bits_of (xor_array b a) = Some (map2 (\<noteq>) (bits_of a) (bits_of b)) \<and>
    map_option bits_of (or_array b a) = Some (map2 (\<or>) (bits_of a) (bits_of b)) \<and>
    map_option bits_of (and_array b a) = Some (map2 (\<and>) (bits_of a) (bits_of b))"
proof -
  have set: "map_option bits_of (set_bit_at i w a) =
      (if i < length (bits_of a) then Some ((bits_of a)[i := w]) else None)" for w
    using set_bit_update [OF assms(1), of i w] assms(1) by (auto simp: set_bit_at_def)
  have ops: "map_option bits_of (xor_array b a) = Some (map2 (\<noteq>) (bits_of a) (bits_of b))"
    "map_option bits_of (or_array b a) = Some (map2 (\<or>) (bits_of a) (bits_of b))"
    "map_option bits_of (and_array b a) = Some (map2 (\<and>) (bits_of a) (bits_of b))"
    using combine_bits_bits [OF assms, of "(XOR)" "(\<noteq>)"] combine_bits_bits [OF assms, of "(OR)" "(\<or>)"]
      combine_bits_bits [OF assms, of "(AND)" "(\<and>)"]
    by (auto simp: xor_array_def or_array_def and_array_def bit_simps)
  show ?thesis
    using set [of True] set [of False] set [of v] set [of "bits_of a ! i \<noteq> v"] set [of "\<not> bits_of a ! i"] ops
      get_bit_nth [OF assms(1), of i] assms(1)
    by (cases v) (simp_all add: xor_bit_def or_bit_def and_bit_def not_bit_def)
qed

theorem bits_array_refines_bits_witness:
  "map_option bits_of (set_bit_at 9 True (ba_create 10)) =
     Some [False, False, False, False, False, False, False, False, False, True]"
proof -
  have "ba_ok (ba_create 10)" "bits_of (ba_create 10) = replicate 10 False" by code_simp+
  then show ?thesis
    using bits_array_refines_bits [of "ba_create 10" "ba_create 10" 9 True] by (simp add: numeral_eq_Suc)
qed

end
