(* ===== verification/Static_Topic.thy ===== *)
theory Static_Topic
  imports Route_Data Topic_Names Message_Queue
begin

text \<open>
  Static topics, whose logical queues are mapped to ranges of physical queues
  (\<open>rocketmq-remoting/src/protocol/static_topic\<close>): the items of a mapping with their offsets, the
  search for the item of a logical offset, and the brokers that serve the logical queues of a topic
  (\<open>rocketmq-remoting/src/rpc/client_metadata.rs\<close>). Arithmetic on offsets wraps.
\<close>

section \<open>Mapping items\<close>

record mapping_item =
  it_gen :: i32
  it_queue_id :: i32
  it_bname :: "string option"
  it_logic_offset :: i64
  it_start_offset :: i64
  it_end_offset :: i64
  it_time_of_start :: i64
  it_time_of_end :: i64

definition mapping_item_default :: mapping_item where
  "mapping_item_default = \<lparr>it_gen = 0, it_queue_id = 0, it_bname = None, it_logic_offset = 0, it_start_offset = 0,
     it_end_offset = -1, it_time_of_start = -1, it_time_of_end = -1\<rparr>"

definition compute_static_queue_offset_strictly :: "mapping_item \<Rightarrow> i64 \<Rightarrow> i64" where
  "compute_static_queue_offset_strictly it p =
     (if p > it_start_offset it then it_logic_offset it
      else wrap_i64 (it_logic_offset it + wrap_i64 (p - it_start_offset it)))"

definition compute_static_queue_offset_loosely :: "mapping_item \<Rightarrow> i64 \<Rightarrow> i64" where
  "compute_static_queue_offset_loosely it p =
     (if it_logic_offset it < 0 then -1
      else if p < it_start_offset it then it_logic_offset it
      else if it_end_offset it \<ge> it_start_offset it \<and> it_end_offset it < p
      then wrap_i64 (it_logic_offset it + wrap_i64 (it_end_offset it - it_start_offset it))
      else wrap_i64 (it_logic_offset it + wrap_i64 (p - it_start_offset it)))"

definition compute_physical_queue_offset :: "mapping_item \<Rightarrow> i64 \<Rightarrow> i64" where
  "compute_physical_queue_offset it s = wrap_i64 (it_start_offset it + wrap_i64 (s - it_logic_offset it))"

definition compute_offset_delta :: "mapping_item \<Rightarrow> i64" where
  "compute_offset_delta it = wrap_i64 (it_logic_offset it - it_start_offset it)"

definition check_if_end_offset_decided :: "mapping_item \<Rightarrow> bool" where
  "check_if_end_offset_decided it \<longleftrightarrow> it_end_offset it > it_start_offset it"

definition compute_max_static_queue_offset :: "mapping_item \<Rightarrow> i64" where
  "compute_max_static_queue_offset it =
     (if it_end_offset it \<ge> it_start_offset it
      then wrap_i64 (wrap_i64 (it_logic_offset it + it_end_offset it) - it_start_offset it)
      else it_logic_offset it)"

section \<open>Search\<close>

fun find_backwards :: "i64 \<Rightarrow> bool \<Rightarrow> mapping_item list \<Rightarrow> mapping_item option" where
  "find_backwards logic_offset ignore_negative [] = None"
| "find_backwards logic_offset ignore_negative (it # its) =
     (if ignore_negative \<and> it_logic_offset it < 0 then find_backwards logic_offset ignore_negative its
      else if logic_offset \<ge> it_logic_offset it then Some it
      else find_backwards logic_offset ignore_negative its)"

fun first_item :: "bool \<Rightarrow> mapping_item list \<Rightarrow> mapping_item option" where
  "first_item ignore_negative [] = None"
| "first_item ignore_negative (it # its) =
     (if ignore_negative \<and> it_logic_offset it < 0 then first_item ignore_negative its else Some it)"

definition find_logic_queue_mapping_item :: "mapping_item list \<Rightarrow> i64 \<Rightarrow> bool \<Rightarrow> mapping_item option" where
  "find_logic_queue_mapping_item mapping_items logic_offset ignore_negative =
     (if mapping_items = [] then None
      else case find_backwards logic_offset ignore_negative (rev mapping_items) of
             Some it \<Rightarrow> Some it
           | None \<Rightarrow> first_item ignore_negative mapping_items)"

fun next_of :: "i32 \<Rightarrow> bool \<Rightarrow> mapping_item list \<Rightarrow> mapping_item option" where
  "next_of g ignore_negative [] = None"
| "next_of g ignore_negative (it # its) =
     (if ignore_negative \<and> it_logic_offset it < 0 then next_of g ignore_negative its
      else if it_gen it = g then
        (case its of
           nxt # _ \<Rightarrow> if ignore_negative \<and> it_logic_offset nxt < 0 then None else Some nxt
         | [] \<Rightarrow> None)
      else next_of g ignore_negative its)"

definition find_next :: "mapping_item list \<Rightarrow> mapping_item option \<Rightarrow> bool \<Rightarrow> mapping_item option" where
  "find_next items current_item ignore_negative =
     (case current_item of
        None \<Rightarrow> None
      | Some cur \<Rightarrow> if items = [] then None else next_of (it_gen cur) ignore_negative items)"

text \<open>An empty scope fails an assertion.\<close>

definition get_mock_broker_name :: "string \<Rightarrow> string outcome" where
  "get_mock_broker_name scope =
     (if scope = [] then Panicked
      else if scope = ''__global__'' then Returned (''__syslo__'' @ drop 2 scope)
      else Returned (''__syslo__'' @ scope))"

section \<open>The brokers of logical queues\<close>

text \<open>The mappings of a topic, grouped by their scope.\<close>

definition infos_by_scope ::
  "(string, topic_queue_mapping_info) hmap \<Rightarrow> (string, (string, topic_queue_mapping_info) hmap) hmap" where
  "infos_by_scope by_broker =
     fold (\<lambda>(broker_name, info) m.
       case mi_scope info of
         None \<Rightarrow> m
       | Some scope \<Rightarrow>
           hm_insert scope (hm_insert broker_name info (case hm_get m scope of None \<Rightarrow> [] | Some x \<Rightarrow> x)) m)
       by_broker []"

definition enter_endpoint ::
  "string \<Rightarrow> string \<Rightarrow> topic_queue_mapping_info \<Rightarrow> i32 \<Rightarrow>
   (message_queue, topic_queue_mapping_info) hmap \<Rightarrow> (message_queue, topic_queue_mapping_info) hmap" where
  "enter_endpoint topic mock info global_id eps =
     (let mq = MessageQueue topic mock global_id
      in case hm_get eps mq of
           Some old_info \<Rightarrow> if mi_epoch old_info \<le> mi_epoch info then hm_insert mq info eps else eps
         | None \<Rightarrow> hm_insert mq info eps)"

fun enter_infos ::
  "string \<Rightarrow> topic_queue_mapping_info list \<Rightarrow> i32 \<Rightarrow> (message_queue, topic_queue_mapping_info) hmap \<Rightarrow>
   (i32 \<times> (message_queue, topic_queue_mapping_info) hmap) outcome" where
  "enter_infos topic [] total_nums eps = Returned (total_nums, eps)"
| "enter_infos topic (info # infos) total_nums eps =
     (let total_nums' = (if mi_epoch info \<ge> -1 \<and> mi_total_queues info > total_nums then mi_total_queues info
                         else total_nums)
      in case mi_curr_id_map info of
           None \<Rightarrow> Panicked
         | Some [] \<Rightarrow> enter_infos topic infos total_nums' eps
         | Some ids \<Rightarrow>
             (case get_mock_broker_name (case mi_scope info of Some s \<Rightarrow> s | None \<Rightarrow> []) of
                Panicked \<Rightarrow> Panicked
              | Returned mock \<Rightarrow>
                  enter_infos topic infos total_nums' (fold (enter_endpoint topic mock info) (hm_keys ids) eps)))"

definition endpoint_broker :: "(message_queue, topic_queue_mapping_info) hmap \<Rightarrow> message_queue \<Rightarrow> string outcome" where
  "endpoint_broker eps mq =
     (case hm_get eps mq of
        None \<Rightarrow> Returned ''__syslo__none__''
      | Some info \<Rightarrow> (case mi_bname info of None \<Rightarrow> Panicked | Some b \<Rightarrow> Returned b))"

fun enter_brokers ::
  "string \<Rightarrow> string \<Rightarrow> i32 list \<Rightarrow> (message_queue, topic_queue_mapping_info) hmap \<Rightarrow>
   (message_queue, string) hmap \<Rightarrow> (message_queue, string) hmap outcome" where
  "enter_brokers topic scope [] eps m = Returned m"
| "enter_brokers topic scope (i # is) eps m =
     (case get_mock_broker_name scope of
        Panicked \<Rightarrow> Panicked
      | Returned mock \<Rightarrow>
          (case endpoint_broker eps (MessageQueue topic mock i) of
             Panicked \<Rightarrow> Panicked
           | Returned b \<Rightarrow> enter_brokers topic scope is eps (hm_insert (MessageQueue topic mock i) b m)))"

fun endpoints_of_scopes ::
  "string \<Rightarrow> (string, (string, topic_queue_mapping_info) hmap) hmap \<Rightarrow> (message_queue, string) hmap \<Rightarrow>
   (message_queue, string) hmap outcome" where
  "endpoints_of_scopes topic [] m = Returned m"
| "endpoints_of_scopes topic ((scope, infos) # rest) m =
     (case enter_infos topic (sort_key (\<lambda>info. - mi_epoch info) (hm_values infos)) 0 [] of
        Panicked \<Rightarrow> Panicked
      | Returned (total_nums, eps) \<Rightarrow>
          (case enter_brokers topic scope [0..total_nums - 1] eps m of
             Panicked \<Rightarrow> Panicked
           | Returned m' \<Rightarrow> endpoints_of_scopes topic rest m'))"

definition topic_route_data2endpoints_for_static_topic ::
  "string \<Rightarrow> topic_route_data \<Rightarrow> (message_queue, string) hmap option outcome" where
  "topic_route_data2endpoints_for_static_topic topic route =
     (case topic_queue_mapping_by_broker route of
        None \<Rightarrow> Returned (Some [])
      | Some [] \<Rightarrow> Returned (Some [])
      | Some by_broker \<Rightarrow>
          (case endpoints_of_scopes topic (infos_by_scope by_broker) [] of
             Panicked \<Rightarrow> Panicked
           | Returned m \<Rightarrow> Returned (Some m)))"

section \<open>Contexts of requests\<close>

record mapping_detail =
  md_info :: topic_queue_mapping_info
  md_hosted_queues :: "(i32, mapping_item list) hmap option"

definition get_mapping_info :: "mapping_detail \<Rightarrow> i32 \<Rightarrow> mapping_item list option" where
  "get_mapping_info md global_id = (case md_hosted_queues md of None \<Rightarrow> None | Some m \<Rightarrow> hm_get m global_id)"

definition compute_max_offset_from_mapping :: "mapping_detail \<Rightarrow> i32 option \<Rightarrow> i64 outcome" where
  "compute_max_offset_from_mapping md global_id =
     (case global_id of
        None \<Rightarrow> Panicked
      | Some g \<Rightarrow>
          (case get_mapping_info md g of
             None \<Rightarrow> Returned (-1)
           | Some items \<Rightarrow>
               if items = [] then Returned (-1) else Returned (compute_max_static_queue_offset (last items))))"

record mapping_context =
  ctx_topic :: string
  ctx_global_id :: "i32 option"
  ctx_mapping_detail :: "mapping_detail option"
  ctx_mapping_item_list :: "mapping_item list"
  ctx_leader_item :: "mapping_item option"
  ctx_current_item :: "mapping_item option"

definition is_leader :: "mapping_context \<Rightarrow> bool" where
  "is_leader ctx \<longleftrightarrow>
     (case ctx_leader_item ctx of
        None \<Rightarrow> False
      | Some leader_item \<Rightarrow>
          (case it_bname leader_item of
             None \<Rightarrow> False
           | Some broker_name \<Rightarrow>
               (case ctx_mapping_detail ctx of
                  None \<Rightarrow> False
                | Some md \<Rightarrow> (case mi_bname (md_info md) of None \<Rightarrow> False | Some b \<Rightarrow> b = broker_name))))"

section \<open>Lemmas\<close>

lemma find_backwards_last:
  assumes "\<forall>it \<in> set items. 0 \<le> it_logic_offset it" "i < length items" "it_logic_offset (items ! i) \<le> off"
    "\<forall>j. i < j \<and> j < length items \<longrightarrow> off < it_logic_offset (items ! j)"
  shows "find_backwards off ign (rev items) = Some (items ! i)"
  using assms
proof (induction items rule: rev_induct)
  case (snoc it items)
  show ?case
  proof (cases "i = length items")
    case True
    then show ?thesis using snoc.prems by simp
  next
    case False
    then have "i < length items" using snoc.prems(2) by simp
    moreover from this have "off < it_logic_offset it"
      using snoc.prems(4) [rule_format, of "length items"] by simp
    moreover have "\<forall>j. i < j \<and> j < length items \<longrightarrow> off < it_logic_offset (items ! j)"
      using snoc.prems(4) by (metis length_append_singleton less_SucI nth_append)
    ultimately show ?thesis using snoc.IH snoc.prems(1,3) by (simp add: nth_append)
  qed
qed simp

lemma next_of_nth:
  assumes "\<forall>it \<in> set items. 0 \<le> it_logic_offset it" "distinct (map it_gen items)" "i < length items"
  shows "next_of (it_gen (items ! i)) ign items = (if Suc i < length items then Some (items ! Suc i) else None)"
  using assms
proof (induction items arbitrary: i)
  case (Cons it items)
  show ?case
  proof (cases i)
    case 0
    then show ?thesis using Cons.prems(1) by (cases items) auto
  next
    case (Suc k)
    then have "it_gen it \<noteq> it_gen (items ! k)" using Cons.prems(2,3) by auto
    then show ?thesis using Cons.IH [of k] Cons.prems Suc by simp
  qed
qed simp

text \<open>The endpoints entered so far are the newest of the mappings seen.\<close>

definition serves :: "topic_queue_mapping_info \<Rightarrow> i32 \<Rightarrow> bool" where
  "serves info i \<longleftrightarrow> (case mi_curr_id_map info of None \<Rightarrow> False | Some ids \<Rightarrow> hm_contains ids i)"

definition newest_of :: "topic_queue_mapping_info list \<Rightarrow> i32 \<Rightarrow> topic_queue_mapping_info option \<Rightarrow> bool" where
  "newest_of infos i x \<longleftrightarrow>
     (case x of
        None \<Rightarrow> (\<forall>info \<in> set infos. \<not> serves info i)
      | Some info \<Rightarrow> info \<in> set infos \<and> serves info i \<and>
          (\<forall>info' \<in> set infos. serves info' i \<longrightarrow> mi_epoch info' \<le> mi_epoch info))"

lemma get_enter_endpoints:
  "hm_get (fold (enter_endpoint topic mock info) ks eps) (MessageQueue topic mock i) =
     (if i \<in> set ks then
        (case hm_get eps (MessageQueue topic mock i) of
           None \<Rightarrow> Some info
         | Some old \<Rightarrow> if mi_epoch old \<le> mi_epoch info then Some info else Some old)
      else hm_get eps (MessageQueue topic mock i))"
  by (induction ks arbitrary: eps) (auto simp: enter_endpoint_def Let_def split: option.splits)

lemma enter_infos_newest:
  assumes "\<forall>info \<in> set infos. mi_scope info = Some scope \<and> mi_curr_id_map info \<noteq> None"
    "get_mock_broker_name scope = Returned mock"
    "\<forall>i. newest_of seen i (hm_get eps (MessageQueue topic mock i))"
  shows "\<exists>n eps'. enter_infos topic infos n0 eps = Returned (n, eps') \<and>
    (\<forall>i. newest_of (seen @ infos) i (hm_get eps' (MessageQueue topic mock i)))"
  using assms(1,3)
proof (induction infos arbitrary: n0 eps seen)
  case Nil
  then show ?case by simp
next
  case (Cons info infos)
  obtain ids where ids: "mi_curr_id_map info = Some ids" using Cons.prems(1) by auto
  let ?eps = "fold (enter_endpoint topic mock info) (hm_keys ids) eps"
  have "newest_of (seen @ [info]) i (hm_get ?eps (MessageQueue topic mock i))" for i
  proof -
    have "i \<in> set (hm_keys ids) \<longleftrightarrow> serves info i" by (auto simp: serves_def ids hm_keys_iff)
    then show ?thesis
      using Cons.prems(2) [rule_format, of i]
      by (auto simp: get_enter_endpoints newest_of_def split: option.splits)
  qed
  moreover have "\<exists>n. enter_infos topic (info # infos) n0 eps = enter_infos topic infos n ?eps"
    using Cons.prems(1) assms(2) by (cases ids) (auto simp: ids hm_keys_def Let_def)
  ultimately show ?case
    using Cons.IH [of "seen @ [info]" ?eps] Cons.prems(1) by fastforce
qed

lemma enter_infos_total:
  "enter_infos topic infos n0 eps = Returned (n, eps') \<Longrightarrow>
     n0 \<le> n \<and> (\<forall>info \<in> set infos. -1 \<le> mi_epoch info \<longrightarrow> mi_total_queues info \<le> n)"
proof (induction infos arbitrary: n0 eps)
  case (Cons info infos)
  then obtain eps1 where "enter_infos topic infos
      (if mi_epoch info \<ge> -1 \<and> mi_total_queues info > n0 then mi_total_queues info else n0) eps1 = Returned (n, eps')"
    by (auto simp: Let_def split: option.splits list.splits outcome.splits)
  from Cons.IH [OF this] show ?case by (auto split: if_splits)
qed simp

lemma enter_brokers_all:
  assumes "get_mock_broker_name scope = Returned mock"
    "\<forall>i \<in> set is. \<forall>info. hm_get eps (MessageQueue topic mock i) = Some info \<longrightarrow> mi_bname info \<noteq> None"
  shows "\<exists>m'. enter_brokers topic scope is eps m = Returned m' \<and>
    (\<forall>i \<in> set is. hm_get m' (MessageQueue topic mock i) =
       Some (case hm_get eps (MessageQueue topic mock i) of
               None \<Rightarrow> ''__syslo__none__'' | Some info \<Rightarrow> the (mi_bname info))) \<and>
    (\<forall>mq. mq \<notin> MessageQueue topic mock ` set is \<longrightarrow> hm_get m' mq = hm_get m mq)"
  using assms(2)
proof (induction "is" arbitrary: m)
  case Nil
  then show ?case by simp
next
  case (Cons i "is")
  let ?b = "case hm_get eps (MessageQueue topic mock i) of
    None \<Rightarrow> ''__syslo__none__'' | Some info \<Rightarrow> the (mi_bname info)"
  have "endpoint_broker eps (MessageQueue topic mock i) = Returned ?b"
    using Cons.prems by (auto simp: endpoint_broker_def split: option.splits)
  then have step: "enter_brokers topic scope (i # is) eps m =
      enter_brokers topic scope is eps (hm_insert (MessageQueue topic mock i) ?b m)"
    by (simp add: assms(1))
  obtain m' where m': "enter_brokers topic scope is eps (hm_insert (MessageQueue topic mock i) ?b m) = Returned m'"
    "\<forall>i \<in> set is. hm_get m' (MessageQueue topic mock i) =
       Some (case hm_get eps (MessageQueue topic mock i) of
               None \<Rightarrow> ''__syslo__none__'' | Some info \<Rightarrow> the (mi_bname info))"
    "\<forall>mq. mq \<notin> MessageQueue topic mock ` set is \<longrightarrow>
       hm_get m' mq = hm_get (hm_insert (MessageQueue topic mock i) ?b m) mq"
    using Cons.IH [of "hm_insert (MessageQueue topic mock i) ?b m"] Cons.prems by auto
  have "hm_get m' (MessageQueue topic mock i) = Some ?b"
    using m'(2) m'(3) [rule_format, of "MessageQueue topic mock i"] by (cases "i \<in> set is") auto
  then show ?case using step m' by (intro exI [of _ m']) auto
qed

lemma infos_of_one_scope:
  fixes kvs :: "(string, topic_queue_mapping_info) hmap"
  assumes "\<forall>(b, info) \<in> set kvs. mi_scope info = Some scope" "hm_inv (m @ kvs)"
  shows "fold (\<lambda>(broker_name, info) m.
       case mi_scope info of
         None \<Rightarrow> m
       | Some scope \<Rightarrow>
           hm_insert scope (hm_insert broker_name info (case hm_get m scope of None \<Rightarrow> [] | Some x \<Rightarrow> x)) m)
     kvs [(scope, m)] = [(scope, m @ kvs)]"
  using assms
proof (induction kvs arbitrary: m)
  case (Cons kv kvs)
  have one: "hm_insert scope x [(scope, y)] = [(scope, x)]" for x y :: "(string, topic_queue_mapping_info) hmap"
    by (simp add: hm_insert_def)
  have "hm_get m (fst kv) = None"
    using Cons.prems(2) by (auto simp: hm_inv_def hm_get_def map_of_eq_None_iff)
  then have "hm_insert (fst kv) (snd kv) m = m @ [kv]" by (simp add: hm_insert_fresh)
  moreover have "hm_get [(scope, m)] scope = Some m" by (simp add: hm_get_def)
  ultimately show ?case
    using Cons.IH [of "m @ [kv]"] Cons.prems by (auto simp: one case_prod_beta)
qed simp

lemma infos_by_one_scope:
  assumes "\<forall>(b, info) \<in> set kvs. mi_scope info = Some scope" "hm_inv kvs" "kvs \<noteq> []"
  shows "infos_by_scope kvs = [(scope, kvs)]"
proof -
  obtain b info rest where kvs: "kvs = (b, info) # rest" using assms(3) by (cases kvs) auto
  have "hm_insert b info [] = [(b, info)]" by (simp add: hm_insert_def)
  moreover have "hm_insert scope [(b, info)] [] = [(scope, [(b, info)])]" by (simp add: hm_insert_def)
  ultimately show ?thesis
    using infos_of_one_scope [of rest scope "[(b, info)]"] assms by (simp add: infos_by_scope_def kvs)
qed

section \<open>Statements\<close>

text \<open>
  A logical offset finds the part of the queue that holds it: in a mapping whose items start at
  growing offsets, the item found starts at or before the offset, the next one starts after it, and
  the successor of the item is the next one.
\<close>

lemma logical_offset_finds_its_item:
  assumes "sorted_wrt (<) (map it_logic_offset items)" and "distinct (map it_gen items)" and "items \<noteq> []"
    and "0 \<le> it_logic_offset (hd items)" and "it_logic_offset (hd items) \<le> off"
  shows "\<exists>i < length items. find_logic_queue_mapping_item items off ign = Some (items ! i) \<and>
    it_logic_offset (items ! i) \<le> off \<and> (Suc i < length items \<longrightarrow> off < it_logic_offset (items ! Suc i)) \<and>
    find_next items (Some (items ! i)) ign = (if Suc i < length items then Some (items ! Suc i) else None)"
proof -
  have lt: "it_logic_offset (items ! i) < it_logic_offset (items ! j)" if "i < j" "j < length items" for i j
    using sorted_wrt_nth_less [OF assms(1)] that by simp
  have nonneg: "\<forall>it \<in> set items. 0 \<le> it_logic_offset it"
  proof
    fix it assume "it \<in> set items"
    then obtain j where "j < length items" "it = items ! j" by (auto simp: in_set_conv_nth)
    then show "0 \<le> it_logic_offset it" using lt [of 0 j] assms(3,4) by (cases j) (auto simp: hd_conv_nth)
  qed
  define i where "i = Max {j. j < length items \<and> it_logic_offset (items ! j) \<le> off}"
  have set: "finite {j. j < length items \<and> it_logic_offset (items ! j) \<le> off}"
    "0 \<in> {j. j < length items \<and> it_logic_offset (items ! j) \<le> off}"
    using assms(3,5) by (auto simp: hd_conv_nth)
  then have i: "i < length items" "it_logic_offset (items ! i) \<le> off"
    using Max_in [OF set(1)] unfolding i_def by blast+
  have later: "\<forall>j. i < j \<and> j < length items \<longrightarrow> off < it_logic_offset (items ! j)"
    using Max_ge [OF set(1)] unfolding i_def by (metis (mono_tags, lifting) leD mem_Collect_eq not_le)
  have "find_logic_queue_mapping_item items off ign = Some (items ! i)"
    using find_backwards_last [OF nonneg i later] assms(3) by (simp add: find_logic_queue_mapping_item_def)
  moreover have "find_next items (Some (items ! i)) ign = (if Suc i < length items then Some (items ! Suc i) else None)"
    using next_of_nth [OF nonneg assms(2) i(1)] assms(3) by (simp add: find_next_def)
  ultimately show ?thesis using i later by auto
qed

text \<open>
  Logical and physical offsets of an item translate into each other: the physical offset of a
  logical offset of the item is translated back by the loose computation. The strict computation has
  its comparison reversed and gives the start of the item for every offset behind the first.
\<close>

lemma static_offset_translation:
  assumes "0 \<le> it_logic_offset it" and "0 \<le> it_start_offset it" and "it_logic_offset it \<le> off"
    and "off - it_logic_offset it + it_start_offset it < 2 ^ 63" and "off < 2 ^ 63"
    and "it_end_offset it < it_start_offset it \<or>
      off - it_logic_offset it \<le> it_end_offset it - it_start_offset it"
  shows "compute_static_queue_offset_loosely it (compute_physical_queue_offset it off) = off \<and>
    compute_static_queue_offset_strictly it (compute_physical_queue_offset it off) = it_logic_offset it"
proof -
  have p: "compute_physical_queue_offset it off = it_start_offset it + (off - it_logic_offset it)"
    using assms(1-5) by (simp add: compute_physical_queue_offset_def is_i64_def)
  have again: "wrap_i64 (it_logic_offset it + wrap_i64 (it_start_offset it + (off - it_logic_offset it) - it_start_offset it)) =
      off" using assms(1,3,5) by (simp add: is_i64_def)
  show ?thesis
    unfolding p using assms again
    by (auto simp: compute_static_queue_offset_loosely_def compute_static_queue_offset_strictly_def)
qed

text \<open>
  C22. A logical queue of a static topic is served by the broker with the newest mapping: for mappings
  of one scope every queue up to the largest total is given the broker whose mapping has the highest
  epoch among those that hold the queue, and the marker of a missing broker when none does.
\<close>

theorem static_queue_served_by_newest_mapping:
  assumes "topic_queue_mapping_by_broker route = Some by_broker" and "by_broker \<noteq> []" and "hm_inv by_broker"
    and "\<forall>(b, info) \<in> set by_broker. mi_scope info = Some scope \<and> mi_curr_id_map info \<noteq> None \<and> mi_bname info \<noteq> None"
    and "get_mock_broker_name scope = Returned mock"
  shows "\<exists>m n. topic_route_data2endpoints_for_static_topic topic route = Returned (Some m) \<and>
    (\<forall>(b, info) \<in> set by_broker. -1 \<le> mi_epoch info \<longrightarrow> mi_total_queues info \<le> n) \<and>
    (\<forall>i. 0 \<le> i \<and> i < n \<longrightarrow> (\<exists>x. newest_of (hm_values by_broker) i x \<and>
       hm_get m (MessageQueue topic mock i) =
         Some (case x of None \<Rightarrow> ''__syslo__none__'' | Some info \<Rightarrow> the (mi_bname info))))"
proof -
  let ?infos = "sort_key (\<lambda>info. - mi_epoch info) (hm_values by_broker)"
  have infos: "\<forall>info \<in> set ?infos. mi_scope info = Some scope \<and> mi_curr_id_map info \<noteq> None"
    using assms(4) by (auto simp: hm_values_def)
  have "\<forall>i. newest_of [] i (hm_get [] (MessageQueue topic mock i))" by (simp add: newest_of_def)
  from enter_infos_newest [OF infos assms(5) this, of 0] obtain n eps where
    run: "enter_infos topic ?infos 0 [] = Returned (n, eps)"
    and newest: "\<And>i. newest_of ?infos i (hm_get eps (MessageQueue topic mock i))" by auto
  have named: "\<forall>i \<in> set [0..n - 1]. \<forall>info. hm_get eps (MessageQueue topic mock i) = Some info \<longrightarrow> mi_bname info \<noteq> None"
    using newest assms(4) by (fastforce simp: newest_of_def hm_values_def split: option.splits)
  obtain m where m: "enter_brokers topic scope [0..n - 1] eps [] = Returned m"
    "\<forall>i \<in> set [0..n - 1]. hm_get m (MessageQueue topic mock i) =
       Some (case hm_get eps (MessageQueue topic mock i) of
               None \<Rightarrow> ''__syslo__none__'' | Some info \<Rightarrow> the (mi_bname info))"
    using enter_brokers_all [OF assms(5) named, of "[]"] by blast
  have "infos_by_scope by_broker = [(scope, by_broker)]"
    using assms(2-4) by (intro infos_by_one_scope) auto
  then have "topic_route_data2endpoints_for_static_topic topic route = Returned (Some m)"
    using run m(1) assms(1,2)
    by (cases by_broker) (simp_all add: topic_route_data2endpoints_for_static_topic_def)
  moreover have "newest_of (hm_values by_broker) i (hm_get eps (MessageQueue topic mock i))" for i
    using newest [of i] by (simp add: newest_of_def split: option.splits)
  ultimately show ?thesis
    using enter_infos_total [OF run] m(2) by (intro exI [of _ m] exI [of _ n]) (force simp: hm_values_def)
qed

definition sample_mapping :: "string \<Rightarrow> i64 \<Rightarrow> topic_queue_mapping_info" where
  "sample_mapping b epoch = \<lparr>mi_topic = Some ''t'', mi_scope = Some ''__global__'', mi_total_queues = 2,
     mi_bname = Some b, mi_epoch = epoch, mi_dirty = False, mi_curr_id_map = Some [(0, 0)]\<rparr>"

definition sample_static_route :: topic_route_data where
  "sample_static_route = \<lparr>order_topic_conf = None, queue_datas = [], broker_datas = [],
     route_filter_server_table = [],
     topic_queue_mapping_by_broker = Some [(''a'', sample_mapping ''a'' 1), (''b'', sample_mapping ''b'' 2)]\<rparr>"

theorem static_queue_served_by_newest_mapping_witness:
  "\<exists>m. topic_route_data2endpoints_for_static_topic ''t'' sample_static_route = Returned (Some m) \<and>
     hm_get m (MessageQueue ''t'' ''__syslo__global__'' 0) = Some ''b''"
proof -
  let ?bb = "[(''a'', sample_mapping ''a'' 1), (''b'', sample_mapping ''b'' 2)]"
  have "topic_queue_mapping_by_broker sample_static_route = Some ?bb" by (simp add: sample_static_route_def)
  moreover have "\<forall>(b, info) \<in> set ?bb. mi_scope info = Some ''__global__'' \<and> mi_curr_id_map info \<noteq> None \<and> mi_bname info \<noteq> None"
    by (simp add: sample_mapping_def)
  moreover have "get_mock_broker_name ''__global__'' = Returned ''__syslo__global__''" by code_simp
  ultimately obtain m n where m: "topic_route_data2endpoints_for_static_topic ''t'' sample_static_route = Returned (Some m)"
    and n: "\<forall>(b, info) \<in> set ?bb. -1 \<le> mi_epoch info \<longrightarrow> mi_total_queues info \<le> n"
    and served: "\<forall>i. 0 \<le> i \<and> i < n \<longrightarrow> (\<exists>x. newest_of (hm_values ?bb) i x \<and>
       hm_get m (MessageQueue ''t'' ''__syslo__global__'' i) =
         Some (case x of None \<Rightarrow> ''__syslo__none__'' | Some info \<Rightarrow> the (mi_bname info)))"
    using static_queue_served_by_newest_mapping [of sample_static_route ?bb "''__global__''" "''__syslo__global__''" "''t''"]
    by (auto simp: hm_inv_def)
  have "2 \<le> n" using n by (simp add: sample_mapping_def)
  then obtain x where x: "newest_of (hm_values ?bb) 0 x" "hm_get m (MessageQueue ''t'' ''__syslo__global__'' 0) =
      Some (case x of None \<Rightarrow> ''__syslo__none__'' | Some info \<Rightarrow> the (mi_bname info))"
    using served by fastforce
  then have "x = Some (sample_mapping ''b'' 2)"
    by (auto simp: newest_of_def serves_def sample_mapping_def hm_values_def hm_get_def split: option.splits)
  then show ?thesis using m x(2) by (simp add: sample_mapping_def)
qed

end
