(* ===== verification/Queue_Selection.thy ===== *)
theory Queue_Selection
  imports Static_Topic Rust_Text "HOL-Library.Product_Lexorder" "HOL-Library.Monad_Syntax"
begin

text \<open>
  How a producer chooses the queue of a message: the queues of a topic are computed from its route
  (\<open>rocketmq-client/src/factory/mq_client_instance.rs\<close>), chosen in turn
  (\<open>topic_publish_info.rs\<close>, \<open>thread_local_index.rs\<close>) and filtered by the latency of the brokers
  (\<open>latency/mq_fault_strategy.rs\<close>, \<open>latency/latency_fault_tolerance_impl.rs\<close>). The clock, random
  numbers, the resolver of broker names and the service detector are arguments; a selection reads
  the clock once.
\<close>

section \<open>From routes to queues\<close>

record topic_publish_info =
  pi_order_topic :: bool
  pi_have_topic_router_info :: bool
  pi_message_queue_list :: "message_queue list"
  pi_topic_route_data :: "topic_route_data option"

definition new_publish_info :: topic_publish_info where
  "new_publish_info = \<lparr>pi_order_topic = False, pi_have_topic_router_info = False, pi_message_queue_list = [],
     pi_topic_route_data = None\<rparr>"

definition queues_below :: "string \<Rightarrow> string \<Rightarrow> int \<Rightarrow> message_queue list" where
  "queues_below topic broker n = map (MessageQueue topic broker) [0..n - 1]"

text \<open>An entry of the order configuration: a broker and its number of queues.\<close>

fun order_queues :: "string \<Rightarrow> string list \<Rightarrow> message_queue list outcome" where
  "order_queues topic [] = Returned []"
| "order_queues topic (broker # brokers) =
     (case split_char CHR '':'' broker of
        [name, num] \<Rightarrow>
          (case parse_signed 32 num of
             None \<Rightarrow> Panicked
           | Some queue_num \<Rightarrow>
               (case order_queues topic brokers of
                  Panicked \<Rightarrow> Panicked
                | Returned mqs \<Rightarrow> Returned (queues_below topic name queue_num @ mqs)))
      | _ \<Rightarrow> order_queues topic brokers)"

definition sort_queue_datas :: "queue_data list \<Rightarrow> queue_data list" where
  "sort_queue_datas =
     sort_key (\<lambda>q. (qd_broker_name q, qd_read_queue_nums q, qd_write_queue_nums q, qd_perm q, qd_topic_sys_flag q))"

definition queue_data_queues :: "string \<Rightarrow> broker_data list \<Rightarrow> queue_data \<Rightarrow> message_queue list" where
  "queue_data_queues topic bds qd =
     (if perm_is_writeable (qd_perm qd) then
        (case find (\<lambda>bd. bd_broker_name bd = qd_broker_name qd) bds of
           None \<Rightarrow> []
         | Some bd \<Rightarrow>
             if \<not> hm_contains (bd_broker_addrs bd) master_id then []
             else map (\<lambda>i. MessageQueue topic (qd_broker_name qd) (wrap_i32 (int i)))
                    [0..<unat (qd_write_queue_nums qd)])
      else [])"

definition topic_route_data2topic_publish_info ::
  "string \<Rightarrow> topic_route_data \<Rightarrow> topic_route_data \<times> topic_publish_info outcome" where
  "topic_route_data2topic_publish_info topic route =
     (let info = new_publish_info\<lparr>pi_topic_route_data := Some route\<rparr>
      in case order_topic_conf route of
           Some (c # conf) \<Rightarrow>
             (route, case order_queues topic (split_char CHR '';'' (c # conf)) of
                Panicked \<Rightarrow> Panicked
              | Returned mqs \<Rightarrow> Returned (info\<lparr>pi_message_queue_list := mqs, pi_order_topic := True\<rparr>))
         | conf \<Rightarrow>
             if conf = None \<and> topic_queue_mapping_by_broker route \<noteq> None \<and> topic_queue_mapping_by_broker route \<noteq> Some [] then
               (route, case topic_route_data2endpoints_for_static_topic topic route of
                  Panicked \<Rightarrow> Panicked
                | Returned eps \<Rightarrow>
                    Returned (info\<lparr>pi_message_queue_list :=
                      sort_key mq_queue_id (hm_keys (case eps of None \<Rightarrow> [] | Some m \<Rightarrow> m))\<rparr>))
             else
               let qds = sort_queue_datas (queue_datas route)
               in (route\<lparr>queue_datas := qds\<rparr>,
                   Returned (info\<lparr>pi_message_queue_list := concat (map (queue_data_queues topic (broker_datas route)) qds)\<rparr>)))"

definition topic_route_data2topic_subscribe_info :: "string \<Rightarrow> topic_route_data \<Rightarrow> message_queue hset outcome" where
  "topic_route_data2topic_subscribe_info topic route =
     (case topic_queue_mapping_by_broker route of
        Some (kv # kvs) \<Rightarrow>
          (case topic_route_data2endpoints_for_static_topic topic route of
             Panicked \<Rightarrow> Panicked
           | Returned eps \<Rightarrow> Returned (hm_keys (case eps of None \<Rightarrow> [] | Some m \<Rightarrow> m)))
      | _ \<Rightarrow>
          Returned (fold hs_insert (concat (map (\<lambda>qd.
            if perm_is_readable (qd_perm qd)
            then map (\<lambda>i. MessageQueue topic (qd_broker_name qd) (wrap_i32 (int i))) [0..<unat (qd_read_queue_nums qd)]
            else []) (queue_datas route))) []))"

section \<open>Choosing in turn\<close>

text \<open>The index of the thread; its first value and a reset are random numbers from 0 to \<open>i32::MAX\<close>.\<close>

type_synonym thread_index = "i32 option"

definition increment_and_get :: "i32 \<Rightarrow> thread_index \<Rightarrow> thread_index \<times> i32" where
  "increment_and_get rnd index =
     (let new_value = (case index of Some val \<Rightarrow> take_bit 31 (wrap_i32 (val + 1)) | None \<Rightarrow> take_bit 31 rnd)
      in (Some new_value, new_value))"

definition reset_index :: "i32 \<Rightarrow> thread_index \<Rightarrow> thread_index" where
  "reset_index rnd index = Some \<bar>rnd\<bar>"

type_synonym queue_filter = "message_queue \<Rightarrow> bool"

fun try_queues ::
  "nat \<Rightarrow> i32 \<Rightarrow> queue_filter list \<Rightarrow> message_queue list \<Rightarrow> thread_index \<Rightarrow> thread_index \<times> message_queue option" where
  "try_queues 0 rnd filters mqs index = (index, None)"
| "try_queues (Suc n) rnd filters mqs index =
     (case increment_and_get rnd index of (index', v) \<Rightarrow>
        let mq = mqs ! (nat v mod length mqs)
        in if list_all (\<lambda>f. f mq) filters then (index', Some mq) else try_queues n rnd filters mqs index')"

definition select_one_message_queue_with_filters_inner ::
  "i32 \<Rightarrow> message_queue list \<Rightarrow> queue_filter list \<Rightarrow> thread_index \<Rightarrow> thread_index \<times> message_queue option" where
  "select_one_message_queue_with_filters_inner rnd mqs filters index =
     (if mqs = [] then (index, None)
      else if filters \<noteq> [] then try_queues (length mqs) rnd filters mqs index
      else case increment_and_get rnd index of (index', v) \<Rightarrow> (index', Some (mqs ! (nat v mod length mqs))))"

definition select_one_message_queue_filters ::
  "i32 \<Rightarrow> topic_publish_info \<Rightarrow> queue_filter list \<Rightarrow> thread_index \<Rightarrow> thread_index \<times> message_queue option" where
  "select_one_message_queue_filters rnd tp filters index =
     select_one_message_queue_with_filters_inner rnd (pi_message_queue_list tp) filters index"

definition select_one_message_queue_by_broker ::
  "i32 \<Rightarrow> topic_publish_info \<Rightarrow> string option \<Rightarrow> thread_index \<Rightarrow> thread_index \<times> message_queue option" where
  "select_one_message_queue_by_broker rnd tp last_broker_name index =
     (case last_broker_name of
        Some last_name \<Rightarrow>
          (case find (\<lambda>mq. mq_broker_name mq \<noteq> last_name) (pi_message_queue_list tp) of
             Some mq \<Rightarrow> (index, Some mq)
           | None \<Rightarrow> select_one_message_queue_filters rnd tp [] index)
      | None \<Rightarrow> select_one_message_queue_filters rnd tp [] index)"

text \<open>Without a queue the remainder by zero panics, after the index was advanced.\<close>

definition select_one_message_queue ::
  "i32 \<Rightarrow> topic_publish_info \<Rightarrow> thread_index \<Rightarrow> thread_index \<times> message_queue option outcome" where
  "select_one_message_queue rnd tp index =
     (case increment_and_get rnd index of (index', v) \<Rightarrow>
        let mqs = pi_message_queue_list tp
        in if mqs = [] then (index', Panicked) else (index', Returned (Some (mqs ! (nat v mod length mqs)))))"

section \<open>Faults of brokers\<close>

record fault_item =
  fi_name :: string
  fi_current_latency :: u64
  fi_start_timestamp :: u64
  fi_check_stamp :: u64
  fi_reachable_flag :: bool

definition new_fault_item :: "string \<Rightarrow> fault_item" where
  "new_fault_item name = \<lparr>fi_name = name, fi_current_latency = 0, fi_start_timestamp = 0, fi_check_stamp = 0,
     fi_reachable_flag = True\<rparr>"

definition update_not_available_duration :: "u64 \<Rightarrow> u64 \<Rightarrow> fault_item \<Rightarrow> fault_item" where
  "update_not_available_duration now duration f =
     (if duration > 0 \<and> now + duration > fi_start_timestamp f then f\<lparr>fi_start_timestamp := now + duration\<rparr> else f)"

definition fi_is_available :: "u64 \<Rightarrow> fault_item \<Rightarrow> bool" where
  "fi_is_available now f \<longleftrightarrow> now \<ge> fi_start_timestamp f"

text \<open>The order of fault items.\<close>

definition fault_cmp :: "u64 \<Rightarrow> fault_item \<Rightarrow> fault_item \<Rightarrow> ordering" where
  "fault_cmp now a b =
     (if fi_is_available now a \<noteq> fi_is_available now b then (if fi_is_available now a then Less else Greater)
      else case ord_cmp (fi_current_latency a) (fi_current_latency b) of
             Equal \<Rightarrow> ord_cmp (fi_start_timestamp a) (fi_start_timestamp b)
           | other \<Rightarrow> other)"

record fault_tolerance =
  ft_table :: "(string, fault_item) hmap"
  ft_detect_timeout :: u32
  ft_detect_interval :: u32
  ft_start_detector_enable :: bool

definition new_fault_tolerance :: fault_tolerance where
  "new_fault_tolerance = \<lparr>ft_table = [], ft_detect_timeout = 200, ft_detect_interval = 2000,
     ft_start_detector_enable = False\<rparr>"

definition ft_update_fault_item :: "u64 \<Rightarrow> string \<Rightarrow> u64 \<Rightarrow> u64 \<Rightarrow> bool \<Rightarrow> fault_tolerance \<Rightarrow> fault_tolerance" where
  "ft_update_fault_item now name current_latency duration reach ft =
     (let f = (case hm_get (ft_table ft) name of Some f \<Rightarrow> f | None \<Rightarrow> new_fault_item name);
          f = update_not_available_duration now duration (f\<lparr>fi_current_latency := current_latency\<rparr>)
      in ft\<lparr>ft_table := hm_insert name (f\<lparr>fi_reachable_flag := reach\<rparr>) (ft_table ft)\<rparr>)"

definition ft_is_available :: "u64 \<Rightarrow> string \<Rightarrow> fault_tolerance \<Rightarrow> bool" where
  "ft_is_available now name ft \<longleftrightarrow> (case hm_get (ft_table ft) name of Some f \<Rightarrow> fi_is_available now f | None \<Rightarrow> True)"

definition ft_is_reachable :: "string \<Rightarrow> fault_tolerance \<Rightarrow> bool" where
  "ft_is_reachable name ft \<longleftrightarrow> (case hm_get (ft_table ft) name of Some f \<Rightarrow> fi_reachable_flag f | None \<Rightarrow> True)"

definition ft_remove :: "string \<Rightarrow> fault_tolerance \<Rightarrow> fault_tolerance" where
  "ft_remove name ft = ft\<lparr>ft_table := hm_remove name (ft_table ft)\<rparr>"

text \<open>The shuffle of the items is an argument.\<close>

definition pick_one_at_least :: "(fault_item list \<Rightarrow> fault_item list) \<Rightarrow> fault_tolerance \<Rightarrow> string option" where
  "pick_one_at_least shuffle ft = map_option fi_name (find fi_reachable_flag (shuffle (hm_values (ft_table ft))))"

text \<open>
  One round of the detector over the items: the item is skipped while its check is not due; an
  unresolved broker is noted for removal. \<open>None\<close> of the resolver or detector is its absence.
\<close>

fun detect_items ::
  "u64 \<Rightarrow> (string \<Rightarrow> string option) option \<Rightarrow> (string \<Rightarrow> u32 \<Rightarrow> bool) option \<Rightarrow> fault_tolerance \<Rightarrow>
   (string \<times> fault_item) list \<Rightarrow> (string, fault_item) hmap \<Rightarrow> string hset \<Rightarrow>
   ((string, fault_item) hmap \<times> string hset) outcome" where
  "detect_items now resolver detector ft [] tab remove_set = Returned (tab, remove_set)"
| "detect_items now resolver detector ft ((name, f) # items) tab remove_set =
     (if wrap_i64 (sint now - sint (fi_check_stamp f)) < 0 then detect_items now resolver detector ft items tab remove_set
      else
        let f = f\<lparr>fi_check_stamp := now + ucast (ft_detect_interval ft)\<rparr>; tab = hm_insert name f tab
        in case resolver of
             None \<Rightarrow> Panicked
           | Some resolve \<Rightarrow>
               (case resolve (fi_name f) of
                  None \<Rightarrow> detect_items now resolver detector ft items tab (hs_insert name remove_set)
                | Some broker_addr \<Rightarrow>
                    (case detector of
                       None \<Rightarrow> detect_items now resolver detector ft items tab remove_set
                     | Some detect \<Rightarrow>
                         let tab = (if detect broker_addr (ft_detect_timeout ft) \<and> fi_reachable_flag f
                                    then hm_insert name (f\<lparr>fi_reachable_flag := True\<rparr>) tab else tab)
                         in detect_items now resolver detector ft items tab remove_set)))"

definition detect_by_one_round ::
  "u64 \<Rightarrow> (string \<Rightarrow> string option) option \<Rightarrow> (string \<Rightarrow> u32 \<Rightarrow> bool) option \<Rightarrow> fault_tolerance \<Rightarrow>
   fault_tolerance outcome" where
  "detect_by_one_round now resolver detector ft =
     (case detect_items now resolver detector ft (ft_table ft) (ft_table ft) [] of
        Panicked \<Rightarrow> Panicked
      | Returned (tab, remove_set) \<Rightarrow> Returned (ft\<lparr>ft_table := fold hm_remove remove_set tab\<rparr>))"

section \<open>The strategy\<close>

record fault_strategy =
  fs_tolerance :: fault_tolerance
  fs_send_latency_fault_enable :: bool

definition latency_max :: "u64 list" where "latency_max = [50, 100, 550, 1800, 3000, 5000, 15000]"
definition not_available_duration :: "u64 list" where "not_available_duration = [0, 0, 2000, 5000, 6000, 10000, 30000]"

definition compute_not_available_duration :: "u64 \<Rightarrow> u64" where
  "compute_not_available_duration current_latency =
     (case find (\<lambda>i. current_latency \<ge> latency_max ! i) (rev [0..<length latency_max]) of
        Some i \<Rightarrow> not_available_duration ! i | None \<Rightarrow> 0)"

definition update_fault_item :: "u64 \<Rightarrow> string \<Rightarrow> u64 \<Rightarrow> bool \<Rightarrow> bool \<Rightarrow> fault_strategy \<Rightarrow> fault_strategy" where
  "update_fault_item now broker_name current_latency isolation reach st =
     (if fs_send_latency_fault_enable st
      then st\<lparr>fs_tolerance := ft_update_fault_item now broker_name current_latency
              (compute_not_available_duration (if isolation then 10000 else current_latency)) reach (fs_tolerance st)\<rparr>
      else st)"

definition broker_filter :: "string option \<Rightarrow> queue_filter" where
  "broker_filter last_broker_name mq \<longleftrightarrow>
     (case last_broker_name of Some b \<Rightarrow> mq_broker_name mq \<noteq> b | None \<Rightarrow> True)"

definition available_filter :: "u64 \<Rightarrow> fault_tolerance \<Rightarrow> queue_filter" where
  "available_filter now ft mq \<longleftrightarrow> ft_is_available now (mq_broker_name mq) ft"

definition reachable_filter :: "fault_tolerance \<Rightarrow> queue_filter" where
  "reachable_filter ft mq \<longleftrightarrow> ft_is_reachable (mq_broker_name mq) ft"

definition strategy_select ::
  "u64 \<Rightarrow> i32 \<Rightarrow> i32 \<Rightarrow> fault_strategy \<Rightarrow> topic_publish_info \<Rightarrow> string option \<Rightarrow> bool \<Rightarrow> thread_index \<Rightarrow>
   thread_index \<times> message_queue option" where
  "strategy_select now rnd rnd_reset st tp last_broker_name do_reset index =
     (if fs_send_latency_fault_enable st then
        let index = (if do_reset then reset_index rnd_reset index else index);
            ft = fs_tolerance st
        in case select_one_message_queue_filters rnd tp [available_filter now ft, broker_filter last_broker_name] index of
             (index, Some mq) \<Rightarrow> (index, Some mq)
           | (index, None) \<Rightarrow>
               (case select_one_message_queue_filters rnd tp [reachable_filter ft, broker_filter last_broker_name] index of
                  (index, Some mq) \<Rightarrow> (index, Some mq)
                | (index, None) \<Rightarrow> select_one_message_queue_filters rnd tp [] index)
      else
        case select_one_message_queue_filters rnd tp [broker_filter last_broker_name] index of
          (index, Some mq) \<Rightarrow> (index, Some mq)
        | (index, None) \<Rightarrow> select_one_message_queue_filters rnd tp [] index)"

section \<open>Lemmas\<close>

lemma increment_small: "0 \<le> v \<Longrightarrow> v + 1 < 2 ^ 31 \<Longrightarrow> increment_and_get rnd (Some v) = (Some (v + 1), v + 1)"
  by (simp add: increment_and_get_def is_i32_def take_bit_int_eq_self Let_def)

text \<open>The positions a run of indices visits.\<close>

lemma visits_all:
  assumes "mq \<in> set mqs" "0 \<le> v"
  shows "\<exists>k. 1 \<le> k \<and> k \<le> length mqs \<and> mqs ! (nat (v + int k) mod length mqs) = mq"
proof -
  obtain j where j: "j < length mqs" "mqs ! j = mq" using assms(1) by (auto simp: in_set_conv_nth)
  let ?n = "length mqs"
  define d where "d = (int j - (v + 1)) mod int ?n"
  have n: "0 < int ?n" using j(1) by auto
  then have d: "0 \<le> d" "d < int ?n" by (simp_all add: d_def)
  let ?k = "Suc (nat d)"
  have "nat (v + int ?k) mod ?n = nat ((v + 1 + d) mod int ?n)"
    using assms(2) d by (simp add: nat_mod_distrib algebra_simps)
  also have "(v + 1 + d) mod int ?n = int j"
    using j(1) by (simp add: d_def mod_simps)
  finally show ?thesis using d j(2) by (intro exI [of _ ?k]) auto
qed

lemma try_queues_found:
  assumes "try_queues n rnd fs mqs index = (index', Some mq)" "mqs \<noteq> []"
  shows "mq \<in> set mqs \<and> list_all (\<lambda>f. f mq) fs"
  using assms
proof (induction n arbitrary: index)
  case (Suc n)
  then show ?case by (auto simp: Let_def split: prod.splits if_splits)
qed simp

lemma try_queues_missed:
  assumes "try_queues n rnd fs mqs (Some v) = (index', None)" "0 \<le> v" "v + int n < 2 ^ 31"
  shows "index' = Some (v + int n) \<and> (\<forall>k. 1 \<le> k \<and> k \<le> n \<longrightarrow>
    \<not> list_all (\<lambda>f. f (mqs ! (nat (v + int k) mod length mqs))) fs)"
  using assms
proof (induction n arbitrary: v)
  case 0
  then show ?case by simp
next
  case (Suc n)
  have inc: "increment_and_get rnd (Some v) = (Some (v + 1), v + 1)"
    using Suc.prems by (intro increment_small) simp_all
  have first: "\<not> list_all (\<lambda>f. f (mqs ! (nat (v + 1) mod length mqs))) fs"
    and rest: "try_queues n rnd fs mqs (Some (v + 1)) = (index', None)"
    using Suc.prems(1) by (auto simp: inc Let_def split: if_splits)
  have IH: "index' = Some (v + 1 + int n) \<and> (\<forall>k. 1 \<le> k \<and> k \<le> n \<longrightarrow>
      \<not> list_all (\<lambda>f. f (mqs ! (nat (v + 1 + int k) mod length mqs))) fs)"
    using Suc.IH [OF rest] Suc.prems(2,3) by simp
  have "\<not> list_all (\<lambda>f. f (mqs ! (nat (v + int k) mod length mqs))) fs" if "1 \<le> k" "k \<le> Suc n" for k
  proof (cases "k = 1")
    case True
    then show ?thesis using first by simp
  next
    case False
    have "k = Suc (k - 1)" "1 \<le> k - 1" "k - 1 \<le> n" using that False by auto
    moreover from this have "v + 1 + int (k - 1) = v + int k" by simp
    ultimately show ?thesis using IH by metis
  qed
  then show ?case using IH by (simp add: add.assoc)
qed

text \<open>A filtered selection finds a queue that passes when there is one.\<close>

lemma select_filtered:
  assumes "pi_message_queue_list tp = mqs" "mqs \<noteq> []" "fs \<noteq> []" "0 \<le> v" "v + int (length mqs) < 2 ^ 31"
  shows "(\<exists>index mq. select_one_message_queue_filters rnd tp fs (Some v) = (index, Some mq) \<and>
      mq \<in> set mqs \<and> list_all (\<lambda>f. f mq) fs) \<or>
    select_one_message_queue_filters rnd tp fs (Some v) = (Some (v + int (length mqs)), None) \<and>
      (\<forall>mq \<in> set mqs. \<not> list_all (\<lambda>f. f mq) fs)"
proof -
  have run: "select_one_message_queue_filters rnd tp fs (Some v) = try_queues (length mqs) rnd fs mqs (Some v)"
    using assms(1-3)
    by (simp add: select_one_message_queue_filters_def select_one_message_queue_with_filters_inner_def)
  obtain index r where r: "try_queues (length mqs) rnd fs mqs (Some v) = (index, r)" by fastforce
  show ?thesis
  proof (cases r)
    case None
    have missed: "index = Some (v + int (length mqs)) \<and> (\<forall>k. 1 \<le> k \<and> k \<le> length mqs \<longrightarrow>
        \<not> list_all (\<lambda>f. f (mqs ! (nat (v + int k) mod length mqs))) fs)"
      using try_queues_missed [OF r [unfolded None] assms(4,5)] .
    moreover have "\<not> list_all (\<lambda>f. f mq) fs" if "mq \<in> set mqs" for mq
      using visits_all [OF that assms(4)] missed by blast
    ultimately show ?thesis using run r None by simp
  next
    case (Some mq)
    then show ?thesis using try_queues_found [OF r [unfolded Some] assms(2)] run r by simp
  qed
qed

lemma select_unfiltered:
  assumes "pi_message_queue_list tp = mqs" "mqs \<noteq> []"
  shows "\<exists>index mq. select_one_message_queue_filters rnd tp [] i = (index, Some mq) \<and> mq \<in> set mqs"
  using assms
  by (simp add: select_one_message_queue_filters_def select_one_message_queue_with_filters_inner_def split: prod.splits)

lemma detect_keeps_flags:
  assumes "detect_items now resolver detector ft items tab rs = Returned (tab', rs')"
    "\<forall>(name, f) \<in> set items. \<exists>g. hm_get tab name = Some g \<and> fi_reachable_flag g = fi_reachable_flag f"
  shows "map_option fi_reachable_flag (hm_get tab' name) = map_option fi_reachable_flag (hm_get tab name)"
  using assms
proof (induction items arbitrary: tab rs)
  case Nil
  then show ?case by simp
next
  case (Cons item items)
  obtain n f where item: "item = (n, f)" by fastforce
  obtain g where g: "hm_get tab n = Some g" "fi_reachable_flag g = fi_reachable_flag f"
    using Cons.prems(2) by (auto simp: item)
  have step: "\<exists>tab1 rs1. detect_items now resolver detector ft items tab1 rs1 = Returned (tab', rs') \<and>
      (\<forall>k. map_option fi_reachable_flag (hm_get tab1 k) = map_option fi_reachable_flag (hm_get tab k))"
  proof (cases "wrap_i64 (sint now - sint (fi_check_stamp f)) < 0")
    case True
    then show ?thesis using Cons.prems(1) by (auto simp: item)
  next
    case False
    let ?f = "f\<lparr>fi_check_stamp := now + ucast (ft_detect_interval ft)\<rparr>"
    have same: "map_option fi_reachable_flag (hm_get (hm_insert n h tab) k) = map_option fi_reachable_flag (hm_get tab k)"
      if "fi_reachable_flag h = fi_reachable_flag f" for h k using that g by simp
    then have again: "map_option fi_reachable_flag (hm_get (hm_insert n h (hm_insert n ?f tab)) k) =
        map_option fi_reachable_flag (hm_get tab k)"
      if "fi_reachable_flag h = fi_reachable_flag f" for h k using that g by simp
    show ?thesis
      using Cons.prems(1) False same [of ?f] again [of "?f\<lparr>fi_reachable_flag := True\<rparr>"]
      by (auto simp: item Let_def split: option.splits if_splits)
  qed
  then obtain tab1 rs1 where tab1: "detect_items now resolver detector ft items tab1 rs1 = Returned (tab', rs')"
    "\<And>k. map_option fi_reachable_flag (hm_get tab1 k) = map_option fi_reachable_flag (hm_get tab k)" by blast
  have "\<forall>(name, f) \<in> set items. \<exists>g. hm_get tab1 name = Some g \<and> fi_reachable_flag g = fi_reachable_flag f"
    using Cons.prems(2) tab1(2) by (fastforce simp: map_option_case split: option.splits)
  then show ?case using Cons.IH [OF tab1(1)] tab1(2) by simp
qed

section \<open>Statements\<close>

text \<open>
  C23. With the latency option enabled, the strategy always chooses a queue of the topic, and a good one when there is one: if
  some queue is on an available broker other than the last one tried, so is the chosen queue; if not,
  and some queue is on a reachable broker other than the last one, the chosen queue is on an available or reachable
  broker other than the last one. The index of the thread has been set before or is reset now, and two rounds over the queues do not take it past
  the largest index, where it starts again from zero.
\<close>

theorem latency_strategy_avoids_faulty_brokers:
  assumes "fs_send_latency_fault_enable st" and "pi_message_queue_list tp = mqs" and "mqs \<noteq> []"
    and "(if do_reset then Some \<bar>rnd_reset\<bar> else index) = Some v" and "0 \<le> v" and "v + 2 * int (length mqs) < 2 ^ 31"
  shows "\<exists>mq. snd (strategy_select now rnd rnd_reset st tp last_broker do_reset index) = Some mq \<and> mq \<in> set mqs \<and>
    ((\<exists>q \<in> set mqs. ft_is_available now (mq_broker_name q) (fs_tolerance st) \<and> last_broker \<noteq> Some (mq_broker_name q)) \<longrightarrow>
       ft_is_available now (mq_broker_name mq) (fs_tolerance st) \<and> last_broker \<noteq> Some (mq_broker_name mq)) \<and>
    ((\<exists>q \<in> set mqs. ft_is_reachable (mq_broker_name q) (fs_tolerance st) \<and> last_broker \<noteq> Some (mq_broker_name q)) \<longrightarrow>
       (ft_is_available now (mq_broker_name mq) (fs_tolerance st) \<or> ft_is_reachable (mq_broker_name mq) (fs_tolerance st)) \<and>
       last_broker \<noteq> Some (mq_broker_name mq))"
proof -
  let ?ft = "fs_tolerance st"
  let ?fa = "[available_filter now ?ft, broker_filter last_broker]" and ?fr = "[reachable_filter ?ft, broker_filter last_broker]"
  have bf: "broker_filter last_broker mq \<longleftrightarrow> last_broker \<noteq> Some (mq_broker_name mq)" for mq
    by (auto simp: broker_filter_def split: option.splits)
  have index: "(if do_reset then reset_index rnd_reset index else index) = Some v"
    using assms(4) by (auto simp: reset_index_def split: if_splits)
  have sel: "strategy_select now rnd rnd_reset st tp last_broker do_reset index =
      (case select_one_message_queue_filters rnd tp ?fa (Some v) of
         (index, Some mq) \<Rightarrow> (index, Some mq)
       | (index, None) \<Rightarrow>
           (case select_one_message_queue_filters rnd tp ?fr index of
              (index, Some mq) \<Rightarrow> (index, Some mq)
            | (index, None) \<Rightarrow> select_one_message_queue_filters rnd tp [] index))"
    unfolding strategy_select_def index Let_def using assms(1) by simp
  from select_filtered [OF assms(2,3), of ?fa v rnd] assms(5,6) consider
      (found) i mq where "select_one_message_queue_filters rnd tp ?fa (Some v) = (i, Some mq)" "mq \<in> set mqs"
        "available_filter now ?ft mq" "broker_filter last_broker mq"
    | (missed) "select_one_message_queue_filters rnd tp ?fa (Some v) = (Some (v + int (length mqs)), None)"
        "\<forall>mq \<in> set mqs. \<not> (available_filter now ?ft mq \<and> broker_filter last_broker mq)"
    by auto
  then show ?thesis
  proof cases
    case found
    then show ?thesis unfolding sel by (auto simp: available_filter_def bf)
  next
    case missed
    have "0 \<le> v + int (length mqs)" "v + int (length mqs) + int (length mqs) < 2 ^ 31" using assms(5,6) by simp_all
    from select_filtered [OF assms(2,3) _ this, of ?fr rnd] consider
        (found2) i mq where "select_one_message_queue_filters rnd tp ?fr (Some (v + int (length mqs))) = (i, Some mq)"
          "mq \<in> set mqs" "reachable_filter ?ft mq" "broker_filter last_broker mq"
      | (missed2) i where "select_one_message_queue_filters rnd tp ?fr (Some (v + int (length mqs))) = (i, None)"
          "\<forall>mq \<in> set mqs. \<not> (reachable_filter ?ft mq \<and> broker_filter last_broker mq)"
      by auto
    then show ?thesis
    proof cases
      case found2
      then show ?thesis
        unfolding sel using missed by (auto simp: available_filter_def reachable_filter_def bf)
    next
      case missed2
      obtain i' mq where "select_one_message_queue_filters rnd tp [] i = (i', Some mq)" "mq \<in> set mqs"
        using select_unfiltered [OF assms(2,3)] by blast
      then show ?thesis
        unfolding sel using missed missed2 by (auto simp: available_filter_def reachable_filter_def bf)
    qed
  qed
qed

definition sample_publish_info :: topic_publish_info where
  "sample_publish_info = new_publish_info\<lparr>pi_message_queue_list :=
     [MessageQueue ''t'' ''a'' 0, MessageQueue ''t'' ''b'' 0, MessageQueue ''t'' ''c'' 0]\<rparr>"

definition sample_faults :: fault_strategy where
  "sample_faults = update_fault_item 100 ''a'' 20000 False True
     \<lparr>fs_tolerance = new_fault_tolerance, fs_send_latency_fault_enable = True\<rparr>"

theorem latency_strategy_avoids_faulty_brokers_witness:
  "\<exists>mq. snd (strategy_select 200 0 0 sample_faults sample_publish_info (Some ''b'') False (Some 2)) = Some mq \<and>
     mq_broker_name mq = ''c''"
proof -
  have "fs_send_latency_fault_enable sample_faults"
    "ft_is_available 200 ''c'' (fs_tolerance sample_faults)" "\<not> ft_is_available 200 ''a'' (fs_tolerance sample_faults)"
    by code_simp+
  then show ?thesis
    using latency_strategy_avoids_faulty_brokers [of sample_faults sample_publish_info _ False 0 "Some 2" 2 200 0 "Some ''b''"]
    by (auto simp: sample_publish_info_def)
qed

text \<open>
  The detector never sets an unreachable broker reachable: whatever it finds out about the service,
  a broker that is still in the table after a round is as reachable as before.
\<close>

lemma detector_never_restores_broker:
  assumes "detect_by_one_round now resolver detector ft = Returned ft'" and "hm_inv (ft_table ft)"
    and "hm_get (ft_table ft') name = Some f'"
  shows "\<exists>f. hm_get (ft_table ft) name = Some f \<and> fi_reachable_flag f' = fi_reachable_flag f"
proof -
  obtain tab rs where run: "detect_items now resolver detector ft (ft_table ft) (ft_table ft) [] = Returned (tab, rs)"
    and ft': "ft' = ft\<lparr>ft_table := fold hm_remove rs tab\<rparr>"
    using assms(1) by (auto simp: detect_by_one_round_def split: outcome.splits)
  have "hm_get tab name = Some f'" using assms(3) by (simp add: ft' hm_get_removes split: if_splits)
  moreover have "map_option fi_reachable_flag (hm_get tab name) = map_option fi_reachable_flag (hm_get (ft_table ft) name)"
    using assms(2) by (intro detect_keeps_flags [OF run]) (auto simp: hm_mem_iff)
  ultimately show ?thesis by (cases "hm_get (ft_table ft) name") auto
qed

end
