(* ===== verification/Mapped_File.thy ===== *)
theory Mapped_File
  imports Byte_Codec Rust_Text
begin

text \<open>
  Memory-mapped files, from \<open>rocketmq-store/src/log_file/mapped_file/\<close>: the reference counter that
  guards the mapping (\<open>reference_resource_counter.rs\<close>) and the file with its write, commit and
  flush positions (\<open>default_mapped_file_impl.rs\<close>). The mapping is a list of bytes of the size of the
  file; what the operating system answers (the contents of an opened file, the result of a flush or
  of a removal, the clock) is an argument. An operation of the counter is one step, where the source makes several atomic
  accesses one after the other.
\<close>

section \<open>The reference counter\<close>

record ref_counter =
  rc_ref_count :: i64
  rc_available :: bool
  rc_cleanup_over :: bool
  rc_first_shutdown_timestamp :: u64

definition rc_new :: ref_counter where
  "rc_new = \<lparr>rc_ref_count = 1, rc_available = True, rc_cleanup_over = False, rc_first_shutdown_timestamp = 0\<rparr>"

definition rc_hold :: "ref_counter \<Rightarrow> ref_counter \<times> bool" where
  "rc_hold c =
     (if rc_available c \<and> rc_ref_count c > 0 then (c\<lparr>rc_ref_count := wrap_i64 (rc_ref_count c + 1)\<rparr>, True)
      else (c, False))"

definition rc_release :: "ref_counter \<Rightarrow> ref_counter" where
  "rc_release c =
     (let value = wrap_i64 (rc_ref_count c - 1)
      in if value > 0 then c\<lparr>rc_ref_count := value\<rparr>
         else c\<lparr>rc_ref_count := value, rc_cleanup_over := True\<rparr>)"

definition rc_shutdown :: "u64 \<Rightarrow> u64 \<Rightarrow> ref_counter \<Rightarrow> ref_counter" where
  "rc_shutdown now interval_forcibly c =
     (if rc_available c then rc_release (c\<lparr>rc_available := False, rc_first_shutdown_timestamp := now\<rparr>)
      else if rc_ref_count c > 0 \<and> now - rc_first_shutdown_timestamp c \<ge> interval_forcibly
      then rc_release (c\<lparr>rc_ref_count := wrap_i64 (-1000 - rc_ref_count c)\<rparr>)
      else c)"

definition rc_is_cleanup_over :: "ref_counter \<Rightarrow> bool" where
  "rc_is_cleanup_over c \<longleftrightarrow> rc_ref_count c \<le> 0 \<and> rc_cleanup_over c"

section \<open>The file\<close>

record mapped_file =
  mf_reference_resource :: ref_counter
  mf_mmapped_file :: bytes
  mf_transient_store_pool :: bool
  mf_file_name :: string
  mf_file_from_offset :: u64
  mf_wrote_position :: i32
  mf_committed_position :: i32
  mf_flushed_position :: i32
  mf_file_size :: u64
  mf_store_timestamp :: u64
  mf_first_create_in_queue :: bool
  mf_last_flush_time :: u64
  mf_access_count :: i64

text \<open>Addition of \<open>usize\<close> values, slicing, which panics out of range, and \<open>get\<close>, which does not.\<close>

definition usize_add :: "nat \<Rightarrow> nat \<Rightarrow> nat" where
  "usize_add a b = (a + b) mod 2 ^ 64"

definition slice_get :: "bytes \<Rightarrow> nat \<Rightarrow> nat \<Rightarrow> bytes option" where
  "slice_get bs a b = (if a \<le> b \<and> b \<le> length bs then Some (take (b - a) (drop a bs)) else None)"

definition slice_of :: "bytes \<Rightarrow> nat \<Rightarrow> nat \<Rightarrow> bytes outcome" where
  "slice_of bs a b = (case slice_get bs a b of Some s \<Rightarrow> Returned s | None \<Rightarrow> Panicked)"

definition overwrite :: "bytes \<Rightarrow> nat \<Rightarrow> bytes \<Rightarrow> bytes" where
  "overwrite bs a new = take a bs @ new @ drop (a + length new) bs"

text \<open>
  The offset is the name of the file without its directory. Opening a file resizes it: it is cut
  off or filled up with zeros.
\<close>

definition parse_file_from_offset :: "string \<Rightarrow> u64 outcome" where
  "parse_file_from_offset file_name =
     (case parse_unsigned 64 (last (split_char CHR ''/'' file_name)) of
        None \<Rightarrow> Panicked
      | Some n \<Rightarrow> Returned (of_nat n))"

definition set_len :: "nat \<Rightarrow> bytes \<Rightarrow> bytes" where
  "set_len n bs = take n bs @ replicate (n - length bs) 0"

definition mapped_file_new :: "bytes \<Rightarrow> string \<Rightarrow> u64 \<Rightarrow> mapped_file outcome" where
  "mapped_file_new content file_name file_size =
     (case parse_file_from_offset file_name of
        Panicked \<Rightarrow> Panicked
      | Returned offset \<Rightarrow>
          Returned \<lparr>mf_reference_resource = rc_new, mf_mmapped_file = set_len (unat file_size) content,
            mf_transient_store_pool = False, mf_file_name = file_name, mf_file_from_offset = offset,
            mf_wrote_position = 0, mf_committed_position = 0, mf_flushed_position = 0, mf_file_size = file_size,
            mf_store_timestamp = 0, mf_first_create_in_queue = False, mf_last_flush_time = 0,
            mf_access_count = 0\<rparr>)"

definition is_full :: "mapped_file \<Rightarrow> bool" where
  "is_full f \<longleftrightarrow> mf_file_size f = word_of_int (mf_wrote_position f)"

definition get_read_position :: "mapped_file \<Rightarrow> i32" where
  "get_read_position f = mf_wrote_position f"

definition mf_hold :: "mapped_file \<Rightarrow> mapped_file \<times> bool" where
  "mf_hold f = (let (c, ok) = rc_hold (mf_reference_resource f) in (f\<lparr>mf_reference_resource := c\<rparr>, ok))"

definition mf_release :: "mapped_file \<Rightarrow> mapped_file" where
  "mf_release f = f\<lparr>mf_reference_resource := rc_release (mf_reference_resource f)\<rparr>"

definition count_access :: "mapped_file \<Rightarrow> mapped_file" where
  "count_access f = f\<lparr>mf_access_count := wrap_i64 (mf_access_count f + 1)\<rparr>"

subsection \<open>Writing\<close>

definition append_message_no_position_update ::
  "bytes \<Rightarrow> nat \<Rightarrow> nat \<Rightarrow> mapped_file \<Rightarrow> (mapped_file \<times> bool) outcome" where
  "append_message_no_position_update data offset len f =
     (let current_pos = as_usize (mf_wrote_position f)
      in if usize_add current_pos len \<le> unat (mf_file_size f) then
           (case slice_of (mf_mmapped_file f) current_pos (usize_add current_pos len) of
              Panicked \<Rightarrow> Panicked
            | Returned _ \<Rightarrow>
                (case slice_get data offset (usize_add offset len) of
                   None \<Rightarrow> Returned (f, False)
                 | Some data_slice \<Rightarrow>
                     Returned (f\<lparr>mf_mmapped_file := overwrite (mf_mmapped_file f) current_pos data_slice\<rparr>, True)))
         else Returned (f, False))"

definition append_message_offset_length ::
  "bytes \<Rightarrow> nat \<Rightarrow> nat \<Rightarrow> mapped_file \<Rightarrow> (mapped_file \<times> bool) outcome" where
  "append_message_offset_length data offset len f =
     (case append_message_no_position_update data offset len f of
        Returned (f', True) \<Rightarrow>
          Returned (f'\<lparr>mf_wrote_position := wrap_i32 (mf_wrote_position f' + wrap_i32 (int len))\<rparr>, True)
      | r \<Rightarrow> r)"

definition append_message_bytes :: "bytes \<Rightarrow> mapped_file \<Rightarrow> (mapped_file \<times> bool) outcome" where
  "append_message_bytes data = append_message_offset_length data 0 (length data)"

definition append_message_bytes_no_position_update :: "bytes \<Rightarrow> mapped_file \<Rightarrow> (mapped_file \<times> bool) outcome" where
  "append_message_bytes_no_position_update data = append_message_no_position_update data 0 (length data)"

definition write_bytes_segment ::
  "bytes \<Rightarrow> nat \<Rightarrow> nat \<Rightarrow> nat \<Rightarrow> mapped_file \<Rightarrow> (mapped_file \<times> bool) outcome" where
  "write_bytes_segment data start offset len f =
     (if usize_add start len \<le> unat (mf_file_size f) then
        (case slice_of (mf_mmapped_file f) start (usize_add start len) of
           Panicked \<Rightarrow> Panicked
         | Returned _ \<Rightarrow>
             if length data = len
             then Returned (f\<lparr>mf_mmapped_file := overwrite (mf_mmapped_file f) start data\<rparr>, True)
             else
               (case slice_get data offset (usize_add offset len) of
                  None \<Rightarrow> Returned (f, False)
                | Some data_slice \<Rightarrow>
                    Returned (f\<lparr>mf_mmapped_file := overwrite (mf_mmapped_file f) start data_slice\<rparr>, True)))
      else Returned (f, False))"

definition put_slice :: "bytes \<Rightarrow> nat \<Rightarrow> mapped_file \<Rightarrow> (mapped_file \<times> bool) outcome" where
  "put_slice data index f =
     (let end_index = usize_add index (length data)
      in if length data > 0 \<and> end_index \<le> unat (mf_file_size f) then
           (case slice_of (mf_mmapped_file f) index end_index of
              Panicked \<Rightarrow> Panicked
            | Returned _ \<Rightarrow> Returned (f\<lparr>mf_mmapped_file := overwrite (mf_mmapped_file f) index data\<rparr>, True))
         else Returned (f, False))"

subsection \<open>Reading\<close>

definition mf_get_bytes :: "nat \<Rightarrow> nat \<Rightarrow> mapped_file \<Rightarrow> bytes option outcome" where
  "mf_get_bytes pos len f =
     (if usize_add pos len > unat (mf_file_size f) then Returned None
      else (case slice_of (mf_mmapped_file f) pos (usize_add pos len) of
              Panicked \<Rightarrow> Panicked | Returned s \<Rightarrow> Returned (Some s)))"

definition get_bytes_readable_checked :: "nat \<Rightarrow> nat \<Rightarrow> mapped_file \<Rightarrow> bytes option outcome" where
  "get_bytes_readable_checked pos len f =
     (let end_position = usize_add pos len
      in if as_usize (get_read_position f) < end_position \<or> end_position > unat (mf_file_size f) then Returned None
         else (case slice_of (mf_mmapped_file f) pos end_position of
                 Panicked \<Rightarrow> Panicked | Returned s \<Rightarrow> Returned (Some s)))"

definition get_slice :: "nat \<Rightarrow> nat \<Rightarrow> mapped_file \<Rightarrow> bytes option outcome" where
  "get_slice pos len f =
     (if pos \<ge> unat (mf_file_size f) \<or> usize_add pos len \<ge> unat (mf_file_size f) then Returned None
      else (case slice_of (mf_mmapped_file f) pos (usize_add pos len) of
              Panicked \<Rightarrow> Panicked | Returned s \<Rightarrow> Returned (Some s)))"

record select_result =
  sr_start_offset :: u64
  sr_size :: i32
  sr_bytes :: bytes
  sr_is_in_cache :: bool

definition select_mapped_buffer ::
  "i32 \<Rightarrow> i32 \<Rightarrow> mapped_file \<Rightarrow> (mapped_file \<times> select_result option) outcome" where
  "select_mapped_buffer pos sz f =
     (if wrap_i32 (pos + sz) \<le> get_read_position f then
        (case mf_hold f of
           (f', True) \<Rightarrow>
             (case slice_of (mf_mmapped_file f) (as_usize pos) (as_usize (wrap_i32 (pos + sz))) of
                Panicked \<Rightarrow> Panicked
              | Returned s \<Rightarrow>
                  Returned (count_access f', Some \<lparr>sr_start_offset = mf_file_from_offset f + word_of_int pos,
                    sr_size = sz, sr_bytes = s, sr_is_in_cache = True\<rparr>))
         | (f', False) \<Rightarrow> Returned (f', None))
      else Returned (f, None))"

definition select_mapped_buffer_with_position ::
  "i32 \<Rightarrow> mapped_file \<Rightarrow> (mapped_file \<times> select_result option) outcome" where
  "select_mapped_buffer_with_position pos f =
     (let read_position = get_read_position f
      in if pos < read_position \<and> pos \<ge> 0 then
           (case mf_hold f of
              (f', True) \<Rightarrow>
                (case slice_of (mf_mmapped_file f) (as_usize pos) (as_usize read_position) of
                   Panicked \<Rightarrow> Panicked
                 | Returned s \<Rightarrow>
                     Returned (count_access f', Some \<lparr>sr_start_offset = mf_file_from_offset f + word_of_int pos,
                       sr_size = wrap_i32 (read_position - pos), sr_bytes = s, sr_is_in_cache = True\<rparr>))
            | (f', False) \<Rightarrow> Returned (f', None))
         else Returned (f, None))"

definition mf_get_data :: "nat \<Rightarrow> nat \<Rightarrow> mapped_file \<Rightarrow> (mapped_file \<times> bytes option) outcome" where
  "mf_get_data pos len f =
     (if usize_add pos len \<le> as_usize (get_read_position f) then
        (case mf_hold f of
           (f', True) \<Rightarrow>
             (case slice_of (mf_mmapped_file f) pos (usize_add pos len) of
                Panicked \<Rightarrow> Panicked
              | Returned s \<Rightarrow> Returned (mf_release f', Some s))
         | (f', False) \<Rightarrow> Returned (f', None))
      else Returned (f, None))"

subsection \<open>Flushing and removal\<close>

definition os_page_size :: int where "os_page_size = 1024 * 4"

definition is_able_to_flush :: "i32 \<Rightarrow> mapped_file \<Rightarrow> bool" where
  "is_able_to_flush flush_least_pages f \<longleftrightarrow>
     (if is_full f then True
      else let flush = mf_flushed_position f; write = get_read_position f
           in if flush_least_pages > 0
              then trunc_div (wrap_i32 (write - flush)) os_page_size \<ge> flush_least_pages
              else write > flush)"

definition mf_flush :: "bool \<Rightarrow> u64 \<Rightarrow> i32 \<Rightarrow> mapped_file \<Rightarrow> (mapped_file \<times> i32) outcome" where
  "mf_flush io_ok now flush_least_pages f =
     (if is_able_to_flush flush_least_pages f then
        (case mf_hold f of
           (f1, True) \<Rightarrow>
             let value = get_read_position f1; f2 = count_access f1
             in if mf_transient_store_pool f2 then Panicked
                else let f3 = mf_release (if io_ok then f2\<lparr>mf_last_flush_time := now\<rparr> else f2);
                         f4 = f3\<lparr>mf_flushed_position := value\<rparr>
                     in Returned (f4, mf_flushed_position f4)
         | (f1, False) \<Rightarrow>
             let f2 = f1\<lparr>mf_flushed_position := get_read_position f1\<rparr>
             in Returned (f2, mf_flushed_position f2))
      else Returned (f, mf_flushed_position f))"

text \<open>The last argument of the answer tells whether the file was removed from the disk.\<close>

definition mf_destroy :: "bool \<Rightarrow> u64 \<Rightarrow> u64 \<Rightarrow> mapped_file \<Rightarrow> mapped_file \<times> bool" where
  "mf_destroy io_ok now interval_forcibly f =
     (let f' = f\<lparr>mf_reference_resource := rc_shutdown now interval_forcibly (mf_reference_resource f)\<rparr>
      in (f', rc_is_cleanup_over (mf_reference_resource f') \<and> io_ok))"

section \<open>Facts on slices\<close>

lemma usize_add_small: "a + b < 2 ^ 64 \<Longrightarrow> usize_add a b = a + b"
  by (simp add: usize_add_def)

lemma length_overwrite [simp]: "a + length new \<le> length bs \<Longrightarrow> length (overwrite bs a new) = length bs"
  by (simp add: overwrite_def)

lemma take_overwrite: "a + length new \<le> length bs \<Longrightarrow> take (a + length new) (overwrite bs a new) = take a bs @ new"
  by (simp add: overwrite_def)

lemma slice_get_all [simp]: "slice_get bs 0 (length bs) = Some bs"
  by (simp add: slice_get_def)

lemma slice_of_range: "a \<le> b \<Longrightarrow> b \<le> length bs \<Longrightarrow> slice_of bs a b = Returned (take (b - a) (drop a bs))"
  by (simp add: slice_of_def slice_get_def)

lemma length_set_len [simp]: "length (set_len n bs) = n"
  by (simp add: set_len_def)

section \<open>A file is an append-only log\<close>

definition mf_ok :: "mapped_file \<Rightarrow> bool" where
  "mf_ok f \<longleftrightarrow> length (mf_mmapped_file f) = unat (mf_file_size f) \<and> unat (mf_file_size f) < 2 ^ 31 \<and>
     0 \<le> mf_wrote_position f \<and> nat (mf_wrote_position f) \<le> unat (mf_file_size f) \<and>
     0 \<le> mf_flushed_position f \<and> mf_flushed_position f \<le> mf_wrote_position f \<and> \<not> mf_transient_store_pool f"

text \<open>The bytes before the write position, and the state in which readers are let in.\<close>

definition written :: "mapped_file \<Rightarrow> bytes" where
  "written f = take (nat (mf_wrote_position f)) (mf_mmapped_file f)"

text \<open>Nothing but zeros behind the write position.\<close>

definition blank_rest :: "mapped_file \<Rightarrow> bool" where
  "blank_rest f \<longleftrightarrow> set (drop (nat (mf_wrote_position f)) (mf_mmapped_file f)) \<subseteq> {0}"

definition mf_live :: "mapped_file \<Rightarrow> bool" where
  "mf_live f \<longleftrightarrow> rc_available (mf_reference_resource f) \<and>
     0 < rc_ref_count (mf_reference_resource f) \<and> rc_ref_count (mf_reference_resource f) < 2 ^ 62"

lemma mf_ok_position:
  assumes "mf_ok f"
  shows "as_usize (mf_wrote_position f) = nat (mf_wrote_position f)"
    and "nat (mf_wrote_position f) \<le> length (mf_mmapped_file f)"
    and "length (mf_mmapped_file f) < 2 ^ 31" and "length (written f) = nat (mf_wrote_position f)"
  using assms by (auto simp: mf_ok_def written_def)

lemma append_no_update_fits:
  assumes ok: "mf_ok f" and fits: "nat (mf_wrote_position f) + length data \<le> length (mf_mmapped_file f)"
  shows "append_message_no_position_update data 0 (length data) f =
    Returned (f\<lparr>mf_mmapped_file := overwrite (mf_mmapped_file f) (nat (mf_wrote_position f)) data\<rparr>, True)"
proof -
  have small: "usize_add (nat (mf_wrote_position f)) (length data) = nat (mf_wrote_position f) + length data"
    "usize_add 0 (length data) = length data"
    using fits mf_ok_position(3) [OF ok] by (simp_all add: usize_add_small)
  show ?thesis
    using ok fits unfolding append_message_no_position_update_def Let_def mf_ok_position(1) [OF ok] small
    by (simp add: slice_of_range mf_ok_def)
qed

lemma append_no_update_full:
  assumes ok: "mf_ok f" and full: "length (mf_mmapped_file f) < nat (mf_wrote_position f) + length data"
    and small: "length data < 2 ^ 63"
  shows "append_message_no_position_update data 0 (length data) f = Returned (f, False)"
proof -
  have "usize_add (nat (mf_wrote_position f)) (length data) = nat (mf_wrote_position f) + length data"
    using small mf_ok_position(2,3) [OF ok] by (intro usize_add_small) simp
  then show ?thesis
    using ok full unfolding append_message_no_position_update_def Let_def mf_ok_position(1) [OF ok]
    by (simp add: mf_ok_def)
qed

lemma append_bytes_fits:
  assumes ok: "mf_ok f" and fits: "nat (mf_wrote_position f) + length data \<le> length (mf_mmapped_file f)"
  shows "append_message_bytes data f =
    Returned (f\<lparr>mf_mmapped_file := overwrite (mf_mmapped_file f) (nat (mf_wrote_position f)) data,
                mf_wrote_position := mf_wrote_position f + int (length data)\<rparr>, True)"
proof -
  have "is_i32 (int (length data))" "is_i32 (mf_wrote_position f + int (length data))"
    using ok fits mf_ok_position [OF ok] by (auto simp: is_i32_def mf_ok_def)
  then show ?thesis
    by (simp add: append_message_bytes_def append_message_offset_length_def append_no_update_fits [OF ok fits])
qed

lemma append_bytes_written:
  assumes ok: "mf_ok f" and "append_message_bytes data f = Returned (f', True)" and "length data < 2 ^ 63"
  shows "mf_ok f'" and "written f' = written f @ data"
    and "mf_wrote_position f' = mf_wrote_position f + int (length data)"
    and "mf_reference_resource f' = mf_reference_resource f" and "mf_file_from_offset f' = mf_file_from_offset f"
proof -
  have fits: "nat (mf_wrote_position f) + length data \<le> length (mf_mmapped_file f)"
  proof (rule ccontr)
    assume "\<not> ?thesis"
    then have "append_message_bytes data f = Returned (f, False)"
      using append_no_update_full [OF ok _ assms(3)]
      by (simp add: append_message_bytes_def append_message_offset_length_def)
    then show False using assms(2) by simp
  qed
  then have f': "f' = f\<lparr>mf_mmapped_file := overwrite (mf_mmapped_file f) (nat (mf_wrote_position f)) data,
      mf_wrote_position := mf_wrote_position f + int (length data)\<rparr>"
    using append_bytes_fits [OF ok] assms(2) by simp
  show "mf_ok f'" using ok fits mf_ok_position [OF ok] by (auto simp: f' mf_ok_def)
  show "written f' = written f @ data"
    using take_overwrite [OF fits] ok by (simp add: f' written_def mf_ok_def nat_add_distrib)
  show "mf_wrote_position f' = mf_wrote_position f + int (length data)"
    and "mf_reference_resource f' = mf_reference_resource f" and "mf_file_from_offset f' = mf_file_from_offset f"
    by (simp_all add: f')
qed

lemma append_bytes_cases:
  assumes "mf_ok f" "length data < 2 ^ 63"
  shows "(\<exists>f'. append_message_bytes data f = Returned (f', True)) \<or> append_message_bytes data f = Returned (f, False)"
  using append_bytes_fits [OF assms(1), of data] append_no_update_full [OF assms(1) _ assms(2)]
  by (cases "nat (mf_wrote_position f) + length data \<le> length (mf_mmapped_file f)")
     (auto simp: append_message_bytes_def append_message_offset_length_def)

lemma select_reads:
  assumes ok: "mf_ok f" and live: "mf_live f" and "0 \<le> pos" "0 \<le> sz" "pos + sz \<le> mf_wrote_position f"
  shows "\<exists>f' r. select_mapped_buffer pos sz f = Returned (f', Some r) \<and>
    sr_bytes r = take (nat sz) (drop (nat pos) (written f)) \<and> sr_size r = sz \<and>
    sr_start_offset r = mf_file_from_offset f + word_of_int pos"
proof -
  note p = mf_ok_position [OF ok]
  have i32: "wrap_i32 (pos + sz) = pos + sz" using assms p by (intro wrap_i32_id) (simp add: is_i32_def)
  have us: "as_usize pos = nat pos" "as_usize (pos + sz) = nat (pos + sz)"
    using assms p by (auto intro!: as_usize_nonneg)
  have le: "nat pos \<le> nat (pos + sz)" "nat (pos + sz) \<le> length (mf_mmapped_file f)"
    using assms p by (auto simp: nat_le_eq_zle intro: order_trans [OF _ p(2)])
  have "take (nat (pos + sz) - nat pos) (drop (nat pos) (mf_mmapped_file f)) =
      take (nat sz) (drop (nat pos) (written f))"
    using assms by (simp add: written_def drop_take nat_add_distrib min_def nat_diff_distrib)
  then show ?thesis
    using assms live slice_of_range [OF le]
    by (simp add: select_mapped_buffer_def i32 us get_read_position_def mf_hold_def rc_hold_def mf_live_def)
qed

text \<open>
  Messages are appended and flushed, and readers hold the file and release it; a refused message leaves the file as it is. The second
  component counts the successful holds that were not released, and a release belongs to one of them.
\<close>

datatype file_op = Append bytes | Flush bool u64 i32 | Hold | Release

fun file_step :: "file_op \<Rightarrow> mapped_file \<times> nat \<Rightarrow> mapped_file \<times> nat" where
  "file_step (Append data) (f, held) = ((case append_message_bytes data f of Returned (f', _) \<Rightarrow> f' | Panicked \<Rightarrow> f), held)"
| "file_step (Flush io_ok now pages) (f, held) = ((case mf_flush io_ok now pages f of Returned (f', _) \<Rightarrow> f' | Panicked \<Rightarrow> f), held)"
| "file_step Hold (f, held) = (case mf_hold f of (f', ok) \<Rightarrow> (f', if ok then Suc held else held))"
| "file_step Release (f, held) = (if held > 0 then (mf_release f, held - 1) else (f, held))"

fun file_op_ok :: "file_op \<Rightarrow> bool" where
  "file_op_ok (Append data) \<longleftrightarrow> length data < 2 ^ 63"
| "file_op_ok _ \<longleftrightarrow> True"

text \<open>The references that are not those of the counted holders.\<close>

definition spare_refs :: "mapped_file \<times> nat \<Rightarrow> int" where
  "spare_refs p = rc_ref_count (mf_reference_resource (fst p)) - int (snd p)"

lemma flush_live:
  assumes "mf_ok f" "mf_live f"
  shows "\<exists>f' p. mf_flush io_ok now pages f = Returned (f', p) \<and> mf_ok f' \<and> mf_live f' \<and> written f' = written f \<and>
    mf_wrote_position f' = mf_wrote_position f \<and> mf_file_from_offset f' = mf_file_from_offset f \<and>
    p = mf_flushed_position f' \<and> mf_flushed_position f \<le> p \<and>
    rc_ref_count (mf_reference_resource f') = rc_ref_count (mf_reference_resource f) \<and>
    (is_able_to_flush pages f \<longrightarrow> p = mf_wrote_position f)"
proof -
  have "is_i64 (rc_ref_count (mf_reference_resource f) + 1)" "is_i64 (rc_ref_count (mf_reference_resource f))"
    using assms(2) by (auto simp: mf_live_def is_i64_def)
  then show ?thesis
    using assms by (simp add: mf_flush_def mf_hold_def rc_hold_def mf_live_def Let_def mf_ok_def mf_release_def
      rc_release_def count_access_def get_read_position_def written_def)
qed

lemma file_step_grows:
  assumes "mf_ok f" "mf_live f" "file_op_ok op" "0 < spare_refs (f, held)" "rc_ref_count (mf_reference_resource f) + 1 < 2 ^ 62"
    and "file_step op (f, held) = (f', held')"
  shows "mf_ok f' \<and> mf_live f' \<and> (\<exists>rest. written f' = written f @ rest) \<and> mf_file_from_offset f' = mf_file_from_offset f \<and>
    spare_refs (f', held') = spare_refs (f, held) \<and> rc_ref_count (mf_reference_resource f') \<le> rc_ref_count (mf_reference_resource f) + 1"
proof (cases op)
  case (Append data)
  then have small: "length data < 2 ^ 63" using assms(3) by simp
  consider g where "append_message_bytes data f = Returned (g, True)" | "append_message_bytes data f = Returned (f, False)"
    using append_bytes_cases [OF assms(1) small] by blast
  then show ?thesis
  proof cases
    case 1
    then show ?thesis
      using Append assms(2,6) append_bytes_written [OF assms(1) 1 small] by (auto simp: mf_live_def spare_refs_def)
  qed (use Append assms in auto)
next
  case (Flush io_ok now pages)
  then show ?thesis using flush_live [OF assms(1,2), of io_ok now pages] assms(6) by (auto simp: spare_refs_def)
next
  case Hold
  then have "f' = f\<lparr>mf_reference_resource := (mf_reference_resource f)\<lparr>rc_ref_count := rc_ref_count (mf_reference_resource f) + 1\<rparr>\<rparr>" "held' = Suc held"
    using assms(2,5,6) by (auto simp: mf_hold_def rc_hold_def mf_live_def is_i64_def)
  then show ?thesis using assms(1,2,5) by (simp add: mf_ok_def mf_live_def written_def spare_refs_def)
next
  case Release
  show ?thesis
  proof (cases "held > 0")
    case True
    then have "1 < rc_ref_count (mf_reference_resource f)" using assms(4) by (simp add: spare_refs_def)
    then have "f' = f\<lparr>mf_reference_resource := (mf_reference_resource f)\<lparr>rc_ref_count := rc_ref_count (mf_reference_resource f) - 1\<rparr>\<rparr>"
      "held' = held - 1" "1 < rc_ref_count (mf_reference_resource f)"
      using assms(2,6) Release True by (auto simp: mf_release_def rc_release_def mf_live_def is_i64_def Let_def)
    then show ?thesis using assms(1,2) True by (simp add: mf_ok_def mf_live_def written_def spare_refs_def of_nat_diff)
  qed (use Release assms in auto)
qed

lemma file_run_grows:
  assumes "mf_ok f" "mf_live f" "list_all file_op_ok ops" "0 < spare_refs (f, held)"
    and "rc_ref_count (mf_reference_resource f) + int (length ops) < 2 ^ 62" and "fold file_step ops (f, held) = (f', held')"
  shows "mf_ok f' \<and> mf_live f' \<and> (\<exists>rest. written f' = written f @ rest) \<and> mf_file_from_offset f' = mf_file_from_offset f"
  using assms
proof (induction ops arbitrary: f held)
  case (Cons op ops)
  obtain f1 held1 where step: "file_step op (f, held) = (f1, held1)" by fastforce
  have "rc_ref_count (mf_reference_resource f) + 1 < 2 ^ 62" using Cons.prems(5) by simp
  note g = file_step_grows [OF Cons.prems(1,2) _ Cons.prems(4) this step]
  have "file_op_ok op" "list_all file_op_ok ops" using Cons.prems(3) by simp_all
  then show ?case using Cons.IH [of f1 held1] g Cons.prems(4,5,6) step by auto
qed simp

section \<open>Holders of the counter\<close>

text \<open>
  A run of the counter with its holders: every release belongs to a successful hold, and a shutdown
  is forced when it finds the counter shut down and the interval elapsed.
\<close>

datatype rc_op = RcHold | RcRelease | RcShutdown u64 u64

record rc_run =
  rr_counter :: ref_counter
  rr_held :: nat
  rr_forced :: bool

fun rc_step :: "rc_op \<Rightarrow> rc_run \<Rightarrow> rc_run" where
  "rc_step RcHold s =
     (let (c, ok) = rc_hold (rr_counter s)
      in s\<lparr>rr_counter := c, rr_held := (if ok then Suc (rr_held s) else rr_held s)\<rparr>)"
| "rc_step RcRelease s =
     (if rr_held s = 0 then s else s\<lparr>rr_counter := rc_release (rr_counter s), rr_held := rr_held s - 1\<rparr>)"
| "rc_step (RcShutdown now interval) s =
     (let c = rr_counter s
      in s\<lparr>rr_counter := rc_shutdown now interval c,
           rr_forced := (rr_forced s \<or> \<not> rc_available c \<and> rc_ref_count c > 0 \<and>
                         now - rc_first_shutdown_timestamp c \<ge> interval)\<rparr>)"

definition rr_start :: rc_run where
  "rr_start = \<lparr>rr_counter = rc_new, rr_held = 0, rr_forced = False\<rparr>"

definition rr_inv :: "nat \<Rightarrow> rc_run \<Rightarrow> bool" where
  "rr_inv n s \<longleftrightarrow> rr_held s \<le> n \<and>
     (if rr_forced s then \<not> rc_available (rr_counter s) \<and> rc_cleanup_over (rr_counter s) \<and>
        rc_ref_count (rr_counter s) \<le> -1001 \<and> -1001 - 2 * int n \<le> rc_ref_count (rr_counter s)
      else rc_ref_count (rr_counter s) = int (rr_held s) + (if rc_available (rr_counter s) then 1 else 0) \<and>
        (rc_cleanup_over (rr_counter s) \<longleftrightarrow> rc_ref_count (rr_counter s) = 0))"

lemma rr_inv_step:
  assumes "rr_inv n s" "int n < 2 ^ 61"
  shows "rr_inv (Suc n) (rc_step op s)"
proof -
  have small: "is_i64 (rc_ref_count (rr_counter s) + 1)" "is_i64 (rc_ref_count (rr_counter s) - 1)"
    "is_i64 (-1000 - rc_ref_count (rr_counter s))" "is_i64 (- rc_ref_count (rr_counter s) - 1001)"
    using assms by (auto simp: rr_inv_def is_i64_def split: if_splits)
  show ?thesis
  proof (cases op)
    case RcHold
    then show ?thesis using assms small by (auto simp: rr_inv_def rc_hold_def Let_def split: if_splits)
  next
    case RcRelease
    then show ?thesis using assms small by (auto simp: rr_inv_def rc_release_def Let_def split: if_splits)
  next
    case (RcShutdown now interval)
    then show ?thesis using assms small
      by (auto simp: rr_inv_def rc_shutdown_def rc_release_def Let_def algebra_simps split: if_splits)
  qed
qed

lemma rr_inv_run:
  assumes "rr_inv n s" "int n + int (length ops) < 2 ^ 61"
  shows "rr_inv (n + length ops) (fold rc_step ops s)"
  using assms
proof (induction ops arbitrary: n s)
  case (Cons op ops)
  then show ?case using Cons.IH [of "Suc n" "rc_step op s"] rr_inv_step [of n s op] by simp
qed simp

lemma rr_inv_start: "rr_inv 0 rr_start"
  by (simp add: rr_inv_def rr_start_def rc_new_def)

section \<open>Properties\<close>

text \<open>
  C21. What is appended to a mapped file stays readable: after any further appends and flushes, and any holds of readers with
  releases that belong to them, in any order, the bytes of an accepted message are found at the position the file had before it
  was appended.
\<close>

theorem appended_message_stays_readable:
  assumes "mf_ok f" and "mf_live f" and "length data < 2 ^ 63"
    and "append_message_bytes data f = Returned (f1, True)"
    and "list_all file_op_ok ops" and "rc_ref_count (mf_reference_resource f) + int (length ops) < 2 ^ 62"
  shows "\<exists>f' r. select_mapped_buffer (mf_wrote_position f) (int (length data)) (fst (fold file_step ops (f1, 0))) = Returned (f', Some r) \<and>
    sr_bytes r = data \<and> sr_start_offset r = mf_file_from_offset f + word_of_int (mf_wrote_position f)"
proof -
  note w = append_bytes_written [OF assms(1,4,3)]
  have live1: "mf_live f1" "0 < spare_refs (f1, 0)" "rc_ref_count (mf_reference_resource f1) + int (length ops) < 2 ^ 62"
    using assms(2,6) w(4) by (simp_all add: mf_live_def spare_refs_def)
  obtain g held where run: "fold file_step ops (f1, 0) = (g, held)" by fastforce
  obtain rest where g: "mf_ok g" "mf_live g" "written g = written f @ data @ rest"
    "mf_file_from_offset g = mf_file_from_offset f"
    using file_run_grows [OF w(1) live1(1) assms(5) live1(2,3) run] w(2,5) by auto
  have len: "length (written f) = nat (mf_wrote_position f)" "0 \<le> mf_wrote_position f"
    using mf_ok_position(4) [OF assms(1)] assms(1) by (auto simp: mf_ok_def)
  have "length (written f @ data) \<le> nat (mf_wrote_position g)"
    using mf_ok_position(4) [OF g(1)] g(3) by simp
  then have "mf_wrote_position f + int (length data) \<le> mf_wrote_position g"
    using len g(1) by (simp add: mf_ok_def) linarith
  then show ?thesis
    using select_reads [OF g(1,2), of "mf_wrote_position f" "int (length data)"] g(3,4) len
    by (fastforce simp: run)
qed

definition sample_file :: mapped_file where
  "sample_file = \<lparr>mf_reference_resource = rc_new, mf_mmapped_file = replicate 64 0,
     mf_transient_store_pool = False, mf_file_name = ''/store/00000000000000000064'', mf_file_from_offset = 64,
     mf_wrote_position = 0, mf_committed_position = 0, mf_flushed_position = 0, mf_file_size = 64,
     mf_store_timestamp = 0, mf_first_create_in_queue = False, mf_last_flush_time = 0, mf_access_count = 0\<rparr>"

lemma sample_file_ok: "mf_ok sample_file" "mf_live sample_file"
  by (simp_all add: mf_ok_def mf_live_def sample_file_def rc_new_def)

theorem appended_message_stays_readable_witness:
  "\<exists>f1 f' r. append_message_bytes [1, 2, 3] sample_file = Returned (f1, True) \<and>
     select_mapped_buffer 0 3 (fst (fold file_step [Hold, Append [4, 5], Flush True 9 0, Release, Release] (f1, 0))) = Returned (f', Some r) \<and>
     sr_bytes r = [1, 2, 3] \<and> sr_start_offset r = 64"
proof -
  obtain f1 where f1: "append_message_bytes [1, 2, 3] sample_file = Returned (f1, True)"
    using append_bytes_fits [OF sample_file_ok(1), of "[1, 2, 3]"] by (simp add: sample_file_def)
  let ?ops = "[Hold, Append [4, 5], Flush True 9 0, Release, Release]"
  have "mf_wrote_position sample_file = 0" "mf_file_from_offset sample_file = 64"
    "rc_ref_count (mf_reference_resource sample_file) + int (length ?ops) < 2 ^ 62" by (simp_all add: sample_file_def rc_new_def)
  then show ?thesis
    using appended_message_stays_readable [OF sample_file_ok _ f1, of ?ops] f1 by (simp del: fold.simps)
qed

text \<open>
  C19. A mapped file is given up exactly when it was shut down and nobody holds it any more, or
  when a later shutdown was forced after the interval. No reader gets hold of it after a shutdown.
\<close>

theorem held_file_is_not_cleaned_up:
  assumes "int (length ops) < 2 ^ 61" and "s = fold rc_step ops rr_start"
  shows "(rc_is_cleanup_over (rr_counter s) \<longleftrightarrow>
      rr_forced s \<or> \<not> rc_available (rr_counter s) \<and> rr_held s = 0) \<and>
    (\<not> rc_available (rr_counter s) \<longrightarrow> \<not> snd (rc_hold (rr_counter s)))"
  using rr_inv_run [OF rr_inv_start, of ops] assms
  by (auto simp: rr_inv_def rc_is_cleanup_over_def rc_hold_def split: if_splits)

theorem held_file_is_not_cleaned_up_witness:
  "\<not> rc_is_cleanup_over (rr_counter (fold rc_step [RcHold, RcShutdown 5 100] rr_start)) \<and>
   rc_is_cleanup_over (rr_counter (fold rc_step [RcHold, RcShutdown 5 100, RcRelease] rr_start)) \<and>
   rr_forced (fold rc_step [RcHold, RcShutdown 5 100, RcShutdown 200 100] rr_start)"
proof -
  have forced: "\<not> rr_forced (fold rc_step [RcHold, RcShutdown 5 100] rr_start)"
    "rr_held (fold rc_step [RcHold, RcShutdown 5 100] rr_start) = 1"
    "\<not> rc_available (rr_counter (fold rc_step [RcHold, RcShutdown 5 100, RcRelease] rr_start))"
    "rr_held (fold rc_step [RcHold, RcShutdown 5 100, RcRelease] rr_start) = 0"
    "rr_forced (fold rc_step [RcHold, RcShutdown 5 100, RcShutdown 200 100] rr_start)"
    by code_simp+
  show ?thesis
    using held_file_is_not_cleaned_up [of "[RcHold, RcShutdown 5 100]", OF _ refl]
      held_file_is_not_cleaned_up [of "[RcHold, RcShutdown 5 100, RcRelease]", OF _ refl] forced
    by (simp del: fold_simps)
qed

end
