(* ===== verification/Mapped_File_Queue.thy ===== *)
theory Mapped_File_Queue
  imports Mapped_File "HOL-Library.List_Lexorder" "HOL-Library.Char_ord" "HOL-Library.Multiset"
begin

text \<open>
  The sequence of mapped files behind a log, from
  \<open>rocketmq-store/src/consume_queue/mapped_file_queue.rs\<close>. The files are a list in the order of their
  offsets; an operation that answers a file answers its position in the list. The directory on the
  disk is an argument: a function from the path of a file to its bytes where a file is opened, a
  list of entries where the directory is read. Queues are built without an allocation service, as all
  callers do.
\<close>

section \<open>State\<close>

record mapped_file_queue =
  fq_store_path :: string
  fq_mapped_file_size :: u64
  fq_mapped_files :: "mapped_file list"
  fq_flushed_where :: u64
  fq_committed_where :: u64
  fq_store_timestamp :: u64

type_synonym disk = "string \<Rightarrow> bytes"

definition fq_new :: "string \<Rightarrow> u64 \<Rightarrow> mapped_file_queue" where
  "fq_new store_path mapped_file_size =
     \<lparr>fq_store_path = store_path, fq_mapped_file_size = mapped_file_size, fq_mapped_files = [],
      fq_flushed_where = 0, fq_committed_where = 0, fq_store_timestamp = 0\<rparr>"

text \<open>Remainder of Rust, with the sign of the dividend.\<close>

definition trunc_mod :: "int \<Rightarrow> int \<Rightarrow> int" where
  "trunc_mod a b = a - b * trunc_div a b"

definition offset_to_file_name :: "u64 \<Rightarrow> string" where
  "offset_to_file_name offset =
     (let digits = show_nat (unat offset) in replicate (20 - length digits) CHR ''0'' @ digits)"

definition join_path :: "string \<Rightarrow> string \<Rightarrow> string" where
  "join_path dir name =
     (if dir = [] then name else if last dir = CHR ''/'' then dir @ name else dir @ ''/'' @ name)"

section \<open>Loading\<close>

text \<open>An entry of the directory: its path, and, where the metadata can be read, either a directory or a file.\<close>

datatype dir_entry = DirEntry (de_path: string) (de_metadata: "(unit + bytes) option")

definition de_file_name :: "dir_entry \<Rightarrow> string" where
  "de_file_name e = last (split_char CHR ''/'' (de_path e))"

fun load_files :: "dir_entry list \<Rightarrow> mapped_file_queue \<Rightarrow> (mapped_file_queue \<times> bool) outcome" where
  "load_files [] q = Returned (q, True)"
| "load_files (e # es) q =
     (case de_metadata e of
        None \<Rightarrow> Returned (q, False)
      | Some (Inl _) \<Rightarrow> load_files es q
      | Some (Inr content) \<Rightarrow>
          if content = [] \<and> es = [] then load_files es q
          else if (of_nat (length content) :: u64) \<noteq> fq_mapped_file_size q then Returned (q, False)
          else
            (case mapped_file_new content (de_path e) (fq_mapped_file_size q) of
               Panicked \<Rightarrow> Panicked
             | Returned f \<Rightarrow>
                 let pos = wrap_i32 (uint (fq_mapped_file_size q));
                     f' = f\<lparr>mf_wrote_position := pos, mf_flushed_position := pos, mf_committed_position := pos\<rparr>
                 in load_files es (q\<lparr>fq_mapped_files := fq_mapped_files q @ [f']\<rparr>)))"

definition do_load :: "dir_entry list \<Rightarrow> mapped_file_queue \<Rightarrow> (mapped_file_queue \<times> bool) outcome" where
  "do_load entries q = load_files (sort_key de_file_name entries) q"

definition fq_load :: "dir_entry list option \<Rightarrow> mapped_file_queue \<Rightarrow> (mapped_file_queue \<times> bool) outcome" where
  "fq_load dir q = (case dir of None \<Rightarrow> Returned (q, True) | Some entries \<Rightarrow> do_load entries q)"

section \<open>Look-up\<close>

definition get_last_mapped_file :: "mapped_file_queue \<Rightarrow> nat option" where
  "get_last_mapped_file q = (if fq_mapped_files q = [] then None else Some (length (fq_mapped_files q) - 1))"

definition get_first_mapped_file :: "mapped_file_queue \<Rightarrow> nat option" where
  "get_first_mapped_file q = (if fq_mapped_files q = [] then None else Some 0)"

definition find_in_files :: "i64 \<Rightarrow> mapped_file_queue \<Rightarrow> nat option" where
  "find_in_files offset q =
     (let sz = sint (fq_mapped_file_size q)
      in find (\<lambda>i. let from = sint (mf_file_from_offset (fq_mapped_files q ! i))
                   in offset \<ge> from \<and> offset < wrap_i64 (from + sz)) [0..<length (fq_mapped_files q)])"

definition find_mapped_file_by_offset :: "i64 \<Rightarrow> bool \<Rightarrow> mapped_file_queue \<Rightarrow> nat option outcome" where
  "find_mapped_file_by_offset offset return_first_on_not_found q =
     (if fq_mapped_files q = [] then Returned None
      else
        let files = fq_mapped_files q; sz = fq_mapped_file_size q;
            not_found = (if return_first_on_not_found then Some 0 else None)
        in if offset < sint (mf_file_from_offset (hd files)) \<or>
              offset \<ge> wrap_i64 (sint (mf_file_from_offset (last files)) + sint sz)
           then Returned not_found
           else if sz = 0 then Panicked
           else
             let index = unat (word_of_int offset div sz - mf_file_from_offset (hd files) div sz)
             in if index < length files \<and> offset \<ge> sint (mf_file_from_offset (files ! index))
                then Returned (Some index)
                else (case find_in_files offset q of Some i \<Rightarrow> Returned (Some i) | None \<Rightarrow> Returned not_found))"

definition fq_get_max_offset :: "mapped_file_queue \<Rightarrow> i64" where
  "fq_get_max_offset q =
     (if fq_mapped_files q = [] then 0
      else let f = last (fq_mapped_files q) in wrap_i64 (sint (mf_file_from_offset f) + get_read_position f))"

definition get_max_wrote_position :: "mapped_file_queue \<Rightarrow> i64" where
  "get_max_wrote_position q =
     (if fq_mapped_files q = [] then 0
      else let f = last (fq_mapped_files q) in wrap_i64 (sint (mf_file_from_offset f) + mf_wrote_position f))"

definition remain_how_many_data_to_commit :: "mapped_file_queue \<Rightarrow> i64" where
  "remain_how_many_data_to_commit q = wrap_i64 (get_max_wrote_position q - sint (fq_committed_where q))"

definition remain_how_many_data_to_flush :: "mapped_file_queue \<Rightarrow> i64" where
  "remain_how_many_data_to_flush q = wrap_i64 (fq_get_max_offset q - sint (fq_flushed_where q))"

section \<open>Creation\<close>

definition do_create_mapped_file :: "disk \<Rightarrow> string \<Rightarrow> mapped_file_queue \<Rightarrow> (mapped_file_queue \<times> nat option) outcome" where
  "do_create_mapped_file disk next_file_path q =
     (case mapped_file_new (disk next_file_path) next_file_path (fq_mapped_file_size q) of
        Panicked \<Rightarrow> Panicked
      | Returned f \<Rightarrow>
          let f' = (if fq_mapped_files q = [] then f\<lparr>mf_first_create_in_queue := True\<rparr> else f);
              q' = q\<lparr>fq_mapped_files := fq_mapped_files q @ [f']\<rparr>
          in Returned (q', get_last_mapped_file q'))"

definition try_create_mapped_file :: "disk \<Rightarrow> u64 \<Rightarrow> mapped_file_queue \<Rightarrow> (mapped_file_queue \<times> nat option) outcome" where
  "try_create_mapped_file disk create_offset q =
     do_create_mapped_file disk (join_path (fq_store_path q) (offset_to_file_name create_offset)) q"

definition get_last_mapped_file_mut_start_offset ::
  "disk \<Rightarrow> u64 \<Rightarrow> bool \<Rightarrow> mapped_file_queue \<Rightarrow> (mapped_file_queue \<times> nat option) outcome" where
  "get_last_mapped_file_mut_start_offset disk start_offset need_create q =
     (let file_size = sint (fq_mapped_file_size q)
      in if fq_mapped_files q = [] \<and> file_size = 0 then Panicked
         else
           let create_offset =
                 (if fq_mapped_files q = [] then wrap_i64 (sint start_offset - trunc_mod (sint start_offset) file_size)
                  else let f = last (fq_mapped_files q)
                       in if is_full f then wrap_i64 (sint (mf_file_from_offset f) + file_size) else -1)
           in if create_offset \<noteq> -1 \<and> need_create then try_create_mapped_file disk (word_of_int create_offset) q
              else Returned (q, get_last_mapped_file q))"

section \<open>Flushing, truncation and removal\<close>

definition update_file :: "nat \<Rightarrow> mapped_file \<Rightarrow> mapped_file_queue \<Rightarrow> mapped_file_queue" where
  "update_file i f q = q\<lparr>fq_mapped_files := (fq_mapped_files q)[i := f]\<rparr>"

definition fq_flush :: "bool \<Rightarrow> u64 \<Rightarrow> i32 \<Rightarrow> mapped_file_queue \<Rightarrow> (mapped_file_queue \<times> bool) outcome" where
  "fq_flush io_ok now flush_least_pages q =
     (case find_mapped_file_by_offset (sint (fq_flushed_where q)) (fq_flushed_where q = 0) q of
        Panicked \<Rightarrow> Panicked
      | Returned None \<Rightarrow> Returned (q, True)
      | Returned (Some i) \<Rightarrow>
          let f = fq_mapped_files q ! i
          in case mf_flush io_ok now flush_least_pages f of
               Panicked \<Rightarrow> Panicked
             | Returned (f', offset) \<Rightarrow>
                 let whered = mf_file_from_offset f + word_of_int offset;
                     q' = (update_file i f' q)\<lparr>fq_flushed_where := whered\<rparr>;
                     q'' = (if flush_least_pages = 0 then q'\<lparr>fq_store_timestamp := mf_store_timestamp f\<rparr> else q')
                 in Returned (q'', whered = fq_flushed_where q))"

text \<open>Committing a single file is not implemented.\<close>

definition fq_commit :: "i32 \<Rightarrow> mapped_file_queue \<Rightarrow> (mapped_file_queue \<times> bool) outcome" where
  "fq_commit commit_least_pages q =
     (case find_mapped_file_by_offset (sint (fq_committed_where q)) (fq_committed_where q = 0) q of
        Returned None \<Rightarrow> Returned (q, True)
      | _ \<Rightarrow> Panicked)"

definition set_positions :: "i32 \<Rightarrow> mapped_file \<Rightarrow> mapped_file" where
  "set_positions pos f = f\<lparr>mf_wrote_position := pos, mf_committed_position := pos, mf_flushed_position := pos\<rparr>"

definition truncate_file :: "bool \<Rightarrow> u64 \<Rightarrow> i64 \<Rightarrow> u64 \<Rightarrow> mapped_file \<Rightarrow> mapped_file" where
  "truncate_file io_ok now offset sz f =
     (if sint (mf_file_from_offset f + sz) > offset then
        if offset \<ge> sint (mf_file_from_offset f) then set_positions (wrap_i32 (trunc_mod offset (sint sz))) f
        else fst (mf_destroy io_ok now 1000 f)
      else f)"

text \<open>The files that are destroyed are collected, but stay in the queue.\<close>

definition truncate_dirty_files :: "bool \<Rightarrow> u64 \<Rightarrow> i64 \<Rightarrow> mapped_file_queue \<Rightarrow> mapped_file_queue" where
  "truncate_dirty_files io_ok now offset q =
     q\<lparr>fq_mapped_files := map (truncate_file io_ok now offset (fq_mapped_file_size q)) (fq_mapped_files q)\<rparr>"

definition delete_last_mapped_file :: "mapped_file_queue \<Rightarrow> mapped_file_queue" where
  "delete_last_mapped_file q = q\<lparr>fq_mapped_files := butlast (fq_mapped_files q)\<rparr>"

text \<open>
  Deletion of files holds the read lock of the list while it asks for the write lock, so it
  waits for itself as soon as there is a file to delete: \<open>None\<close> stands for a call that never returns.
\<close>

definition fq_delete_expired_file :: "nat list \<Rightarrow> mapped_file_queue \<Rightarrow> mapped_file_queue option" where
  "fq_delete_expired_file files q = (if files = [] then Some q else None)"

definition fq_destroy :: "mapped_file_queue \<Rightarrow> mapped_file_queue" where
  "fq_destroy q = q\<lparr>fq_mapped_files := [], fq_flushed_where := 0\<rparr>"

section \<open>The files of a queue are contiguous\<close>

definition fq_base :: "mapped_file_queue \<Rightarrow> nat" where
  "fq_base q = (case fq_mapped_files q of [] \<Rightarrow> 0 | f # _ \<Rightarrow> unat (mf_file_from_offset f))"

definition fq_size :: "mapped_file_queue \<Rightarrow> nat" where
  "fq_size q = unat (fq_mapped_file_size q)"

definition fq_ok :: "mapped_file_queue \<Rightarrow> bool" where
  "fq_ok q \<longleftrightarrow> 0 < fq_size q \<and> fq_size q < 2 ^ 31 \<and>
     (\<forall>i < length (fq_mapped_files q). unat (mf_file_from_offset (fq_mapped_files q ! i)) = fq_base q + i * fq_size q) \<and>
     fq_base q mod fq_size q = 0 \<and> fq_base q + length (fq_mapped_files q) * fq_size q < 2 ^ 63 \<and>
     list_all (\<lambda>f. mf_ok f \<and> mf_file_size f = fq_mapped_file_size q) (fq_mapped_files q) \<and>
     list_all is_full (butlast (fq_mapped_files q))"

lemma trunc_mod_nat: "0 < n \<Longrightarrow> trunc_mod (int a) (int n) = int (a mod n)"
  by (simp add: trunc_mod_def minus_mult_div_eq_mod zmod_int)

lemma is_i64_nat: "n < 2 ^ 63 \<Longrightarrow> is_i64 (int n)"
  by (simp add: is_i64_def)

lemma sint_unat: "unat w < 2 ^ 63 \<Longrightarrow> sint w = int (unat w)" for w :: u64
proof -
  assume "unat w < 2 ^ 63"
  then have "int (unat w) < int (2 ^ 63)" by (simp only: of_nat_less_iff)
  then have "uint w < 2 ^ 63" by simp
  moreover have "- (2 ^ 63) \<le> uint w" by (rule order_trans [OF _ uint_ge_0]) simp
  ultimately show ?thesis by (simp add: sint_uint signed_take_bit_int_eq_self_iff)
qed

lemma fq_ok_size:
  assumes "fq_ok q"
  shows "sint (fq_mapped_file_size q) = int (fq_size q)" "0 < fq_size q" "fq_mapped_file_size q \<noteq> 0"
proof -
  show "0 < fq_size q" using assms by (simp add: fq_ok_def)
  then show "fq_mapped_file_size q \<noteq> 0" by (auto simp: fq_size_def)
  show "sint (fq_mapped_file_size q) = int (fq_size q)"
    using assms by (simp add: fq_ok_def fq_size_def sint_unat)
qed

lemma fq_ok_nth:
  assumes "fq_ok q" "i < length (fq_mapped_files q)"
  shows "sint (mf_file_from_offset (fq_mapped_files q ! i)) = int (fq_base q + i * fq_size q)"
    and "unat (mf_file_from_offset (fq_mapped_files q ! i)) = fq_base q + i * fq_size q"
    and "mf_ok (fq_mapped_files q ! i)" and "mf_file_size (fq_mapped_files q ! i) = fq_mapped_file_size q"
    and "fq_base q + Suc i * fq_size q < 2 ^ 63"
proof -
  have le: "Suc i * fq_size q \<le> length (fq_mapped_files q) * fq_size q" using assms(2) by (intro mult_le_mono1) simp
  then show bound: "fq_base q + Suc i * fq_size q < 2 ^ 63" using assms by (simp add: fq_ok_def)
  show u: "unat (mf_file_from_offset (fq_mapped_files q ! i)) = fq_base q + i * fq_size q"
    using assms by (simp add: fq_ok_def)
  show "sint (mf_file_from_offset (fq_mapped_files q ! i)) = int (fq_base q + i * fq_size q)"
    using u bound by (subst sint_unat) simp_all
qed (use assms in \<open>auto simp: fq_ok_def list_all_length\<close>)

lemma fq_ok_last:
  assumes "fq_ok q" "fq_mapped_files q \<noteq> []"
  shows "sint (mf_file_from_offset (last (fq_mapped_files q))) =
      int (fq_base q + (length (fq_mapped_files q) - 1) * fq_size q)"
    and "mf_ok (last (fq_mapped_files q))" and "mf_file_size (last (fq_mapped_files q)) = fq_mapped_file_size q"
    and "unat (mf_file_from_offset (last (fq_mapped_files q))) = fq_base q + (length (fq_mapped_files q) - 1) * fq_size q"
  using fq_ok_nth [OF assms(1), of "length (fq_mapped_files q) - 1"] assms(2) by (simp_all add: last_conv_nth)

lemma fq_ok_end:
  assumes "fq_ok q" "fq_mapped_files q \<noteq> []"
  shows "wrap_i64 (sint (mf_file_from_offset (last (fq_mapped_files q))) + sint (fq_mapped_file_size q)) =
    int (fq_base q + length (fq_mapped_files q) * fq_size q)"
proof -
  obtain n where n: "length (fq_mapped_files q) = Suc n" using assms(2) by (cases "fq_mapped_files q") auto
  have "fq_base q + Suc n * fq_size q < 2 ^ 63" using assms(1) n by (simp add: fq_ok_def)
  then have "is_i64 (int (fq_base q + Suc n * fq_size q))" by (rule is_i64_nat)
  then show ?thesis
    using fq_ok_last(1) [OF assms] fq_ok_size(1) [OF assms(1)] n
    by (simp add: algebra_simps)
qed

lemma find_mapped_file_found:
  assumes ok: "fq_ok q" and lo: "int (fq_base q) \<le> offset"
    and hi: "offset < int (fq_base q + length (fq_mapped_files q) * fq_size q)"
  shows "find_mapped_file_by_offset offset rf q = Returned (Some ((nat offset - fq_base q) div fq_size q))"
    and "(nat offset - fq_base q) div fq_size q < length (fq_mapped_files q)"
proof -
  define o' where "o' = nat offset"
  have off: "offset = int o'" using lo by (simp add: o'_def)
  note sz = fq_ok_size [OF ok]
  have hi': "o' < fq_base q + length (fq_mapped_files q) * fq_size q" using hi unfolding off of_nat_less_iff .
  then have bnd: "o' < 2 ^ 63" "fq_base q \<le> o'" using ok lo by (auto simp: fq_ok_def off)
  let ?i = "(o' - fq_base q) div fq_size q"
  have less: "?i < length (fq_mapped_files q)"
    using hi' bnd sz by (simp add: div_less_iff_less_mult less_diff_conv2 mult.commute add.commute)
  then have ne: "fq_mapped_files q \<noteq> []" by auto
  have hd: "unat (mf_file_from_offset (hd (fq_mapped_files q))) = fq_base q"
    using ne by (simp add: fq_base_def split: list.splits)
  have hds: "sint (mf_file_from_offset (hd (fq_mapped_files q))) = int (fq_base q)"
    using hd bnd by (subst sint_unat) simp_all
  obtain b where b: "fq_base q = b * fq_size q" using ok by (auto simp: fq_ok_def mult.commute elim: dvdE)
  have w: "unat (word_of_int offset :: u64) = o'" using bnd by (simp add: off unat_of_nat)
  have idx: "unat (word_of_int offset div fq_mapped_file_size q -
      mf_file_from_offset (hd (fq_mapped_files q)) div fq_mapped_file_size q) = ?i"
  proof -
    have "unat (mf_file_from_offset (hd (fq_mapped_files q)) div fq_mapped_file_size q) \<le>
        unat (word_of_int offset div fq_mapped_file_size q :: u64)"
      by (simp add: unat_div w hd bnd div_le_mono)
    then have "unat (word_of_int offset div fq_mapped_file_size q -
      mf_file_from_offset (hd (fq_mapped_files q)) div fq_mapped_file_size q) =
      o' div fq_size q - fq_base q div fq_size q"
      by (subst unat_sub) (simp_all add: word_le_nat_alt unat_div w hd fq_size_def)
    also have "\<dots> = ?i"
    proof -
      obtain d where "o' = b * fq_size q + d" using bnd(2) b by (auto simp: le_iff_add)
      then show ?thesis using sz(2) by (simp add: b)
    qed
    finally show ?thesis .
  qed
  have from_le: "sint (mf_file_from_offset (fq_mapped_files q ! ?i)) \<le> offset"
  proof -
    have "?i * fq_size q \<le> o' - fq_base q" by simp
    then have "fq_base q + ?i * fq_size q \<le> o'" using bnd by linarith
    then show ?thesis unfolding fq_ok_nth(1) [OF ok less] off by (simp only: of_nat_le_iff)
  qed
  show "find_mapped_file_by_offset offset rf q = Returned (Some ((nat offset - fq_base q) div fq_size q))"
    using ne lo hi sz(3) less from_le
    unfolding find_mapped_file_by_offset_def Let_def idx fq_ok_end [OF ok ne] hds
    by (simp add: off)
  show "(nat offset - fq_base q) div fq_size q < length (fq_mapped_files q)" using less by (simp add: off)
qed

lemma find_mapped_file_outside:
  assumes ok: "fq_ok q" and out: "offset < int (fq_base q) \<or> int (fq_base q + length (fq_mapped_files q) * fq_size q) \<le> offset"
  shows "find_mapped_file_by_offset offset rf q = Returned (if rf \<and> fq_mapped_files q \<noteq> [] then Some 0 else None)"
proof (cases "fq_mapped_files q = []")
  case False
  have "sint (mf_file_from_offset (hd (fq_mapped_files q))) = int (fq_base q)"
    using fq_ok_nth(1) [OF ok, of 0] False by (simp add: hd_conv_nth)
  then show ?thesis
    using False out fq_ok_end [OF ok False] by (simp add: find_mapped_file_by_offset_def Let_def)
qed (simp add: find_mapped_file_by_offset_def)

section \<open>File names\<close>

lemma parse_digits_zeros: "parse_digits 0 (replicate k CHR ''0'' @ s) = parse_digits 0 s"
  by (induction k) (simp_all add: digit_value_def)

lemma split_char_tail: "\<exists>ps. ps \<noteq> [] \<and> split_char c (a @ c # b) = ps @ split_char c b"
proof (induction a)
  case Nil
  show ?case by (intro exI [of _ "[[]]"]) simp
next
  case (Cons x a)
  then obtain p ps where "split_char c (a @ c # b) = (p # ps) @ split_char c b" by (metis neq_Nil_conv)
  then show ?case
    by (intro exI [of _ "if x = c then [] # p # ps else (x # p) # ps"]) simp
qed

lemma last_split_char: "c \<notin> set b \<Longrightarrow> last (split_char c (a @ c # b)) = b"
  using split_char_tail [of c a b] by (auto simp: split_char_no_sep)

lemma offset_name_digits: "CHR ''/'' \<notin> set (offset_to_file_name offset)"
  using show_nat_no_char [of "CHR ''/''" "unat offset"] by (auto simp: offset_to_file_name_def Let_def digit_value_def)

lemma parse_offset_name: "parse_unsigned 64 (offset_to_file_name offset) = Some (unat offset)"
proof -
  let ?d = "show_nat (unat offset)"
  obtain c cs where c: "offset_to_file_name offset = c # cs" "c \<noteq> CHR ''+''" "c \<noteq> CHR ''-''"
  proof (cases "20 - length ?d")
    case 0
    then show ?thesis using that show_nat_not_sign [of "unat offset"] by (auto simp: offset_to_file_name_def Let_def)
  qed (use that in \<open>auto simp: offset_to_file_name_def Let_def\<close>)
  have "parse_nat (offset_to_file_name offset) = Some (unat offset)"
    by (simp add: parse_nat_def offset_to_file_name_def Let_def parse_digits_zeros parse_show_nat_digits)
  moreover have "unat offset < 2 ^ 64" using unsigned_less [of offset] by simp
  ultimately show ?thesis using c by (simp add: parse_unsigned_def)
qed

lemma parse_joined_name: "parse_file_from_offset (join_path dir (offset_to_file_name offset)) = Returned offset"
proof -
  have "last (split_char CHR ''/'' (join_path dir (offset_to_file_name offset))) = offset_to_file_name offset"
  proof (cases "dir = [] \<or> last dir \<noteq> CHR ''/''")
    case False
    then obtain d where "dir = d @ ''/''" by (metis append_butlast_last_id)
    then show ?thesis using last_split_char [OF offset_name_digits, of d] by (simp add: join_path_def)
  qed (auto simp: join_path_def last_split_char offset_name_digits split_char_no_sep)
  then show ?thesis by (simp add: parse_file_from_offset_def parse_offset_name)
qed

section \<open>Growth\<close>

lemma new_file_ok:
  assumes "mapped_file_new content name sz = Returned f" "unat sz < 2 ^ 31"
  shows "mf_ok f" "mf_file_size f = sz" "mf_wrote_position f = 0" "mf_live f" "parse_file_from_offset name = Returned (mf_file_from_offset f)"
    "content = [] \<Longrightarrow> blank_rest f"
  using assms by (auto simp: mapped_file_new_def mf_ok_def mf_live_def rc_new_def blank_rest_def set_len_def split: outcome.splits)

lemma wrote_word: "mf_ok f \<Longrightarrow> unat (word_of_int (mf_wrote_position f) :: u64) = nat (mf_wrote_position f)"
proof -
  assume ok: "mf_ok f"
  then have "mf_wrote_position f < 2 ^ 64" "0 \<le> mf_wrote_position f" by (auto simp: mf_ok_def)
  then show ?thesis by (simp add: unat_eq_nat_uint uint_word_of_int)
qed

lemma is_full_iff: "mf_ok f \<Longrightarrow> is_full f \<longleftrightarrow> nat (mf_wrote_position f) = unat (mf_file_size f)"
  by (auto simp: is_full_def word_unat_eq_iff wrote_word)

lemma fq_ok_append_file:
  assumes ok: "fq_ok q" and f: "mf_ok f" "mf_file_size f = fq_mapped_file_size q"
    and start: "unat (mf_file_from_offset f) = (if fq_mapped_files q = [] then b * fq_size q else fq_base q + length (fq_mapped_files q) * fq_size q)"
    and full: "fq_mapped_files q \<noteq> [] \<Longrightarrow> is_full (last (fq_mapped_files q))"
    and room: "unat (mf_file_from_offset f) + fq_size q < 2 ^ 63"
  shows "fq_ok (q\<lparr>fq_mapped_files := fq_mapped_files q @ [f]\<rparr>)"
proof (cases "fq_mapped_files q = []")
  case True
  then show ?thesis using assms by (simp add: fq_ok_def fq_base_def fq_size_def)
next
  case False
  then have base: "fq_base (q\<lparr>fq_mapped_files := fq_mapped_files q @ [f]\<rparr>) = fq_base q"
    by (cases "fq_mapped_files q") (simp_all add: fq_base_def)
  have "list_all is_full (fq_mapped_files q)"
    using ok full [OF False] by (subst append_butlast_last_id [OF False, symmetric]) (simp add: fq_ok_def)
  then show ?thesis
    using assms False unfolding fq_ok_def base
    by (auto simp: fq_size_def nth_append less_Suc_eq algebra_simps list_all_append)
qed

text \<open>Asking for a file to write to gives one with room, after the others.\<close>

lemma get_last_for_writing:
  assumes ok: "fq_ok q" and start: "fq_mapped_files q = [] \<Longrightarrow> unat start + fq_size q < 2 ^ 63"
    and room: "fq_base q + Suc (length (fq_mapped_files q)) * fq_size q < 2 ^ 63"
  shows "\<exists>q' i. get_last_mapped_file_mut_start_offset disk start True q = Returned (q', Some i) \<and>
    fq_ok q' \<and> Suc i = length (fq_mapped_files q') \<and> \<not> is_full (fq_mapped_files q' ! i) \<and>
    fq_mapped_file_size q' = fq_mapped_file_size q \<and>
    (fq_mapped_files q' = fq_mapped_files q \<or>
     (\<exists>f. fq_mapped_files q' = fq_mapped_files q @ [f] \<and> mf_wrote_position f = 0 \<and> mf_live f \<and>
        ((\<forall>n. disk n = []) \<longrightarrow> blank_rest f) \<and>
        (fq_mapped_files q = [] \<longrightarrow> unat (mf_file_from_offset f) = unat start div fq_size q * fq_size q)))"
proof -
  note sz = fq_ok_size [OF ok]
  have lt: "unat (fq_mapped_file_size q) < 2 ^ 31" using ok by (simp add: fq_ok_def fq_size_def)
  define co where "co = (if fq_mapped_files q = [] then wrap_i64 (sint start - trunc_mod (sint start) (sint (fq_mapped_file_size q)))
      else let f = last (fq_mapped_files q)
           in if is_full f then wrap_i64 (sint (mf_file_from_offset f) + sint (fq_mapped_file_size q)) else -1)"
  define n where "n = (if fq_mapped_files q = [] then unat start div fq_size q * fq_size q
      else fq_base q + length (fq_mapped_files q) * fq_size q)"
  have n63: "n + fq_size q < 2 ^ 63"
  proof (cases "fq_mapped_files q = []")
    case True
    have "unat start div fq_size q * fq_size q \<le> unat start" by simp
    then show ?thesis using start [OF True] unfolding n_def if_P [OF True] by linarith
  qed (use room in \<open>simp add: n_def\<close>)
  consider (none) "fq_mapped_files q \<noteq> []" "\<not> is_full (last (fq_mapped_files q))"
    | (some) "fq_mapped_files q \<noteq> [] \<Longrightarrow> is_full (last (fq_mapped_files q))" by blast
  then show ?thesis
  proof cases
    case none
    then show ?thesis
      using ok sz by (auto simp: get_last_mapped_file_mut_start_offset_def get_last_mapped_file_def Let_def last_conv_nth)
  next
    case some
    have co: "co = int n"
    proof (cases "fq_mapped_files q = []")
      case True
      have s: "sint start = int (unat start)" using start [OF True] by (intro sint_unat) simp
      have "sint start - trunc_mod (sint start) (sint (fq_mapped_file_size q)) = int n"
        using True sz by (simp add: s n_def trunc_mod_def zdiv_int mult.commute)
      moreover have "is_i64 (int n)" using n63 by (intro is_i64_nat) simp
      ultimately show ?thesis using True by (simp add: co_def)
    next
      case False
      then show ?thesis using some fq_ok_end [OF ok False] by (simp add: co_def n_def Let_def)
    qed
    have w: "unat (word_of_int co :: u64) = n" using n63 by (simp add: co unat_of_nat)
    let ?name = "join_path (fq_store_path q) (offset_to_file_name (word_of_int co))"
    obtain f where f: "mapped_file_new (disk ?name) ?name (fq_mapped_file_size q) = Returned f"
      by (simp add: mapped_file_new_def parse_joined_name)
    note nf = new_file_ok [OF f lt]
    have frm: "unat (mf_file_from_offset f) = n" using nf(5) w by (simp add: parse_joined_name)
    define f' where "f' = (if fq_mapped_files q = [] then f\<lparr>mf_first_create_in_queue := True\<rparr> else f)"
    have f': "mf_ok f'" "mf_file_size f' = fq_mapped_file_size q" "mf_wrote_position f' = 0" "mf_live f'"
      "unat (mf_file_from_offset f') = n" "(\<forall>n. disk n = []) \<longrightarrow> blank_rest f'"
      using nf frm by (auto simp: f'_def mf_ok_def mf_live_def blank_rest_def)
    have ok': "fq_ok (q\<lparr>fq_mapped_files := fq_mapped_files q @ [f']\<rparr>)"
      by (rule fq_ok_append_file [OF ok f'(1,2), of "unat start div fq_size q"])
         (use f'(5) n63 some in \<open>auto simp: n_def\<close>)
    have "\<not> is_full f'" using f' sz(2) by (simp add: is_full_iff fq_size_def)
    moreover have "get_last_mapped_file_mut_start_offset disk start True q = try_create_mapped_file disk (word_of_int co) q"
      unfolding get_last_mapped_file_mut_start_offset_def Let_def co_def [unfolded Let_def, symmetric]
      using sz(1,2) by (simp add: co)
    moreover have "try_create_mapped_file disk (word_of_int co) q =
        Returned (q\<lparr>fq_mapped_files := fq_mapped_files q @ [f']\<rparr>, Some (length (fq_mapped_files q)))"
      by (simp add: try_create_mapped_file_def do_create_mapped_file_def f f'_def get_last_mapped_file_def Let_def)
    ultimately show ?thesis using ok' f'(3-6) by (auto simp: n_def)
  qed
qed

section \<open>The bytes of the log\<close>

definition fq_written :: "mapped_file_queue \<Rightarrow> bytes" where
  "fq_written q = concat (map written (fq_mapped_files q))"

lemma full_files_length:
  "list_all (\<lambda>f. mf_ok f \<and> mf_file_size f = sz) fs \<Longrightarrow> list_all is_full fs \<Longrightarrow>
   length (concat (map written fs)) = length fs * unat sz"
  by (induction fs) (auto simp: is_full_iff mf_ok_position(4))

lemma fq_max_offset:
  assumes ok: "fq_ok q" and ne: "fq_mapped_files q \<noteq> []"
  shows "fq_get_max_offset q = int (fq_base q + length (fq_written q))"
proof -
  let ?fs = "fq_mapped_files q"
  obtain bs f where fs: "?fs = bs @ [f]" using ne by (metis rev_exhaust)
  have f: "mf_ok f" "mf_file_size f = fq_mapped_file_size q" using fq_ok_last [OF ok ne] fs by auto
  have "length (concat (map written bs)) = length bs * fq_size q"
    using ok fs by (intro full_files_length [where sz = "fq_mapped_file_size q", folded fq_size_def]) (auto simp: fq_ok_def)
  then have w: "length (fq_written q) = length bs * fq_size q + nat (mf_wrote_position f)"
    using mf_ok_position(4) [OF f(1)] by (simp add: fq_written_def fs)
  have "nat (mf_wrote_position f) \<le> fq_size q" using f by (simp add: mf_ok_def fq_size_def)
  moreover have "fq_base q + (length bs * fq_size q + fq_size q) < 2 ^ 63" using ok fs by (simp add: fq_ok_def algebra_simps)
  ultimately have "is_i64 (int (fq_base q + length (fq_written q)))" using w by (intro is_i64_nat) simp
  moreover have "0 \<le> mf_wrote_position f" using f by (simp add: mf_ok_def)
  ultimately show ?thesis
    using fq_ok_last(1) [OF ok ne] w by (simp add: fq_get_max_offset_def get_read_position_def fs Let_def add.assoc)
qed

section \<open>Decimal names in order\<close>

fun dec :: "nat \<Rightarrow> nat \<Rightarrow> string" where
  "dec 0 n = []"
| "dec (Suc k) n = dec k (n div 10) @ [char_of (48 + n mod 10)]"

lemma length_dec [simp]: "length (dec k n) = k"
  by (induction k arbitrary: n) auto

lemma zero_char: "char_of (48 :: nat) = CHR ''0''"
  by code_simp

lemma dec_0: "dec k 0 = replicate k CHR ''0''"
  by (induction k) (simp_all add: zero_char replicate_append_same [symmetric])

lemma dec_show:
  assumes "n < 10 ^ k" "0 < k"
  shows "dec k n = replicate (k - length (show_nat n)) CHR ''0'' @ show_nat n"
  using assms
proof (induction k arbitrary: n)
  case (Suc k)
  show ?case
  proof (cases "n < 10")
    case True
    then show ?thesis by (simp add: dec_0 show_nat.simps [of n])
  next
    case False
    then have "n div 10 < 10 ^ k" "0 < k" using Suc.prems by (auto simp: div_less_iff_less_mult intro: Suc_lessI)
       (cases k; simp)+
    then show ?thesis using Suc.IH [of "n div 10"] False by (simp add: show_nat.simps [of n])
  qed
qed simp

lemma digit_less: "a < b \<Longrightarrow> b < 10 \<Longrightarrow> (char_of (48 + a) :: char) < char_of (48 + b :: nat)"
  by (simp add: less_char_def of_char_of)

lemma dec_less:
  assumes "a < b" "b < 10 ^ k"
  shows "dec k a < dec k b"
  using assms
proof (induction k arbitrary: a b)
  case (Suc k)
  show ?case
  proof (cases "a div 10 = b div 10")
    case True
    then have "a mod 10 < b mod 10" using Suc.prems(1) by (metis div_mult_mod_eq nat_add_left_cancel_less)
    then show ?thesis
      using True digit_less [of "a mod 10" "b mod 10"]
      by (simp add: list_less_def lexord_append_leftI)
  next
    case False
    then have "a div 10 < b div 10" using Suc.prems(1) by (simp add: div_le_mono le_neq_implies_less)
    moreover have "b div 10 < 10 ^ k" using Suc.prems(2) by (simp add: div_less_iff_less_mult)
    ultimately show ?thesis using Suc.IH [of "a div 10" "b div 10"] by (simp add: list_less_def lexord_sufI)
  qed
qed simp

lemma offset_name_dec: "offset_to_file_name w = dec 20 (unat w)"
proof -
  have "unat w < 2 ^ 64" using unsigned_less [of w] by simp
  then have "unat w < 10 ^ 20" by (rule less_trans) simp
  then show ?thesis by (subst dec_show) (simp_all add: offset_to_file_name_def Let_def)
qed

lemma offset_name_less: "a < b \<Longrightarrow> offset_to_file_name a < offset_to_file_name b"
proof -
  assume "a < b"
  moreover have "unat b < 10 ^ 20" using unsigned_less [of b] by (rule less_trans) simp
  ultimately show ?thesis unfolding offset_name_dec by (intro dec_less) (simp_all add: word_less_nat_alt)
qed

section \<open>The directory of a queue\<close>

definition dir_of :: "mapped_file_queue \<Rightarrow> dir_entry list" where
  "dir_of q = map (\<lambda>f. DirEntry (join_path (fq_store_path q) (offset_to_file_name (mf_file_from_offset f)))
     (Some (Inr (mf_mmapped_file f)))) (fq_mapped_files q)"

lemma joined_file_name: "de_file_name (DirEntry (join_path dir (offset_to_file_name w)) m) = offset_to_file_name w"
proof (cases "dir = [] \<or> last dir \<noteq> CHR ''/''")
  case False
  then obtain d where "dir = d @ ''/''" by (metis append_butlast_last_id)
  then show ?thesis using last_split_char [OF offset_name_digits, of d] by (simp add: de_file_name_def join_path_def)
qed (auto simp: de_file_name_def join_path_def last_split_char offset_name_digits split_char_no_sep)

lemma sort_key_unique:
  assumes "sorted_wrt (<) (map f xs)" "mset ys = mset xs"
  shows "sort_key f ys = xs"
proof -
  have "sorted (map f xs)" using assms(1) by (metis strict_sorted_imp_sorted)
  then have "map f (sort_key f ys) = map f xs"
    using assms(2) properties_for_sort [of "map f (sort_key f ys)" "map f xs"]
      properties_for_sort [of "map f xs" "map f xs"] by simp
  moreover have "inj_on f (set xs)"
    using assms(1) by (simp add: strict_sorted_iff distinct_map)
  moreover have "set (sort_key f ys) = set xs" using mset_eq_setD [OF assms(2)] by simp
  ultimately show ?thesis by (metis inj_on_map_eq_map sup.idem)
qed

lemma fq_offsets_increase:
  assumes "fq_ok q"
  shows "sorted_wrt (<) (map de_file_name (dir_of q))"
proof -
  have "mf_file_from_offset (fq_mapped_files q ! i) < mf_file_from_offset (fq_mapped_files q ! j)"
    if "i < j" "j < length (fq_mapped_files q)" for i j
  proof -
    have i: "i < length (fq_mapped_files q)" using that by simp
    show ?thesis
      unfolding word_less_nat_alt fq_ok_nth(2) [OF assms i] fq_ok_nth(2) [OF assms that(2)]
      using that(1) fq_ok_size(2) [OF assms] by simp
  qed
  then show ?thesis
    unfolding sorted_wrt_iff_nth_less dir_of_def
    by (simp add: joined_file_name offset_name_less)
qed

text \<open>A file as it is opened again: its bytes and its offset, with all positions at its end.\<close>

definition reopened :: "string \<Rightarrow> u64 \<Rightarrow> mapped_file \<Rightarrow> mapped_file" where
  "reopened dir sz f =
     \<lparr>mf_reference_resource = rc_new, mf_mmapped_file = mf_mmapped_file f, mf_transient_store_pool = False,
      mf_file_name = join_path dir (offset_to_file_name (mf_file_from_offset f)),
      mf_file_from_offset = mf_file_from_offset f, mf_wrote_position = int (unat sz),
      mf_committed_position = int (unat sz), mf_flushed_position = int (unat sz), mf_file_size = sz,
      mf_store_timestamp = 0, mf_first_create_in_queue = False, mf_last_flush_time = 0, mf_access_count = 0\<rparr>"

lemma list_all_butlast: "list_all P xs \<Longrightarrow> list_all P (butlast xs)"
  by (auto simp: list_all_iff dest: in_set_butlastD)

lemma reopened_sel [simp]:
  "mf_file_size (reopened dir sz f) = sz" "mf_mmapped_file (reopened dir sz f) = mf_mmapped_file f"
  "mf_file_from_offset (reopened dir sz f) = mf_file_from_offset f"
  by (simp_all add: reopened_def)

lemma load_files_all:
  assumes "list_all (\<lambda>f. mf_ok f \<and> mf_file_size f = fq_mapped_file_size q) fs" "0 < fq_size q" "fq_size q < 2 ^ 31"
  shows "load_files (map (\<lambda>f. DirEntry (join_path dir (offset_to_file_name (mf_file_from_offset f)))
      (Some (Inr (mf_mmapped_file f)))) fs) q =
    Returned (q\<lparr>fq_mapped_files := fq_mapped_files q @ map (reopened dir (fq_mapped_file_size q)) fs\<rparr>, True)"
  using assms
proof (induction fs arbitrary: q)
  case (Cons f fs)
  let ?sz = "fq_mapped_file_size q"
  have f: "length (mf_mmapped_file f) = unat ?sz" using Cons.prems by (simp add: mf_ok_def)
  then have len: "(of_nat (length (mf_mmapped_file f)) :: u64) = ?sz" "mf_mmapped_file f \<noteq> []"
    using Cons.prems(2) by (auto simp: fq_size_def)
  have pos: "wrap_i32 (uint ?sz) = int (unat ?sz)"
  proof -
    have "int (unat ?sz) < int (2 ^ 31)" using Cons.prems(3) by (simp only: of_nat_less_iff fq_size_def)
    moreover have "- (2 ^ 31) \<le> uint ?sz" by (rule order_trans [OF _ uint_ge_0]) simp
    ultimately have "is_i32 (uint ?sz)" by (simp add: is_i32_def)
    then show ?thesis by simp
  qed
  have same: "set_len (unat ?sz) (mf_mmapped_file f) = mf_mmapped_file f" using f by (simp add: set_len_def)
  show ?case
    using Cons.IH [of "q\<lparr>fq_mapped_files := fq_mapped_files q @ [reopened dir ?sz f]\<rparr>"] Cons.prems len pos same
    by (simp add: mapped_file_new_def parse_joined_name reopened_def Let_def fq_size_def)
qed simp

lemma reopened_ok:
  assumes "mf_ok f" "mf_file_size f = sz"
  shows "mf_ok (reopened dir sz f)" "is_full (reopened dir sz f)"
proof -
  show ok: "mf_ok (reopened dir sz f)" using assms by (simp add: mf_ok_def reopened_def)
  show "is_full (reopened dir sz f)" unfolding is_full_iff [OF ok] by (simp add: reopened_def)
qed

lemma reopened_queue_ok:
  assumes "fq_ok q"
  shows "fq_ok (q\<lparr>fq_mapped_files := map (reopened dir (fq_mapped_file_size q)) (fq_mapped_files q)\<rparr>)"
proof -
  let ?q = "q\<lparr>fq_mapped_files := map (reopened dir (fq_mapped_file_size q)) (fq_mapped_files q)\<rparr>"
  have base: "fq_base ?q = fq_base q" by (simp add: fq_base_def split: list.splits)
  have "list_all (\<lambda>f. mf_ok f \<and> mf_file_size f = fq_mapped_file_size q) (fq_mapped_files q)"
    using assms by (simp add: fq_ok_def)
  then have files: "list_all (\<lambda>f. mf_ok f \<and> mf_file_size f = fq_mapped_file_size q) (fq_mapped_files ?q)"
    "list_all is_full (fq_mapped_files ?q)"
    using reopened_ok by (auto simp: list_all_iff)
  have "list_all is_full (butlast (fq_mapped_files ?q))"
    by (rule list_all_butlast [OF files(2)])
  then show ?thesis
    using assms files unfolding fq_ok_def base by (simp add: fq_size_def)
qed

lemma load_directory:
  assumes "fq_ok q" and "mset entries = mset (dir_of q)"
  defines "q' \<equiv> (fq_new (fq_store_path q) (fq_mapped_file_size q))
    \<lparr>fq_mapped_files := map (reopened (fq_store_path q) (fq_mapped_file_size q)) (fq_mapped_files q)\<rparr>"
  shows "do_load entries (fq_new (fq_store_path q) (fq_mapped_file_size q)) = Returned (q', True)" "fq_ok q'"
    "list_all is_full (fq_mapped_files q')"
    "fq_mapped_files q' = map (reopened (fq_store_path q) (fq_mapped_file_size q)) (fq_mapped_files q)"
proof -
  let ?new = "fq_new (fq_store_path q) (fq_mapped_file_size q)"
  have sorted: "sort_key de_file_name entries = dir_of q"
    by (rule sort_key_unique [OF fq_offsets_increase [OF assms(1)] assms(2)])
  have "load_files (dir_of q) ?new = Returned (q', True)"
    unfolding dir_of_def q'_def using assms(1) by (subst load_files_all) (simp_all add: fq_ok_def fq_new_def fq_size_def)
  then show "do_load entries ?new = Returned (q', True)" by (simp add: do_load_def sorted)
  show "fq_ok q'"
    using reopened_queue_ok [OF assms(1), of "fq_store_path q"]
    by (simp add: q'_def fq_ok_def fq_base_def fq_size_def fq_new_def)
  show "list_all is_full (fq_mapped_files q')"
    using assms(1) by (auto simp: q'_def fq_ok_def list_all_iff reopened_ok(2))
  show "fq_mapped_files q' = map (reopened (fq_store_path q) (fq_mapped_file_size q)) (fq_mapped_files q)"
    by (simp add: q'_def)
qed

section \<open>Truncation\<close>

lemma truncate_last:
  assumes ok: "fq_ok q" and ne: "fq_mapped_files q \<noteq> []" and pos: "0 \<le> offset"
    and hi: "offset < int (fq_base q + length (fq_mapped_files q) * fq_size q)"
  shows "last (fq_mapped_files (truncate_dirty_files io_ok now offset q)) =
    (if int (fq_base q + (length (fq_mapped_files q) - 1) * fq_size q) \<le> offset
     then set_positions (offset mod int (fq_size q)) (last (fq_mapped_files q))
     else fst (mf_destroy io_ok now 1000 (last (fq_mapped_files q))))"
proof -
  let ?f = "last (fq_mapped_files q)"
  note sz = fq_ok_size [OF ok]
  obtain n where n: "length (fq_mapped_files q) = Suc n" using ne by (cases "fq_mapped_files q") auto
  have bound: "fq_base q + Suc n * fq_size q < 2 ^ 63" using ok n by (simp add: fq_ok_def)
  have "unat (mf_file_from_offset ?f + fq_mapped_file_size q) = fq_base q + Suc n * fq_size q"
    using fq_ok_last(4) [OF ok ne] n bound by (subst unat_add_lem [THEN iffD1]) (simp_all add: fq_size_def)
  then have tail: "sint (mf_file_from_offset ?f + fq_mapped_file_size q) = int (fq_base q + Suc n * fq_size q)"
    using bound by (subst sint_unat) simp_all
  have m: "trunc_mod offset (sint (fq_mapped_file_size q)) = offset mod int (fq_size q)"
    using pos sz by (simp add: trunc_mod_def minus_div_mult_eq_mod mult.commute flip: minus_mult_div_eq_mod)
  have "0 \<le> offset mod int (fq_size q)" "offset mod int (fq_size q) < int (fq_size q)" using sz(2) by simp_all
  moreover have "fq_size q < 2 ^ 31" using ok by (simp add: fq_ok_def)
  ultimately have "is_i32 (offset mod int (fq_size q))" by (simp add: is_i32_def)
  then show ?thesis
    using ne hi n by (simp add: truncate_dirty_files_def last_map truncate_file_def tail m fq_ok_last(1) [OF ok ne])
qed

section \<open>Properties\<close>

text \<open>
  C20. The position of a file is computed from the offset: in a queue of contiguous files an offset
  between the first and the last byte gives exactly the file that holds it, and any other offset
  gives nothing or, where the caller asks for it, the first file.
\<close>

theorem offset_finds_its_file:
  assumes "fq_ok q"
  shows "find_mapped_file_by_offset offset return_first q =
    Returned (if int (fq_base q) \<le> offset \<and> offset < int (fq_base q + length (fq_mapped_files q) * fq_size q)
      then Some ((nat offset - fq_base q) div fq_size q)
      else if return_first \<and> fq_mapped_files q \<noteq> [] then Some 0 else None)"
    (is "_ = Returned (if ?in then _ else _)")
proof (cases ?in)
  case True
  then show ?thesis using find_mapped_file_found(1) [OF assms] by simp
next
  case False
  then have out: "offset < int (fq_base q) \<or> int (fq_base q + length (fq_mapped_files q) * fq_size q) \<le> offset"
    by linarith
  show ?thesis by (simp only: find_mapped_file_outside [OF assms out] if_not_P [OF False])
qed

definition sample_queue :: mapped_file_queue where
  "sample_queue = \<lparr>fq_store_path = ''/store'', fq_mapped_file_size = 64,
     fq_mapped_files = [sample_file\<lparr>mf_wrote_position := 64\<rparr>, sample_file\<lparr>mf_file_from_offset := 128, mf_wrote_position := 10\<rparr>],
     fq_flushed_where = 64, fq_committed_where = 64, fq_store_timestamp = 0\<rparr>"

lemma sample_queue_ok: "fq_ok sample_queue"
  by (simp add: fq_ok_def sample_queue_def sample_file_def fq_base_def fq_size_def mf_ok_def is_full_def less_Suc_eq)

lemma sample_queue_base: "fq_base sample_queue = 64" "fq_size sample_queue = 64"
  "length (fq_mapped_files sample_queue) = 2" "fq_mapped_files sample_queue \<noteq> []"
  by (simp_all add: sample_queue_def sample_file_def fq_base_def fq_size_def)

theorem offset_finds_its_file_witness:
  "find_mapped_file_by_offset 130 False sample_queue = Returned (Some 1) \<and>
   find_mapped_file_by_offset 20 True sample_queue = Returned (Some 0) \<and>
   find_mapped_file_by_offset 192 False sample_queue = Returned None"
  by (simp add: offset_finds_its_file [OF sample_queue_ok] sample_queue_base)

text \<open>
  The files of a queue survive a restart: loading the directory, in whatever order the
  operating system lists it, gives the files with their bytes in the order of their offsets, because
  the padded decimal names sort like the numbers. All of them count as full.
\<close>

lemma files_restored_in_order:
  assumes "fq_ok q" and "mset entries = mset (dir_of q)"
  shows "\<exists>q'. do_load entries (fq_new (fq_store_path q) (fq_mapped_file_size q)) = Returned (q', True) \<and> fq_ok q' \<and>
    map mf_file_from_offset (fq_mapped_files q') = map mf_file_from_offset (fq_mapped_files q) \<and>
    map mf_mmapped_file (fq_mapped_files q') = map mf_mmapped_file (fq_mapped_files q) \<and>
    list_all is_full (fq_mapped_files q')"
  using load_directory [OF assms] by (simp add: comp_def)

text \<open>
  Truncation cuts the log only inside its last file. An offset in an earlier file destroys the
  later files, which readers can no longer hold, but they stay in the queue: the log still ends where
  it ended before.
\<close>

lemma truncation_keeps_later_files:
  assumes "fq_ok q" and "fq_mapped_files q \<noteq> []" and "0 \<le> offset"
    and "offset < int (fq_base q + length (fq_mapped_files q) * fq_size q)"
    and "rc_available (mf_reference_resource (last (fq_mapped_files q)))"
  shows "let q' = truncate_dirty_files io_ok now offset q
    in if int (fq_base q + (length (fq_mapped_files q) - 1) * fq_size q) \<le> offset
       then fq_get_max_offset q' = offset
       else fq_get_max_offset q' = fq_get_max_offset q \<and>
            \<not> rc_available (mf_reference_resource (last (fq_mapped_files q')))"
proof -
  note t = truncate_last [OF assms(1-4), of io_ok now]
  have ne: "fq_mapped_files (truncate_dirty_files io_ok now offset q) \<noteq> []"
    using assms(2) by (simp add: truncate_dirty_files_def)
  show ?thesis
  proof (cases "int (fq_base q + (length (fq_mapped_files q) - 1) * fq_size q) \<le> offset")
    case True
    let ?s = "int (fq_size q)"
    obtain n where n: "length (fq_mapped_files q) = Suc n" using assms(2) by (cases "fq_mapped_files q") auto
    obtain b where b: "fq_base q = b * fq_size q" using assms(1) by (auto simp: fq_ok_def mult.commute elim: dvdE)
    have lo: "(int b + int n) * ?s \<le> offset" and up: "offset < (int b + int n) * ?s + ?s"
      using True assms(4) n b by (simp_all add: algebra_simps)
    define r where "r = offset - (int b + int n) * ?s"
    have "offset mod ?s = (r + (int b + int n) * ?s) mod ?s" by (simp add: r_def)
    also have "\<dots> = r" using lo up unfolding mod_mult_self1 by (intro mod_pos_pos_trivial) (simp_all add: r_def)
    finally have "(int b + int n) * ?s + offset mod ?s = offset" by (simp add: r_def)
    moreover have "is_i64 offset"
    proof -
      have "nat offset < fq_base q + length (fq_mapped_files q) * fq_size q" using assms(3,4) by linarith
      then have "nat offset < 2 ^ 63" using assms(1) by (simp add: fq_ok_def)
      then show ?thesis using is_i64_nat [of "nat offset"] assms(3) by simp
    qed
    ultimately show ?thesis
      using True t ne fq_ok_last(1) [OF assms(1,2)] n b
      by (simp add: fq_get_max_offset_def Let_def set_positions_def get_read_position_def algebra_simps)
  next
    case False
    then show ?thesis
      using t ne assms(2,5)
      by (simp add: fq_get_max_offset_def Let_def mf_destroy_def get_read_position_def rc_shutdown_def rc_release_def)
  qed
qed

end
