(* ===== verification/Message_Props.thy ===== *)
theory Message_Props
  imports Message_Codec Rust_Text
begin

text \<open>
  Helpers on the text of messages: the hash of Java strings
  (\<open>rocketmq-common/src/common/hasher/string_hasher.rs\<close>), the code of the tags of a message, and the
  removal of a property from the text of the properties
  (\<open>rocketmq-common/src/utils/message_utils.rs\<close>). Text is UTF-8 bytes; where the code counts
  characters and not bytes, \<open>code_points\<close> gives them.
\<close>

section \<open>Characters and hashes\<close>

definition str_bytes :: "string \<Rightarrow> bytes" where
  "str_bytes s = map (of_nat \<circ> of_char) s"

definition bytes_str :: "bytes \<Rightarrow> string" where
  "bytes_str bs = map (char_of \<circ> unat) bs"

definition code_point :: "bytes \<Rightarrow> nat" where
  "code_point bs =
     (case map unat bs of
        [a] \<Rightarrow> a
      | [a, b] \<Rightarrow> a mod 32 * 64 + b mod 64
      | [a, b, c] \<Rightarrow> (a mod 16 * 64 + b mod 64) * 64 + c mod 64
      | [a, b, c, d] \<Rightarrow> ((a mod 8 * 64 + b mod 64) * 64 + c mod 64) * 64 + d mod 64
      | _ \<Rightarrow> 0)"

function code_points :: "bytes \<Rightarrow> nat list" where
  "code_points bs =
     (if bs = [] then []
      else (case utf8_char bs of
              Inl n \<Rightarrow> 0xFFFD # code_points (drop n bs)
            | Inr n \<Rightarrow> code_point (take n bs) # code_points (drop n bs)))"
  by pat_completeness auto
termination code_points
  by (relation "measure length") (simp_all add: utf8_char_pos)

declare code_points.simps [simp del]

definition hash_str :: "bytes \<Rightarrow> i32" where
  "hash_str s = foldl (\<lambda>state c. wrap_i32 (wrap_i32 (state * 31) + int c)) 0 (code_points s)"

definition tags_string2tags_code :: "bytes option \<Rightarrow> i64" where
  "tags_string2tags_code tags =
     (case tags of None \<Rightarrow> 0 | Some t \<Rightarrow> if t = [] then 0 else hash_str t)"

section \<open>Removal of a property\<close>

text \<open>The first place at or after \<open>start\<close> where \<open>name\<close> stands.\<close>

definition find_from :: "bytes \<Rightarrow> bytes \<Rightarrow> nat \<Rightarrow> nat option" where
  "find_from name s start =
     find (\<lambda>i. take (length name) (drop i s) = name) [start..<Suc (length s)]"

definition nth_char :: "bytes \<Rightarrow> nat \<Rightarrow> nat option" where
  "nth_char s n = (let cs = code_points s in if n < length cs then Some (cs ! n) else None)"

text \<open>
  The search for a name that is a key. The positions are positions of bytes, but the neighbours are
  looked up by the number of characters. The name is not empty, since an empty one is found again and
  again at the same place.
\<close>

function find_key :: "bytes \<Rightarrow> bytes \<Rightarrow> nat \<Rightarrow> nat option" where
  "find_key s name start =
     (case find_from name s start of
        None \<Rightarrow> None
      | Some idx1 \<Rightarrow>
          if (idx1 = 0 \<or> nth_char s (idx1 - 1) = Some (unat property_separator)) \<and>
             length s > idx1 + length name \<and>
             nth_char s (idx1 + length name) = Some (unat name_value_separator)
          then Some idx1
          else if name = [] then None else find_key s name (idx1 + length name))"
  by pat_completeness auto

lemma find_from_Some:
  assumes "find_from name s start = Some i"
  shows "start \<le> i" "i \<le> length s" "take (length name) (drop i s) = name" "i + length name \<le> length s"
proof -
  show a: "start \<le> i" "i \<le> length s" "take (length name) (drop i s) = name"
    using assms by (auto simp: find_from_def find_Some_iff simp del: upt_Suc)
  have "length (take (length name) (drop i s)) = length name" using a(3) by simp
  then show "i + length name \<le> length s" using a(2) by (simp add: min_def split: if_splits)
qed

termination find_key
proof (relation "measure (\<lambda>(s, name, start). Suc (length s) - start)")
  fix s name start i
  assume "find_from name s start = Some i" "name \<noteq> ([] :: bytes)"
  then show "((s, name, i + length name), s, name, start) \<in> measure (\<lambda>(s, name, start). Suc (length s) - start)"
    using find_from_Some [of name s start i] by (cases name) auto
qed simp

declare find_key.simps [simp del]

function delete_from :: "bytes \<Rightarrow> bytes \<Rightarrow> nat \<Rightarrow> bytes" where
  "delete_from s name idx0 =
     (case find_key s name idx0 of
        None \<Rightarrow> drop idx0 s
      | Some idx1 \<Rightarrow>
          take (idx1 - idx0) (drop idx0 s) @
          (case find_from [property_separator] s (idx1 + length name + 1) of
             None \<Rightarrow> []
           | Some idx2 \<Rightarrow> delete_from s name (idx2 + 1)))"
  by pat_completeness auto

lemma find_key_ge: "find_key s name start = Some i \<Longrightarrow> start \<le> i"
proof (induction s name start rule: find_key.induct)
  case (1 s name start)
  from "1.prems" obtain j where j: "find_from name s start = Some j" "j = i \<or> find_key s name (j + length name) = Some i \<and> name \<noteq> []"
    by (subst (asm) find_key.simps) (auto split: option.splits if_splits)
  show ?case
  proof (cases "j = i")
    case False
    then have "find_key s name (j + length name) = Some i" "name \<noteq> []" using j(2) by auto
    moreover have "start \<le> j" by (rule find_from_Some(1) [OF j(1)])
    moreover have "\<not> ((j = 0 \<or> nth_char s (j - 1) = Some (unat property_separator)) \<and>
        length s > j + length name \<and> nth_char s (j + length name) = Some (unat name_value_separator))"
      using False j(1) "1.prems" by (subst (asm) find_key.simps) (auto split: if_splits)
    ultimately show ?thesis using "1.IH" [OF j(1)] by simp
  qed (use find_from_Some(1) [OF j(1)] in simp)
qed

termination delete_from
proof (relation "measure (\<lambda>(s, name, idx0). Suc (length s) - idx0)")
  fix s name idx0 i j
  assume "find_key s name idx0 = Some i" "find_from [property_separator] s (i + length name + 1) = Some j"
  then show "((s, name, j + 1), s, name, idx0) \<in> measure (\<lambda>(s, name, idx0). Suc (length s) - idx0)"
    using find_from_Some(1,4) [of "[property_separator]" s "i + length name + 1" j] find_key_ge [of s name idx0 i] by simp
qed simp

declare delete_from.simps [simp del]

definition delete_property :: "bytes \<Rightarrow> bytes \<Rightarrow> bytes" where
  "delete_property properties_string name =
     (if properties_string \<noteq> [] \<and> find_from name properties_string 0 \<noteq> None
      then delete_from properties_string name 0 else properties_string)"

end
