(* ===== verification/Append_Message.thy ===== *)
theory Append_Message
  imports Store_Encoder Mapped_File_Queue Message_Props Route_Data
begin

text \<open>
  How an encoded message gets into a mapped file: the callback that completes the record with its
  offsets (\<open>rocketmq-store/src/base/append_message_callback.rs\<close>), the results of an append
  (\<open>base/message_result.rs\<close>, \<open>base/message_status_enum.rs\<close>), the append operations of the file
  (\<open>log_file/mapped_file/default_mapped_file_impl.rs\<close>) and the number of messages a message stands
  for (\<open>get_message_num\<close> of \<open>log_file/commit_log.rs\<close>). Elapsed times are left out of the results.
\<close>

section \<open>Results\<close>

datatype append_message_status =
  AppendPutOk | AppendEndOfFile | AppendMessageSizeExceeded | AppendPropertiesSizeExceeded | AppendUnknownError

text \<open>The supplier of the message id is the value it gives when it is called, which may be a panic.\<close>

record append_message_result =
  ar_status :: append_message_status
  ar_wrote_offset :: i64
  ar_wrote_bytes :: i32
  ar_msg_id :: "string option"
  ar_msg_id_supplier :: "string outcome option"
  ar_store_timestamp :: i64
  ar_logics_offset :: i64
  ar_msg_num :: i32

definition append_result_default :: append_message_result where
  "append_result_default = \<lparr>ar_status = AppendUnknownError, ar_wrote_offset = 0, ar_wrote_bytes = 0, ar_msg_id = None,
     ar_msg_id_supplier = None, ar_store_timestamp = 0, ar_logics_offset = 0, ar_msg_num = 1\<rparr>"

definition append_is_ok :: "append_message_result \<Rightarrow> bool" where
  "append_is_ok r \<longleftrightarrow> ar_status r = AppendPutOk"

definition get_message_id :: "append_message_result \<Rightarrow> string option outcome" where
  "get_message_id r =
     (case (ar_msg_id r, ar_msg_id_supplier r) of
        (None, Some (Returned msg_id)) \<Rightarrow> Returned (Some msg_id)
      | (None, Some Panicked) \<Rightarrow> Panicked
      | (msg_id, _) \<Rightarrow> Returned msg_id)"

section \<open>The number of messages\<close>

datatype cq_type = SimpleCQ | BatchCQ | RocksDBCQ

definition cq_type_from_str :: "string \<Rightarrow> cq_type option" where
  "cq_type_from_str s =
     (let u = map to_uppercase s
      in if u = ''SIMPLECQ'' then Some SimpleCQ else if u = ''BATCHCQ'' then Some BatchCQ
         else if u = ''ROCKSDBCQ'' then Some RocksDBCQ else None)"

definition get_cq_type :: "topic_config option \<Rightarrow> cq_type" where
  "get_cq_type config =
     (case config of
        Some c \<Rightarrow> (case hm_get (tc_attributes c) ''queue.type'' of
                    Some value \<Rightarrow> (case cq_type_from_str value of Some t \<Rightarrow> t | None \<Rightarrow> SimpleCQ)
                  | None \<Rightarrow> SimpleCQ)
      | None \<Rightarrow> SimpleCQ)"

definition inner_batch_flag :: u32 where "inner_batch_flag = push_bit 7 1"

definition property_inner_num :: bytes where "property_inner_num = str_bytes ''INNER_NUM''"

definition get_message_num :: "(string, topic_config) hmap \<Rightarrow> message_ext_broker_inner \<Rightarrow> int" where
  "get_message_num configs m =
     (if message_flag_check (me_sys_flag (bi_ext m)) inner_batch_flag \<or>
         get_cq_type (hm_get configs (bytes_str (inner_topic m))) = BatchCQ
      then (case hm_get (m_properties (me_message (bi_ext m))) property_inner_num of
              None \<Rightarrow> 1
            | Some num \<Rightarrow> (case parse_signed 16 (bytes_str num) of Some n \<Rightarrow> n | None \<Rightarrow> 1))
      else 1)"

section \<open>The callback\<close>

text \<open>A message on its way into the store, with the buffer its record was encoded into.\<close>

record pending_message =
  pm_inner :: message_ext_broker_inner
  pm_encoded_buff :: "bytes option"

record pending_batch =
  pb_batch :: message_ext_batch
  pb_encoded_buff :: "bytes option"

definition blank_magic_code :: i32 where "blank_magic_code = -875286124"
definition end_file_min_blank_length :: i32 where "end_file_min_blank_length = 4 + 4"

text \<open>\<open>buf[pos..pos + n].copy_from_slice(new)\<close>.\<close>

definition copy_at :: "bytes \<Rightarrow> nat \<Rightarrow> bytes \<Rightarrow> bytes outcome" where
  "copy_at buf pos new = (if pos + length new \<le> length buf then Returned (overwrite buf pos new) else Panicked)"

text \<open>Fields 6, 7 and 11 of the record at \<open>msg_pos\<close>: queue offset, physical offset, store time.\<close>

definition patch_record :: "u32 \<Rightarrow> i64 \<Rightarrow> i64 \<Rightarrow> i64 \<Rightarrow> nat \<Rightarrow> bytes \<Rightarrow> bytes outcome" where
  "patch_record sys_flag queue_offset phy_offset store_timestamp msg_pos buf =
     (let pos = msg_pos + 20; ip_len = (if sys_flag AND bornhost_v6_flag = 0 then 4 + 4 else 16 + 4)
      in bind_outcome (copy_at buf pos (put_i64 queue_offset)) (\<lambda>buf.
         bind_outcome (copy_at buf (pos + 8) (put_i64 phy_offset)) (\<lambda>buf.
         copy_at buf (pos + 8 + 8 + 4 + 8 + ip_len) (put_i64 store_timestamp))))"

definition put_checksum :: "message_env \<Rightarrow> store_config \<Rightarrow> i32 \<Rightarrow> bytes \<Rightarrow> bytes outcome" where
  "put_checksum env cfg msg_len buf =
     (if sc_enabled_append_prop_crc cfg then
        let check_size = wrap_i32 (msg_len - crc32_reserved_len)
        in bind_outcome (slice_of buf 0 (as_usize check_size)) (\<lambda>checked.
           bind_outcome (slice_of buf (as_usize check_size) (as_usize msg_len)) (\<lambda>reserve.
             if length reserve < 20 then Panicked
             else Returned (overwrite buf (as_usize check_size) (create_crc32 (body_crc32 env checked)))))
      else Returned buf)"

text \<open>
  The mark at the end of a file that has no room left. It is written at the offset in the whole log,
  not at the position in the file, and where that is outside of the file it is not written.
\<close>

definition write_blank :: "i64 \<Rightarrow> i32 \<Rightarrow> mapped_file \<Rightarrow> mapped_file outcome" where
  "write_blank wrote_offset max_blank f =
     (let mark = put_i32 max_blank @ put_i32 blank_magic_code
      in case write_bytes_segment mark (as_usize wrote_offset) 0 (length mark) f of
           Returned (f', _) \<Rightarrow> Returned f' | Panicked \<Rightarrow> Panicked)"

definition do_append ::
  "message_env \<Rightarrow> store_config \<Rightarrow> (string, topic_config) hmap \<Rightarrow> i64 \<Rightarrow> i32 \<Rightarrow> pending_message \<Rightarrow> mapped_file \<Rightarrow>
   (pending_message \<times> mapped_file \<times> append_message_result) outcome" where
  "do_append env cfg configs file_from_offset max_blank p f =
     (case pm_encoded_buff p of
        None \<Rightarrow> Panicked
      | Some pre_encode_buffer \<Rightarrow>
          let m = pm_inner p; p' = p\<lparr>pm_encoded_buff := None\<rparr>
          in if sc_enable_multi_dispatch cfg \<and> is_multi_dispatch_msg m then Panicked
             else (case get_i32 pre_encode_buffer of
                     None \<Rightarrow> Panicked
                   | Some (msg_len, _) \<Rightarrow>
                       let wrote_offset = wrap_i64 (file_from_offset + mf_wrote_position f);
                           tran_type = get_transaction_value (me_sys_flag (bi_ext m));
                           queue_offset = (if tran_type = transaction_prepared_type \<or> tran_type = transaction_rollback_type
                                           then 0 else me_queue_offset (bi_ext m));
                           result = append_result_default
                             \<lparr>ar_wrote_offset := wrote_offset, ar_store_timestamp := me_store_timestamp (bi_ext m),
                              ar_logics_offset := queue_offset, ar_msg_num := get_message_num configs m,
                              ar_msg_id_supplier := Some (Returned (build_message_id (me_store_host (bi_ext m)) wrote_offset))\<rparr>
                       in if wrap_i32 (msg_len + end_file_min_blank_length) > max_blank then
                            bind_outcome (write_blank wrote_offset max_blank f) (\<lambda>f'.
                            Returned (p', f', result\<lparr>ar_status := AppendEndOfFile, ar_wrote_bytes := max_blank\<rparr>))
                          else
                            bind_outcome (patch_record (me_sys_flag (bi_ext m)) queue_offset wrote_offset
                              (me_store_timestamp (bi_ext m)) 0 pre_encode_buffer) (\<lambda>buf.
                            bind_outcome (put_checksum env cfg msg_len buf) (\<lambda>buf.
                            bind_outcome (append_message_bytes_no_position_update buf f) (\<lambda>(f', _).
                            Returned (p', f', result\<lparr>ar_status := AppendPutOk, ar_wrote_bytes := msg_len\<rparr>))))))"

text \<open>
  The loop over the records of a batch; the physical positions are as many as the batch has
  messages, and one more round panics. The answer is \<open>None\<close> where the file has no room. With
  checksums enabled the size of the checked part is computed and not used.
\<close>

function batch_loop ::
  "message_ext \<Rightarrow> i64 \<Rightarrow> i32 \<Rightarrow> i32 \<Rightarrow> i32 \<Rightarrow> nat \<Rightarrow> nat \<Rightarrow> bytes \<Rightarrow> i64 list \<Rightarrow>
   (i64 list \<times> (i32 \<times> i32 \<times> bytes) option) outcome" where
  "batch_loop e wrote_offset max_blank total_msg_len msg_num msg_pos index buf phy =
     (if total_msg_len < wrap_i32 (int (length buf)) then
        (case slice_of buf (as_usize total_msg_len) (as_usize (wrap_i32 (total_msg_len + 4))) of
           Panicked \<Rightarrow> Panicked
         | Returned len_bytes \<Rightarrow>
             (case get_i32 len_bytes of
                None \<Rightarrow> Panicked
              | Some (msg_len, _) \<Rightarrow>
                  let total' = wrap_i32 (total_msg_len + msg_len);
                      phy_pos = wrap_i64 (wrap_i64 (wrote_offset + total') - msg_len)
                  in if wrap_i32 (total' + end_file_min_blank_length) > max_blank then Returned (phy, None)
                     else (case patch_record (me_sys_flag e) (me_queue_offset e) phy_pos (me_store_timestamp e) msg_pos buf of
                             Panicked \<Rightarrow> Panicked
                           | Returned buf' \<Rightarrow>
                               if index < length phy
                               then batch_loop e wrote_offset max_blank total' (wrap_i32 (msg_num + 1))
                                      (usize_add msg_pos (as_usize msg_len)) (Suc index) buf' (phy[index := phy_pos])
                               else Panicked)))
      else Returned (phy, Some (total_msg_len, msg_num, buf)))"
  by pat_completeness auto
termination
  by (relation "measure (\<lambda>(e, w, b, t, n, p, index, buf, phy). length phy - index)") auto

declare batch_loop.simps [simp del]

definition do_append_batch ::
  "i64 \<Rightarrow> i32 \<Rightarrow> pending_batch \<Rightarrow> put_message_context \<Rightarrow> mapped_file \<Rightarrow>
   (pending_batch \<times> put_message_context \<times> mapped_file \<times> append_message_result) outcome" where
  "do_append_batch file_from_offset max_blank p ctx f =
     (let e = bi_ext (mb_inner (pb_batch p));
          wrote_offset = wrap_i64 (file_from_offset + mf_wrote_position f)
      in case pb_encoded_buff p of
           None \<Rightarrow> Panicked
         | Some messages_byte_buffer \<Rightarrow>
             let p' = p\<lparr>pb_encoded_buff := None\<rparr>;
                 store_host_length = (if me_sys_flag e AND storehostaddress_v6_flag = 0 then 4 + 4 else 16 + 4);
                 msg_id = (case build_batch_message_id (me_store_host e) store_host_length
                             (as_usize (pc_batch_size ctx)) (pc_phy_pos ctx) of
                             Some s \<Rightarrow> Returned s | None \<Rightarrow> Panicked);
                 result = append_result_default
                   \<lparr>ar_wrote_offset := wrote_offset, ar_msg_id_supplier := Some msg_id,
                    ar_store_timestamp := me_store_timestamp e, ar_logics_offset := me_queue_offset e\<rparr>
             in (case batch_loop e wrote_offset max_blank 0 0 0 0 messages_byte_buffer (pc_phy_pos ctx) of
                   Panicked \<Rightarrow> Panicked
                 | Returned (phy, None) \<Rightarrow>
                     bind_outcome (write_blank wrote_offset max_blank f) (\<lambda>f'.
                     Returned (p', ctx\<lparr>pc_phy_pos := phy\<rparr>, f',
                       result\<lparr>ar_status := AppendEndOfFile, ar_wrote_bytes := max_blank\<rparr>))
                 | Returned (phy, Some (total_msg_len, msg_num, buf)) \<Rightarrow>
                     bind_outcome (append_message_bytes_no_position_update buf f) (\<lambda>(f', _).
                     Returned (p', ctx\<lparr>pc_phy_pos := phy\<rparr>, f',
                       result\<lparr>ar_status := AppendPutOk, ar_wrote_bytes := total_msg_len, ar_msg_num := msg_num\<rparr>))))"

section \<open>The append operations of a file\<close>

definition appended :: "mapped_file \<Rightarrow> append_message_result \<Rightarrow> mapped_file" where
  "appended f result =
     f\<lparr>mf_wrote_position := wrap_i32 (mf_wrote_position f + ar_wrote_bytes result),
       mf_store_timestamp := word_of_int (ar_store_timestamp result)\<rparr>"

definition remaining :: "mapped_file \<Rightarrow> i32" where
  "remaining f = wrap_i32 (uint (mf_file_size f - word_of_int (mf_wrote_position f)))"

definition append_message ::
  "message_env \<Rightarrow> store_config \<Rightarrow> (string, topic_config) hmap \<Rightarrow> pending_message \<Rightarrow> mapped_file \<Rightarrow>
   (pending_message \<times> mapped_file \<times> append_message_result) outcome" where
  "append_message env cfg configs p f =
     (if word_of_int (mf_wrote_position f) \<ge> mf_file_size f then Returned (p, f, append_result_default)
      else bind_outcome (do_append env cfg configs (sint (mf_file_from_offset f)) (remaining f) p f)
             (\<lambda>(p', f', result). Returned (p', appended f' result, result)))"

definition append_messages ::
  "pending_batch \<Rightarrow> put_message_context \<Rightarrow> mapped_file \<Rightarrow>
   (pending_batch \<times> put_message_context \<times> mapped_file \<times> append_message_result) outcome" where
  "append_messages p ctx f =
     (if word_of_int (mf_wrote_position f) \<ge> mf_file_size f then Returned (p, ctx, f, append_result_default)
      else bind_outcome (do_append_batch (sint (mf_file_from_offset f)) (remaining f) p ctx f)
             (\<lambda>(p', ctx', f', result). Returned (p', ctx', appended f' result, result)))"

section \<open>Completing a record\<close>

lemma copy_at_middle:
  assumes "length a = pos" "length b = length new"
  shows "copy_at (a @ b @ c) pos new = Returned (a @ new @ c)"
  using assms by (simp add: copy_at_def overwrite_def)

lemma born_host_bytes:
  assumes "head_ok e body"
  shows "length (put_host (me_born_host e)) = (if me_sys_flag e AND bornhost_v6_flag = 0 then 8 else 20)"
proof -
  have "int (length (put_host (me_born_host e))) = host_length (me_sys_flag e) bornhost_v6_flag"
    using assms by (intro length_put_host) (simp add: head_ok_def)
  then show ?thesis by (simp add: host_length_def split: if_splits)
qed

lemma patch_whole_record:
  assumes "head_ok e body"
  shows "patch_record (me_sys_flag e) q p t (length pre) (pre @ whole_record v e body topic props @ post) =
    Returned (pre @ whole_record v (e\<lparr>me_queue_offset := q, me_commit_log_offset := p, me_store_timestamp := t\<rparr>)
      body topic props @ post)"
proof -
  let ?front = "pre @ put_i32 (me_store_size e) @ put_i32 (get_magic_code v) @ put_u32 (unat (me_body_crc e)) @
    put_i32 (me_queue_id e) @ put_i32 (m_flag (me_message e))"
  let ?host = "put_u32 (unat (me_sys_flag e)) @ put_i64 (me_born_timestamp e) @ put_host (me_born_host e)"
  let ?tail = "put_host (me_store_host e) @ put_i32 (me_reconsume_times e) @ put_i64 (me_prepared_transaction_offset e) @
    put_i32 (int (length body)) @ body @ put_topic v topic @ put_i16 (int (length props)) @ props @ post"
  let ?ip = "if me_sys_flag e AND bornhost_v6_flag = 0 then 4 + 4 else 16 + 4 :: nat"
  have shape: "pre @ whole_record v (e\<lparr>me_queue_offset := a, me_commit_log_offset := b, me_store_timestamp := c\<rparr>) body topic props @ post =
      ?front @ put_i64 a @ put_i64 b @ ?host @ put_i64 c @ ?tail" for a b c
    by (simp add: whole_record_def record_head_def put_front_def)
  have l1: "length ?front = length pre + 20" by simp
  have l2: "length (?front @ put_i64 q) = length pre + 20 + 8" by simp
  have l3: "length (?front @ put_i64 q @ put_i64 p @ ?host) = length pre + 20 + 8 + 8 + 4 + 8 + ?ip"
    using born_host_bytes [OF assms] by simp
  have c1: "copy_at (?front @ put_i64 (me_queue_offset e) @ put_i64 (me_commit_log_offset e) @ ?host @ put_i64 (me_store_timestamp e) @ ?tail)
      (length pre + 20) (put_i64 q) =
      Returned (?front @ put_i64 q @ put_i64 (me_commit_log_offset e) @ ?host @ put_i64 (me_store_timestamp e) @ ?tail)"
    by (rule copy_at_middle [OF l1]) simp
  have c2: "copy_at (?front @ put_i64 q @ put_i64 (me_commit_log_offset e) @ ?host @ put_i64 (me_store_timestamp e) @ ?tail)
      (length pre + 20 + 8) (put_i64 p) =
      Returned (?front @ put_i64 q @ put_i64 p @ ?host @ put_i64 (me_store_timestamp e) @ ?tail)"
    using copy_at_middle [OF l2, of "put_i64 (me_commit_log_offset e)" "put_i64 p"
        "?host @ put_i64 (me_store_timestamp e) @ ?tail"] by simp
  have c3: "copy_at (?front @ put_i64 q @ put_i64 p @ ?host @ put_i64 (me_store_timestamp e) @ ?tail)
      (length pre + 20 + 8 + 8 + 4 + 8 + ?ip) (put_i64 t) =
      Returned (?front @ put_i64 q @ put_i64 p @ ?host @ put_i64 t @ ?tail)"
    using copy_at_middle [OF l3, of "put_i64 (me_store_timestamp e)" "put_i64 t" ?tail] by simp
  have orig: "pre @ whole_record v e body topic props @ post =
      ?front @ put_i64 (me_queue_offset e) @ put_i64 (me_commit_log_offset e) @ ?host @ put_i64 (me_store_timestamp e) @ ?tail"
    by (simp add: whole_record_def record_head_def put_front_def)
  show ?thesis
    unfolding patch_record_def Let_def orig shape c1 c2 c3 bind_outcome.simps ..
qed

lemma whole_record_size_field:
  assumes "head_ok e body"
  shows "\<exists>rest. get_i32 (whole_record v e body topic props @ post) = Some (me_store_size e, rest)"
  using assms by (simp add: whole_record_def record_head_def head_ok_def)

lemma is_i32_nat: "n < 2 ^ 31 \<Longrightarrow> is_i32 (int n)"
  by (simp add: is_i32_def)

lemma remaining_ok:
  assumes "mf_ok f"
  shows "remaining f = int (unat (mf_file_size f)) - mf_wrote_position f"
    and "word_of_int (mf_wrote_position f) \<ge> mf_file_size f \<longleftrightarrow> is_full f"
proof -
  have b: "0 \<le> mf_wrote_position f" "nat (mf_wrote_position f) \<le> unat (mf_file_size f)" "unat (mf_file_size f) < 2 ^ 31"
    using assms by (simp_all add: mf_ok_def)
  note w = wrote_word [OF assms]
  have le: "word_of_int (mf_wrote_position f) \<le> mf_file_size f" by (simp add: word_le_nat_alt w b)
  have "unat (mf_file_size f - word_of_int (mf_wrote_position f)) = unat (mf_file_size f) - nat (mf_wrote_position f)"
    using le by (simp add: unat_sub w)
  then have "uint (mf_file_size f - word_of_int (mf_wrote_position f)) = int (unat (mf_file_size f) - nat (mf_wrote_position f))"
    by (simp only: uint_nat)
  moreover have "int (unat (mf_file_size f) - nat (mf_wrote_position f)) = int (unat (mf_file_size f)) - mf_wrote_position f"
    using b by (simp add: of_nat_diff)
  moreover have "is_i32 (int (unat (mf_file_size f) - nat (mf_wrote_position f)))"
    by (rule is_i32_nat) (use b(3) in linarith)
  ultimately show "remaining f = int (unat (mf_file_size f)) - mf_wrote_position f" by (simp add: remaining_def)
  show "word_of_int (mf_wrote_position f) \<ge> mf_file_size f \<longleftrightarrow> is_full f"
    using le by (auto simp: is_full_def)
qed

text \<open>Bytes put at the write position and counted by the result of the append.\<close>

lemma appended_written:
  assumes ok: "mf_ok f" and fits: "nat (mf_wrote_position f) + length data \<le> length (mf_mmapped_file f)"
    and r: "ar_wrote_bytes r = int (length data)"
  shows "\<exists>f'. append_message_bytes_no_position_update data f = Returned (f', True) \<and> mf_ok (appended f' r) \<and>
    written (appended f' r) = written f @ data \<and> (blank_rest f \<longrightarrow> blank_rest (appended f' r)) \<and>
    mf_wrote_position (appended f' r) = mf_wrote_position f + int (length data) \<and>
    mf_reference_resource (appended f' r) = mf_reference_resource f \<and>
    mf_file_from_offset (appended f' r) = mf_file_from_offset f \<and> mf_file_size (appended f' r) = mf_file_size f"
proof -
  let ?f = "f\<lparr>mf_mmapped_file := overwrite (mf_mmapped_file f) (nat (mf_wrote_position f)) data\<rparr>"
  have small: "length data < 2 ^ 63" using fits mf_ok_position(3) [OF ok] by simp
  note g = append_bytes_written [OF ok append_bytes_fits [OF ok fits] small]
  have "is_i32 (mf_wrote_position f + int (length data))"
    using fits mf_ok_position(3) [OF ok] ok by (auto simp: is_i32_def mf_ok_def)
  then have "appended ?f r = f\<lparr>mf_mmapped_file := overwrite (mf_mmapped_file f) (nat (mf_wrote_position f)) data,
      mf_wrote_position := mf_wrote_position f + int (length data), mf_store_timestamp := word_of_int (ar_store_timestamp r)\<rparr>"
    by (simp add: appended_def r)
  moreover have "set (drop (nat (mf_wrote_position f) + length data) (overwrite (mf_mmapped_file f) (nat (mf_wrote_position f)) data)) \<subseteq>
      set (drop (nat (mf_wrote_position f)) (mf_mmapped_file f))"
    using fits set_drop_subset [of "length data" "drop (nat (mf_wrote_position f)) (mf_mmapped_file f)"]
    by (simp add: overwrite_def add.commute)
  ultimately have "mf_ok (appended ?f r) \<and> written (appended ?f r) = written f @ data \<and> (blank_rest f \<longrightarrow> blank_rest (appended ?f r)) \<and>
    mf_wrote_position (appended ?f r) = mf_wrote_position f + int (length data) \<and>
    mf_reference_resource (appended ?f r) = mf_reference_resource f \<and>
    mf_file_from_offset (appended ?f r) = mf_file_from_offset f \<and> mf_file_size (appended ?f r) = mf_file_size f"
    using g ok by (auto simp: mf_ok_def written_def blank_rest_def nat_add_distrib)
  then show ?thesis
    using append_no_update_fits [OF ok fits] by (simp add: append_message_bytes_no_position_update_def)
qed

definition consumed_offset :: "u32 \<Rightarrow> i64 \<Rightarrow> i64" where
  "consumed_offset sys_flag queue_offset =
     (if get_transaction_value sys_flag = transaction_prepared_type \<or>
         get_transaction_value sys_flag = transaction_rollback_type then 0 else queue_offset)"

lemma append_message_stores:
  assumes ok: "mf_ok f" and buff: "pm_encoded_buff p = Some (whole_record v e body topic props)"
    and head: "head_ok e body" and len: "me_store_size e = int (length (whole_record v e body topic props))"
    and flag: "me_sys_flag e = me_sys_flag (bi_ext (pm_inner p))"
    and cfg: "\<not> sc_enabled_append_prop_crc cfg" "\<not> (sc_enable_multi_dispatch cfg \<and> is_multi_dispatch_msg (pm_inner p))"
    and room: "nat (mf_wrote_position f) + length (whole_record v e body topic props) + 8 \<le> unat (mf_file_size f)"
    and log: "sint (mf_file_from_offset f) + mf_wrote_position f = wo" "is_i64 wo"
  shows "\<exists>f' r. append_message env cfg configs p f = Returned (p\<lparr>pm_encoded_buff := None\<rparr>, f', r) \<and> mf_ok f' \<and>
    ar_status r = AppendPutOk \<and> ar_wrote_offset r = wo \<and> ar_wrote_bytes r = me_store_size e \<and>
    ar_logics_offset r = consumed_offset (me_sys_flag e) (me_queue_offset (bi_ext (pm_inner p))) \<and>
    ar_msg_num r = get_message_num configs (pm_inner p) \<and>
    get_message_id r = Returned (Some (build_message_id (me_store_host (bi_ext (pm_inner p))) wo)) \<and>
    written f' = written f @ whole_record v (e\<lparr>me_queue_offset := consumed_offset (me_sys_flag e) (me_queue_offset (bi_ext (pm_inner p))),
      me_commit_log_offset := wo, me_store_timestamp := me_store_timestamp (bi_ext (pm_inner p))\<rparr>) body topic props \<and>
    mf_wrote_position f' = mf_wrote_position f + me_store_size e \<and>
    mf_reference_resource f' = mf_reference_resource f \<and> mf_file_from_offset f' = mf_file_from_offset f \<and>
    mf_file_size f' = mf_file_size f \<and> (blank_rest f \<longrightarrow> blank_rest f')"
proof -
  let ?m = "bi_ext (pm_inner p)" and ?rec = "whole_record v e body topic props"
  let ?q = "consumed_offset (me_sys_flag e) (me_queue_offset ?m)"
  let ?new = "whole_record v (e\<lparr>me_queue_offset := ?q, me_commit_log_offset := wo, me_store_timestamp := me_store_timestamp ?m\<rparr>) body topic props"
  define r where "r = append_result_default
    \<lparr>ar_wrote_offset := wo, ar_store_timestamp := me_store_timestamp ?m, ar_logics_offset := ?q,
     ar_msg_num := get_message_num configs (pm_inner p),
     ar_msg_id_supplier := Some (Returned (build_message_id (me_store_host ?m) wo)),
     ar_status := AppendPutOk, ar_wrote_bytes := me_store_size e\<rparr>"
  have same: "length ?new = length ?rec" by (simp add: whole_record_def record_head_def put_front_def)
  have size: "length (mf_mmapped_file f) = unat (mf_file_size f)" using ok by (simp add: mf_ok_def)
  obtain f' where f': "append_message_bytes_no_position_update ?new f = Returned (f', True)"
    and g: "mf_ok (appended f' r)" "written (appended f' r) = written f @ ?new"
      "mf_wrote_position (appended f' r) = mf_wrote_position f + int (length ?new)"
      "mf_reference_resource (appended f' r) = mf_reference_resource f"
      "mf_file_from_offset (appended f' r) = mf_file_from_offset f" "mf_file_size (appended f' r) = mf_file_size f"
      "blank_rest f \<longrightarrow> blank_rest (appended f' r)"
    using appended_written [OF ok, of ?new r] room same len by (auto simp: size r_def)
  obtain rest where i32: "get_i32 ?rec = Some (me_store_size e, rest)"
    using whole_record_size_field [OF head, of v topic props "[]"] by auto
  have patch: "patch_record (me_sys_flag ?m) ?q wo (me_store_timestamp ?m) 0 ?rec = Returned ?new"
    using patch_whole_record [OF head, of ?q wo "me_store_timestamp ?m" "[]" v topic props "[]"] by (simp add: flag)
  have nofull: "\<not> word_of_int (mf_wrote_position f) \<ge> mf_file_size f"
    unfolding remaining_ok(2) [OF ok] is_full_iff [OF ok] using room by linarith
  have "int (nat (mf_wrote_position f) + length ?rec + 8) \<le> int (unat (mf_file_size f))" using room by (simp only: of_nat_le_iff)
  then have fits: "me_store_size e + 8 \<le> remaining f" using ok unfolding remaining_ok(1) [OF ok] by (simp add: len mf_ok_def)
  have "is_i32 (me_store_size e + 8)"
    using room ok by (auto simp: len is_i32_def mf_ok_def)
  then have fits': "\<not> wrap_i32 (me_store_size e + end_file_min_blank_length) > remaining f"
    using fits by (simp add: end_file_min_blank_length_def)
  have wo: "wrap_i64 (sint (mf_file_from_offset f) + mf_wrote_position f) = wo" using log by simp
  have "do_append env cfg configs (sint (mf_file_from_offset f)) (remaining f) p f = Returned (p\<lparr>pm_encoded_buff := None\<rparr>, f', r)"
    unfolding do_append_def buff option.case Let_def if_not_P [OF cfg(2)] i32 prod.case wo if_not_P [OF fits']
      flag [symmetric] consumed_offset_def [symmetric]
    using patch cfg(1) f' by (simp add: flag put_checksum_def r_def)
  then have "append_message env cfg configs p f = Returned (p\<lparr>pm_encoded_buff := None\<rparr>, appended f' r, r)"
    using nofull by (simp add: append_message_def)
  then show ?thesis using g same len by (auto simp: r_def get_message_id_def append_result_default_def)
qed

section \<open>Batches\<close>

text \<open>The records of a batch in the log, and their offsets: the queue offset is that of the first for all of them.\<close>

fun stored_batch :: "message_ext_broker_inner \<Rightarrow> i64 \<Rightarrow> i64 \<Rightarrow> i64 \<Rightarrow> message list \<Rightarrow> bytes" where
  "stored_batch m q t phy [] = []"
| "stored_batch m q t phy (x # xs) =
     whole_record (bi_version m) ((inner_ext m x)\<lparr>me_queue_offset := q, me_commit_log_offset := phy, me_store_timestamp := t\<rparr>)
       (the (m_body x)) (inner_topic m) (merged_text m x) @
     stored_batch m q t (phy + me_store_size (inner_ext m x)) xs"

fun batch_positions :: "message_ext_broker_inner \<Rightarrow> i64 \<Rightarrow> message list \<Rightarrow> i64 list" where
  "batch_positions m phy [] = []"
| "batch_positions m phy (x # xs) = phy # batch_positions m (phy + me_store_size (inner_ext m x)) xs"

abbreviation records :: "message_ext_broker_inner \<Rightarrow> message list \<Rightarrow> bytes" where
  "records m xs \<equiv> concat (map (inner_record m) xs)"

lemma length_stored_batch: "length (stored_batch m q t phy xs) = length (records m xs)"
  by (induction xs arbitrary: phy) (simp_all add: inner_record_def whole_record_def record_head_def put_front_def)

lemma batch_loop_records:
  assumes "list_all (fits_batch m) xs" "batch_ok m"
    and "me_sys_flag e = me_sys_flag (bi_ext m)" "blank < 2 ^ 31"
    and "int (length pre + length (records m xs)) + 8 \<le> blank"
    and "is_i64 wo" "is_i64 (wo + blank)" "length xs + k < 2 ^ 31" "length phys = k"
  shows "batch_loop e wo blank (int (length pre)) (int k) (length pre) k (pre @ records m xs) (phys @ replicate (length xs) 0) =
    Returned (phys @ batch_positions m (wo + int (length pre)) xs,
      Some (int (length pre + length (records m xs)), int (k + length xs),
        pre @ stored_batch m (me_queue_offset e) (me_store_timestamp e) (wo + int (length pre)) xs))"
  using assms(1,5,8,9)
proof (induction xs arbitrary: pre k phys)
  case Nil
  then show ?case using assms(4) by (subst batch_loop.simps) (simp add: is_i32_def)
next
  case (Cons x xs)
  let ?r = "inner_record m x" and ?i = "inner_ext m x" and ?buf = "pre @ records m (x # xs)"
  let ?new = "whole_record (bi_version m) (?i\<lparr>me_queue_offset := me_queue_offset e,
     me_commit_log_offset := wo + int (length pre), me_store_timestamp := me_store_timestamp e\<rparr>)
       (the (m_body x)) (inner_topic m) (merged_text m x)"
  have fx: "fits_batch m x" using Cons.prems(1) by simp
  note head = inner_record_head [OF fx assms(2)]
  have flag: "me_sys_flag ?i = me_sys_flag e" by (simp add: inner_ext_def assms(3))
  have bound: "int (length pre) + int (length ?r) + int (length (records m xs)) + 8 \<le> blank" using Cons.prems(2) by simp
  have r4: "4 \<le> length ?r" by (simp add: inner_record_def whole_record_def record_head_def)
  have lt: "int (length pre) < wrap_i32 (int (length ?buf))"
    using bound assms(4) r4 by (subst wrap_i32_id) (simp_all add: is_i32_def)
  have sl: "slice_of ?buf (as_usize (int (length pre))) (as_usize (wrap_i32 (int (length pre) + 4))) = Returned (take 4 ?r)"
    using bound assms(4) r4 by (simp add: is_i32_def slice_of_range nat_add_distrib)
  have i32: "get_i32 (take 4 ?r) = Some (me_store_size ?i, [])"
    using head(1) by (simp add: inner_record_def whole_record_def record_head_def head_ok_def get_put_signed [where rest = "[]", simplified])
  have total: "wrap_i32 (int (length pre) + me_store_size ?i) = int (length pre + length ?r)"
    using bound assms(4) head(2) by (simp add: is_i32_def)
  have nofull: "\<not> wrap_i32 (int (length pre + length ?r) + end_file_min_blank_length) > blank"
    using bound assms(4) by (simp add: is_i32_def end_file_min_blank_length_def)
  have "is_i64 (wo + int (length pre + length ?r))" "is_i64 (wo + int (length pre))"
    using bound assms(6,7) by (simp_all add: is_i64_def)
  then have phy: "wrap_i64 (wrap_i64 (wo + int (length pre + length ?r)) - me_store_size ?i) = wo + int (length pre)"
    using head(2) by simp
  have patch: "patch_record (me_sys_flag e) (me_queue_offset e) (wo + int (length pre)) (me_store_timestamp e) (length pre) ?buf =
      Returned (pre @ ?new @ records m xs)"
    using patch_whole_record [OF head(1), of "me_queue_offset e" "wo + int (length pre)" "me_store_timestamp e" pre
        "bi_version m" "inner_topic m" "merged_text m x" "records m xs"]
    by (simp add: flag inner_record_def)
  have pos: "usize_add (length pre) (as_usize (me_store_size ?i)) = length (pre @ ?r)"
    using bound assms(4) by (simp add: head(2) [symmetric] usize_add_def)
  have k: "wrap_i32 (int k + 1) = int (Suc k)" using Cons.prems(3) by (simp add: is_i32_def)
  have new: "length ?new = length ?r" by (simp add: inner_record_def whole_record_def record_head_def put_front_def)
  have upd: "(phys @ replicate (length (x # xs)) 0)[k := wo + int (length pre)] = (phys @ [wo + int (length pre)]) @ replicate (length xs) 0"
    using Cons.prems(4) by (simp add: list_update_append)
  have "batch_loop e wo blank (int (length pre)) (int k) (length pre) k ?buf (phys @ replicate (length (x # xs)) 0) =
      batch_loop e wo blank (int (length (pre @ ?new))) (int (Suc k)) (length (pre @ ?new)) (Suc k) ((pre @ ?new) @ records m xs)
        ((phys @ [wo + int (length pre)]) @ replicate (length xs) 0)"
    unfolding batch_loop.simps [of _ _ _ "int (length pre)"] if_P [OF lt] sl i32 option.case outcome.case prod.case Let_def total
      if_not_P [OF nofull] phy patch k upd pos
    using Cons.prems(4) new by simp
  also have "\<dots> = Returned ((phys @ [wo + int (length pre)]) @ batch_positions m (wo + int (length (pre @ ?new))) xs,
      Some (int (length (pre @ ?new) + length (records m xs)), int (Suc k + length xs),
        (pre @ ?new) @ stored_batch m (me_queue_offset e) (me_store_timestamp e) (wo + int (length (pre @ ?new))) xs))"
    using Cons.prems new by (intro Cons.IH) simp_all
  finally show ?case using new head(2) by (simp add: add.assoc)
qed

text \<open>What a reader of the log gets for the messages of a batch.\<close>

fun batch_read :: "message_ext_broker_inner \<Rightarrow> i64 \<Rightarrow> i64 \<Rightarrow> i64 \<Rightarrow> message list \<Rightarrow> message_ext list" where
  "batch_read m q t phy [] = []"
| "batch_read m q t phy (x # xs) =
     read_as ((inner_ext m x)\<lparr>me_queue_offset := q, me_commit_log_offset := phy, me_store_timestamp := t\<rparr>)
       (the (m_body x)) (inner_topic m)
       (fold (\<lambda>(k, v). hm_insert k v) (m_properties (me_message (bi_ext m))) (m_properties x)) #
     batch_read m q t (phy + me_store_size (inner_ext m x)) xs"

lemma batch_read_offsets:
  "map me_queue_offset (batch_read m q t phy xs) = replicate (length xs) q"
  "map me_commit_log_offset (batch_read m q t phy xs) = batch_positions m phy xs"
  "map (m_body \<circ> me_message) (batch_read m q t phy xs) = map (\<lambda>x. if the (m_body x) = [] then None else Some (the (m_body x))) xs"
  by (induction xs arbitrary: phy) (simp_all add: read_as_def)

lemma decodes_stored_batch:
  assumes "list_all (fits_batch m) xs" "batch_ok m" "length xs \<le> fuel" "fits_signed 8 q" "fits_signed 8 t"
    and "0 \<le> phy" "phy + int (length (records m xs)) < 2 ^ 63"
  shows "decodes_batch_loop fuel env True False (stored_batch m q t phy xs) = Some (batch_read m q t phy xs)"
  using assms(1,3,6,7)
proof (induction xs arbitrary: fuel phy)
  case Nil
  then show ?case by simp
next
  case (Cons x xs)
  then obtain f where fuel: "fuel = Suc f" by (cases fuel) auto
  have fx: "fits_batch m x" using Cons.prems by simp
  let ?i = "(inner_ext m x)\<lparr>me_queue_offset := q, me_commit_log_offset := phy, me_store_timestamp := t\<rparr>"
  let ?b = "the (m_body x)" and ?p = "merged_text m x"
  have ok: "length ?b < 2 ^ 31 - 2 ^ 17" "topic_fits (bi_version m) (inner_topic m)" "length ?p < 2 ^ 15" "valid_utf8 ?p"
    "properties_ok (m_properties x)" "properties_ok (m_properties (me_message (bi_ext m)))"
    using fx assms(2) by (simp_all add: fits_batch_def batch_ok_def inner_ok_def)
  note head = inner_record_head [OF fx assms(2)]
  have "fits_signed 8 phy" using Cons.prems by (simp add: fits_signed_def)
  then have hd: "head_ok ?i ?b" using head(1) assms(4,5) by (simp add: head_ok_def)
  have size: "me_store_size ?i = record_size (bi_version m) ?i ?b (inner_topic m) ?p" by (simp add: inner_ext_def)
  let ?r = "whole_record (bi_version m) ?i ?b (inner_topic m) ?p"
  let ?rest = "stored_batch m q t (phy + me_store_size (inner_ext m x)) xs"
  have rd: "decode env True False False False False (?r @ ?rest) =
      Some (Some (read_as ?i ?b (inner_topic m) (fold (\<lambda>(k, v). hm_insert k v) (m_properties (me_message (bi_ext m))) (m_properties x))), ?rest)"
    unfolding whole_record_reads(2) [OF hd ok(1-4) size] merged_properties [OF ok(5,6)] ..
  have "4 \<le> length (?r @ ?rest)" by (simp add: whole_record_def record_head_def)
  then obtain b bs where bs: "?r @ ?rest = b # bs" by (cases "?r @ ?rest") auto
  have "decodes_batch_loop f env True False ?rest = Some (batch_read m q t (phy + me_store_size (inner_ext m x)) xs)"
    using Cons.prems fuel head(2) by (intro Cons.IH) simp_all
  then show ?case using rd by (simp add: fuel bs)
qed

lemma append_messages_stores:
  assumes ok: "mf_ok f" and buff: "pb_encoded_buff p = Some (records m xs)"
    and same: "me_sys_flag (bi_ext (mb_inner (pb_batch p))) = me_sys_flag (bi_ext m)"
      "me_store_host (bi_ext (mb_inner (pb_batch p))) = me_store_host (bi_ext m)"
    and fits: "list_all (fits_batch m) xs" "batch_ok m" "xs \<noteq> []"
    and ctx: "pc_phy_pos ctx = replicate (length xs) 0" "pc_batch_size ctx = int (length xs)"
    and room: "nat (mf_wrote_position f) + length (records m xs) + 8 \<le> unat (mf_file_size f)"
    and log: "sint (mf_file_from_offset f) + mf_wrote_position f = wo" "0 \<le> wo" "wo + 2 ^ 31 < 2 ^ 63"
  shows "\<exists>f' ctx' r. append_messages p ctx f = Returned (p\<lparr>pb_encoded_buff := None\<rparr>, ctx', f', r) \<and> mf_ok f' \<and>
    ar_status r = AppendPutOk \<and> ar_wrote_offset r = wo \<and> ar_wrote_bytes r = int (length (records m xs)) \<and>
    ar_logics_offset r = me_queue_offset (bi_ext (mb_inner (pb_batch p))) \<and>
    ar_msg_num r = int (length xs) \<and> pc_batch_size ctx' = int (length xs) \<and>
    get_message_id r = Returned (Some (join_ids (replicate (length xs) (build_message_id (me_store_host (bi_ext m)) 0)))) \<and>
    written f' = written f @ stored_batch m (me_queue_offset (bi_ext (mb_inner (pb_batch p))))
      (me_store_timestamp (bi_ext (mb_inner (pb_batch p)))) wo xs \<and>
    mf_reference_resource f' = mf_reference_resource f \<and> mf_file_from_offset f' = mf_file_from_offset f \<and>
    mf_file_size f' = mf_file_size f"
proof -
  let ?e = "bi_ext (mb_inner (pb_batch p))" and ?n = "length (records m xs)"
  let ?new = "stored_batch m (me_queue_offset ?e) (me_store_timestamp ?e) wo xs"
  have size: "length (mf_mmapped_file f) = unat (mf_file_size f)" "unat (mf_file_size f) < 2 ^ 31" "0 \<le> mf_wrote_position f"
    using ok by (simp_all add: mf_ok_def)
  have "int (nat (mf_wrote_position f) + ?n + 8) \<le> int (unat (mf_file_size f))" using room by (simp only: of_nat_le_iff)
  moreover have "int (unat (mf_file_size f)) < 2 ^ 31" using size(2) by (metis of_nat_less_iff of_nat_numeral of_nat_power)
  ultimately have left: "int ?n + 8 \<le> remaining f" "remaining f < 2 ^ 31"
    using size(3) unfolding remaining_ok(1) [OF ok] by linarith+
  have len: "length xs \<le> ?n" by (rule records_length [OF fits(1,2)])
  then have xs31: "length xs < 2 ^ 31" using room size(2) by linarith
  have loop: "batch_loop ?e wo (remaining f) 0 0 0 0 (records m xs) (replicate (length xs) 0) =
      Returned (batch_positions m wo xs, Some (int ?n, int (length xs), ?new))"
    using batch_loop_records [OF fits(1,2) same(1) left(2), of "[]" wo 0 "[]"] left xs31 log by (simp add: is_i64_def)
  have host: "length (socket_address_to_vec (me_store_host ?e)) = (if me_sys_flag ?e AND storehostaddress_v6_flag = 0 then 4 + 4 else 16 + 4)"
    using fits(2) length_put_host [of "me_sys_flag ?e" storehostaddress_v6_flag "me_store_host ?e"] same
    by (simp add: batch_ok_def head_ok_def host_length_def put_host_def socket_address_to_vec_def split: if_splits)
  have ids: "build_batch_message_id (me_store_host ?e) (if me_sys_flag ?e AND storehostaddress_v6_flag = 0 then 4 + 4 else 16 + 4)
      (as_usize (int (length xs))) (replicate (length xs) 0) = Some (join_ids (replicate (length xs) (build_message_id (me_store_host ?e) 0)))"
    using fits(3) xs31 host by (simp add: build_batch_message_id_def build_message_id_def socket_address_to_vec_def)
  define r where "r = append_result_default
    \<lparr>ar_wrote_offset := wo, ar_msg_id_supplier := Some (Returned (join_ids (replicate (length xs) (build_message_id (me_store_host ?e) 0)))),
     ar_store_timestamp := me_store_timestamp ?e, ar_logics_offset := me_queue_offset ?e,
     ar_status := AppendPutOk, ar_wrote_bytes := int ?n, ar_msg_num := int (length xs)\<rparr>"
  obtain f' where f': "append_message_bytes_no_position_update ?new f = Returned (f', True)"
    and g: "mf_ok (appended f' r)" "written (appended f' r) = written f @ ?new"
      "mf_wrote_position (appended f' r) = mf_wrote_position f + int (length ?new)"
      "mf_reference_resource (appended f' r) = mf_reference_resource f"
      "mf_file_from_offset (appended f' r) = mf_file_from_offset f" "mf_file_size (appended f' r) = mf_file_size f"
    using appended_written [OF ok, of ?new r] room by (auto simp: size r_def length_stored_batch)
  have nofull: "\<not> word_of_int (mf_wrote_position f) \<ge> mf_file_size f"
    unfolding remaining_ok(2) [OF ok] is_full_iff [OF ok] using room by linarith
  have "is_i64 wo" using log by (simp add: is_i64_def)
  then have "wrap_i64 (sint (mf_file_from_offset f) + mf_wrote_position f) = wo" using log by simp
  then have "do_append_batch (sint (mf_file_from_offset f)) (remaining f) p ctx f =
      Returned (p\<lparr>pb_encoded_buff := None\<rparr>, ctx\<lparr>pc_phy_pos := batch_positions m wo xs\<rparr>, f', r)"
    using f' unfolding do_append_batch_def Let_def buff option.case ctx ids
    by (simp add: loop r_def)
  then have "append_messages p ctx f = Returned (p\<lparr>pb_encoded_buff := None\<rparr>, ctx\<lparr>pc_phy_pos := batch_positions m wo xs\<rparr>, appended f' r, r)"
    using nofull by (simp add: append_messages_def)
  then show ?thesis using g ctx(2) by (auto simp: r_def append_result_default_def length_stored_batch get_message_id_def same(2))
qed

section \<open>The end of a file\<close>

lemma write_blank_cases:
  assumes ok: "mf_ok f" and start: "unat (mf_file_from_offset f) = 0 \<or> unat (mf_file_size f) \<le> unat (mf_file_from_offset f)"
    and bound: "unat (mf_file_from_offset f) + unat (mf_file_size f) < 2 ^ 63"
  defines "wo \<equiv> unat (mf_file_from_offset f) + nat (mf_wrote_position f)"
  shows "\<exists>bs. write_blank (int wo) blank f = Returned (f\<lparr>mf_mmapped_file := bs\<rparr>) \<and> length bs = length (mf_mmapped_file f) \<and>
    take (nat (mf_wrote_position f)) bs = written f \<and>
    (unat (mf_file_size f) \<le> unat (mf_file_from_offset f) \<longrightarrow> bs = mf_mmapped_file f)"
proof -
  let ?mark = "put_i32 blank @ put_i32 blank_magic_code"
  note p = mf_ok_position [OF ok]
  have size: "length (mf_mmapped_file f) = unat (mf_file_size f)" using ok by (simp add: mf_ok_def)
  have wo: "wo < 2 ^ 63" using bound p(2) by (simp add: wo_def size)
  then have us: "as_usize (int wo) = wo" "usize_add wo 8 = wo + 8" by (simp_all add: usize_add_small)
  have len: "length ?mark = 8" by simp
  show ?thesis
  proof (cases "wo + 8 \<le> unat (mf_file_size f)")
    case True
    then have zero: "unat (mf_file_from_offset f) = 0" "wo = nat (mf_wrote_position f)" using start by (auto simp: wo_def)
    have "write_blank (int wo) blank f = Returned (f\<lparr>mf_mmapped_file := overwrite (mf_mmapped_file f) wo ?mark\<rparr>)"
      using True unfolding write_blank_def Let_def write_bytes_segment_def us len by (simp add: slice_of_range size)
    moreover have "length (overwrite (mf_mmapped_file f) wo ?mark) = length (mf_mmapped_file f)"
      using True len by (simp add: size)
    moreover have "take (nat (mf_wrote_position f)) (overwrite (mf_mmapped_file f) wo ?mark) = written f"
      using p(2) by (simp add: overwrite_def written_def zero(2))
    moreover have "\<not> unat (mf_file_size f) \<le> unat (mf_file_from_offset f)" using True zero by simp
    ultimately show ?thesis by blast
  next
    case False
    then have "write_blank (int wo) blank f = Returned f"
      unfolding write_blank_def Let_def write_bytes_segment_def us len by simp
    then show ?thesis by (intro exI [of _ "mf_mmapped_file f"]) (simp add: written_def)
  qed
qed

lemma append_message_end:
  assumes ok: "mf_ok f" and full: "\<not> is_full f" and buff: "pm_encoded_buff p = Some buf" and len: "get_i32 buf = Some (n, rest)"
    and multi: "\<not> (sc_enable_multi_dispatch cfg \<and> is_multi_dispatch_msg (pm_inner p))"
    and n: "is_i32 (n + 8)" "int (unat (mf_file_size f)) < mf_wrote_position f + n + 8"
    and start: "unat (mf_file_from_offset f) = 0 \<or> unat (mf_file_size f) \<le> unat (mf_file_from_offset f)"
    and bound: "unat (mf_file_from_offset f) + unat (mf_file_size f) < 2 ^ 63"
  shows "\<exists>f' r d. append_message env cfg configs p f = Returned (p\<lparr>pm_encoded_buff := None\<rparr>, f', r) \<and> mf_ok f' \<and> is_full f' \<and>
    ar_status r = AppendEndOfFile \<and> written f' = written f @ d \<and> mf_file_from_offset f' = mf_file_from_offset f \<and>
    mf_file_size f' = mf_file_size f \<and> mf_reference_resource f' = mf_reference_resource f"
proof -
  let ?wo = "unat (mf_file_from_offset f) + nat (mf_wrote_position f)" and ?blank = "remaining f"
  have m: "length (mf_mmapped_file f) = unat (mf_file_size f)" "unat (mf_file_size f) < 2 ^ 31" "0 \<le> mf_wrote_position f"
    "nat (mf_wrote_position f) \<le> unat (mf_file_size f)" using ok by (simp_all add: mf_ok_def)
  obtain bs where bs: "write_blank (int ?wo) ?blank f = Returned (f\<lparr>mf_mmapped_file := bs\<rparr>)" "length bs = length (mf_mmapped_file f)"
    "take (nat (mf_wrote_position f)) bs = written f"
    using write_blank_cases [OF ok start bound, of ?blank] by blast
  have "sint (mf_file_from_offset f) = int (unat (mf_file_from_offset f))" using bound by (intro sint_unat) simp
  then have "sint (mf_file_from_offset f) + mf_wrote_position f = int ?wo" using m(3) by simp
  moreover have "is_i64 (int ?wo)" using bound m(4) by (intro is_i64_nat) simp
  ultimately have wo: "wrap_i64 (sint (mf_file_from_offset f) + mf_wrote_position f) = int ?wo" by simp
  have more: "wrap_i32 (n + end_file_min_blank_length) > ?blank"
    using n unfolding remaining_ok(1) [OF ok] by (simp add: end_file_min_blank_length_def)
  obtain r where r: "do_append env cfg configs (sint (mf_file_from_offset f)) ?blank p f =
      Returned (p\<lparr>pm_encoded_buff := None\<rparr>, f\<lparr>mf_mmapped_file := bs\<rparr>, r)" "ar_status r = AppendEndOfFile" "ar_wrote_bytes r = ?blank"
    unfolding do_append_def buff option.case Let_def if_not_P [OF multi] len prod.case wo if_P [OF more] bs(1) by simp
  let ?f = "appended (f\<lparr>mf_mmapped_file := bs\<rparr>) r"
  have "wrap_i32 (mf_wrote_position f + ?blank) = int (unat (mf_file_size f))"
    using is_i32_nat [OF m(2)] unfolding remaining_ok(1) [OF ok] by simp
  then have f: "?f = f\<lparr>mf_mmapped_file := bs, mf_wrote_position := int (unat (mf_file_size f)), mf_store_timestamp := word_of_int (ar_store_timestamp r)\<rparr>"
    by (simp add: appended_def r(3))
  have "mf_flushed_position f \<le> int (unat (mf_file_size f))" using ok m(3,4) by (simp add: mf_ok_def nat_le_iff)
  then have ok': "mf_ok ?f" using ok bs(2) unfolding f by (simp add: mf_ok_def)
  have "nat (mf_wrote_position ?f) = unat (mf_file_size ?f)" unfolding f by simp
  then have "is_full ?f" by (simp only: is_full_iff [OF ok'])
  moreover have "written ?f = written f @ drop (nat (mf_wrote_position f)) bs"
    unfolding bs(3) [symmetric] using bs(2) m(1) by (simp add: f written_def)
  moreover have "\<not> word_of_int (mf_wrote_position f) \<ge> mf_file_size f" using full remaining_ok(2) [OF ok] by simp
  then have "append_message env cfg configs p f = Returned (p\<lparr>pm_encoded_buff := None\<rparr>, ?f, r)" using r(1) by (simp add: append_message_def)
  ultimately show ?thesis
    using ok' r(2) by (intro exI [of _ ?f] exI [of _ r] exI) (auto simp: appended_def)
qed

lemma append_message_taken:
  "mf_ok f \<Longrightarrow> \<not> is_full f \<Longrightarrow> pm_encoded_buff p = None \<Longrightarrow> append_message env cfg configs p f = Panicked"
  using remaining_ok(2) [of f] by (simp add: append_message_def do_append_def)

lemma append_messages_taken:
  "mf_ok f \<Longrightarrow> \<not> is_full f \<Longrightarrow> pb_encoded_buff p = None \<Longrightarrow> append_messages p ctx f = Panicked"
  using remaining_ok(2) [of f] by (simp add: append_messages_def do_append_batch_def Let_def)

end
