(* ===== verification/Queue_Offsets.thy ===== *)
theory Queue_Offsets
  imports Message_Props
begin

text \<open>
  The next offset of every consume queue (\<open>rocketmq-store/src/queue/queue_offset_operator.rs\<close>): three
  tables from a topic and a queue number to the offset the next message gets.
\<close>

section \<open>State and operations\<close>

record queue_offset_operator =
  qo_topic_queue_table :: "(bytes, i64) hmap"
  qo_batch_topic_queue_table :: "(bytes, i64) hmap"
  qo_lmq_topic_queue_table :: "(bytes, i64) hmap"

definition qo_new :: queue_offset_operator where
  "qo_new = \<lparr>qo_topic_queue_table = [], qo_batch_topic_queue_table = [], qo_lmq_topic_queue_table = []\<rparr>"

text \<open>\<open>entry(key).or_insert(0)\<close>.\<close>

definition entry_or_zero :: "bytes \<Rightarrow> (bytes, i64) hmap \<Rightarrow> (bytes, i64) hmap \<times> i64" where
  "entry_or_zero k m = (case hm_get m k of Some v \<Rightarrow> (m, v) | None \<Rightarrow> (hm_insert k 0 m, 0))"

definition entry_increase :: "bytes \<Rightarrow> int \<Rightarrow> (bytes, i64) hmap \<Rightarrow> (bytes, i64) hmap" where
  "entry_increase k n m = (let (m', v) = entry_or_zero k m in hm_insert k (wrap_i64 (v + n)) m')"

definition get_queue_offset :: "bytes \<Rightarrow> queue_offset_operator \<Rightarrow> queue_offset_operator \<times> i64" where
  "get_queue_offset k q = (let (m, v) = entry_or_zero k (qo_topic_queue_table q) in (q\<lparr>qo_topic_queue_table := m\<rparr>, v))"

definition get_topic_queue_next_offset :: "bytes \<Rightarrow> queue_offset_operator \<Rightarrow> i64 option" where
  "get_topic_queue_next_offset k q = hm_get (qo_topic_queue_table q) k"

definition qo_increase_queue_offset :: "bytes \<Rightarrow> int \<Rightarrow> queue_offset_operator \<Rightarrow> queue_offset_operator" where
  "qo_increase_queue_offset k n q = q\<lparr>qo_topic_queue_table := entry_increase k n (qo_topic_queue_table q)\<rparr>"

definition update_queue_offset :: "bytes \<Rightarrow> i64 \<Rightarrow> queue_offset_operator \<Rightarrow> queue_offset_operator" where
  "update_queue_offset k offset q = q\<lparr>qo_topic_queue_table := hm_insert k offset (qo_topic_queue_table q)\<rparr>"

definition get_batch_queue_offset :: "bytes \<Rightarrow> queue_offset_operator \<Rightarrow> queue_offset_operator \<times> i64" where
  "get_batch_queue_offset k q =
     (let (m, v) = entry_or_zero k (qo_batch_topic_queue_table q) in (q\<lparr>qo_batch_topic_queue_table := m\<rparr>, v))"

definition increase_batch_queue_offset :: "bytes \<Rightarrow> int \<Rightarrow> queue_offset_operator \<Rightarrow> queue_offset_operator" where
  "increase_batch_queue_offset k n q =
     q\<lparr>qo_batch_topic_queue_table := entry_increase k n (qo_batch_topic_queue_table q)\<rparr>"

definition get_lmq_offset :: "bytes \<Rightarrow> queue_offset_operator \<Rightarrow> queue_offset_operator \<times> i64" where
  "get_lmq_offset k q =
     (let (m, v) = entry_or_zero k (qo_lmq_topic_queue_table q) in (q\<lparr>qo_lmq_topic_queue_table := m\<rparr>, v))"

definition get_lmq_topic_queue_next_offset :: "bytes \<Rightarrow> queue_offset_operator \<Rightarrow> i64 option" where
  "get_lmq_topic_queue_next_offset k q = hm_get (qo_lmq_topic_queue_table q) k"

definition increase_lmq_offset :: "bytes \<Rightarrow> int \<Rightarrow> queue_offset_operator \<Rightarrow> queue_offset_operator" where
  "increase_lmq_offset k n q = q\<lparr>qo_lmq_topic_queue_table := entry_increase k n (qo_lmq_topic_queue_table q)\<rparr>"

definition current_queue_offset :: "bytes \<Rightarrow> queue_offset_operator \<Rightarrow> i64" where
  "current_queue_offset k q = (case hm_get (qo_topic_queue_table q) k of Some v \<Rightarrow> v | None \<Rightarrow> 0)"

definition topic_queue_key :: "bytes \<Rightarrow> i32 \<Rightarrow> bytes" where
  "topic_queue_key topic queue_id = topic @ str_bytes ''-'' @ str_bytes (show_int queue_id)"

definition qo_remove :: "bytes \<Rightarrow> i32 \<Rightarrow> queue_offset_operator \<Rightarrow> queue_offset_operator" where
  "qo_remove topic queue_id q =
     (let k = topic_queue_key topic queue_id
      in q\<lparr>qo_topic_queue_table := hm_remove k (qo_topic_queue_table q),
           qo_batch_topic_queue_table := hm_remove k (qo_batch_topic_queue_table q),
           qo_lmq_topic_queue_table := hm_remove k (qo_lmq_topic_queue_table q)\<rparr>)"

definition set_topic_queue_table :: "(bytes, i64) hmap \<Rightarrow> queue_offset_operator \<Rightarrow> queue_offset_operator" where
  "set_topic_queue_table m q = q\<lparr>qo_topic_queue_table := m\<rparr>"

definition set_lmq_topic_queue_table :: "(bytes, i64) hmap \<Rightarrow> queue_offset_operator \<Rightarrow> queue_offset_operator" where
  "set_lmq_topic_queue_table m q =
     q\<lparr>qo_lmq_topic_queue_table :=
         fold (\<lambda>(k, v). if find_from (str_bytes ''lmq'') k 0 \<noteq> None then hm_insert k v else id) m []\<rparr>"

definition set_batch_topic_queue_table :: "(bytes, i64) hmap \<Rightarrow> queue_offset_operator \<Rightarrow> queue_offset_operator" where
  "set_batch_topic_queue_table m q = q\<lparr>qo_batch_topic_queue_table := m\<rparr>"

section \<open>The counters\<close>

text \<open>The number a key stands at, whether or not it has an entry.\<close>

definition offset_at :: "bytes \<Rightarrow> (bytes, i64) hmap \<Rightarrow> i64" where
  "offset_at k m = (case hm_get m k of Some v \<Rightarrow> v | None \<Rightarrow> 0)"

lemma entry_or_zero_at:
  "snd (entry_or_zero k m) = offset_at k m" "offset_at k' (fst (entry_or_zero k m)) = offset_at k' m"
  by (auto simp: entry_or_zero_def offset_at_def split: option.splits)

lemma entry_increase_at:
  "offset_at k' (entry_increase k n m) = (if k' = k then wrap_i64 (offset_at k m + n) else offset_at k' m)"
  using entry_or_zero_at(1) [of k m] entry_or_zero_at(2) [of k' k m]
  by (auto simp: entry_increase_def offset_at_def split: prod.splits)

lemma get_queue_offset_at:
  "get_queue_offset k q = (q', v) \<Longrightarrow> v = current_queue_offset k q \<and> current_queue_offset k' q' = current_queue_offset k' q"
  using entry_or_zero_at(1) [of k "qo_topic_queue_table q"]
  by (auto simp: get_queue_offset_def current_queue_offset_def offset_at_def entry_or_zero_def split: prod.splits option.splits if_splits)

lemma increase_queue_offset_at:
  "current_queue_offset k' (qo_increase_queue_offset k n q) =
     (if k' = k then wrap_i64 (current_queue_offset k q + n) else current_queue_offset k' q)"
  using entry_increase_at [of k' k n "qo_topic_queue_table q"]
  by (simp add: qo_increase_queue_offset_def current_queue_offset_def offset_at_def)

text \<open>The queues of a topic have different keys.\<close>

lemma topic_queue_key_inj:
  assumes "topic_queue_key t q = topic_queue_key t q'"
  shows "q = q'"
proof -
  have "inj (of_nat \<circ> of_char :: char \<Rightarrow> u8)"
  proof (rule injI)
    fix a b :: char
    assume "(of_nat \<circ> of_char) a = ((of_nat \<circ> of_char) b :: u8)"
    then have "(of_char a :: nat) mod 256 = of_char b mod 256" by (simp add: word_of_nat_eq_iff take_bit_eq_mod)
    moreover have "(of_char a :: nat) < 256" "(of_char b :: nat) < 256" by simp_all
    ultimately have "(of_char a :: nat) = of_char b" by (simp only: mod_less)
    then show "a = b" by (simp only: of_char_eq_iff)
  qed
  then have "show_int q = show_int q'"
    using assms by (simp add: topic_queue_key_def str_bytes_def inj_map_eq_map)
  moreover have "parse_nat (show_nat (nat \<bar>i\<bar>)) = Some (nat \<bar>i\<bar>)" for i by (rule parse_show_nat)
  ultimately show ?thesis
    using show_nat_not_sign [of "nat q"] show_nat_not_sign [of "nat q'"] show_nat_not_sign [of "nat (- q)"] show_nat_not_sign [of "nat (- q')"]
      parse_show_nat [of "nat q"] parse_show_nat [of "nat q'"] parse_show_nat [of "nat (- q)"] parse_show_nat [of "nat (- q')"]
    by (auto simp: show_int_def split: if_splits)
qed

end
