(* ===== verification/Store_Checkpoint.thy ===== *)
theory Store_Checkpoint
  imports Mapped_File
begin

text \<open>
  The checkpoint of the store (\<open>rocketmq-store/src/base/store_checkpoint.rs\<close>): five numbers kept in
  memory and written to the first bytes of a mapped file. The content of the file when it is opened is
  an argument.
\<close>

section \<open>State and operations\<close>

record store_checkpoint =
  ck_mmap :: bytes
  ck_physic_msg_timestamp :: u64
  ck_logics_msg_timestamp :: u64
  ck_index_msg_timestamp :: u64
  ck_master_flushed_offset :: u64
  ck_confirm_phy_offset :: u64

definition page_bytes :: nat where "page_bytes = 1024 * 4"

definition put_word :: "u64 \<Rightarrow> bytes" where "put_word w = put_unsigned 8 (unat w)"

definition word_at :: "bytes \<Rightarrow> nat \<Rightarrow> u64" where
  "word_at bs pos = of_nat (be_value (take 8 (drop pos bs)))"

text \<open>The file is brought to the size of a page first, so its length is never zero.\<close>

definition ck_new :: "bytes \<Rightarrow> store_checkpoint" where
  "ck_new content =
     (let mmap = set_len page_bytes content
      in \<lparr>ck_mmap = mmap, ck_physic_msg_timestamp = word_at mmap 0, ck_logics_msg_timestamp = word_at mmap 8,
          ck_index_msg_timestamp = word_at mmap 16, ck_master_flushed_offset = word_at mmap 24,
          ck_confirm_phy_offset = word_at mmap 32\<rparr>)"

text \<open>
  \<open>write_all\<close> on a slice: what is written is cut off at the end of the slice, the slice moves behind
  it, and a write that was cut off is an error. The first component is the memory with the slice
  from \<open>pos\<close> to \<open>limit\<close> still to be written.
\<close>

record slice_writer =
  sw_mem :: bytes
  sw_pos :: nat
  sw_limit :: nat

definition write_all :: "bytes \<Rightarrow> slice_writer \<Rightarrow> slice_writer \<times> bool" where
  "write_all data w =
     (let n = min (length data) (sw_limit w - sw_pos w)
      in (w\<lparr>sw_mem := overwrite (sw_mem w) (sw_pos w) (take n data), sw_pos := sw_pos w + n\<rparr>, n = length data))"

text \<open>The writes up to the first error.\<close>

fun write_fields :: "bytes list \<Rightarrow> slice_writer \<Rightarrow> slice_writer \<times> bool" where
  "write_fields [] w = (w, True)"
| "write_fields (d # ds) w = (case write_all d w of (w', True) \<Rightarrow> write_fields ds w' | (w', False) \<Rightarrow> (w', False))"

text \<open>
  The buffer is the first eight bytes of the mapping. Were all writes to succeed, the mapping would be
  locked a second time for the flush to the disk, whose result is an argument.
\<close>

definition ck_flush :: "bool \<Rightarrow> store_checkpoint \<Rightarrow> store_checkpoint \<times> bool" where
  "ck_flush io_ok c =
     (let (w, ok) = write_fields
            [put_word (ck_physic_msg_timestamp c), put_word (ck_logics_msg_timestamp c), put_word (ck_index_msg_timestamp c),
             put_word (ck_master_flushed_offset c), put_word (ck_confirm_phy_offset c)]
            \<lparr>sw_mem = ck_mmap c, sw_pos = 0, sw_limit = 8\<rparr>
      in (c\<lparr>ck_mmap := sw_mem w\<rparr>, ok \<and> io_ok))"

definition ck_shutdown :: "bool \<Rightarrow> store_checkpoint \<Rightarrow> store_checkpoint \<times> bool" where
  "ck_shutdown io_ok c = ck_flush io_ok c"

definition set_physic_msg_timestamp :: "u64 \<Rightarrow> store_checkpoint \<Rightarrow> store_checkpoint" where
  "set_physic_msg_timestamp t c = c\<lparr>ck_physic_msg_timestamp := t\<rparr>"

definition set_logics_msg_timestamp :: "u64 \<Rightarrow> store_checkpoint \<Rightarrow> store_checkpoint" where
  "set_logics_msg_timestamp t c = c\<lparr>ck_logics_msg_timestamp := t\<rparr>"

definition set_index_msg_timestamp :: "u64 \<Rightarrow> store_checkpoint \<Rightarrow> store_checkpoint" where
  "set_index_msg_timestamp t c = c\<lparr>ck_index_msg_timestamp := t\<rparr>"

definition set_master_flushed_offset :: "u64 \<Rightarrow> store_checkpoint \<Rightarrow> store_checkpoint" where
  "set_master_flushed_offset t c = c\<lparr>ck_master_flushed_offset := t\<rparr>"

definition set_confirm_phy_offset :: "u64 \<Rightarrow> store_checkpoint \<Rightarrow> store_checkpoint" where
  "set_confirm_phy_offset t c = c\<lparr>ck_confirm_phy_offset := t\<rparr>"

definition get_min_timestamp :: "store_checkpoint \<Rightarrow> u64" where
  "get_min_timestamp c =
     (let m = sint (min (ck_physic_msg_timestamp c) (ck_logics_msg_timestamp c));
          m' = wrap_i64 (m - 1000 * 3)
      in word_of_int (max m' 0))"

definition get_min_timestamp_index :: "store_checkpoint \<Rightarrow> u64" where
  "get_min_timestamp_index c = min (get_min_timestamp c) (ck_index_msg_timestamp c)"

section \<open>What reaches the disk\<close>

datatype ck_op = CkPhysic u64 | CkLogics u64 | CkIndex u64 | CkMaster u64 | CkConfirm u64 | CkFlush bool

fun ck_step :: "ck_op \<Rightarrow> store_checkpoint \<Rightarrow> store_checkpoint" where
  "ck_step (CkPhysic t) c = set_physic_msg_timestamp t c"
| "ck_step (CkLogics t) c = set_logics_msg_timestamp t c"
| "ck_step (CkIndex t) c = set_index_msg_timestamp t c"
| "ck_step (CkMaster t) c = set_master_flushed_offset t c"
| "ck_step (CkConfirm t) c = set_confirm_phy_offset t c"
| "ck_step (CkFlush io_ok) c = fst (ck_flush io_ok c)"

lemma length_put_word [simp]: "length (put_word w) = 8"
  by (simp add: put_word_def)

lemma ck_flush_writes: "ck_flush io_ok c = (c\<lparr>ck_mmap := overwrite (overwrite (ck_mmap c) 0 (put_word (ck_physic_msg_timestamp c))) 8 []\<rparr>, False)"
  by (simp add: ck_flush_def write_all_def)

lemma ck_flush_mmap:
  "8 \<le> length (ck_mmap c) \<Longrightarrow>
     ck_mmap (fst (ck_flush io_ok c)) = put_word (ck_physic_msg_timestamp c) @ drop 8 (ck_mmap c)"
  by (simp add: ck_flush_writes overwrite_def)

lemma ck_step_tail:
  assumes "page_bytes = length (ck_mmap c)"
  shows "length (ck_mmap (ck_step op c)) = page_bytes" "drop 8 (ck_mmap (ck_step op c)) = drop 8 (ck_mmap c)"
proof -
  have "8 \<le> length (ck_mmap c)" using assms by (simp add: page_bytes_def)
  then show "length (ck_mmap (ck_step op c)) = page_bytes" "drop 8 (ck_mmap (ck_step op c)) = drop 8 (ck_mmap c)"
    using assms by (cases op; simp add: ck_flush_mmap set_physic_msg_timestamp_def set_logics_msg_timestamp_def
      set_index_msg_timestamp_def set_master_flushed_offset_def set_confirm_phy_offset_def)+
qed

lemma ck_run_tail:
  "length (ck_mmap c) = page_bytes \<Longrightarrow>
     length (ck_mmap (fold ck_step ops c)) = page_bytes \<and> drop 8 (ck_mmap (fold ck_step ops c)) = drop 8 (ck_mmap c)"
  by (induction ops arbitrary: c) (simp_all add: ck_step_tail)

lemma word_at_put_word: "word_at (put_word w @ rest) 0 = w"
proof -
  have "unat w < 2 ^ 64" using unsigned_less [of w] by simp
  then show ?thesis by (simp add: word_at_def put_word_def put_unsigned_def)
qed

lemma word_at_tail: "8 \<le> pos \<Longrightarrow> word_at bs pos = word_at (drop 8 bs) (pos - 8)"
  by (simp add: word_at_def)

lemma be_value_zeros: "be_value (replicate n 0) = 0"
  by (induction n) (simp_all add: be_value_def)

lemma word_at_zeros: "word_at (replicate n 0) pos = 0"
  by (simp add: word_at_def be_value_zeros min_def)

section \<open>Statements\<close>

text \<open>
  C38. The checkpoint is never saved: the buffer a flush writes to has room for the first of the five
  numbers only, so every flush ends with an error, and however often the numbers are set and flushed,
  a store that is opened again finds the last flushed time of the log, and zero for everything else.
  The time its recovery starts from is then zero.
\<close>

theorem checkpoint_is_not_saved:
  "\<not> snd (ck_flush io_ok (fold ck_step ops (ck_new []))) \<and>
   (let saved = ck_mmap (fst (ck_flush io_ok (fold ck_step ops (ck_new []))))
    in ck_new saved =
         \<lparr>ck_mmap = saved, ck_physic_msg_timestamp = ck_physic_msg_timestamp (fold ck_step ops (ck_new [])),
          ck_logics_msg_timestamp = 0, ck_index_msg_timestamp = 0, ck_master_flushed_offset = 0, ck_confirm_phy_offset = 0\<rparr> \<and>
       get_min_timestamp (ck_new saved) = 0)"
proof -
  define c where "c = fold ck_step ops (ck_new [])"
  let ?m = "ck_mmap (fst (ck_flush io_ok c))"
  have "length (ck_mmap (ck_new [])) = page_bytes" "drop 8 (ck_mmap (ck_new [])) = replicate (page_bytes - 8) 0"
    by (simp_all add: ck_new_def Let_def set_len_def)
  then have c: "length (ck_mmap c) = page_bytes" "drop 8 (ck_mmap c) = replicate (page_bytes - 8) 0"
    using ck_run_tail [of "ck_new []" ops] by (simp_all add: c_def)
  then have m: "?m = put_word (ck_physic_msg_timestamp c) @ replicate (page_bytes - 8) 0"
    by (simp add: ck_flush_mmap page_bytes_def)
  then have len: "set_len page_bytes ?m = ?m" by (simp add: set_len_def page_bytes_def)
  have zero: "word_at ?m pos = 0" if "8 \<le> pos" "pos \<le> 32" for pos
    using that by (simp add: m word_at_tail word_at_zeros page_bytes_def)
  have fields: "ck_new ?m = \<lparr>ck_mmap = ?m, ck_physic_msg_timestamp = ck_physic_msg_timestamp c,
       ck_logics_msg_timestamp = 0, ck_index_msg_timestamp = 0, ck_master_flushed_offset = 0, ck_confirm_phy_offset = 0\<rparr>"
    unfolding ck_new_def Let_def len using zero by (simp add: m word_at_put_word)
  then have "get_min_timestamp (ck_new ?m) = 0" by (simp add: get_min_timestamp_def is_i64_def)
  with fields show ?thesis unfolding c_def [symmetric] Let_def by (simp add: ck_flush_writes)
qed

end
