(* ===== verification/Commit_Log.thy ===== *)
theory Commit_Log
  imports Append_Message Queue_Offsets Store_Checkpoint
begin

text \<open>
  The commit log of the broker's store (\<open>rocketmq-store/src/log_file/commit_log.rs\<close>): the puts of a
  message and of a batch, and the reads. The state joins the mapped files, the next offsets of the
  consume queues and the checkpoint. The disk, the clock and the answer of the flush services are
  arguments; the locks of the original make every put one step. Creation of a consume queue by an
  offset assignment is left out.
\<close>

section \<open>State\<close>

datatype broker_role = AsyncMaster | SyncMaster | Slave

record commit_log_config =
  cc_store :: store_config
  cc_mapped_file_size :: nat
  cc_duplication_enable :: bool
  cc_auto_message_version :: bool
  cc_broker_role :: broker_role
  cc_enable_controller_mode :: bool
  cc_enable_slave_acting_master :: bool
  cc_check_crc_on_recover :: bool
  cc_force_verify_prop_crc :: bool
  cc_broker_duplication_enable :: bool
  cc_message_index_enable :: bool
  cc_message_index_safe :: bool
  cc_enable_rocksdb_store :: bool

record commit_log =
  cl_queue :: mapped_file_queue
  cl_confirm_offset :: i64
  cl_checkpoint :: store_checkpoint
  cl_offsets :: queue_offset_operator
  cl_begin_time_in_lock :: u64

definition commit_log_new :: "commit_log_config \<Rightarrow> string \<Rightarrow> store_checkpoint \<Rightarrow> queue_offset_operator \<Rightarrow> commit_log" where
  "commit_log_new cfg store_path checkpoint offsets =
     \<lparr>cl_queue = fq_new store_path (of_nat (cc_mapped_file_size cfg)), cl_confirm_offset = -1,
      cl_checkpoint = checkpoint, cl_offsets = offsets, cl_begin_time_in_lock = 0\<rparr>"

text \<open>The result of a put, with the result of the append.\<close>

record put_result = put_message_result +
  pr_append_message_result :: "append_message_result option"

definition put_answer :: "put_message_status \<Rightarrow> append_message_result option \<Rightarrow> put_result" where
  "put_answer st r = \<lparr>put_status = st, put_remote = False, pr_append_message_result = r\<rparr>"

definition put_is_ok :: "put_result \<Rightarrow> bool" where
  "put_is_ok r \<longleftrightarrow>
     (if put_remote r then put_status r \<in> {PutOk, FlushDiskTimeout, FlushSlaveTimeout, SlaveNotAvailable}
      else (case pr_append_message_result r of None \<Rightarrow> False | Some a \<Rightarrow> append_is_ok a))"

section \<open>Preparation of a message\<close>

definition generate_key :: "message_ext_broker_inner \<Rightarrow> bytes" where
  "generate_key m = topic_queue_key (inner_topic m) (me_queue_id (bi_ext m))"

fun is_ipv6 :: "inet_addr \<Rightarrow> bool" where
  "is_ipv6 (V4 ip p) \<longleftrightarrow> False"
| "is_ipv6 (V6 ip p) \<longleftrightarrow> True"

definition with_v6_flags :: "message_ext \<Rightarrow> message_ext" where
  "with_v6_flags e =
     (let e' = (if is_ipv6 (me_born_host e) then e\<lparr>me_sys_flag := me_sys_flag e OR bornhost_v6_flag\<rparr> else e)
      in if is_ipv6 (me_store_host e) then e'\<lparr>me_sys_flag := me_sys_flag e' OR storehostaddress_v6_flag\<rparr> else e')"

definition choose_version :: "commit_log_config \<Rightarrow> bytes \<Rightarrow> message_version" where
  "choose_version cfg topic = (if cc_auto_message_version cfg \<and> length topic > 127 then MsgV2 else MsgV1)"

definition property_crc32 :: bytes where "property_crc32 = str_bytes ''__CRC32#''"
definition property_delay_time_level :: bytes where "property_delay_time_level = str_bytes ''DELAY''"
definition property_wait_store_msg_ok :: bytes where "property_wait_store_msg_ok = str_bytes ''WAIT''"

definition inner_delete_property :: "bytes \<Rightarrow> message_ext_broker_inner \<Rightarrow> message_ext_broker_inner" where
  "inner_delete_property name m =
     m\<lparr>bi_ext := (bi_ext m)\<lparr>me_message := (me_message (bi_ext m))
         \<lparr>m_properties := hm_remove name (m_properties (me_message (bi_ext m)))\<rparr>\<rparr>,
       bi_properties_string := delete_property (bi_properties_string m) name\<rparr>"

definition is_wait_store_msg_ok :: "message \<Rightarrow> bool" where
  "is_wait_store_msg_ok m =
     (case hm_get (m_properties m) property_wait_store_msg_ok of
        None \<Rightarrow> True
      | Some v \<Rightarrow> (case parse_bool (bytes_str v) of Some b \<Rightarrow> b | None \<Rightarrow> True))"

definition get_delay_time_level :: "message \<Rightarrow> i32" where
  "get_delay_time_level m =
     (case hm_get (m_properties m) property_delay_time_level of
        None \<Rightarrow> 0
      | Some t \<Rightarrow> (case parse_signed 32 (bytes_str t) of Some n \<Rightarrow> n | None \<Rightarrow> 0))"

definition need_handle_ha :: "commit_log_config \<Rightarrow> message_ext_broker_inner \<Rightarrow> bool" where
  "need_handle_ha cfg m \<longleftrightarrow>
     is_wait_store_msg_ok (me_message (bi_ext m)) \<and> \<not> cc_duplication_enable cfg \<and> cc_broker_role cfg = SyncMaster"

text \<open>High availability is not implemented for controllers and acting masters.\<close>

definition ha_unimplemented :: "commit_log_config \<Rightarrow> message_ext_broker_inner \<Rightarrow> bool" where
  "ha_unimplemented cfg m \<longleftrightarrow>
     need_handle_ha cfg m \<and> (cc_enable_controller_mode cfg \<or> cc_enable_slave_acting_master cfg)"

definition is_consumed :: "u32 \<Rightarrow> bool" where
  "is_consumed sys_flag \<longleftrightarrow>
     get_transaction_value sys_flag = transaction_not_type \<or> get_transaction_value sys_flag = transaction_commit_type"

definition assign_offset :: "message_ext_broker_inner \<Rightarrow> queue_offset_operator \<Rightarrow> message_ext_broker_inner \<times> queue_offset_operator" where
  "assign_offset m qo =
     (if is_consumed (me_sys_flag (bi_ext m)) then
        let (qo', offset) = get_queue_offset (topic_queue_key (inner_topic m) (me_queue_id (bi_ext m))) qo
        in (m\<lparr>bi_ext := (bi_ext m)\<lparr>me_queue_offset := offset\<rparr>\<rparr>, qo')
      else (m, qo))"

definition increase_offset :: "message_ext_broker_inner \<Rightarrow> int \<Rightarrow> queue_offset_operator \<Rightarrow> queue_offset_operator" where
  "increase_offset m message_num qo =
     (if is_consumed (me_sys_flag (bi_ext m))
      then qo_increase_queue_offset (topic_queue_key (inner_topic m) (me_queue_id (bi_ext m))) message_num qo
      else qo)"

section \<open>Puts\<close>

text \<open>
  The file to append to: the last one as it was before the locks were taken, or, if there is none or
  it is full, the one the queue then gives.
\<close>

definition file_for_append :: "disk \<Rightarrow> mapped_file_queue \<Rightarrow> (mapped_file_queue \<times> nat option) outcome" where
  "file_for_append disk q =
     (case get_last_mapped_file q of
        Some i \<Rightarrow> if is_full (fq_mapped_files q ! i) then get_last_mapped_file_mut_start_offset disk 0 True q
                  else Returned (q, Some i)
      | None \<Rightarrow> get_last_mapped_file_mut_start_offset disk 0 True q)"

text \<open>The flush services answer a status; \<open>None\<close> is a task that failed. Replication always succeeds.\<close>

definition handle_disk_flush_and_ha :: "put_message_status option \<Rightarrow> put_result \<Rightarrow> put_result" where
  "handle_disk_flush_and_ha flush r =
     r\<lparr>put_status := (case flush of Some st \<Rightarrow> st | None \<Rightarrow> FlushDiskTimeout)\<rparr>"

text \<open>
  The outcome of the append decides the answer. An append that found no room is tried again in the
  next file; \<open>retry\<close> is that second append.
\<close>

definition settle_append ::
  "append_message_result \<Rightarrow> mapped_file_queue \<Rightarrow> disk \<Rightarrow>
   (mapped_file_queue \<Rightarrow> nat \<Rightarrow> (mapped_file_queue \<times> append_message_result) outcome) \<Rightarrow>
   (mapped_file_queue \<times> put_result \<times> bool) outcome" where
  "settle_append r q disk retry =
     (case ar_status r of
        AppendPutOk \<Rightarrow> Returned (q, put_answer PutOk (Some r), False)
      | AppendEndOfFile \<Rightarrow>
          bind_outcome (get_last_mapped_file_mut_start_offset disk 0 True q) (\<lambda>(q', i).
            case i of
              None \<Rightarrow> Returned (q', put_answer CreateMappedFileFailed (Some r), True)
            | Some i \<Rightarrow>
                bind_outcome (retry q' i) (\<lambda>(q'', r').
                Returned (q'', put_answer (if ar_status r' = AppendPutOk then PutOk else UnknownError) (Some r'), False)))
      | AppendUnknownError \<Rightarrow> Returned (q, put_answer UnknownError (Some r), False)
      | _ \<Rightarrow> Returned (q, put_answer MessageIllegal (Some r), False))"

definition append_at ::
  "message_env \<Rightarrow> store_config \<Rightarrow> (string, topic_config) hmap \<Rightarrow> pending_message \<Rightarrow> mapped_file_queue \<Rightarrow> nat \<Rightarrow>
   (pending_message \<times> mapped_file_queue \<times> append_message_result) outcome" where
  "append_at env cfg configs p q i =
     bind_outcome (append_message env cfg configs p (fq_mapped_files q ! i)) (\<lambda>(p', f, r).
     Returned (p', update_file i f q, r))"

definition append_batch_at ::
  "pending_batch \<Rightarrow> put_message_context \<Rightarrow> mapped_file_queue \<Rightarrow> nat \<Rightarrow>
   (pending_batch \<times> put_message_context \<times> mapped_file_queue \<times> append_message_result) outcome" where
  "append_batch_at p ctx q i =
     bind_outcome (append_messages p ctx (fq_mapped_files q ! i)) (\<lambda>(p', ctx', f, r).
     Returned (p', ctx', update_file i f q, r))"

definition prepare_message :: "message_env \<Rightarrow> commit_log_config \<Rightarrow> i64 \<Rightarrow> message_ext_broker_inner \<Rightarrow> message_ext_broker_inner" where
  "prepare_message env cfg now m =
     (let e = bi_ext m;
          e1 = (if cc_duplication_enable cfg then e else e\<lparr>me_store_timestamp := now\<rparr>);
          m1 = m\<lparr>bi_ext := e1\<lparr>me_body_crc := body_crc32 env (stored_body m)\<rparr>\<rparr>;
          m2 = (if sc_enabled_append_prop_crc (cc_store cfg) then inner_delete_property property_crc32 m1 else m1);
          m3 = m2\<lparr>bi_version := choose_version cfg (inner_topic m2)\<rparr>
      in m3\<lparr>bi_ext := with_v6_flags (bi_ext m3)\<rparr>)"

text \<open>The queue offset of a message is assigned, and its record is encoded by the encoder of the thread.\<close>

definition need_assign_offset :: "commit_log_config \<Rightarrow> bool" where
  "need_assign_offset cfg \<longleftrightarrow> \<not> (cc_duplication_enable cfg \<and> cc_broker_role cfg \<noteq> Slave)"

text \<open>
  A put goes in two stretches. The first, under the lock of the queue of the message, assigns the offset and
  encodes the record into the buffer of the encoder of the thread, which is not copied. The second, once the
  lock of the log is held as well, appends what the buffer holds then. A put that is not disturbed
  appends what it encoded.
\<close>

definition put_message_encode ::
  "message_env \<Rightarrow> commit_log_config \<Rightarrow> i64 \<Rightarrow> message_ext_broker_inner \<Rightarrow> commit_log \<Rightarrow>
   (commit_log \<times> (put_result + message_ext_broker_inner \<times> bytes)) outcome" where
  "put_message_encode env cfg now m cl =
     (let m1 = prepare_message env cfg now m
      in if ha_unimplemented cfg m1 then Panicked
         else let (m2, qo) = (if need_assign_offset cfg then assign_offset m1 (cl_offsets cl) else (m1, cl_offsets cl));
                  cl1 = cl\<lparr>cl_offsets := qo\<rparr>
              in (case encoder_encode (new_encoder (cc_store cfg)) m2 of
                    None \<Rightarrow> Panicked
                  | Some (_, Some refused) \<Rightarrow> Returned (cl1, Inl (put_answer (put_status refused) None))
                  | Some (enc, None) \<Rightarrow> Returned (cl1, Inr (m2, byte_buf enc))))"

definition put_message_append ::
  "message_env \<Rightarrow> commit_log_config \<Rightarrow> (string, topic_config) hmap \<Rightarrow> disk \<Rightarrow> i64 \<Rightarrow> put_message_status option \<Rightarrow>
   message_ext_broker_inner \<Rightarrow> bytes \<Rightarrow> commit_log \<Rightarrow> (commit_log \<times> put_result) outcome" where
  "put_message_append env cfg configs disk begin_lock_timestamp flush m encoded_buff cl =
     (let m1 = (if cc_duplication_enable cfg then m
                else m\<lparr>bi_ext := (bi_ext m)\<lparr>me_store_timestamp := begin_lock_timestamp\<rparr>\<rparr>);
          p = \<lparr>pm_inner = m1, pm_encoded_buff = Some encoded_buff\<rparr>;
          cl1 = cl\<lparr>cl_begin_time_in_lock := 0\<rparr>
      in bind_outcome (file_for_append disk (cl_queue cl)) (\<lambda>(q, i).
           case i of
             None \<Rightarrow> Returned (cl1\<lparr>cl_queue := q\<rparr>, put_answer CreateMappedFileFailed None)
           | Some i \<Rightarrow>
               bind_outcome (append_at env (cc_store cfg) configs p q i) (\<lambda>(p, q, r).
               bind_outcome (settle_append r q disk (\<lambda>q i.
                 bind_outcome (append_at env (cc_store cfg) configs p q i) (\<lambda>(_, q, r). Returned (q, r))))
               (\<lambda>(q, answer, failed).
               if \<not> failed \<and> put_status answer = PutOk
               then Returned (cl1\<lparr>cl_queue := q, cl_offsets := increase_offset m1 (get_message_num configs m1) (cl_offsets cl)\<rparr>,
                      handle_disk_flush_and_ha flush answer)
               else Returned (cl1\<lparr>cl_queue := q\<rparr>, answer)))))"

definition cl_put_message ::
  "message_env \<Rightarrow> commit_log_config \<Rightarrow> (string, topic_config) hmap \<Rightarrow> disk \<Rightarrow> i64 \<Rightarrow> i64 \<Rightarrow> put_message_status option \<Rightarrow>
   message_ext_broker_inner \<Rightarrow> commit_log \<Rightarrow> (commit_log \<times> put_result) outcome" where
  "cl_put_message env cfg configs disk now begin_lock_timestamp flush m cl =
     bind_outcome (put_message_encode env cfg now m cl) (\<lambda>(cl, encoded).
       case encoded of
         Inl refused \<Rightarrow> Returned (cl, refused)
       | Inr (m, encoded_buff) \<Rightarrow> put_message_append env cfg configs disk begin_lock_timestamp flush m encoded_buff cl)"

definition put_messages ::
  "commit_log_config \<Rightarrow> disk \<Rightarrow> i64 \<Rightarrow> i64 \<Rightarrow> put_message_status option \<Rightarrow>
   message_ext_batch \<Rightarrow> commit_log \<Rightarrow> (commit_log \<times> put_result) outcome" where
  "put_messages cfg disk now begin_lock_timestamp flush b cl =
     (let m = mb_inner b; e = (bi_ext m)\<lparr>me_store_timestamp := now\<rparr>
      in if get_transaction_value (me_sys_flag e) \<noteq> transaction_not_type then Returned (cl, put_answer MessageIllegal None)
         else if get_delay_time_level (me_message e) > 0 then Returned (cl, put_answer MessageIllegal None)
         else
           let m1 = m\<lparr>bi_ext := with_v6_flags e, bi_version := choose_version cfg (m_topic (me_message e))\<rparr>
           in if ha_unimplemented cfg m1 then Panicked
              else (case encode_batch (new_encoder (cc_store cfg)) (b\<lparr>mb_inner := m1\<rparr>)
                      \<lparr>pc_topic_queue_table_key = [], pc_phy_pos = [], pc_batch_size = 0\<rparr> of
                      None \<Rightarrow> Panicked
                    | Some (_, ctx, encoded_buff) \<Rightarrow>
                        let ctx = ctx\<lparr>pc_topic_queue_table_key := generate_key m1\<rparr>;
                            (m2, qo) = assign_offset m1 (cl_offsets cl);
                            m3 = m2\<lparr>bi_ext := (bi_ext m2)\<lparr>me_store_timestamp := begin_lock_timestamp\<rparr>\<rparr>;
                            p = \<lparr>pb_batch = b\<lparr>mb_inner := m3\<rparr>, pb_encoded_buff = encoded_buff\<rparr>;
                            cl1 = cl\<lparr>cl_offsets := qo, cl_begin_time_in_lock := 0\<rparr>
                        in bind_outcome (file_for_append disk (cl_queue cl)) (\<lambda>(q, i).
                             case i of
                               None \<Rightarrow> Returned (cl1\<lparr>cl_queue := q\<rparr>, put_answer CreateMappedFileFailed None)
                             | Some i \<Rightarrow>
                                 bind_outcome (append_batch_at p ctx q i) (\<lambda>(p, ctx, q, r).
                                 bind_outcome (settle_append r q disk (\<lambda>q i.
                                   bind_outcome (append_batch_at p ctx q i) (\<lambda>(_, _, q, r). Returned (q, r))))
                                 (\<lambda>(q, answer, failed).
                                 if \<not> failed \<and> put_status answer = PutOk
                                 then Returned (cl1\<lparr>cl_queue := q,
                                        cl_offsets := increase_offset m3 (wrap_i16 (pc_batch_size ctx)) qo\<rparr>,
                                        handle_disk_flush_and_ha flush answer)
                                 else Returned (cl1\<lparr>cl_queue := q\<rparr>, answer))))))"

section \<open>Reads\<close>

definition get_message ::
  "commit_log_config \<Rightarrow> i64 \<Rightarrow> i32 \<Rightarrow> commit_log \<Rightarrow> (commit_log \<times> select_result option) outcome" where
  "get_message cfg offset sz cl =
     bind_outcome (find_mapped_file_by_offset offset (offset = 0) (cl_queue cl)) (\<lambda>i.
       case i of
         None \<Rightarrow> Returned (cl, None)
       | Some i \<Rightarrow>
           if cc_mapped_file_size cfg = 0 then Panicked
           else let pos = wrap_i32 (trunc_mod offset (int (cc_mapped_file_size cfg)))
                in bind_outcome (select_mapped_buffer pos sz (fq_mapped_files (cl_queue cl) ! i)) (\<lambda>(f, r).
                   Returned (cl\<lparr>cl_queue := update_file i f (cl_queue cl)\<rparr>, map_option (\<lambda>r. r\<lparr>sr_is_in_cache := True\<rparr>) r)))"

definition get_data_with_option ::
  "commit_log_config \<Rightarrow> i64 \<Rightarrow> bool \<Rightarrow> commit_log \<Rightarrow> (commit_log \<times> select_result option) outcome" where
  "get_data_with_option cfg offset return_first_on_not_found cl =
     bind_outcome (find_mapped_file_by_offset offset return_first_on_not_found (cl_queue cl)) (\<lambda>i.
       case i of
         None \<Rightarrow> Returned (cl, None)
       | Some i \<Rightarrow>
           if cc_mapped_file_size cfg = 0 then Panicked
           else let pos = wrap_i32 (trunc_mod offset (int (cc_mapped_file_size cfg)))
                in bind_outcome (select_mapped_buffer_with_position pos (fq_mapped_files (cl_queue cl) ! i)) (\<lambda>(f, r).
                   Returned (cl\<lparr>cl_queue := update_file i f (cl_queue cl)\<rparr>, r)))"

definition get_data :: "commit_log_config \<Rightarrow> i64 \<Rightarrow> commit_log \<Rightarrow> (commit_log \<times> select_result option) outcome" where
  "get_data cfg offset cl = get_data_with_option cfg offset (offset = 0) cl"

definition get_max_offset :: "commit_log \<Rightarrow> i64" where
  "get_max_offset cl = fq_get_max_offset (cl_queue cl)"

definition roll_next_file :: "commit_log_config \<Rightarrow> i64 \<Rightarrow> i64" where
  "roll_next_file cfg offset =
     (let sz = int (cc_mapped_file_size cfg) in wrap_i64 (wrap_i64 (offset + sz) - trunc_mod offset sz))"

definition get_min_offset :: "commit_log_config \<Rightarrow> commit_log \<Rightarrow> i64" where
  "get_min_offset cfg cl =
     (case get_first_mapped_file (cl_queue cl) of
        None \<Rightarrow> -1
      | Some i \<Rightarrow>
          let f = fq_mapped_files (cl_queue cl) ! i
          in if rc_available (mf_reference_resource f) then sint (mf_file_from_offset f)
             else roll_next_file cfg (sint (mf_file_from_offset f)))"

definition get_confirm_offset :: "commit_log_config \<Rightarrow> commit_log \<Rightarrow> i64 outcome" where
  "get_confirm_offset cfg cl =
     (if cc_enable_controller_mode cfg then Panicked
      else if cc_broker_duplication_enable cfg then Returned (cl_confirm_offset cl)
      else Returned (get_max_offset cl))"

definition set_confirm_offset :: "i64 \<Rightarrow> commit_log \<Rightarrow> commit_log" where
  "set_confirm_offset phy_offset cl =
     cl\<lparr>cl_confirm_offset := phy_offset, cl_checkpoint := set_confirm_phy_offset (word_of_int phy_offset) (cl_checkpoint cl)\<rparr>"

definition cl_load :: "dir_entry list option \<Rightarrow> commit_log \<Rightarrow> (commit_log \<times> bool) outcome" where
  "cl_load entries cl =
     (case fq_load entries (cl_queue cl) of
        Panicked \<Rightarrow> Panicked
      | Returned (q, ok) \<Rightarrow> Returned (cl\<lparr>cl_queue := q\<rparr>, ok))"

definition lock_time_mills :: "int \<Rightarrow> commit_log \<Rightarrow> i64" where
  "lock_time_mills now cl =
     (if cl_begin_time_in_lock cl > 0 then wrap_i64 (now - uint (cl_begin_time_in_lock cl)) else 0)"

text \<open>The store time of the message at an offset. Reading past the end of the record panics.\<close>

definition pickup_store_timestamp ::
  "commit_log_config \<Rightarrow> i64 \<Rightarrow> i32 \<Rightarrow> commit_log \<Rightarrow> (commit_log \<times> i64) outcome" where
  "pickup_store_timestamp cfg offset sz cl =
     (if offset \<ge> get_min_offset cfg cl \<and> wrap_i64 (offset + sz) \<le> get_max_offset cl then
        bind_outcome (get_message cfg offset sz cl) (\<lambda>(cl', r).
          case r of
            None \<Rightarrow> Returned (cl', -1)
          | Some r \<Rightarrow>
              (case get_u32 (drop sysflag_position (sr_bytes r)) of
                 None \<Rightarrow> Panicked
               | Some (sys_flag, _) \<Rightarrow>
                   let pos = (if of_nat sys_flag AND bornhost_v6_flag = (0 :: u32) then 56 else 68)
                   in (case get_i64 (drop pos (sr_bytes r)) of
                         None \<Rightarrow> Panicked
                       | Some (t, _) \<Rightarrow> Returned (cl', t))))
      else Returned (cl, -1))"

end
