(* ===== verification/Commit_Log_Properties.thy ===== *)
theory Commit_Log_Properties
  imports Commit_Log
begin

text \<open>
  What the commit log guarantees: a message that is put is read back where the answer says, with the
  offset of its queue, and nothing that was in the log changes; and where it fails: at the end of a
  file, for batches, and for what it hands out as their ids.
\<close>

section \<open>The log as a sequence of bytes\<close>

definition cl_ok :: "commit_log_config \<Rightarrow> commit_log \<Rightarrow> bool" where
  "cl_ok cfg cl \<longleftrightarrow> fq_ok (cl_queue cl) \<and> cc_mapped_file_size cfg = fq_size (cl_queue cl) \<and>
     list_all mf_live (fq_mapped_files (cl_queue cl))"

lemma earlier_files_length:
  assumes "fq_ok q" "i < length (fq_mapped_files q)"
  shows "length (concat (map written (take i (fq_mapped_files q)))) = i * fq_size q"
proof -
  have "take i (fq_mapped_files q) = take i (butlast (fq_mapped_files q))" using assms(2) by (simp add: take_butlast)
  then have "list_all is_full (take i (fq_mapped_files q))"
    using assms(1) by (auto simp: fq_ok_def list_all_iff dest: in_set_takeD)
  moreover have "list_all (\<lambda>f. mf_ok f \<and> mf_file_size f = fq_mapped_file_size q) (take i (fq_mapped_files q))"
    using assms(1) by (auto simp: fq_ok_def list_all_iff dest: in_set_takeD)
  ultimately show ?thesis
    using full_files_length [of "fq_mapped_file_size q" "take i (fq_mapped_files q)"] assms(2) by (simp add: fq_size_def)
qed

lemma fq_written_split:
  assumes "i < length (fq_mapped_files q)"
  shows "fq_written q = concat (map written (take i (fq_mapped_files q))) @ written (fq_mapped_files q ! i) @
    concat (map written (drop (Suc i) (fq_mapped_files q)))"
  unfolding fq_written_def by (subst id_take_nth_drop [OF assms]) simp

lemma fq_written_length:
  assumes "fq_ok q" "fq_mapped_files q \<noteq> []"
  shows "length (fq_written q) = (length (fq_mapped_files q) - 1) * fq_size q + nat (mf_wrote_position (last (fq_mapped_files q)))"
proof -
  have i: "length (fq_mapped_files q) - 1 < length (fq_mapped_files q)" using assms(2) by simp
  show ?thesis
    using fq_written_split [OF i] earlier_files_length [OF assms(1) i] mf_ok_position(4) [OF fq_ok_last(2) [OF assms]] assms(2)
    by (simp add: last_conv_nth)
qed

text \<open>A range of the log inside of one file.\<close>

lemma file_range:
  assumes ok: "fq_ok q" and lo: "fq_base q \<le> o'" and hi: "o' + n \<le> fq_base q + length (fq_written q)" "0 < n"
    and one: "o' mod fq_size q + n \<le> fq_size q"
  defines "i \<equiv> (o' - fq_base q) div fq_size q"
  shows "i < length (fq_mapped_files q)" "o' < fq_base q + length (fq_mapped_files q) * fq_size q"
    "o' mod fq_size q + n \<le> nat (mf_wrote_position (fq_mapped_files q ! i))"
    "take n (drop (o' mod fq_size q) (written (fq_mapped_files q ! i))) = take n (drop (o' - fq_base q) (fq_written q))"
proof -
  note sz = fq_ok_size(2) [OF ok]
  have ne: "fq_mapped_files q \<noteq> []" using lo hi by (auto simp: fq_written_def)
  have wlast: "nat (mf_wrote_position (last (fq_mapped_files q))) \<le> fq_size q"
    using fq_ok_last(2,3) [OF ok ne] by (simp add: mf_ok_def fq_size_def)
  have "(length (fq_mapped_files q) - 1) * fq_size q + fq_size q = length (fq_mapped_files q) * fq_size q"
    using ne by (cases "fq_mapped_files q") (simp_all add: algebra_simps)
  then have tot: "length (fq_written q) \<le> length (fq_mapped_files q) * fq_size q"
    using fq_written_length [OF ok ne] wlast by linarith
  then show "o' < fq_base q + length (fq_mapped_files q) * fq_size q" using hi by linarith
  then show i: "i < length (fq_mapped_files q)"
    unfolding i_def using lo sz by (simp add: div_less_iff_less_mult less_diff_conv2 add.commute)
  obtain b where b: "fq_base q = b * fq_size q" using ok by (auto simp: fq_ok_def mult.commute elim: dvdE)
  obtain d where d: "o' = fq_base q + d" using lo by (auto simp: le_iff_add)
  have m: "o' mod fq_size q = d mod fq_size q" "i = d div fq_size q" by (simp_all add: d b i_def)
  then have split: "d = i * fq_size q + o' mod fq_size q" by simp
  show pos: "o' mod fq_size q + n \<le> nat (mf_wrote_position (fq_mapped_files q ! i))"
  proof (cases "Suc i = length (fq_mapped_files q)")
    case True
    then have "d + n \<le> i * fq_size q + nat (mf_wrote_position (fq_mapped_files q ! i))"
      using hi(1) fq_written_length [OF ok ne] ne by (simp add: d last_conv_nth True [symmetric])
    then show ?thesis using split by linarith
  next
    case False
    then have "is_full (butlast (fq_mapped_files q) ! i)" using i ok by (auto simp: fq_ok_def list_all_length)
    then have "is_full (fq_mapped_files q ! i)" using i False by (simp add: nth_butlast)
    then show ?thesis using one fq_ok_nth(3,4) [OF ok i] by (simp add: is_full_iff fq_size_def)
  qed
  have len: "length (written (fq_mapped_files q ! i)) = nat (mf_wrote_position (fq_mapped_files q ! i))"
    by (rule mf_ok_position(4) [OF fq_ok_nth(3) [OF ok i]])
  have eq: "o' - fq_base q = length (concat (map written (take i (fq_mapped_files q)))) + o' mod fq_size q"
    unfolding earlier_files_length [OF ok i] using split by (simp add: d)
  have "drop (o' - fq_base q) (fq_written q) = drop (o' mod fq_size q) (written (fq_mapped_files q ! i) @
      concat (map written (drop (Suc i) (fq_mapped_files q))))"
    unfolding fq_written_split [OF i] eq by simp
  then show "take n (drop (o' mod fq_size q) (written (fq_mapped_files q ! i))) = take n (drop (o' - fq_base q) (fq_written q))"
    using pos len by simp
qed

lemma get_message_reads:
  assumes ok: "cl_ok cfg cl" and lo: "fq_base (cl_queue cl) \<le> o'"
    and hi: "o' + n \<le> fq_base (cl_queue cl) + length (fq_written (cl_queue cl))" "0 < n"
    and one: "o' mod fq_size (cl_queue cl) + n \<le> fq_size (cl_queue cl)"
  shows "\<exists>cl' r. get_message cfg (int o') (int n) cl = Returned (cl', Some r) \<and>
    sr_bytes r = take n (drop (o' - fq_base (cl_queue cl)) (fq_written (cl_queue cl)))"
proof -
  let ?q = "cl_queue cl"
  let ?i = "(o' - fq_base ?q) div fq_size ?q"
  have q: "fq_ok ?q" "cc_mapped_file_size cfg = fq_size ?q" "list_all mf_live (fq_mapped_files ?q)"
    using ok by (simp_all add: cl_ok_def)
  note r = file_range [OF q(1) lo hi one]
  have find: "find_mapped_file_by_offset (int o') (int o' = 0) ?q = Returned (Some ?i)"
    using find_mapped_file_found(1) [OF q(1), of "int o'"] lo r(2) by (simp only: of_nat_le_iff of_nat_less_iff nat_int)
  have pos: "wrap_i32 (trunc_mod (int o') (int (fq_size ?q))) = int (o' mod fq_size ?q)"
  proof -
    have "trunc_mod (int o') (int (fq_size ?q)) = int (o' mod fq_size ?q)"
      by (rule trunc_mod_nat [OF fq_ok_size(2) [OF q(1)]])
    moreover have "o' mod fq_size ?q < 2 ^ 31" using one q(1) by (simp add: fq_ok_def)
    ultimately show ?thesis by (simp only: wrap_i32_nat)
  qed
  have live: "mf_live (fq_mapped_files ?q ! ?i)" using q(3) r(1) by (simp add: list_all_length)
  have "int (o' mod fq_size ?q + n) \<le> int (nat (mf_wrote_position (fq_mapped_files ?q ! ?i)))" using r(3) by (simp only: of_nat_le_iff)
  moreover have "0 \<le> mf_wrote_position (fq_mapped_files ?q ! ?i)" using fq_ok_nth(3) [OF q(1) r(1)] by (simp add: mf_ok_def)
  ultimately have "int (o' mod fq_size ?q) + int n \<le> mf_wrote_position (fq_mapped_files ?q ! ?i)" by simp
  from select_reads [OF fq_ok_nth(3) [OF q(1) r(1)] live _ _ this]
  obtain f' s where s: "select_mapped_buffer (int (o' mod fq_size ?q)) (int n) (fq_mapped_files ?q ! ?i) = Returned (f', Some s)"
    "sr_bytes s = take n (drop (o' mod fq_size ?q) (written (fq_mapped_files ?q ! ?i)))" by auto
  then show ?thesis
    using fq_ok_size(2) [OF q(1)] r(4) unfolding get_message_def find q(2) Let_def pos by simp
qed

section \<open>Appending to the last file\<close>

text \<open>The room in the file the next message goes to.\<close>

definition room :: "mapped_file_queue \<Rightarrow> nat" where
  "room q =
     (if fq_mapped_files q = [] \<or> is_full (last (fq_mapped_files q)) then fq_size q
      else fq_size q - nat (mf_wrote_position (last (fq_mapped_files q))))"

definition growable :: "mapped_file_queue \<Rightarrow> bool" where
  "growable q \<longleftrightarrow> fq_base q + Suc (length (fq_mapped_files q)) * fq_size q < 2 ^ 63"

lemma file_for_append_ok:
  assumes ok: "fq_ok q" and live: "list_all mf_live (fq_mapped_files q)" and grow: "growable q"
  shows "\<exists>q' i. file_for_append disk q = Returned (q', Some i) \<and> fq_ok q' \<and> Suc i = length (fq_mapped_files q') \<and>
    \<not> is_full (fq_mapped_files q' ! i) \<and> list_all mf_live (fq_mapped_files q') \<and> fq_mapped_file_size q' = fq_mapped_file_size q \<and>
    fq_written q' = fq_written q \<and> fq_base q' = fq_base q \<and>
    (if fq_mapped_files q = [] \<or> is_full (last (fq_mapped_files q))
     then \<exists>f. fq_mapped_files q' = fq_mapped_files q @ [f] \<and> written f = [] \<and> ((\<forall>n. disk n = []) \<longrightarrow> blank_rest f)
     else fq_mapped_files q' = fq_mapped_files q) \<and>
    nat (mf_wrote_position (fq_mapped_files q' ! i)) + room q = fq_size q"
proof (cases "fq_mapped_files q \<noteq> [] \<and> \<not> is_full (last (fq_mapped_files q))")
  case True
  then have "nat (mf_wrote_position (last (fq_mapped_files q))) \<le> fq_size q"
    using fq_ok_last(2,3) [OF ok] by (simp add: mf_ok_def fq_size_def)
  moreover have "fq_mapped_files q ! (length (fq_mapped_files q) - 1) = last (fq_mapped_files q)"
    using True by (simp add: last_conv_nth)
  ultimately show ?thesis using True ok live by (simp add: file_for_append_def get_last_mapped_file_def room_def)
next
  case False
  have "unat (0 :: u64) + fq_size q < 2 ^ 63" using ok by (simp add: fq_ok_def)
  with get_last_for_writing [OF ok, of 0 disk] grow obtain q' i where g:
    "get_last_mapped_file_mut_start_offset disk 0 True q = Returned (q', Some i)" "fq_ok q'" "Suc i = length (fq_mapped_files q')"
    "\<not> is_full (fq_mapped_files q' ! i)" "fq_mapped_file_size q' = fq_mapped_file_size q"
    "fq_mapped_files q' = fq_mapped_files q \<or>
     (\<exists>f. fq_mapped_files q' = fq_mapped_files q @ [f] \<and> mf_wrote_position f = 0 \<and> mf_live f \<and>
        ((\<forall>n. disk n = []) \<longrightarrow> blank_rest f) \<and>
        (fq_mapped_files q = [] \<longrightarrow> unat (mf_file_from_offset f) = unat (0 :: u64) div fq_size q * fq_size q))"
    unfolding growable_def by blast
  have "fq_mapped_files q' \<noteq> fq_mapped_files q"
  proof
    assume eq: "fq_mapped_files q' = fq_mapped_files q"
    then have "fq_mapped_files q \<noteq> []" using g(3) by auto
    then have "fq_mapped_files q' ! i = last (fq_mapped_files q)" using eq by (simp add: last_conv_nth flip: g(3) [unfolded eq])
    then show False using False g(4) \<open>fq_mapped_files q \<noteq> []\<close> by simp
  qed
  then obtain f where f: "fq_mapped_files q' = fq_mapped_files q @ [f]" "mf_wrote_position f = 0" "mf_live f"
    "(\<forall>n. disk n = []) \<longrightarrow> blank_rest f" "fq_mapped_files q = [] \<longrightarrow> unat (mf_file_from_offset f) = 0" using g(6) by auto
  have i: "fq_mapped_files q' ! i = f" using f(1) g(3) by simp
  have "fq_written q' = fq_written q" using f by (simp add: fq_written_def written_def)
  moreover have "fq_base q' = fq_base q" using f by (cases "fq_mapped_files q") (simp_all add: fq_base_def)
  moreover have "file_for_append disk q = get_last_mapped_file_mut_start_offset disk 0 True q"
    using False by (auto simp: file_for_append_def get_last_mapped_file_def last_conv_nth)
  moreover have "written f = []" using f(2) by (simp add: written_def)
  ultimately show ?thesis using False g f(1-4) live i by (auto simp: room_def)
qed

lemma update_last_file:
  assumes ok: "fq_ok q" and i: "Suc i = length (fq_mapped_files q)" and live: "list_all mf_live (fq_mapped_files q)"
    and f: "mf_ok f" "written f = written (fq_mapped_files q ! i) @ d"
      "mf_file_from_offset f = mf_file_from_offset (fq_mapped_files q ! i)"
      "mf_file_size f = mf_file_size (fq_mapped_files q ! i)"
      "mf_reference_resource f = mf_reference_resource (fq_mapped_files q ! i)"
  shows "fq_ok (update_file i f q)" "fq_written (update_file i f q) = fq_written q @ d"
    "fq_base (update_file i f q) = fq_base q" "fq_size (update_file i f q) = fq_size q"
    "list_all mf_live (fq_mapped_files (update_file i f q))"
proof -
  obtain fs g where fs: "fq_mapped_files q = fs @ [g]" using i by (cases "fq_mapped_files q" rule: rev_cases) auto
  then have li: "length fs = i" using i by simp
  have new: "fq_mapped_files (update_file i f q) = fs @ [f]" by (simp add: update_file_def fs li [symmetric])
  have g: "fq_mapped_files q ! i = g" by (simp add: fs li [symmetric])
  note f = f [unfolded g]
  show "fq_size (update_file i f q) = fq_size q" by (simp add: update_file_def fq_size_def)
  show base: "fq_base (update_file i f q) = fq_base q"
    using f(3) by (cases fs) (simp_all add: fq_base_def new fs)
  show "fq_written (update_file i f q) = fq_written q @ d" using f(2) by (simp add: fq_written_def new fs)
  show "list_all mf_live (fq_mapped_files (update_file i f q))" using live f(5) by (simp add: new fs mf_live_def)
  have sz: "fq_mapped_file_size (update_file i f q) = fq_mapped_file_size q" by (simp add: update_file_def)
  have nth: "unat (mf_file_from_offset ((fs @ [f]) ! j)) = unat (mf_file_from_offset ((fs @ [g]) ! j))" if "j < Suc (length fs)" for j
    using that f(3) by (cases "j < length fs") (auto simp: nth_append less_Suc_eq)
  show "fq_ok (update_file i f q)"
    using ok f(1,4) nth unfolding fq_ok_def base new fs sz by (auto simp: fq_size_def update_file_def)
qed

text \<open>The end of the log is where the next append writes.\<close>

lemma last_file_end:
  assumes "fq_ok q" "Suc i = length (fq_mapped_files q)"
  shows "sint (mf_file_from_offset (fq_mapped_files q ! i)) + mf_wrote_position (fq_mapped_files q ! i) =
    int (fq_base q + length (fq_written q))"
    "fq_base q + length (fq_written q) + fq_size q = fq_base q + length (fq_mapped_files q) * fq_size q + nat (mf_wrote_position (fq_mapped_files q ! i))"
    "(fq_base q + length (fq_written q)) mod fq_size q = nat (mf_wrote_position (fq_mapped_files q ! i)) mod fq_size q"
proof -
  have i: "i < length (fq_mapped_files q)" and ne: "fq_mapped_files q \<noteq> []" using assms(2) by auto
  have last: "last (fq_mapped_files q) = fq_mapped_files q ! i" using ne by (simp add: last_conv_nth flip: assms(2))
  have len: "length (fq_written q) = i * fq_size q + nat (mf_wrote_position (fq_mapped_files q ! i))"
    unfolding fq_written_length [OF assms(1) ne] last using assms(2) by (metis diff_Suc_1)
  have "0 \<le> mf_wrote_position (fq_mapped_files q ! i)" using fq_ok_nth(3) [OF assms(1) i] by (simp add: mf_ok_def)
  then show "sint (mf_file_from_offset (fq_mapped_files q ! i)) + mf_wrote_position (fq_mapped_files q ! i) =
    int (fq_base q + length (fq_written q))"
    using fq_ok_nth(1) [OF assms(1) i] by (simp add: len)
  show "fq_base q + length (fq_written q) + fq_size q = fq_base q + length (fq_mapped_files q) * fq_size q + nat (mf_wrote_position (fq_mapped_files q ! i))"
    by (simp add: len flip: assms(2))
  obtain b where "fq_base q = b * fq_size q" using assms(1) by (auto simp: fq_ok_def mult.commute elim: dvdE)
  then show "(fq_base q + length (fq_written q)) mod fq_size q = nat (mf_wrote_position (fq_mapped_files q ! i)) mod fq_size q"
    by (simp add: len add.assoc [symmetric] flip: distrib_right)
qed

text \<open>The file that takes the next \<open>n\<close> bytes, which go to the end of the log.\<close>

lemma append_place:
  assumes ok: "fq_ok q" and live: "list_all mf_live (fq_mapped_files q)" and grow: "growable q" and n: "n + 8 \<le> room q"
  obtains q1 i where "file_for_append disk q = Returned (q1, Some i)" "fq_ok q1" "Suc i = length (fq_mapped_files q1)"
    "list_all mf_live (fq_mapped_files q1)" "fq_written q1 = fq_written q" "fq_base q1 = fq_base q" "fq_size q1 = fq_size q"
    "mf_ok (fq_mapped_files q1 ! i)"
    "sint (mf_file_from_offset (fq_mapped_files q1 ! i)) + mf_wrote_position (fq_mapped_files q1 ! i) = int (fq_base q + length (fq_written q))"
    "nat (mf_wrote_position (fq_mapped_files q1 ! i)) + n + 8 \<le> unat (mf_file_size (fq_mapped_files q1 ! i))"
    "(fq_base q + length (fq_written q)) mod fq_size q + n \<le> fq_size q" "fq_base q + length (fq_written q) < 2 ^ 63"
proof -
  let ?pos = "fq_base q + length (fq_written q)"
  obtain q1 i where a: "file_for_append disk q = Returned (q1, Some i)" "fq_ok q1" "Suc i = length (fq_mapped_files q1)"
    "list_all mf_live (fq_mapped_files q1)" "fq_mapped_file_size q1 = fq_mapped_file_size q"
    "fq_written q1 = fq_written q" "fq_base q1 = fq_base q" "nat (mf_wrote_position (fq_mapped_files q1 ! i)) + room q = fq_size q"
    using file_for_append_ok [OF ok live grow, of disk] by blast
  have i: "i < length (fq_mapped_files q1)" using a(3) by simp
  have sz: "fq_size q1 = fq_size q" using a(5) by (simp add: fq_size_def)
  have fsz: "unat (mf_file_size (fq_mapped_files q1 ! i)) = fq_size q" using fq_ok_nth(4) [OF a(2) i] a(5) by (simp add: fq_size_def)
  have roomy: "nat (mf_wrote_position (fq_mapped_files q1 ! i)) + n + 8 \<le> fq_size q" using a(8) n by linarith
  have "?pos + fq_size q < 2 ^ 63 + fq_size q"
    using last_file_end(2) [OF a(2,3)] fq_ok_nth(5) [OF a(2) i] roomy unfolding a(3) by (simp add: a(6,7) sz)
  then have p63: "?pos < 2 ^ 63" by simp
  have "?pos mod fq_size q = nat (mf_wrote_position (fq_mapped_files q1 ! i))"
    using last_file_end(3) [OF a(2,3)] roomy by (simp add: a(6,7) sz)
  then show ?thesis
    using that [OF a(1-4,6,7) sz fq_ok_nth(3) [OF a(2) i]] last_file_end(1) [OF a(2,3)] roomy p63 by (simp add: a(6,7) fsz)
qed

section \<open>A message that is accepted\<close>

text \<open>The message with everything but its place in the log, the time it is stored at, and the offsets after its assignment.\<close>

definition assigned ::
  "message_env \<Rightarrow> commit_log_config \<Rightarrow> i64 \<Rightarrow> message_ext_broker_inner \<Rightarrow> commit_log \<Rightarrow> message_ext_broker_inner \<times> queue_offset_operator" where
  "assigned env cfg now m cl =
     (if need_assign_offset cfg then assign_offset (prepare_message env cfg now m) (cl_offsets cl)
      else (prepare_message env cfg now m, cl_offsets cl))"

definition stamped :: "commit_log_config \<Rightarrow> i64 \<Rightarrow> message_ext_broker_inner \<Rightarrow> message_ext_broker_inner" where
  "stamped cfg t m =
     (if cc_duplication_enable cfg then m else m\<lparr>bi_ext := (bi_ext m)\<lparr>me_store_timestamp := t\<rparr>\<rparr>)"

definition fits_log :: "commit_log_config \<Rightarrow> message_ext_broker_inner \<Rightarrow> mapped_file_queue \<Rightarrow> bool" where
  "fits_log cfg m q \<longleftrightarrow> storable m \<and> \<not> sc_enabled_append_prop_crc (cc_store cfg) \<and>
     \<not> (sc_enable_multi_dispatch (cc_store cfg) \<and> is_multi_dispatch_msg m) \<and>
     length (stored_body m) \<le> as_usize (sc_max_message_size (cc_store cfg)) \<and>
     inner_size m \<le> room_for_body (sc_max_message_size (cc_store cfg)) \<and>
     nat (inner_size m) + 8 \<le> room q \<and> growable q"

text \<open>The fields of the record in the log.\<close>

definition placed :: "message_ext_broker_inner \<Rightarrow> message_ext_broker_inner \<Rightarrow> nat \<Rightarrow> message_ext" where
  "placed m m' pos = (bi_ext m)\<lparr>me_store_size := inner_size m,
     me_queue_offset := consumed_offset (me_sys_flag (bi_ext m)) (me_queue_offset (bi_ext m)),
     me_commit_log_offset := int pos, me_store_timestamp := me_store_timestamp (bi_ext m')\<rparr>"

lemma stamped_sel:
  "bi_properties_string (stamped cfg t m) = bi_properties_string m" "bi_version (stamped cfg t m) = bi_version m"
  "me_sys_flag (bi_ext (stamped cfg t m)) = me_sys_flag (bi_ext m)" "me_message (bi_ext (stamped cfg t m)) = me_message (bi_ext m)"
  "me_queue_offset (bi_ext (stamped cfg t m)) = me_queue_offset (bi_ext m)" "me_store_host (bi_ext (stamped cfg t m)) = me_store_host (bi_ext m)"
  "me_queue_id (bi_ext (stamped cfg t m)) = me_queue_id (bi_ext m)"
  by (simp_all add: stamped_def)

lemma encoded_record:
  assumes "storable m"
  defines "e \<equiv> (bi_ext m)\<lparr>me_store_size := inner_size m, me_commit_log_offset := 0\<rparr>"
  shows "head_ok e (stored_body m)"
    "me_store_size e = int (length (whole_record (bi_version m) e (stored_body m) (inner_topic m) (bi_properties_string m)))"
    "0 < inner_size m"
proof -
  have ok: "length (stored_body m) < 2 ^ 31 - 2 ^ 17" "topic_fits (bi_version m) (inner_topic m)"
    "length (bi_properties_string m) < 2 ^ 15" "valid_utf8 (bi_properties_string m)"
    "head_ok ((bi_ext m)\<lparr>me_commit_log_offset := 0\<rparr>) (stored_body m)"
    using assms(1) by (simp_all add: storable_def head_ok_def fits_signed_def)
  show head: "head_ok e (stored_body m)"
    using head_ok_resized [OF ok(5,1,2,3)] by (simp add: head_ok_def e_def)
  have "me_store_size e = record_size (bi_version m) e (stored_body m) (inner_topic m) (bi_properties_string m)"
    by (simp add: e_def)
  from whole_record_reads(1) [OF head ok(1-4) this]
  show len: "me_store_size e = int (length (whole_record (bi_version m) e (stored_body m) (inner_topic m) (bi_properties_string m)))"
    by simp
  have "4 \<le> length (whole_record (bi_version m) e (stored_body m) (inner_topic m) (bi_properties_string m))"
    by (simp add: whole_record_def record_head_def)
  with len show "0 < inner_size m" by (simp add: e_def)
qed

lemma moved_record_reads:
  assumes "storable m" "fits_signed 8 off" "fits_signed 8 ts" "pos < 2 ^ 63"
  defines "e \<equiv> (bi_ext m)\<lparr>me_store_size := inner_size m, me_queue_offset := off, me_commit_log_offset := int pos, me_store_timestamp := ts\<rparr>"
  shows "decode env True False False False False
      (whole_record (bi_version m) e (stored_body m) (inner_topic m) (bi_properties_string m) @ rest) =
    Some (Some (read_as e (stored_body m) (inner_topic m) (properties_loop (bi_properties_string m) [])), rest)"
proof -
  have ok: "length (stored_body m) < 2 ^ 31 - 2 ^ 17" "topic_fits (bi_version m) (inner_topic m)"
    "length (bi_properties_string m) < 2 ^ 15" "valid_utf8 (bi_properties_string m)"
    using assms(1) by (simp_all add: storable_def)
  have "fits_signed 8 (int pos)" using assms(4) by (simp add: fits_signed_def)
  then have head: "head_ok e (stored_body m)"
    using encoded_record(1) [OF assms(1)] assms(2,3) by (simp add: head_ok_def e_def)
  have "me_store_size e = record_size (bi_version m) e (stored_body m) (inner_topic m) (bi_properties_string m)"
    by (simp add: e_def)
  from whole_record_reads(2) [OF head ok this] show ?thesis .
qed

lemma consumed_offset_fits: "storable m \<Longrightarrow> fits_signed 8 (consumed_offset (me_sys_flag (bi_ext m)) (me_queue_offset (bi_ext m)))"
  by (simp add: storable_def head_ok_def consumed_offset_def fits_signed_def)

lemma placed_reads:
  assumes "storable m" "fits_signed 8 (me_store_timestamp (bi_ext m'))" "pos < 2 ^ 63"
  shows "decode env True False False False False
      (whole_record (bi_version m) (placed m m' pos) (stored_body m) (inner_topic m) (bi_properties_string m) @ rest) =
    Some (Some (read_as (placed m m' pos) (stored_body m) (inner_topic m) (properties_loop (bi_properties_string m) [])), rest)"
  using moved_record_reads [OF assms(1) consumed_offset_fits [OF assms(1)] assms(2,3)] by (simp add: placed_def)

lemma put_message_encoded:
  assumes "\<not> ha_unimplemented cfg (prepare_message env cfg now m)" "assigned env cfg now m cl = (m', qo)"
    "storable m'" "\<not> sc_enabled_append_prop_crc (cc_store cfg)"
    "length (stored_body m') \<le> as_usize (sc_max_message_size (cc_store cfg))"
    "inner_size m' \<le> room_for_body (sc_max_message_size (cc_store cfg))"
    "\<not> (sc_enable_multi_dispatch (cc_store cfg) \<and> is_multi_dispatch_msg m')"
  shows "put_message_encode env cfg now m cl = Returned (cl\<lparr>cl_offsets := qo\<rparr>, Inr (m',
    whole_record (bi_version m') ((bi_ext m')\<lparr>me_store_size := inner_size m', me_commit_log_offset := 0\<rparr>)
      (stored_body m') (inner_topic m') (bi_properties_string m')))"
  using encode_record_bytes [OF assms(3), of "new_encoder (cc_store cfg)"] assms(4-7) assms(2) [unfolded assigned_def]
  unfolding put_message_encode_def Let_def if_not_P [OF assms(1)] by (simp add: new_encoder_def)

text \<open>The append of a record by a message of the same flags: the record need not be the one of the message.\<close>

lemma put_message_append_stores:
  fixes t :: i64
  assumes ok: "cl_ok cfg cl" and rec: "rec = whole_record v e body topic props" "head_ok e body" "me_store_size e = int (length rec)"
    and flag: "me_sys_flag e = me_sys_flag (bi_ext m)" and crc: "\<not> sc_enabled_append_prop_crc (cc_store cfg)"
    and multi: "\<not> (sc_enable_multi_dispatch (cc_store cfg) \<and> is_multi_dispatch_msg m)"
    and room: "length rec + 8 \<le> room (cl_queue cl)" "growable (cl_queue cl)"
  defines "pos \<equiv> fq_base (cl_queue cl) + length (fq_written (cl_queue cl))"
    and "off \<equiv> consumed_offset (me_sys_flag (bi_ext m)) (me_queue_offset (bi_ext m))"
  defines "rec' \<equiv> whole_record v (e\<lparr>me_queue_offset := off, me_commit_log_offset := int pos,
      me_store_timestamp := me_store_timestamp (bi_ext (stamped cfg t m))\<rparr>) body topic props"
  shows "\<exists>cl' r. put_message_append env cfg configs disk t flush m rec cl =
      Returned (cl', put_answer (case flush of Some st \<Rightarrow> st | None \<Rightarrow> FlushDiskTimeout) (Some r)) \<and>
    cl_ok cfg cl' \<and> ar_status r = AppendPutOk \<and> ar_wrote_offset r = int pos \<and> ar_wrote_bytes r = me_store_size e \<and>
    ar_logics_offset r = off \<and> get_message_id r = Returned (Some (build_message_id (me_store_host (bi_ext m)) (int pos))) \<and>
    fq_base (cl_queue cl') = fq_base (cl_queue cl) \<and> fq_size (cl_queue cl') = fq_size (cl_queue cl) \<and>
    fq_written (cl_queue cl') = fq_written (cl_queue cl) @ rec' \<and>
    cl_offsets cl' = increase_offset (stamped cfg t m) (get_message_num configs (stamped cfg t m)) (cl_offsets cl) \<and>
    pos mod fq_size (cl_queue cl) + length rec \<le> fq_size (cl_queue cl) \<and> pos < 2 ^ 63 \<and>
    (\<exists>q1 i f. file_for_append disk (cl_queue cl) = Returned (q1, Some i) \<and> fq_mapped_files (cl_queue cl') = (fq_mapped_files q1)[i := f] \<and>
      written f = written (fq_mapped_files q1 ! i) @ rec' \<and> (blank_rest (fq_mapped_files q1 ! i) \<longrightarrow> blank_rest f) \<and> \<not> is_full f)"
proof -
  let ?q = "cl_queue cl" and ?m = "stamped cfg t m"
  have q: "fq_ok ?q" "cc_mapped_file_size cfg = fq_size ?q" "list_all mf_live (fq_mapped_files ?q)" using ok by (simp_all add: cl_ok_def)
  obtain q1 i where a: "file_for_append disk ?q = Returned (q1, Some i)" "fq_ok q1" "Suc i = length (fq_mapped_files q1)"
    "list_all mf_live (fq_mapped_files q1)" "fq_written q1 = fq_written ?q" "fq_base q1 = fq_base ?q" "fq_size q1 = fq_size ?q"
    and fl: "mf_ok (fq_mapped_files q1 ! i)"
    and wo: "sint (mf_file_from_offset (fq_mapped_files q1 ! i)) + mf_wrote_position (fq_mapped_files q1 ! i) = int pos"
    and roomy: "nat (mf_wrote_position (fq_mapped_files q1 ! i)) + length rec + 8 \<le> unat (mf_file_size (fq_mapped_files q1 ! i))"
    and one: "pos mod fq_size ?q + length rec \<le> fq_size ?q" and p63: "pos < 2 ^ 63"
    using append_place [OF q(1,3) room(2,1), of disk] unfolding pos_def by metis
  have i64: "is_i64 (int pos)" using p63 by (rule is_i64_nat)
  have multi': "\<not> (sc_enable_multi_dispatch (cc_store cfg) \<and> is_multi_dispatch_msg ?m)"
    using multi by (simp add: is_multi_dispatch_msg_def stamped_sel)
  obtain f' r where r: "append_message env (cc_store cfg) configs \<lparr>pm_inner = ?m, pm_encoded_buff = Some rec\<rparr> (fq_mapped_files q1 ! i) =
      Returned (\<lparr>pm_inner = ?m, pm_encoded_buff = None\<rparr>, f', r)"
    and g: "mf_ok f'" "ar_status r = AppendPutOk" "ar_wrote_offset r = int pos" "ar_wrote_bytes r = me_store_size e" "ar_logics_offset r = off"
      "get_message_id r = Returned (Some (build_message_id (me_store_host (bi_ext m)) (int pos)))"
      "written f' = written (fq_mapped_files q1 ! i) @ rec'" "mf_reference_resource f' = mf_reference_resource (fq_mapped_files q1 ! i)"
      "mf_file_from_offset f' = mf_file_from_offset (fq_mapped_files q1 ! i)" "mf_file_size f' = mf_file_size (fq_mapped_files q1 ! i)"
      "blank_rest (fq_mapped_files q1 ! i) \<longrightarrow> blank_rest f'"
    using append_message_stores [OF fl _ rec(2) rec(3) [unfolded rec(1)] _ crc, of "\<lparr>pm_inner = ?m, pm_encoded_buff = Some rec\<rparr>" "int pos" env configs]
      rec(1) flag multi' roomy wo i64 by (auto simp: stamped_sel off_def rec'_def)
  have "length rec' = length rec" by (simp add: rec'_def rec(1) whole_record_def record_head_def put_front_def)
  then have "nat (mf_wrote_position f') = nat (mf_wrote_position (fq_mapped_files q1 ! i)) + length rec"
    using mf_ok_position(4) [OF g(1)] mf_ok_position(4) [OF fl] g(7) by simp
  then have nofull: "\<not> is_full f'" unfolding is_full_iff [OF g(1)] using roomy g(10) by simp
  note u = update_last_file [OF a(2,3,4) g(1,7,9,10,8)]
  define cl' where "cl' = cl\<lparr>cl_queue := update_file i f' q1,
    cl_offsets := increase_offset ?m (get_message_num configs ?m) (cl_offsets cl), cl_begin_time_in_lock := 0\<rparr>"
  have "put_message_append env cfg configs disk t flush m rec cl =
      Returned (cl', put_answer (case flush of Some st \<Rightarrow> st | None \<Rightarrow> FlushDiskTimeout) (Some r))"
    unfolding put_message_append_def Let_def stamped_def [symmetric] a(1)
    using r g(2) by (simp add: append_at_def settle_append_def put_answer_def handle_disk_flush_and_ha_def cl'_def)
  moreover have "cl_ok cfg cl'" using u(1,4,5) q(2) a(7) by (simp add: cl_ok_def cl'_def)
  ultimately show ?thesis using g(2-7,11) nofull u(2-4) a(1,5-7) one p63 by (auto simp: cl'_def update_file_def)
qed

lemma put_message_stores:
  assumes ok: "cl_ok cfg cl" and ha: "\<not> ha_unimplemented cfg (prepare_message env cfg now m)"
    and asg: "assigned env cfg now m cl = (m', qo)" and fits: "fits_log cfg m' (cl_queue cl)"
  defines "pos \<equiv> fq_base (cl_queue cl) + length (fq_written (cl_queue cl))"
  shows "\<exists>cl' r. cl_put_message env cfg configs disk now t flush m cl =
      Returned (cl', put_answer (case flush of Some st \<Rightarrow> st | None \<Rightarrow> FlushDiskTimeout) (Some r)) \<and>
    cl_ok cfg cl' \<and> ar_status r = AppendPutOk \<and> ar_wrote_offset r = int pos \<and> ar_wrote_bytes r = inner_size m' \<and>
    ar_logics_offset r = consumed_offset (me_sys_flag (bi_ext m')) (me_queue_offset (bi_ext m')) \<and>
    get_message_id r = Returned (Some (build_message_id (me_store_host (bi_ext m')) (int pos))) \<and>
    fq_base (cl_queue cl') = fq_base (cl_queue cl) \<and> fq_size (cl_queue cl') = fq_size (cl_queue cl) \<and>
    fq_written (cl_queue cl') = fq_written (cl_queue cl) @ whole_record (bi_version m') (placed m' (stamped cfg t m') pos)
      (stored_body m') (inner_topic m') (bi_properties_string m') \<and>
    cl_offsets cl' = increase_offset (stamped cfg t m') (get_message_num configs (stamped cfg t m')) qo \<and>
    pos mod fq_size (cl_queue cl) + nat (inner_size m') \<le> fq_size (cl_queue cl) \<and> pos < 2 ^ 63 \<and>
    (\<exists>q1 i f. file_for_append disk (cl_queue cl) = Returned (q1, Some i) \<and> fq_mapped_files (cl_queue cl') = (fq_mapped_files q1)[i := f] \<and>
      written f = written (fq_mapped_files q1 ! i) @ whole_record (bi_version m') (placed m' (stamped cfg t m') pos)
        (stored_body m') (inner_topic m') (bi_properties_string m') \<and> (blank_rest (fq_mapped_files q1 ! i) \<longrightarrow> blank_rest f) \<and> \<not> is_full f)"
proof -
  let ?cl = "cl\<lparr>cl_offsets := qo\<rparr>"
  let ?e = "(bi_ext m')\<lparr>me_store_size := inner_size m', me_commit_log_offset := 0\<rparr>"
  let ?rec = "whole_record (bi_version m') ?e (stored_body m') (inner_topic m') (bi_properties_string m')"
  have f: "storable m'" "\<not> sc_enabled_append_prop_crc (cc_store cfg)" "\<not> (sc_enable_multi_dispatch (cc_store cfg) \<and> is_multi_dispatch_msg m')"
    "length (stored_body m') \<le> as_usize (sc_max_message_size (cc_store cfg))"
    "inner_size m' \<le> room_for_body (sc_max_message_size (cc_store cfg))"
    "nat (inner_size m') + 8 \<le> room (cl_queue ?cl)" "growable (cl_queue ?cl)" using fits by (simp_all add: fits_log_def)
  note rec = encoded_record [OF f(1)]
  have n: "nat (inner_size m') = length ?rec" using rec(2) by simp
  have ok': "cl_ok cfg ?cl" using ok by (simp add: cl_ok_def)
  have put: "cl_put_message env cfg configs disk now t flush m cl = put_message_append env cfg configs disk t flush m' ?rec ?cl"
    unfolding cl_put_message_def put_message_encoded [OF ha asg f(1,2,4,5,3)] by simp
  show ?thesis
    using put_message_append_stores [OF ok' refl rec(1,2) _ f(2,3) f(6) [unfolded n] f(7), of env configs disk t flush]
    unfolding put n pos_def [symmetric] by (simp add: pos_def [symmetric] placed_def)
qed

text \<open>Counting of the offsets of a queue.\<close>

lemma assigned_offset:
  assumes "assigned env cfg now m cl = (m', qo)" "need_assign_offset cfg" "is_consumed (me_sys_flag (bi_ext m'))"
  shows "me_queue_offset (bi_ext m') = current_queue_offset (generate_key m') (cl_offsets cl)"
    "current_queue_offset k qo = current_queue_offset k (cl_offsets cl)"
    "consumed_offset (me_sys_flag (bi_ext m')) x = x"
proof -
  let ?m = "prepare_message env cfg now m"
  have asg: "assign_offset ?m (cl_offsets cl) = (m', qo)" using assms by (simp add: assigned_def)
  then have flag: "me_sys_flag (bi_ext ?m) = me_sys_flag (bi_ext m')" by (auto simp: assign_offset_def split: if_splits prod.splits)
  obtain v where g: "get_queue_offset (generate_key ?m) (cl_offsets cl) = (qo, v)" "m' = ?m\<lparr>bi_ext := (bi_ext ?m)\<lparr>me_queue_offset := v\<rparr>\<rparr>"
    using asg assms(3) by (auto simp: assign_offset_def flag generate_key_def split: prod.splits)
  then show "me_queue_offset (bi_ext m') = current_queue_offset (generate_key m') (cl_offsets cl)"
    "current_queue_offset k qo = current_queue_offset k (cl_offsets cl)"
    using get_queue_offset_at [OF g(1)] by (auto simp: generate_key_def)
  show "consumed_offset (me_sys_flag (bi_ext m')) x = x"
    using assms(3) by (auto simp: consumed_offset_def is_consumed_def transaction_not_type_def transaction_commit_type_def
        transaction_prepared_type_def transaction_rollback_type_def)
qed

text \<open>A message is either counted in its queue, or prepared or rolled back and stored under the offset zero.\<close>

lemma consumed_offset_unconsumed: "\<not> is_consumed f \<Longrightarrow> consumed_offset f x = 0"
  using transaction_values [of f] by (auto simp: is_consumed_def consumed_offset_def)

lemma put_offsets:
  assumes "assigned env cfg now m cl = (m', qo)"
  shows "consumed_offset (me_sys_flag (bi_ext m')) (me_queue_offset (bi_ext m')) =
      (if \<not> is_consumed (me_sys_flag (bi_ext m')) then 0
       else if need_assign_offset cfg then current_queue_offset (generate_key m') (cl_offsets cl) else me_queue_offset (bi_ext m))"
    "current_queue_offset k (increase_offset (stamped cfg t m') n qo) =
      (if is_consumed (me_sys_flag (bi_ext m')) \<and> k = generate_key m'
       then wrap_i64 (current_queue_offset k (cl_offsets cl) + n) else current_queue_offset k (cl_offsets cl))"
proof -
  let ?f = "me_sys_flag (bi_ext m')" and ?m = "prepare_message env cfg now m"
  have same: "consumed_offset ?f x = x" if "is_consumed ?f" for x
    using that by (auto simp: consumed_offset_def is_consumed_def transaction_not_type_def transaction_commit_type_def
        transaction_prepared_type_def transaction_rollback_type_def)
  have off: "me_queue_offset (bi_ext ?m) = me_queue_offset (bi_ext m)"
    by (simp add: prepare_message_def Let_def inner_delete_property_def with_v6_flags_def)
  have keep: "qo = cl_offsets cl" if "\<not> is_consumed ?f \<or> \<not> need_assign_offset cfg"
    using assms that by (auto simp: assigned_def assign_offset_def split: if_splits prod.splits)
  show "consumed_offset ?f (me_queue_offset (bi_ext m')) =
      (if \<not> is_consumed ?f then 0
       else if need_assign_offset cfg then current_queue_offset (generate_key m') (cl_offsets cl) else me_queue_offset (bi_ext m))"
    using assigned_offset(1) [OF assms] same consumed_offset_unconsumed [of ?f] assms off by (auto simp: assigned_def)
  have cur: "current_queue_offset k qo = current_queue_offset k (cl_offsets cl)"
    using keep assigned_offset(2) [OF assms] by auto
  then show "current_queue_offset k (increase_offset (stamped cfg t m') n qo) =
      (if is_consumed ?f \<and> k = generate_key m'
       then wrap_i64 (current_queue_offset k (cl_offsets cl) + n) else current_queue_offset k (cl_offsets cl))"
    by (auto simp: increase_offset_def stamped_sel generate_key_def increase_queue_offset_at)
qed

text \<open>What a read of the log gives.\<close>

definition bytes_at :: "commit_log_config \<Rightarrow> commit_log \<Rightarrow> nat \<Rightarrow> nat \<Rightarrow> bytes option" where
  "bytes_at cfg cl pos n =
     (case get_message cfg (int pos) (int n) cl of Returned (_, Some r) \<Rightarrow> Some (sr_bytes r) | _ \<Rightarrow> None)"

definition in_log :: "mapped_file_queue \<Rightarrow> nat \<Rightarrow> nat \<Rightarrow> bool" where
  "in_log q pos n \<longleftrightarrow> fq_base q \<le> pos \<and> 0 < n \<and> pos + n \<le> fq_base q + length (fq_written q) \<and>
     pos mod fq_size q + n \<le> fq_size q"

lemma bytes_at_log:
  "cl_ok cfg cl \<Longrightarrow> in_log (cl_queue cl) pos n \<Longrightarrow>
     bytes_at cfg cl pos n = Some (take n (drop (pos - fq_base (cl_queue cl)) (fq_written (cl_queue cl))))"
  using get_message_reads [of cfg cl pos n] by (auto simp: bytes_at_def in_log_def)

lemma bytes_at_grows:
  assumes "cl_ok cfg cl" "cl_ok cfg cl'" "fq_base (cl_queue cl') = fq_base (cl_queue cl)" "fq_size (cl_queue cl') = fq_size (cl_queue cl)"
    "fq_written (cl_queue cl') = fq_written (cl_queue cl) @ d" "in_log (cl_queue cl) pos n"
  shows "bytes_at cfg cl' pos n = bytes_at cfg cl pos n"
proof -
  have "in_log (cl_queue cl') pos n" using assms(3-6) by (simp add: in_log_def)
  then show ?thesis
    using bytes_at_log [OF assms(1,6)] bytes_at_log [OF assms(2)] assms(3,5,6) by (simp add: in_log_def)
qed

text \<open>The batch as it is encoded.\<close>

definition batch_ready :: "commit_log_config \<Rightarrow> i64 \<Rightarrow> message_ext_batch \<Rightarrow> message_ext_broker_inner" where
  "batch_ready cfg now b =
     (mb_inner b)\<lparr>bi_ext := with_v6_flags ((bi_ext (mb_inner b))\<lparr>me_store_timestamp := now\<rparr>),
       bi_version := choose_version cfg (inner_topic (mb_inner b))\<rparr>"

lemma with_v6_flags_sel:
  "me_message (with_v6_flags e) = me_message e" "me_store_host (with_v6_flags e) = me_store_host e"
  "me_queue_offset (with_v6_flags e) = me_queue_offset e" "me_queue_id (with_v6_flags e) = me_queue_id e"
  by (simp_all add: with_v6_flags_def Let_def)

lemma with_v6_flags_transaction:
  "get_transaction_value (me_sys_flag (with_v6_flags e)) = get_transaction_value (me_sys_flag e)"
  by (simp add: with_v6_flags_def get_transaction_value_def bornhost_v6_flag_def storehostaddress_v6_flag_def
      transaction_rollback_type_def bit.conj_disj_distrib2 Let_def)

definition fits_batch_log :: "commit_log_config \<Rightarrow> message_ext_batch \<Rightarrow> message_ext_broker_inner \<Rightarrow> message list \<Rightarrow> mapped_file_queue \<Rightarrow> bool" where
  "fits_batch_log cfg b m xs q \<longleftrightarrow> get_transaction_value (me_sys_flag (bi_ext (mb_inner b))) = transaction_not_type \<and>
     get_delay_time_level (me_message (bi_ext (mb_inner b))) \<le> 0 \<and>
     m_body (me_message (bi_ext (mb_inner b))) = encode_messages xs \<and> xs \<noteq> [] \<and> length xs < 2 ^ 15 \<and>
     list_all (fits_batch m) xs \<and> batch_ok m \<and> \<not> sc_enabled_append_prop_crc (cc_store cfg) \<and>
     length (concat (map put_message_bytes xs)) \<le> as_usize (sc_max_message_size (cc_store cfg)) \<and>
     length (message_properties_to_string (m_properties (me_message (bi_ext (mb_inner b))))) < 2 ^ 15 \<and>
     length (records m xs) + 8 \<le> room q \<and> growable q \<and> fq_base q + length (fq_written q) + 2 ^ 31 < 2 ^ 63"

lemma put_messages_stores:
  assumes ok: "cl_ok cfg cl" and ha: "\<not> ha_unimplemented cfg (batch_ready cfg now b)"
    and fits: "fits_batch_log cfg b (batch_ready cfg now b) xs (cl_queue cl)"
  defines "pos \<equiv> fq_base (cl_queue cl) + length (fq_written (cl_queue cl))"
    and "off \<equiv> current_queue_offset (generate_key (mb_inner b)) (cl_offsets cl)"
  shows "\<exists>cl' r. put_messages cfg disk now t flush b cl =
      Returned (cl', put_answer (case flush of Some st \<Rightarrow> st | None \<Rightarrow> FlushDiskTimeout) (Some r)) \<and> cl_ok cfg cl' \<and>
    ar_wrote_offset r = int pos \<and> ar_wrote_bytes r = int (length (records (batch_ready cfg now b) xs)) \<and>
    get_message_id r = Returned (Some (join_ids (replicate (length xs) (build_message_id (me_store_host (bi_ext (mb_inner b))) 0)))) \<and>
    fq_written (cl_queue cl') = fq_written (cl_queue cl) @ stored_batch (batch_ready cfg now b) off t (int pos) xs \<and>
    in_log (cl_queue cl') pos (length (records (batch_ready cfg now b) xs)) \<and> fq_base (cl_queue cl') = fq_base (cl_queue cl) \<and>
    current_queue_offset (generate_key (mb_inner b)) (cl_offsets cl') = wrap_i64 (off + int (length xs))"
proof -
  let ?q = "cl_queue cl" and ?m = "batch_ready cfg now b" and ?enc = "new_encoder (cc_store cfg)" and ?k = "generate_key (mb_inner b)"
  have q: "fq_ok ?q" "cc_mapped_file_size cfg = fq_size ?q" "list_all mf_live (fq_mapped_files ?q)" using ok by (simp_all add: cl_ok_def)
  have sel: "me_message (bi_ext ?m) = me_message (bi_ext (mb_inner b))" "me_store_host (bi_ext ?m) = me_store_host (bi_ext (mb_inner b))"
    "me_queue_id (bi_ext ?m) = me_queue_id (bi_ext (mb_inner b))"
    by (simp_all add: batch_ready_def with_v6_flags_sel)
  have f: "list_all (fits_batch ?m) xs" "batch_ok ?m" "xs \<noteq> []" "length (records ?m xs) + 8 \<le> room ?q" "growable ?q" "length xs < 2 ^ 15"
    and trans: "get_transaction_value (me_sys_flag (bi_ext (mb_inner b))) = transaction_not_type" "get_delay_time_level (me_message (bi_ext (mb_inner b))) \<le> 0"
    and p63: "pos + 2 ^ 31 < 2 ^ 63"
    using fits by (simp_all add: fits_batch_log_def pos_def)
  define ctx where "ctx = \<lparr>pc_topic_queue_table_key = generate_key ?m, pc_phy_pos = replicate (length xs) 0, pc_batch_size = int (length xs)\<rparr>"
  have enc: "encode_batch ?enc (b\<lparr>mb_inner := ?m\<rparr>) \<lparr>pc_topic_queue_table_key = [], pc_phy_pos = [], pc_batch_size = 0\<rparr> =
      Some (?enc\<lparr>byte_buf := []\<rparr>, ctx\<lparr>pc_topic_queue_table_key := []\<rparr>, Some (records ?m xs))"
    using encode_batch_records [of "b\<lparr>mb_inner := ?m\<rparr>" xs ?enc "\<lparr>pc_topic_queue_table_key = [], pc_phy_pos = [], pc_batch_size = 0\<rparr>"] fits
    by (simp add: fits_batch_log_def sel new_encoder_def ctx_def)
  have cons: "is_consumed (me_sys_flag (bi_ext ?m))"
    using trans(1) by (simp add: is_consumed_def batch_ready_def with_v6_flags_transaction)
  obtain qo where qo: "get_queue_offset ?k (cl_offsets cl) = (qo, off)" "current_queue_offset ?k qo = off"
    using get_queue_offset_at [of ?k "cl_offsets cl"] unfolding off_def by (metis prod.exhaust)
  define m2 where "m2 = ?m\<lparr>bi_ext := (bi_ext ?m)\<lparr>me_queue_offset := off, me_store_timestamp := t\<rparr>\<rparr>"
  have m2: "me_sys_flag (bi_ext m2) = me_sys_flag (bi_ext ?m)" "me_store_host (bi_ext m2) = me_store_host (bi_ext ?m)"
    "me_queue_offset (bi_ext m2) = off" "me_store_timestamp (bi_ext m2) = t" "generate_key m2 = ?k"
    by (simp_all add: m2_def generate_key_def sel)
  have asg: "assign_offset ?m (cl_offsets cl) = (?m\<lparr>bi_ext := (bi_ext ?m)\<lparr>me_queue_offset := off\<rparr>\<rparr>, qo)"
    using qo(1) cons by (simp add: assign_offset_def sel generate_key_def)
  obtain q1 i where a: "file_for_append disk ?q = Returned (q1, Some i)" "fq_ok q1" "Suc i = length (fq_mapped_files q1)"
    "list_all mf_live (fq_mapped_files q1)" "fq_written q1 = fq_written ?q" "fq_base q1 = fq_base ?q" "fq_size q1 = fq_size ?q"
    and fl: "mf_ok (fq_mapped_files q1 ! i)"
    and wo: "sint (mf_file_from_offset (fq_mapped_files q1 ! i)) + mf_wrote_position (fq_mapped_files q1 ! i) = int pos"
    and roomy: "nat (mf_wrote_position (fq_mapped_files q1 ! i)) + length (records ?m xs) + 8 \<le> unat (mf_file_size (fq_mapped_files q1 ! i))"
    and one: "pos mod fq_size ?q + length (records ?m xs) \<le> fq_size ?q"
    using append_place [OF q(1,3) f(5,4), of disk] unfolding pos_def by metis
  have "int (pos + 2 ^ 31) < int (2 ^ 63)" using p63 by (simp only: of_nat_less_iff)
  then have i63: "0 \<le> int pos" "int pos + 2 ^ 31 < 2 ^ 63" by simp_all
  let ?p = "\<lparr>pb_batch = b\<lparr>mb_inner := m2\<rparr>, pb_encoded_buff = Some (records ?m xs)\<rparr>"
  obtain f' ctx' r where r: "append_messages ?p ctx (fq_mapped_files q1 ! i) = Returned (?p\<lparr>pb_encoded_buff := None\<rparr>, ctx', f', r)"
    and g: "mf_ok f'" "ar_status r = AppendPutOk" "ar_wrote_offset r = int pos" "ar_wrote_bytes r = int (length (records ?m xs))"
      "pc_batch_size ctx' = int (length xs)"
      "get_message_id r = Returned (Some (join_ids (replicate (length xs) (build_message_id (me_store_host (bi_ext ?m)) 0))))"
      "written f' = written (fq_mapped_files q1 ! i) @ stored_batch ?m off t (int pos) xs"
      "mf_file_from_offset f' = mf_file_from_offset (fq_mapped_files q1 ! i)" "mf_file_size f' = mf_file_size (fq_mapped_files q1 ! i)"
      "mf_reference_resource f' = mf_reference_resource (fq_mapped_files q1 ! i)"
    using append_messages_stores [OF fl, of ?p ?m xs ctx, OF _ _ _ f(1-3) _ _ roomy wo i63] m2 by (auto simp: ctx_def)
  note u = update_last_file [OF a(2,3,4) g(1,7,8,9,10)]
  define cl' where "cl' = cl\<lparr>cl_queue := update_file i f' q1, cl_offsets := increase_offset m2 (int (length xs)) qo, cl_begin_time_in_lock := 0\<rparr>"
  have n16: "wrap_i16 (int (length xs)) = int (length xs)" by (rule wrap_i16_nat [OF f(6)])
  have ifs: "\<not> get_transaction_value (me_sys_flag ((bi_ext (mb_inner b))\<lparr>me_store_timestamp := now\<rparr>)) \<noteq> transaction_not_type"
    "\<not> get_delay_time_level (me_message ((bi_ext (mb_inner b))\<lparr>me_store_timestamp := now\<rparr>)) > 0"
    using trans by simp_all
  have ready: "(mb_inner b)\<lparr>bi_ext := with_v6_flags ((bi_ext (mb_inner b))\<lparr>me_store_timestamp := now\<rparr>),
      bi_version := choose_version cfg (m_topic (me_message ((bi_ext (mb_inner b))\<lparr>me_store_timestamp := now\<rparr>)))\<rparr> = ?m"
    by (simp add: batch_ready_def)
  have put: "put_messages cfg disk now t flush b cl =
      Returned (cl', put_answer (case flush of Some st \<Rightarrow> st | None \<Rightarrow> FlushDiskTimeout) (Some r))"
    unfolding put_messages_def Let_def if_not_P [OF ifs(1)] if_not_P [OF ifs(2)] ready if_not_P [OF ha] enc option.case prod.case asg a(1)
    using r g(2,5) by (simp add: ctx_def m2_def append_batch_at_def settle_append_def put_answer_def handle_disk_flush_and_ha_def cl'_def n16)
  have "cl_ok cfg cl'" using u(1,4,5) q(2) a(7) by (simp add: cl_ok_def cl'_def)
  moreover have "0 < length xs" using f(3) by simp
  then have "0 < length (records ?m xs)" using records_length [OF f(1,2)] by linarith
  then have "in_log (cl_queue cl') pos (length (records ?m xs))"
    using u(2-4) one a(5-7) by (simp add: in_log_def cl'_def length_stored_batch pos_def)
  moreover have "current_queue_offset ?k (cl_offsets cl') = wrap_i64 (off + int (length xs))"
    using cons qo(2) m2(5) by (simp add: cl'_def increase_offset_def m2(1) increase_queue_offset_at generate_key_def [symmetric])
  ultimately show ?thesis
    using put g(3,4,6) u(2,3) a(5,6) by (intro exI [of _ cl'] exI [of _ r]) (simp add: cl'_def sel)
qed

text \<open>Data for examples: an empty log with files of four kilobytes.\<close>

definition sample_log_config :: commit_log_config where
  "sample_log_config = \<lparr>cc_store = default_store_config, cc_mapped_file_size = 4096, cc_duplication_enable = False,
     cc_auto_message_version = True, cc_broker_role = AsyncMaster, cc_enable_controller_mode = False,
     cc_enable_slave_acting_master = False, cc_check_crc_on_recover = False, cc_force_verify_prop_crc = False,
     cc_broker_duplication_enable = False, cc_message_index_enable = True, cc_message_index_safe = False,
     cc_enable_rocksdb_store = False\<rparr>"

definition sample_log :: commit_log where
  "sample_log = commit_log_new sample_log_config ''d'' (ck_new []) qo_new"

lemma sample_log_ok: "cl_ok sample_log_config sample_log" "room (cl_queue sample_log) = 4096" "growable (cl_queue sample_log)"
proof -
  have "cl_queue sample_log = fq_new ''d'' 4096" by (simp add: sample_log_def commit_log_new_def sample_log_config_def)
  then show "cl_ok sample_log_config sample_log" "room (cl_queue sample_log) = 4096" "growable (cl_queue sample_log)"
    by (simp_all add: cl_ok_def fq_ok_def room_def growable_def fq_new_def fq_size_def fq_base_def sample_log_config_def)
qed

lemma sample_message_ready:
  "assigned sample_crates sample_log_config 5 (sample_broker_inner MsgV1) sample_log =
     ((sample_broker_inner MsgV1)\<lparr>bi_ext := sample_stored\<lparr>me_store_timestamp := 5, me_queue_offset := 0\<rparr>\<rparr>,
      qo_new\<lparr>qo_topic_queue_table := [([84, 45, 48], 0)]\<rparr>)"
  "\<not> ha_unimplemented sample_log_config m"
proof -
  have body: "body_crc32 sample_crates x = 0" for x by (simp add: body_crc32_def sample_crates_def)
  have prep: "prepare_message sample_crates sample_log_config 5 (sample_broker_inner MsgV1) =
      (sample_broker_inner MsgV1)\<lparr>bi_ext := sample_stored\<lparr>me_store_timestamp := 5\<rparr>\<rparr>"
    by (simp add: prepare_message_def body sample_log_config_def default_store_config_def sample_broker_inner_def
        sample_stored_def sample_inner_def message_ext_default_def choose_version_def with_v6_flags_def Let_def)
  have key: "topic_queue_key [84] 0 = [84, 45, 48]"
    by (simp add: topic_queue_key_def str_bytes_def show_int_def show_nat.simps)
  have "is_consumed 0" by (simp add: is_consumed_def get_transaction_value_def transaction_not_type_def)
  then show "assigned sample_crates sample_log_config 5 (sample_broker_inner MsgV1) sample_log =
     ((sample_broker_inner MsgV1)\<lparr>bi_ext := sample_stored\<lparr>me_store_timestamp := 5, me_queue_offset := 0\<rparr>\<rparr>,
      qo_new\<lparr>qo_topic_queue_table := [([84, 45, 48], 0)]\<rparr>)"
    unfolding assigned_def prep
    by (simp add: need_assign_offset_def sample_log_config_def assign_offset_def sample_broker_inner_def sample_stored_def
        sample_inner_def message_ext_default_def key sample_log_def commit_log_new_def qo_new_def get_queue_offset_def
        entry_or_zero_def hm_insert_fresh)
  show "\<not> ha_unimplemented sample_log_config m"
    by (simp add: ha_unimplemented_def need_handle_ha_def sample_log_config_def)
qed

lemma sample_message_fits:
  assumes "fits_signed 8 t"
  defines "m \<equiv> (sample_broker_inner MsgV1)\<lparr>bi_ext := sample_stored\<lparr>me_store_timestamp := t, me_queue_offset := 0\<rparr>\<rparr>"
  shows "storable m" "inner_size m = 98" "is_consumed (me_sys_flag (bi_ext m))" "stored_body m = [1, 2]"
    "\<not> (sc_enable_multi_dispatch default_store_config \<and> is_multi_dispatch_msg m)"
    "max_message_body_size (new_encoder default_store_config) = 4194304"
    "max_message_size (new_encoder default_store_config) = 4259840"
proof -
  show "storable m"
    using sample_storable [of MsgV1] assms
    by (simp add: m_def storable_def sample_broker_inner_def head_ok_def stored_body_def fits_signed_def)
  show "stored_body m = [1, 2]" by (simp add: m_def stored_body_def sample_stored_def sample_inner_def)
  then show "inner_size m = 98"
    by (simp add: m_def sample_broker_inner_def sample_stored_def sample_inner_def message_ext_default_def
        cal_msg_length_def host_length_def wrap_i32_def)
  show "is_consumed (me_sys_flag (bi_ext m))"
    by (simp add: m_def sample_stored_def message_ext_default_def is_consumed_def get_transaction_value_def transaction_not_type_def)
  show "\<not> (sc_enable_multi_dispatch default_store_config \<and> is_multi_dispatch_msg m)" by (simp add: default_store_config_def)
  show "max_message_body_size (new_encoder default_store_config) = 4194304"
    "max_message_size (new_encoder default_store_config) = 4259840"
    using sample_sizes by (simp_all add: new_encoder_def default_store_config_def)
qed

text \<open>The sample message, sent to a queue of its topic.\<close>

definition sample_of_queue :: "i32 \<Rightarrow> message_ext_broker_inner" where
  "sample_of_queue i = (sample_broker_inner MsgV1)\<lparr>bi_ext := sample_stored\<lparr>me_queue_id := i\<rparr>\<rparr>"

definition sample_ready :: "i32 \<Rightarrow> message_ext_broker_inner" where
  "sample_ready i = (sample_broker_inner MsgV1)\<lparr>bi_ext := sample_stored\<lparr>me_queue_id := i, me_store_timestamp := 5, me_queue_offset := 0\<rparr>\<rparr>"

lemma sample_of_queue_assigned:
  assumes "\<forall>k. current_queue_offset k (cl_offsets cl) = 0"
  shows "\<exists>qo. assigned sample_crates sample_log_config 5 (sample_of_queue i) cl = (sample_ready i, qo) \<and> (\<forall>k. current_queue_offset k qo = 0)"
proof -
  have body: "body_crc32 sample_crates x = 0" for x by (simp add: body_crc32_def sample_crates_def)
  have prep: "prepare_message sample_crates sample_log_config 5 (sample_of_queue i) =
      (sample_broker_inner MsgV1)\<lparr>bi_ext := sample_stored\<lparr>me_queue_id := i, me_store_timestamp := 5\<rparr>\<rparr>"
    by (simp add: prepare_message_def body sample_log_config_def default_store_config_def sample_broker_inner_def sample_of_queue_def
        sample_stored_def sample_inner_def message_ext_default_def choose_version_def with_v6_flags_def Let_def)
  have con: "is_consumed 0" by (simp add: is_consumed_def get_transaction_value_def transaction_not_type_def)
  obtain qo v where g: "get_queue_offset (topic_queue_key [84] i) (cl_offsets cl) = (qo, v)" by fastforce
  then have v: "v = 0" "\<forall>k. current_queue_offset k qo = 0" using get_queue_offset_at [OF g] assms by auto
  have "assigned sample_crates sample_log_config 5 (sample_of_queue i) cl = (sample_ready i, qo)"
    unfolding assigned_def prep
    using con g v(1) by (simp add: need_assign_offset_def sample_log_config_def assign_offset_def sample_broker_inner_def sample_stored_def
        sample_inner_def message_ext_default_def sample_ready_def)
  with v(2) show ?thesis by blast
qed

lemma sample_ready_fits:
  "fits_log sample_log_config (sample_ready 0) (cl_queue sample_log)" "inner_size (sample_ready i) = 98"
  "fits_log sample_log_config (sample_ready 1) (cl_queue sample_log)"
proof -
  let ?m = "(sample_broker_inner MsgV1)\<lparr>bi_ext := sample_stored\<lparr>me_store_timestamp := 5, me_queue_offset := 0\<rparr>\<rparr>"
  have "fits_signed 8 5" by (simp add: fits_signed_def)
  note s = sample_message_fits [OF this]
  have body: "stored_body (sample_ready j) = [1, 2]" for j by (simp add: sample_ready_def stored_body_def sample_stored_def sample_inner_def)
  have len: "inner_size (sample_ready j) = inner_size ?m" for j using body s(4) by (simp add: sample_ready_def)
  then show "inner_size (sample_ready i) = 98" using s(2) by simp
  have "fits_log sample_log_config (sample_ready j) (cl_queue sample_log)" if "fits_signed 4 j" for j
    using s(1,4) that sample_log_ok(2,3) sample_sizes len [of j] s(2) body [of j]
    by (simp add: fits_log_def sample_log_config_def default_store_config_def storable_def head_ok_def sample_ready_def)
  then show "fits_log sample_log_config (sample_ready 0) (cl_queue sample_log)" "fits_log sample_log_config (sample_ready 1) (cl_queue sample_log)"
    by (simp_all add: fits_signed_def)
qed

lemma grown_max_offset:
  assumes ok: "cl_ok cfg cl'" and q: "fq_base (cl_queue cl') = b" "fq_written (cl_queue cl') = w @ rec" and ne: "0 < length rec"
  shows "get_max_offset cl' = int (b + length w) + int (length rec)"
proof -
  have "fq_mapped_files (cl_queue cl') \<noteq> []" using q(2) ne by (auto simp: fq_written_def)
  then show ?thesis using fq_max_offset [of "cl_queue cl'"] ok q by (simp add: get_max_offset_def cl_ok_def)
qed

section \<open>Statements\<close>



text \<open>
  C35. Two puts that the runtime runs in turn on one thread can store one message twice and the other never. The encoder belongs to the thread, its
  buffer is shared and not copied, and a put waits for the lock of the log after it has encoded. If another put, of a message of
  another queue, is encoded on the thread meanwhile, the first put appends the record of the other message, with its own queue offset, and answers that its message is stored at that place:
  the place decodes to the topic, queue, body and properties of the other message. Both messages are
  fit for the log and have the same system flags.
\<close>

theorem overwritten_buffer_stores_other_message:
  assumes "cl_ok cfg cl" and "\<not> ha_unimplemented cfg (prepare_message env cfg now a)"
    and "\<not> ha_unimplemented cfg (prepare_message env cfg now' b)"
    and "assigned env cfg now a cl = (ma, qo)" and "assigned env cfg now' b (cl\<lparr>cl_offsets := qo\<rparr>) = (mb, qo')"
    and "fits_log cfg ma (cl_queue cl)" and "fits_log cfg mb (cl_queue cl)"
    and "me_sys_flag (bi_ext mb) = me_sys_flag (bi_ext ma)" and "fits_signed 8 t"
  shows "\<exists>cla clb buf_a buf_b cl' r pos. put_message_encode env cfg now a cl = Returned (cla, Inr (ma, buf_a)) \<and>
    put_message_encode env cfg now' b cla = Returned (clb, Inr (mb, buf_b)) \<and>
    put_message_append env cfg configs disk t flush ma buf_b clb =
      Returned (cl', put_answer (case flush of Some st \<Rightarrow> st | None \<Rightarrow> FlushDiskTimeout) (Some r)) \<and>
    cl_ok cfg cl' \<and> ar_status r = AppendPutOk \<and> ar_wrote_offset r = int pos \<and>
    get_message_id r = Returned (Some (build_message_id (me_store_host (bi_ext ma)) (int pos))) \<and>
    ar_logics_offset r = consumed_offset (me_sys_flag (bi_ext ma)) (me_queue_offset (bi_ext ma)) \<and>
    map_option (decode env True False False False False) (bytes_at cfg cl' pos (nat (inner_size mb))) =
      Some (Some (Some (read_as ((placed mb (stamped cfg t ma) pos)\<lparr>me_queue_offset := ar_logics_offset r\<rparr>)
        (stored_body mb) (inner_topic mb) (properties_loop (bi_properties_string mb) [])), []))"
proof -
  let ?cla = "cl\<lparr>cl_offsets := qo\<rparr>" and ?clb = "cl\<lparr>cl_offsets := qo'\<rparr>" and ?off = "consumed_offset (me_sys_flag (bi_ext ma)) (me_queue_offset (bi_ext ma))"
  let ?rec = "\<lambda>m. whole_record (bi_version m) ((bi_ext m)\<lparr>me_store_size := inner_size m, me_commit_log_offset := 0\<rparr>)
    (stored_body m) (inner_topic m) (bi_properties_string m)"
  let ?pos = "fq_base (cl_queue cl) + length (fq_written (cl_queue cl))"
  let ?e = "(placed mb (stamped cfg t ma) ?pos)\<lparr>me_queue_offset := ?off\<rparr>"
  let ?new = "whole_record (bi_version mb) ?e (stored_body mb) (inner_topic mb) (bi_properties_string mb)"
  have fa: "storable ma" "\<not> (sc_enable_multi_dispatch (cc_store cfg) \<and> is_multi_dispatch_msg ma)"
    and fb: "storable mb" "\<not> sc_enabled_append_prop_crc (cc_store cfg)" "nat (inner_size mb) + 8 \<le> room (cl_queue ?clb)" "growable (cl_queue ?clb)"
    using assms(6,7) by (simp_all add: fits_log_def)
  have ea: "put_message_encode env cfg now a cl = Returned (?cla, Inr (ma, ?rec ma))"
    by (rule put_message_encoded [OF assms(2,4)]) (use assms(6) in \<open>simp_all add: fits_log_def\<close>)
  have "put_message_encode env cfg now' b ?cla = Returned (?cla\<lparr>cl_offsets := qo'\<rparr>, Inr (mb, ?rec mb))"
    by (rule put_message_encoded [OF assms(3,5)]) (use assms(7) in \<open>simp_all add: fits_log_def\<close>)
  then have eb: "put_message_encode env cfg now' b ?cla = Returned (?clb, Inr (mb, ?rec mb))" by simp
  note rec = encoded_record [OF fb(1)]
  have n: "nat (inner_size mb) = length (?rec mb)" using rec(2) by simp
  have okb: "cl_ok cfg ?clb" using assms(1) by (simp add: cl_ok_def)
  have same: "cl_queue ?clb = cl_queue cl" by simp
  have flag: "me_sys_flag ((bi_ext mb)\<lparr>me_store_size := inner_size mb, me_commit_log_offset := 0\<rparr>) = me_sys_flag (bi_ext ma)"
    using assms(8) by simp
  have set: "(bi_ext mb)\<lparr>me_store_size := inner_size mb, me_queue_offset := ?off, me_commit_log_offset := int ?pos,
      me_store_timestamp := me_store_timestamp (bi_ext (stamped cfg t ma))\<rparr> = ?e" by (simp add: placed_def)
  have moved: "(bi_ext mb)\<lparr>me_store_size := inner_size mb, me_commit_log_offset := 0, me_queue_offset := ?off, me_commit_log_offset := int ?pos,
      me_store_timestamp := me_store_timestamp (bi_ext (stamped cfg t ma))\<rparr> = ?e" by (simp add: placed_def)
  obtain cl' r where put: "put_message_append env cfg configs disk t flush ma (?rec mb) ?clb =
      Returned (cl', put_answer (case flush of Some st \<Rightarrow> st | None \<Rightarrow> FlushDiskTimeout) (Some r))"
    and ok': "cl_ok cfg cl'" and r: "ar_status r = AppendPutOk" "ar_wrote_offset r = int ?pos" "ar_logics_offset r = ?off"
      "get_message_id r = Returned (Some (build_message_id (me_store_host (bi_ext ma)) (int ?pos)))"
    and q: "fq_base (cl_queue cl') = fq_base (cl_queue cl)" "fq_size (cl_queue cl') = fq_size (cl_queue cl)"
      "fq_written (cl_queue cl') = fq_written (cl_queue cl) @ ?new"
    and one: "?pos mod fq_size (cl_queue cl) + length (?rec mb) \<le> fq_size (cl_queue cl)" "?pos < 2 ^ 63"
    using put_message_append_stores [OF okb refl rec(1,2) flag fb(2) fa(2) fb(3) [unfolded n] fb(4), of env configs disk t flush]
    unfolding same moved by blast
  have len: "length ?new = length (?rec mb)" by (simp add: whole_record_def record_head_def put_front_def placed_def)
  have "in_log (cl_queue cl') ?pos (nat (inner_size mb))"
    using one(1) encoded_record(3) [OF fb(1)] q len unfolding n by (simp add: in_log_def n [symmetric])
  from bytes_at_log [OF ok' this] have bytes: "bytes_at cfg cl' ?pos (nat (inner_size mb)) = Some ?new" using q len n by simp
  have "fits_signed 8 (me_store_timestamp (bi_ext (stamped cfg t ma)))" using assms(9) fa(1) by (simp add: stamped_def storable_def head_ok_def)
  from moved_record_reads [OF fb(1) consumed_offset_fits [OF fa(1)] this one(2), of env "[]", unfolded set append_Nil2]
  have "decode env True False False False False ?new =
      Some (Some (read_as ?e (stored_body mb) (inner_topic mb) (properties_loop (bi_properties_string mb) [])), [])"
    .
  with bytes have got: "map_option (decode env True False False False False) (bytes_at cfg cl' ?pos (nat (inner_size mb))) =
      Some (Some (Some (read_as ((placed mb (stamped cfg t ma) ?pos)\<lparr>me_queue_offset := ar_logics_offset r\<rparr>)
        (stored_body mb) (inner_topic mb) (properties_loop (bi_properties_string mb) [])), []))" unfolding r(3) by simp
  show ?thesis
    by (intro exI conjI, rule ea, rule eb, rule put, rule ok', rule r(1), rule r(2), rule r(4), rule r(3), rule got)
qed

theorem overwritten_buffer_stores_other_message_witness:
  "\<exists>ma buf_a mb buf_b cla clb cl' r pos.
    put_message_encode sample_crates sample_log_config 5 (sample_of_queue 1) sample_log = Returned (cla, Inr (ma, buf_a)) \<and>
    put_message_encode sample_crates sample_log_config 5 (sample_of_queue 0) cla = Returned (clb, Inr (mb, buf_b)) \<and>
    put_message_append sample_crates sample_log_config [] (\<lambda>_. []) 7 (Some PutOk) ma buf_b clb = Returned (cl', put_answer PutOk (Some r)) \<and>
    ar_wrote_offset r = int pos \<and> ar_logics_offset r = 0 \<and>
    (\<exists>e. map_option (decode sample_crates True False False False False) (bytes_at sample_log_config cl' pos 98) = Some (Some (Some e, [])) \<and>
      me_queue_id e = 0 \<and> me_commit_log_offset e = int pos)"
proof -
  have t: "fits_signed 8 7" by (simp add: fits_signed_def)
  have zero: "\<forall>k. current_queue_offset k (cl_offsets sample_log) = 0"
    by (simp add: current_queue_offset_def sample_log_def commit_log_new_def qo_new_def)
  obtain qa where a: "assigned sample_crates sample_log_config 5 (sample_of_queue 1) sample_log = (sample_ready 1, qa)"
    "\<forall>k. current_queue_offset k qa = 0" using sample_of_queue_assigned [OF zero] by blast
  have "\<forall>k. current_queue_offset k (cl_offsets (sample_log\<lparr>cl_offsets := qa\<rparr>)) = 0" using a(2) by simp
  from sample_of_queue_assigned [OF this, of 0] obtain qb
    where b: "assigned sample_crates sample_log_config 5 (sample_of_queue 0) (sample_log\<lparr>cl_offsets := qa\<rparr>) = (sample_ready 0, qb)" by blast
  have flags: "me_sys_flag (bi_ext (sample_ready 0)) = me_sys_flag (bi_ext (sample_ready 1))" by (simp add: sample_ready_def)
  have facts: "inner_size (sample_ready 0) = 98" "me_queue_id (bi_ext (sample_ready 0)) = 0" "me_queue_offset (bi_ext (sample_ready 1)) = 0"
    using sample_ready_fits(2) [of 0] by (simp_all add: sample_ready_def)
  obtain cla clb buf_a buf_b cl' r pos where w:
    "put_message_encode sample_crates sample_log_config 5 (sample_of_queue 1) sample_log = Returned (cla, Inr (sample_ready 1, buf_a))"
    "put_message_encode sample_crates sample_log_config 5 (sample_of_queue 0) cla = Returned (clb, Inr (sample_ready 0, buf_b))"
    "put_message_append sample_crates sample_log_config [] (\<lambda>_. []) 7 (Some PutOk) (sample_ready 1) buf_b clb = Returned (cl', put_answer PutOk (Some r))"
    "ar_wrote_offset r = int pos" "ar_logics_offset r = consumed_offset (me_sys_flag (bi_ext (sample_ready 1))) (me_queue_offset (bi_ext (sample_ready 1)))"
    "map_option (decode sample_crates True False False False False) (bytes_at sample_log_config cl' pos (nat (inner_size (sample_ready 0)))) =
      Some (Some (Some (read_as ((placed (sample_ready 0) (stamped sample_log_config 7 (sample_ready 1)) pos)\<lparr>me_queue_offset := ar_logics_offset r\<rparr>)
        (stored_body (sample_ready 0)) (inner_topic (sample_ready 0)) (properties_loop (bi_properties_string (sample_ready 0)) [])), []))"
    using overwritten_buffer_stores_other_message [OF sample_log_ok(1) sample_message_ready(2,2) a(1) b sample_ready_fits(3,1) flags t,
        of "[]" "\<lambda>_. []" "Some PutOk"] unfolding option.case by blast
  have off: "ar_logics_offset r = 0" using w(5) facts(3) by (simp add: consumed_offset_def)
  show ?thesis
    by (intro exI conjI, rule w(1), rule w(2), rule w(3), rule w(4), rule off, rule w(6) [unfolded facts(1), simplified nat_numeral])
       (simp_all add: read_as_def placed_def facts)
qed

text \<open>
  C34. A message that does not fit the rest of the last file is never stored: the append takes the
  encoded record out of the message and answers that the file has ended, and the second append, to the
  new file, finds the record gone and panics.
\<close>

theorem put_at_end_of_file_panics:
  assumes "cl_ok cfg cl" and "\<not> ha_unimplemented cfg (prepare_message env cfg now m)"
    and "assigned env cfg now m cl = (m', qo)" and "storable m'" and "\<not> sc_enabled_append_prop_crc (cc_store cfg)"
    and "\<not> (sc_enable_multi_dispatch (cc_store cfg) \<and> is_multi_dispatch_msg m')"
    and "length (stored_body m') \<le> as_usize (sc_max_message_size (cc_store cfg))"
    and "inner_size m' \<le> room_for_body (sc_max_message_size (cc_store cfg))" and "inner_size m' + 8 < 2 ^ 31"
    and "growable (cl_queue cl)" and "fq_mapped_files (cl_queue cl) \<noteq> []"
    and "\<not> is_full (last (fq_mapped_files (cl_queue cl)))" and "room (cl_queue cl) < nat (inner_size m') + 8"
  shows "cl_put_message env cfg configs disk now t flush m cl = Panicked"
proof -
  let ?q = "cl_queue cl" and ?m = "stamped cfg t m'" and ?enc = "new_encoder (cc_store cfg)"
  let ?e = "(bi_ext m')\<lparr>me_store_size := inner_size m', me_commit_log_offset := 0\<rparr>"
  let ?rec = "whole_record (bi_version m') ?e (stored_body m') (inner_topic m') (bi_properties_string m')"
  let ?i = "length (fq_mapped_files ?q) - 1" and ?f = "last (fq_mapped_files ?q)"
  have q: "fq_ok ?q" "list_all mf_live (fq_mapped_files ?q)" using assms(1) by (simp_all add: cl_ok_def)
  note rec = encoded_record [OF assms(4)]
  have enc: "encoder_encode ?enc m' = Some (?enc\<lparr>byte_buf := ?rec\<rparr>, None)"
    using encode_record_bytes [OF assms(4), of ?enc] assms(5-8) by (simp add: new_encoder_def)
  have i: "Suc ?i = length (fq_mapped_files ?q)" "fq_mapped_files ?q ! ?i = ?f" "?i < length (fq_mapped_files ?q)"
    using assms(11) by (simp_all add: last_conv_nth)
  have app: "file_for_append disk ?q = Returned (?q, Some ?i)"
    using assms(11,12) i(2) by (simp add: file_for_append_def get_last_mapped_file_def)
  note l = fq_ok_last [OF q(1) assms(11)]
  have sz: "unat (mf_file_size ?f) = fq_size ?q" using l(3) by (simp add: fq_size_def)
  obtain rest where i32: "get_i32 ?rec = Some (inner_size m', rest)"
    using whole_record_size_field [OF rec(1), of "bi_version m'" "inner_topic m'" "bi_properties_string m'" "[]"] by auto
  have mult: "unat (mf_file_from_offset ?f) = 0 \<or> unat (mf_file_size ?f) \<le> unat (mf_file_from_offset ?f)"
  proof -
    obtain b where "fq_base ?q = b * fq_size ?q" using q(1) by (auto simp: fq_ok_def mult.commute elim: dvdE)
    then have "unat (mf_file_from_offset ?f) = (b + ?i) * fq_size ?q" using l(4) by (simp add: distrib_right)
    then show ?thesis unfolding sz by (cases "b + ?i") simp_all
  qed
  have bound: "unat (mf_file_from_offset ?f) + unat (mf_file_size ?f) < 2 ^ 63"
    unfolding sz l(4) using fq_ok_nth(5) [OF q(1) i(3), unfolded mult_Suc] by linarith
  have le: "nat (mf_wrote_position ?f) \<le> fq_size ?q" "0 \<le> mf_wrote_position ?f" using l(2) sz by (simp_all add: mf_ok_def)
  then have "fq_size ?q < nat (mf_wrote_position ?f) + nat (inner_size m') + 8"
    using assms(13) unfolding room_def using assms(11,12) by simp
  then have "int (fq_size ?q) < int (nat (mf_wrote_position ?f) + nat (inner_size m') + 8)" by (simp only: of_nat_less_iff)
  then have over: "int (unat (mf_file_size ?f)) < mf_wrote_position ?f + inner_size m' + 8" unfolding sz using le(2) rec(3) by simp
  have n32: "is_i32 (inner_size m' + 8)" using rec(3) assms(9) by (simp add: is_i32_def)
  have multi: "\<not> (sc_enable_multi_dispatch (cc_store cfg) \<and> is_multi_dispatch_msg ?m)"
    using assms(6) by (simp add: is_multi_dispatch_msg_def stamped_sel)
  obtain f' r d where e: "append_message env (cc_store cfg) configs \<lparr>pm_inner = ?m, pm_encoded_buff = Some ?rec\<rparr> ?f =
      Returned (\<lparr>pm_inner = ?m, pm_encoded_buff = None\<rparr>, f', r)" "mf_ok f'" "is_full f'" "ar_status r = AppendEndOfFile"
      "written f' = written ?f @ d" "mf_file_from_offset f' = mf_file_from_offset ?f" "mf_file_size f' = mf_file_size ?f"
      "mf_reference_resource f' = mf_reference_resource ?f"
    using append_message_end [OF l(2) assms(12) _ i32 _ n32 over mult bound, of "\<lparr>pm_inner = ?m, pm_encoded_buff = Some ?rec\<rparr>" "cc_store cfg" env configs]
      multi by auto
  let ?q1 = "update_file ?i f' ?q"
  note u = update_last_file [OF q(1) i(1) q(2) e(2), unfolded i(2), OF e(5-8)]
  have "fq_mapped_files ?q1 \<noteq> []" "length (fq_mapped_files ?q1) = length (fq_mapped_files ?q)" using assms(11) by (simp_all add: update_file_def)
  then obtain q2 i2 where w: "get_last_mapped_file_mut_start_offset disk 0 True ?q1 = Returned (q2, Some i2)" "fq_ok q2"
    "Suc i2 = length (fq_mapped_files q2)" "\<not> is_full (fq_mapped_files q2 ! i2)"
    using get_last_for_writing [OF u(1), of 0 disk] assms(10) u(3,4) by (auto simp: growable_def)
  have "i2 < length (fq_mapped_files q2)" using w(3) by simp
  from append_message_taken [OF fq_ok_nth(3) [OF w(2) this] w(4), of "\<lparr>pm_inner = ?m, pm_encoded_buff = None\<rparr>" env "cc_store cfg" configs]
  have "append_at env (cc_store cfg) configs \<lparr>pm_inner = ?m, pm_encoded_buff = None\<rparr> q2 i2 = Panicked" by (simp add: append_at_def)
  then show ?thesis
    unfolding cl_put_message_def put_message_encoded [OF assms(2-5,7,8,6)] put_message_append_def Let_def stamped_def [symmetric]
    using e(1,4) w(1) i(2) app by (simp add: append_at_def settle_append_def)
qed

theorem put_at_end_of_file_panics_witness:
  "cl_put_message sample_crates (sample_log_config\<lparr>cc_mapped_file_size := 64\<rparr>) [] (\<lambda>_. []) 5 7 (Some PutOk)
     (sample_broker_inner MsgV1) (sample_log\<lparr>cl_queue := sample_queue\<rparr>) = Panicked"
proof -
  let ?cfg = "sample_log_config\<lparr>cc_mapped_file_size := 64\<rparr>" and ?cl = "sample_log\<lparr>cl_queue := sample_queue\<rparr>"
  let ?m = "(sample_broker_inner MsgV1)\<lparr>bi_ext := sample_stored\<lparr>me_store_timestamp := 5, me_queue_offset := 0\<rparr>\<rparr>"
  have "fits_signed 8 5" by (simp add: fits_signed_def)
  note s = sample_message_fits [OF this]
  have same: "assigned sample_crates ?cfg 5 (sample_broker_inner MsgV1) ?cl = assigned sample_crates sample_log_config 5 (sample_broker_inner MsgV1) sample_log"
    "ha_unimplemented ?cfg m = ha_unimplemented sample_log_config m" for m
    by (simp_all add: assigned_def need_assign_offset_def prepare_message_def choose_version_def ha_unimplemented_def need_handle_ha_def)
  have live: "list_all mf_live (fq_mapped_files sample_queue)" by (simp add: sample_queue_def sample_file_def mf_live_def rc_new_def)
  have ok: "cl_ok ?cfg ?cl" using sample_queue_ok live by (simp add: cl_ok_def sample_queue_base)
  have files: "\<not> is_full (last (fq_mapped_files sample_queue))" "room sample_queue = 54" "growable sample_queue"
    by (simp_all add: sample_queue_def sample_file_def is_full_def room_def fq_size_def growable_def fq_base_def)
  have cfg: "cc_store ?cfg = default_store_config" "\<not> sc_enabled_append_prop_crc default_store_config"
    "sc_max_message_size default_store_config = 4194304" by (simp_all add: sample_log_config_def default_store_config_def)
  show ?thesis
    by (rule put_at_end_of_file_panics [OF ok _ same(1) [unfolded sample_message_ready(1)] s(1)])
       (use sample_message_ready(2) s files sample_queue_base sample_sizes in \<open>simp_all add: same(2) cfg\<close>)
qed

text \<open>
  C36. The messages of a batch are stored under one offset: a batch of \<open>n\<close> messages that fits its file is
  stored and read back whole, at consecutive places of the log, but every record carries the queue
  offset of the first message, while the next offset of the queue moves on by \<open>n\<close>. The ids answered for
  the messages are \<open>n\<close> times the id of place zero, since they are computed before the places are known.
\<close>

theorem batch_shares_one_offset:
  assumes "cl_ok cfg cl" and "\<not> ha_unimplemented cfg (batch_ready cfg now b)"
    and "fits_batch_log cfg b (batch_ready cfg now b) xs (cl_queue cl)" and "fits_signed 8 t"
    and "fits_signed 8 (current_queue_offset (generate_key (mb_inner b)) (cl_offsets cl))"
  shows "\<exists>cl' r pos ms. put_messages cfg disk now t flush b cl =
      Returned (cl', put_answer (case flush of Some st \<Rightarrow> st | None \<Rightarrow> FlushDiskTimeout) (Some r)) \<and>
    ar_wrote_offset r = int pos \<and> pos = fq_base (cl_queue cl) + length (fq_written (cl_queue cl)) \<and>
    map_option (decodes_batch env True False) (bytes_at cfg cl' pos (nat (ar_wrote_bytes r))) = Some (Some ms) \<and>
    map (m_body \<circ> me_message) ms = map (\<lambda>x. if the (m_body x) = [] then None else Some (the (m_body x))) xs \<and>
    map me_commit_log_offset ms = batch_positions (batch_ready cfg now b) (int pos) xs \<and>
    map me_queue_offset ms = replicate (length xs) (current_queue_offset (generate_key (mb_inner b)) (cl_offsets cl)) \<and>
    current_queue_offset (generate_key (mb_inner b)) (cl_offsets cl') =
      wrap_i64 (current_queue_offset (generate_key (mb_inner b)) (cl_offsets cl) + int (length xs)) \<and>
    get_message_id r = Returned (Some (join_ids (replicate (length xs) (build_message_id (me_store_host (bi_ext (mb_inner b))) 0))))"
proof -
  let ?m = "batch_ready cfg now b" and ?pos = "fq_base (cl_queue cl) + length (fq_written (cl_queue cl))"
  let ?off = "current_queue_offset (generate_key (mb_inner b)) (cl_offsets cl)"
  have f: "list_all (fits_batch ?m) xs" "batch_ok ?m" "?pos + 2 ^ 31 < 2 ^ 63" "length (records ?m xs) + 8 \<le> room (cl_queue cl)"
    using assms(3) by (simp_all add: fits_batch_log_def)
  obtain cl' r where p: "put_messages cfg disk now t flush b cl =
      Returned (cl', put_answer (case flush of Some st \<Rightarrow> st | None \<Rightarrow> FlushDiskTimeout) (Some r))" "cl_ok cfg cl'"
    "ar_wrote_offset r = int ?pos" "ar_wrote_bytes r = int (length (records ?m xs))"
    "get_message_id r = Returned (Some (join_ids (replicate (length xs) (build_message_id (me_store_host (bi_ext (mb_inner b))) 0))))"
    "fq_written (cl_queue cl') = fq_written (cl_queue cl) @ stored_batch ?m ?off t (int ?pos) xs"
    "in_log (cl_queue cl') ?pos (length (records ?m xs))" "fq_base (cl_queue cl') = fq_base (cl_queue cl)"
    "current_queue_offset (generate_key (mb_inner b)) (cl_offsets cl') = wrap_i64 (?off + int (length xs))"
    using put_messages_stores [OF assms(1-3), of disk t flush] by blast
  have "bytes_at cfg cl' ?pos (length (records ?m xs)) = Some (stored_batch ?m ?off t (int ?pos) xs)"
    using bytes_at_log [OF p(2,7)] p(6,8) by (simp add: length_stored_batch)
  moreover have "room (cl_queue cl) < 2 ^ 31" using assms(1) by (auto simp: cl_ok_def fq_ok_def room_def)
  then have "int (?pos + length (records ?m xs)) < int (2 ^ 63)" using f(3,4) by (simp only: of_nat_less_iff)
  then have "decodes_batch env True False (stored_batch ?m ?off t (int ?pos) xs) = Some (batch_read ?m ?off t (int ?pos) xs)"
    unfolding decodes_batch_def
    by (intro decodes_stored_batch [OF f(1,2) _ assms(5,4)]) (simp_all add: length_stored_batch records_length [OF f(1,2)])
  ultimately show ?thesis
    using p(1,3,4,5,9) batch_read_offsets [of ?m ?off t "int ?pos" xs]
    by (intro exI [of _ cl'] exI [of _ r] exI [of _ ?pos] exI [of _ "batch_read ?m ?off t (int ?pos) xs"]) simp
qed

theorem batch_shares_one_offset_witness:
  "\<exists>cl' r pos ms. put_messages sample_log_config (\<lambda>_. []) 5 7 (Some PutOk) sample_batch sample_log = Returned (cl', put_answer PutOk (Some r)) \<and>
     map_option (decodes_batch sample_crates True False) (bytes_at sample_log_config cl' pos (nat (ar_wrote_bytes r))) = Some (Some ms) \<and>
     map (m_body \<circ> me_message) ms = [Some [1, 2], Some [1, 2]] \<and> map me_queue_offset ms = [0, 0]"
proof -
  let ?m = "batch_ready sample_log_config 5 sample_batch" and ?xs = "[sample_inner, sample_inner]"
  have v4: "with_v6_flags (sample_stored\<lparr>me_message := x, me_store_timestamp := 5\<rparr>) = sample_stored\<lparr>me_message := x, me_store_timestamp := 5\<rparr>" for x
    by (simp add: with_v6_flags_def sample_stored_def message_ext_default_def)
  have m: "bi_ext ?m = (bi_ext (mb_inner sample_batch))\<lparr>me_store_timestamp := 5\<rparr>"
    by (simp add: batch_ready_def sample_batch_def v4)
  have flags: "me_sys_flag (bi_ext (mb_inner sample_batch)) = 0" "inner_topic (mb_inner sample_batch) = [84]"
    "m_properties (me_message (bi_ext (mb_inner sample_batch))) = [([75], [119])]" "m_body sample_inner = Some [1, 2]"
    "message_properties_to_string [([75], [119])] = [75, 1, 119, 2]"
    by (simp_all add: sample_batch_def sample_stored_def sample_inner_def message_ext_default_def message_properties_to_string_def
        name_value_separator_def property_separator_def)
  then have ver: "bi_version ?m = MsgV1" by (simp add: batch_ready_def choose_version_def)
  have ok: "batch_ok ?m" "fits_batch ?m sample_inner"
    using sample_batch_ok(1,2) flags(2) by (simp_all add: batch_ok_def fits_batch_def head_ok_def m ver topic_fits_def merged_text_def fits_signed_def)
  have text8: "length (merged_text ?m sample_inner) = 8"
    by (simp add: merged_text_def m flags(3,5)) (simp add: sample_inner_def sample_properties)
  have "int (length (inner_record ?m sample_inner)) = 102"
    unfolding inner_record_head(2) [OF ok(2,1)]
    by (simp add: inner_ext_def m ver flags(1,2,4) text8 cal_msg_length_def host_length_def wrap_i32_def)
  then have len: "length (records ?m ?xs) = 204" by simp
  have bytes: "length (put_message_bytes sample_inner) = 28"
    by (simp add: put_message_bytes_def encode_message_def sample_inner_def sample_properties)
  have zero: "current_queue_offset k (cl_offsets sample_log) = 0" "fq_base (cl_queue sample_log) = 0" "fq_written (cl_queue sample_log) = []" for k
    by (simp_all add: current_queue_offset_def sample_log_def commit_log_new_def qo_new_def fq_base_def fq_written_def fq_new_def)
  have lvl: "get_delay_time_level (me_message (bi_ext (mb_inner sample_batch))) = 0"
    by (simp add: get_delay_time_level_def flags(3) hm_get_def property_delay_time_level_def str_bytes_def)
  have fits: "fits_batch_log sample_log_config sample_batch ?m ?xs (cl_queue sample_log)"
    using ok len bytes sample_log_ok(2,3) sample_batch_ok(3) lvl
    by (simp add: fits_batch_log_def flags(1,3,5) zero sample_log_config_def default_store_config_def get_transaction_value_def transaction_not_type_def)
  have f8: "fits_signed 8 7" "fits_signed 8 0" by (simp_all add: fits_signed_def)
  have ha: "\<not> ha_unimplemented sample_log_config ?m" by (rule sample_message_ready(2))
  from batch_shares_one_offset [OF sample_log_ok(1) ha fits f8(1), of "\<lambda>_. []" "Some PutOk" sample_crates] f8(2)
  show ?thesis unfolding zero by (fastforce simp: flags(4))
qed

end
