(* ===== verification/Commit_Log_Recovery.thy ===== *)
theory Commit_Log_Recovery
  imports Commit_Log_Properties
begin

text \<open>
  Recovery of the commit log after a start (\<open>rocketmq-store/src/log_file/commit_log.rs\<close>): reading a
  record into a request for the dispatchers (\<open>check_message_and_return_size\<close>,
  \<open>rocketmq-store/src/base/dispatch_request.rs\<close>), and the normal and the abnormal recovery. A panic
  is \<open>None\<close> while a record is read. What recovery asks of the consume queues is part of its answer.
\<close>

section \<open>Dispatch requests\<close>

record dispatch_request =
  dr_topic :: bytes
  dr_queue_id :: i32
  dr_commit_log_offset :: i64
  dr_msg_size :: i32
  dr_tags_code :: i64
  dr_store_timestamp :: i64
  dr_consume_queue_offset :: i64
  dr_keys :: bytes
  dr_success :: bool
  dr_uniq_key :: "bytes option"
  dr_sys_flag :: u32
  dr_prepared_transaction_offset :: i64
  dr_properties_map :: "properties option"
  dr_bit_map :: "bytes option"
  dr_buffer_size :: i32
  dr_msg_base_offset :: i64
  dr_batch_size :: int
  dr_next_reput_from_offset :: i64
  dr_offset_id :: "bytes option"

definition dispatch_default :: dispatch_request where
  "dispatch_default = \<lparr>dr_topic = [], dr_queue_id = 0, dr_commit_log_offset = 0, dr_msg_size = 0, dr_tags_code = 0,
     dr_store_timestamp = 0, dr_consume_queue_offset = 0, dr_keys = [], dr_success = False, dr_uniq_key = None,
     dr_sys_flag = 0, dr_prepared_transaction_offset = 0, dr_properties_map = None, dr_bit_map = None, dr_buffer_size = -1,
     dr_msg_base_offset = -1, dr_batch_size = 1, dr_next_reput_from_offset = -1, dr_offset_id = None\<rparr>"

abbreviation dispatch_failed :: "i32 \<Rightarrow> dispatch_request" where
  "dispatch_failed n \<equiv> dispatch_default\<lparr>dr_msg_size := n\<rparr>"

definition property_keys :: bytes where "property_keys = str_bytes ''KEYS''"
definition property_tags :: bytes where "property_tags = str_bytes ''TAGS''"
definition property_uniq_key :: bytes where "property_uniq_key = str_bytes ''UNIQ_KEY''"
definition property_dup_info :: bytes where "property_dup_info = str_bytes ''DUP_INFO''"
definition property_inner_base :: bytes where "property_inner_base = str_bytes ''INNER_BASE''"
definition rmq_sys_schedule_topic :: bytes where "rmq_sys_schedule_topic = str_bytes ''SCHEDULE_TOPIC_XXXX''"

text \<open>The code of the tags; for a message of the schedule topic it is the time of delivery.\<close>

definition delivery_code ::
  "bytes \<Rightarrow> i64 \<Rightarrow> i32 \<Rightarrow> (i32, i64) btmap \<Rightarrow> properties \<Rightarrow> i64 \<Rightarrow> i64 option" where
  "delivery_code topic store_timestamp max_delay_level delay_level_table props tags_code =
     (case hm_get props property_delay_time_level of
        None \<Rightarrow> Some tags_code
      | Some level \<Rightarrow>
          if topic = rmq_sys_schedule_topic then
            (case parse_signed 32 (bytes_str level) of
               None \<Rightarrow> None
             | Some n \<Rightarrow>
                 let delay_level = min n max_delay_level
                 in if delay_level > 0 then
                      (case bt_get delay_level_table delay_level of
                         Some delay \<Rightarrow> Some (wrap_i64 (delay + store_timestamp))
                       | None \<Rightarrow> Some (wrap_i64 (store_timestamp + 1000)))
                    else Some tags_code)
          else Some tags_code)"

text \<open>The properties of a record; \<open>Some None\<close> where the duplication info is refused.\<close>

definition dispatch_properties ::
  "bool \<Rightarrow> bytes \<Rightarrow> i64 \<Rightarrow> i32 \<Rightarrow> (i32, i64) btmap \<Rightarrow> properties \<Rightarrow> (i64 \<times> bytes \<times> bytes option) option option" where
  "dispatch_properties check_dup_info topic store_timestamp max_delay_level delay_level_table props =
     (if check_dup_info \<and>
         (case hm_get props property_dup_info of None \<Rightarrow> True | Some content \<Rightarrow> count_list content 0x5F \<noteq> 1)
      then Some None
      else do {
        tags_code \<leftarrow> delivery_code topic store_timestamp max_delay_level delay_level_table props
          (tags_string2tags_code (hm_get props property_tags));
        Some (Some (tags_code, (case hm_get props property_keys of Some k \<Rightarrow> k | None \<Rightarrow> []), hm_get props property_uniq_key)) })"

text \<open>The checksum property is read, but a check of it is not implemented.\<close>

definition expected_crc :: "properties \<Rightarrow> i32" where
  "expected_crc props =
     (case hm_get props property_crc32 of
        None \<Rightarrow> -1
      | Some crc \<Rightarrow> foldl (\<lambda>acc c. wrap_i32 (wrap_i32 (acc * 10) + (int c - 48) mod 256)) 0 (rev (code_points crc)))"

definition set_batch_size_if_needed :: "properties \<Rightarrow> dispatch_request \<Rightarrow> dispatch_request option" where
  "set_batch_size_if_needed props r =
     (case (hm_get props property_inner_num, hm_get props property_inner_base) of
        (Some num, Some start) \<Rightarrow> do {
          b \<leftarrow> parse_signed 64 (bytes_str start);
          n \<leftarrow> parse_signed 16 (bytes_str num);
          Some (r\<lparr>dr_msg_base_offset := b, dr_batch_size := n\<rparr>) }
      | _ \<Rightarrow> Some r)"

text \<open>The rest of a record behind its head: topic, properties, and the comparison of the sizes.\<close>

definition check_tail ::
  "commit_log_config \<Rightarrow> bool \<Rightarrow> bool \<Rightarrow> i32 \<Rightarrow> (i32, i64) btmap \<Rightarrow> message_version \<Rightarrow> i32 \<Rightarrow> i32 \<Rightarrow> dispatch_request \<Rightarrow> bytes \<Rightarrow>
   dispatch_request option" where
  "check_tail cfg check_crc check_dup_info max_delay_level delay_level_table version total_size body_len r bs = do {
     (topic_len, bs) \<leftarrow> get_topic_length version bs;
     (topic_bytes, bs) \<leftarrow> take_bytes topic_len bs;
     let topic = from_utf8_lossy topic_bytes;
     (properties_length, bs) \<leftarrow> get_i16 bs;
     (found, props) \<leftarrow>
       (if properties_length > 0 then do {
          (properties, bs) \<leftarrow> take_bytes (as_usize properties_length) bs;
          let props = string_to_message_properties (Some (from_utf8_lossy properties));
          found \<leftarrow> dispatch_properties check_dup_info topic (dr_store_timestamp r) max_delay_level delay_level_table props;
          Some (found, props) }
        else Some (Some (0, [], None), []));
     (case found of
        None \<Rightarrow> Some (dispatch_failed (-1))
      | Some (tags_code, keys, uniq_key) \<Rightarrow>
          if check_crc \<and> cc_force_verify_prop_crc cfg \<and> expected_crc props > 0 then None
          else
            let read_length = cal_msg_length version (dr_sys_flag r) body_len (wrap_i32 (int topic_len)) properties_length
            in if total_size \<noteq> read_length then Some (dispatch_failed total_size)
               else do {
                 r' \<leftarrow> set_batch_size_if_needed props (r\<lparr>dr_success := True, dr_topic := topic, dr_msg_size := total_size,
                   dr_tags_code := tags_code, dr_keys := keys, dr_uniq_key := uniq_key\<rparr>);
                 Some (r'\<lparr>dr_properties_map := Some props\<rparr>) }) }"

definition check_message_and_return_size ::
  "message_env \<Rightarrow> commit_log_config \<Rightarrow> bool \<Rightarrow> bool \<Rightarrow> bool \<Rightarrow> i32 \<Rightarrow> (i32, i64) btmap \<Rightarrow> bytes \<Rightarrow> dispatch_request option" where
  "check_message_and_return_size env cfg check_crc check_dup_info read_body max_delay_level delay_level_table bs = do {
     (total_size, bs) \<leftarrow> get_i32 bs;
     (magic_code, bs) \<leftarrow> get_i32 bs;
     if magic_code = blank_magic_code then Some (dispatch_default\<lparr>dr_success := True\<rparr>)
     else (case value_of_magic_code magic_code of
       None \<Rightarrow> Some (dispatch_failed (-1))
     | Some version \<Rightarrow> do {
         (body_crc, bs) \<leftarrow> get_u32 bs;
         (queue_id, bs) \<leftarrow> get_i32 bs;
         (flag, bs) \<leftarrow> get_i32 bs;
         (queue_offset, bs) \<leftarrow> get_i64 bs;
         (physic_offset, bs) \<leftarrow> get_i64 bs;
         (flags, bs) \<leftarrow> get_u32 bs;
         let sys_flag = of_nat flags;
         (born_time_stamp, bs) \<leftarrow> get_i64 bs;
         (born_host, bs) \<leftarrow> take_bytes (if sys_flag AND bornhost_v6_flag = 0 then 8 else 20) bs;
         (store_timestamp, bs) \<leftarrow> get_i64 bs;
         (store_host, bs) \<leftarrow> take_bytes (if sys_flag AND storehostaddress_v6_flag = 0 then 8 else 20) bs;
         (reconsume_times, bs) \<leftarrow> get_i32 bs;
         (prepared_transaction_offset, bs) \<leftarrow> get_i64 bs;
         (body_len, bs) \<leftarrow> get_i32 bs;
         (crc_ok, bs) \<leftarrow>
           (if body_len > 0 then do {
              (body, bs) \<leftarrow> take_bytes (as_usize body_len) bs;
              Some (\<not> read_body \<or> \<not> check_crc \<or> cc_force_verify_prop_crc cfg \<or> unat (body_crc32 env body) = body_crc, bs) }
            else Some (True, bs));
         (if crc_ok then
            check_tail cfg check_crc check_dup_info max_delay_level delay_level_table version total_size body_len
              (dispatch_default\<lparr>dr_queue_id := queue_id, dr_commit_log_offset := physic_offset, dr_store_timestamp := store_timestamp,
                 dr_consume_queue_offset := queue_offset, dr_sys_flag := sys_flag,
                 dr_prepared_transaction_offset := prepared_transaction_offset\<rparr>) bs
          else Some (dispatch_failed (-1))) }) }"

section \<open>Recovery\<close>

definition get_simple_message_bytes :: "nat \<Rightarrow> mapped_file \<Rightarrow> (bytes option \<times> nat) outcome" where
  "get_simple_message_bytes pos f =
     (case mf_get_bytes pos 4 f of
        Panicked \<Rightarrow> Panicked
      | Returned None \<Rightarrow> Returned (None, 0)
      | Returned (Some b) \<Rightarrow>
          (case get_i32 b of
             None \<Rightarrow> Panicked
           | Some (n, _) \<Rightarrow>
               if n \<le> 0 then Returned (None, 0)
               else (case mf_get_bytes pos (as_usize n) f of
                       Panicked \<Rightarrow> Panicked
                     | Returned r \<Rightarrow> Returned (r, as_usize n))))"

text \<open>
  The walk over the records: the file and the position in it, the offsets found so far, and the
  requests that were dispatched, the newest last.
\<close>

record recovery =
  rs_index :: nat
  rs_current_pos :: nat
  rs_process_offset :: u64
  rs_mapped_file_offset :: u64
  rs_last_valid_msg_phy_offset :: u64
  rs_dispatched :: "dispatch_request list"

text \<open>Where duplication is enabled only messages before the confirmed offset are dispatched.\<close>

definition on_commit_log_dispatch :: "bool \<Rightarrow> i64 option \<Rightarrow> nat \<Rightarrow> dispatch_request \<Rightarrow> recovery \<Rightarrow> recovery" where
  "on_commit_log_dispatch do_dispatch confirm n r s =
     (if do_dispatch \<and> (case confirm of None \<Rightarrow> True | Some c \<Rightarrow> wrap_i64 (dr_commit_log_offset r + int n) \<le> c)
      then s\<lparr>rs_dispatched := rs_dispatched s @ [r]\<rparr> else s)"

definition next_file :: "mapped_file list \<Rightarrow> recovery \<Rightarrow> recovery" where
  "next_file files s =
     s\<lparr>rs_index := Suc (rs_index s), rs_current_pos := 0, rs_mapped_file_offset := 0,
       rs_process_offset := mf_file_from_offset (files ! Suc (rs_index s))\<rparr>"

definition valid_message :: "nat \<Rightarrow> dispatch_request \<Rightarrow> recovery \<Rightarrow> recovery" where
  "valid_message n r s =
     s\<lparr>rs_current_pos := usize_add (rs_current_pos s) n,
       rs_last_valid_msg_phy_offset := rs_process_offset s + rs_mapped_file_offset s,
       rs_mapped_file_offset := rs_mapped_file_offset s + word_of_int (dr_msg_size r)\<rparr>"

lemma mf_get_bytes_Some:
  assumes "mf_get_bytes pos n f = Returned (Some b)" "0 < n" "n < 2 ^ 64"
  shows "pos < usize_add pos n" "usize_add pos n \<le> length (mf_mmapped_file f)"
proof -
  have le: "pos \<le> usize_add pos n" "usize_add pos n \<le> length (mf_mmapped_file f)"
    using assms(1) by (auto simp: mf_get_bytes_def slice_of_def slice_get_def split: if_splits)
  show "usize_add pos n \<le> length (mf_mmapped_file f)" by (rule le(2))
  show "pos < usize_add pos n"
  proof (cases "pos + n < 2 ^ 64")
    case True
    then show ?thesis using assms(2) by (simp add: usize_add_small)
  next
    case False
    have "pos < 2 ^ 64" using le(1) by (rule le_less_trans) (simp add: usize_add_def)
    then have "usize_add pos n = pos + n - 2 ^ 64" using False assms(3) by (simp add: usize_add_def mod_if)
    then show ?thesis using le(1) assms(3) False by linarith
  qed
qed

lemma be_value_less: "be_value bs < 256 ^ length bs"
proof (induction bs rule: rev_induct)
  case (snoc b bs)
  have "unat b < 256" using unsigned_less [of b] by simp
  then show ?case using snoc by simp
qed (simp add: be_value_def)

lemma get_i32_less: "get_i32 bs = Some (v, rest) \<Longrightarrow> v < 2 ^ 31"
  using be_value_less [of "take 4 bs"]
  by (auto simp: get_signed_def get_unsigned_def take_bytes_def to_signed_def split: bind_splits if_splits)

lemma simple_bytes_Some:
  assumes "get_simple_message_bytes pos f = Returned (Some b, n)"
  shows "pos < usize_add pos n" "usize_add pos n \<le> length (mf_mmapped_file f)"
proof -
  obtain b4 m rest where m: "get_i32 b4 = Some (m, rest)" "0 < m" "n = as_usize m" "mf_get_bytes pos n f = Returned (Some b)"
    using assms by (auto simp: get_simple_message_bytes_def split: outcome.splits option.splits if_splits)
  have "m < 2 ^ 31" by (rule get_i32_less [OF m(1)])
  then have "0 < n" "n < 2 ^ 64" using m(2,3) by (simp_all add: as_usize_def)
  from mf_get_bytes_Some [OF m(4) this] show "pos < usize_add pos n" "usize_add pos n \<le> length (mf_mmapped_file f)" .
qed

function recover_loop ::
  "(bytes \<Rightarrow> dispatch_request option) \<Rightarrow> bool \<Rightarrow> i64 option \<Rightarrow> mapped_file list \<Rightarrow> recovery \<Rightarrow> recovery outcome" where
  "recover_loop check do_dispatch confirm files s =
     (if rs_index s < length files then
        (case get_simple_message_bytes (rs_current_pos s) (files ! rs_index s) of
           Panicked \<Rightarrow> Panicked
         | Returned (None, _) \<Rightarrow> Returned s
         | Returned (Some msg, n) \<Rightarrow>
             (case check msg of
                None \<Rightarrow> Panicked
              | Some r \<Rightarrow>
                  if dr_success r \<and> dr_msg_size r > 0
                  then recover_loop check do_dispatch confirm files
                         (on_commit_log_dispatch do_dispatch confirm n r (valid_message n r s))
                  else if dr_success r \<and> dr_msg_size r = 0
                  then if Suc (rs_index s) \<ge> length files
                       then Returned (s\<lparr>rs_index := Suc (rs_index s), rs_current_pos := usize_add (rs_current_pos s) n\<rparr>)
                       else recover_loop check do_dispatch confirm files (next_file files s)
                  else if \<not> dr_success r then Returned (s\<lparr>rs_current_pos := usize_add (rs_current_pos s) n\<rparr>)
                  else recover_loop check do_dispatch confirm files (s\<lparr>rs_current_pos := usize_add (rs_current_pos s) n\<rparr>)))
      else Panicked)"
  by pat_completeness auto
termination
proof (relation "measures [\<lambda>(check, d, c, files, s). length files - rs_index s,
    \<lambda>(check, d, c, files, s). length (mf_mmapped_file (files ! rs_index s)) - rs_current_pos s]", goal_cases)
  case (2 check d c files s a b msg n r)
  then show ?case
    using simple_bytes_Some [of "rs_current_pos s" "files ! rs_index s" n]
    by (auto simp: on_commit_log_dispatch_def valid_message_def split: prod.splits)
next
  case (3 check d c files s a b msg n r)
  then show ?case by (auto simp: next_file_def)
next
  case (4 check d c files s a b msg n r)
  then show ?case
    using simple_bytes_Some [of "rs_current_pos s" "files ! rs_index s" n] by auto
qed auto

declare recover_loop.simps [simp del]

text \<open>What recovery asks the consume queues to do.\<close>

datatype queues_request = KeepQueues | TruncateQueues i64 | DestroyQueues

definition start_at :: "mapped_file list \<Rightarrow> nat \<Rightarrow> u64 \<Rightarrow> recovery" where
  "start_at files index last_valid =
     \<lparr>rs_index = index, rs_current_pos = 0, rs_process_offset = mf_file_from_offset (files ! index),
      rs_mapped_file_offset = 0, rs_last_valid_msg_phy_offset = last_valid, rs_dispatched = []\<rparr>"

definition finish_recovery ::
  "bool \<Rightarrow> u64 \<Rightarrow> i64 \<Rightarrow> commit_log \<Rightarrow> recovery \<Rightarrow> commit_log \<times> queues_request \<times> dispatch_request list" where
  "finish_recovery io_ok now max_phy_offset cl s =
     (let process_offset = rs_process_offset s + rs_mapped_file_offset s;
          cl' = set_confirm_offset (sint (rs_last_valid_msg_phy_offset s)) cl;
          request = (if word_of_int max_phy_offset \<ge> process_offset then TruncateQueues (sint process_offset) else KeepQueues);
          q = truncate_dirty_files io_ok now (sint process_offset)
                ((cl_queue cl')\<lparr>fq_flushed_where := process_offset, fq_committed_where := process_offset\<rparr>)
      in (cl'\<lparr>cl_queue := q\<rparr>, request, rs_dispatched s))"

definition recover_empty :: "commit_log \<Rightarrow> commit_log \<times> queues_request \<times> dispatch_request list" where
  "recover_empty cl =
     (cl\<lparr>cl_queue := (cl_queue cl)\<lparr>fq_flushed_where := 0, fq_committed_where := 0\<rparr>\<rparr>, DestroyQueues, [])"

definition recover_normally ::
  "message_env \<Rightarrow> commit_log_config \<Rightarrow> i32 \<Rightarrow> (i32, i64) btmap \<Rightarrow> bool \<Rightarrow> u64 \<Rightarrow> i64 \<Rightarrow> commit_log \<Rightarrow>
   (commit_log \<times> queues_request \<times> dispatch_request list) outcome" where
  "recover_normally env cfg max_delay_level delay_level_table io_ok now max_phy_offset cl =
     (let files = fq_mapped_files (cl_queue cl)
      in if files = [] then Returned (recover_empty cl)
         else (case get_confirm_offset cfg cl of
                 Panicked \<Rightarrow> Panicked
               | Returned last_valid \<Rightarrow>
                   (case recover_loop
                           (check_message_and_return_size env cfg (cc_check_crc_on_recover cfg) (cc_duplication_enable cfg) True
                              max_delay_level delay_level_table)
                           False None files (start_at files (length files - 3) (word_of_int last_valid)) of
                      Panicked \<Rightarrow> Panicked
                    | Returned s \<Rightarrow> Returned (finish_recovery io_ok now max_phy_offset cl s))))"

text \<open>The fields of the first record of a file, zero where the file is too short.\<close>

definition bytes_or_zero :: "nat \<Rightarrow> nat \<Rightarrow> mapped_file \<Rightarrow> bytes outcome" where
  "bytes_or_zero pos n f =
     (case mf_get_bytes pos n f of
        Panicked \<Rightarrow> Panicked | Returned (Some b) \<Rightarrow> Returned b | Returned None \<Rightarrow> Returned (replicate n 0))"

definition is_mapped_file_matched_recover :: "commit_log_config \<Rightarrow> store_checkpoint \<Rightarrow> mapped_file \<Rightarrow> bool outcome" where
  "is_mapped_file_matched_recover cfg checkpoint f =
     bind_outcome (bytes_or_zero message_magic_code_position 4 f) (\<lambda>magic.
       if fst (the (get_i32 magic)) \<noteq> message_magic_code \<and> fst (the (get_i32 magic)) \<noteq> message_magic_code_v2 then Returned False
       else if cc_enable_rocksdb_store cfg then Panicked
       else
         bind_outcome (bytes_or_zero sysflag_position 4 f) (\<lambda>flags.
           let sys_flag = (of_nat (fst (the (get_u32 flags))) :: u32);
               msg_store_time_pos = 4 + 4 + 4 + 4 + 4 + 8 + 8 + 4 + 8 + (if sys_flag AND bornhost_v6_flag = 0 then 8 else 20)
           in bind_outcome (bytes_or_zero msg_store_time_pos 8 f) (\<lambda>time.
             let store_timestamp = fst (the (get_i64 time))
             in if store_timestamp = 0 then Returned False
                else if cc_message_index_enable cfg \<and> cc_message_index_safe cfg
                then Returned (store_timestamp \<le> sint (get_min_timestamp_index checkpoint))
                else Returned (store_timestamp \<le> sint (get_min_timestamp checkpoint)))))"

fun search_back :: "(mapped_file \<Rightarrow> bool outcome) \<Rightarrow> mapped_file list \<Rightarrow> nat \<Rightarrow> nat outcome" where
  "search_back matched files 0 = Returned 0"
| "search_back matched files (Suc i) =
     (case matched (files ! i) of
        Panicked \<Rightarrow> Panicked | Returned True \<Rightarrow> Returned i | Returned False \<Rightarrow> search_back matched files i)"

definition recover_abnormally ::
  "message_env \<Rightarrow> commit_log_config \<Rightarrow> i32 \<Rightarrow> (i32, i64) btmap \<Rightarrow> bool \<Rightarrow> u64 \<Rightarrow> i64 \<Rightarrow> commit_log \<Rightarrow>
   (commit_log \<times> queues_request \<times> dispatch_request list) outcome" where
  "recover_abnormally env cfg max_delay_level delay_level_table io_ok now max_phy_offset cl =
     (let files = fq_mapped_files (cl_queue cl)
      in if files = [] then Returned (recover_empty cl)
         else if cc_enable_controller_mode cfg then Panicked
         else (case search_back (is_mapped_file_matched_recover cfg (cl_checkpoint cl)) files (length files) of
                 Panicked \<Rightarrow> Panicked
               | Returned index \<Rightarrow>
                   (case get_confirm_offset cfg cl of
                      Panicked \<Rightarrow> Panicked
                    | Returned c \<Rightarrow>
                        (case recover_loop
                                (check_message_and_return_size env cfg (cc_check_crc_on_recover cfg) (cc_duplication_enable cfg) True
                                   max_delay_level delay_level_table)
                                True (if cc_duplication_enable cfg then Some c else None) files
                                (start_at files index (mf_file_from_offset (files ! index))) of
                           Panicked \<Rightarrow> Panicked
                         | Returned s \<Rightarrow> Returned (finish_recovery io_ok now max_phy_offset cl s)))))"

section \<open>Records that are recognised\<close>

text \<open>The request for a record.\<close>

definition request_of :: "message_ext \<Rightarrow> bytes \<Rightarrow> properties \<Rightarrow> dispatch_request" where
  "request_of e topic props = dispatch_default
     \<lparr>dr_queue_id := me_queue_id e, dr_commit_log_offset := me_commit_log_offset e, dr_store_timestamp := me_store_timestamp e,
      dr_consume_queue_offset := me_queue_offset e, dr_sys_flag := me_sys_flag e,
      dr_prepared_transaction_offset := me_prepared_transaction_offset e, dr_success := True, dr_topic := topic,
      dr_msg_size := me_store_size e, dr_tags_code := tags_string2tags_code (hm_get props property_tags),
      dr_keys := (case hm_get props property_keys of Some k \<Rightarrow> k | None \<Rightarrow> []), dr_uniq_key := hm_get props property_uniq_key,
      dr_properties_map := Some props\<rparr>"

text \<open>Messages that are neither scheduled nor batches of batches, and carry no checksum property.\<close>

definition plain_properties :: "bytes \<Rightarrow> properties \<Rightarrow> bool" where
  "plain_properties topic props \<longleftrightarrow> (topic = rmq_sys_schedule_topic \<longrightarrow> hm_get props property_delay_time_level = None) \<and>
     (hm_get props property_inner_num = None \<or> hm_get props property_inner_base = None) \<and> hm_get props property_crc32 = None"

lemma check_tail_record:
  assumes topic: "topic_fits v topic" and props: "length txtb < 2 ^ 15" "valid_utf8 txtb"
    and plain: "plain_properties topic (properties_loop txtb [])"
    and size: "sz = cal_msg_length v (dr_sys_flag r) body_len (int (length topic)) (int (length txtb))"
  shows "check_tail cfg crc False lvl tbl v sz body_len r (put_topic v topic @ put_i16 (int (length txtb)) @ txtb) =
    Some (r\<lparr>dr_success := True, dr_topic := topic, dr_msg_size := sz,
      dr_tags_code := tags_string2tags_code (hm_get (properties_loop txtb []) property_tags),
      dr_keys := (case hm_get (properties_loop txtb []) property_keys of Some k \<Rightarrow> k | None \<Rightarrow> []),
      dr_uniq_key := hm_get (properties_loop txtb []) property_uniq_key, dr_properties_map := Some (properties_loop txtb [])\<rparr>)"
proof -
  let ?rest = "put_i16 (int (length txtb)) @ txtb" and ?P = "properties_loop txtb []"
  obtain n buf where n: "get_topic_length v (put_topic v topic @ ?rest) = Some (n, buf)"
    and buf: "take_bytes n buf = Some (topic, ?rest)"
    using get_put_topic [OF topic, of ?rest] by (auto split: bind_splits)
  have "n = length topic" using buf by (auto simp: take_bytes_def split: if_splits)
  moreover have "length topic < 2 ^ 31" using topic_fits_length [OF topic] by simp
  ultimately have tl: "wrap_i32 (int n) = int (length topic)" by (simp only: wrap_i32_nat)
  have fits: "fits_signed 2 (int (length txtb))" using props by (simp add: fits_signed_def)
  have utf: "from_utf8_lossy topic = topic" using topic by (intro from_utf8_lossy_valid) (simp add: topic_fits_def)
  have dp: "dispatch_properties False topic t lvl tbl ?P = Some (Some (tags_string2tags_code (hm_get ?P property_tags),
      (case hm_get ?P property_keys of Some k \<Rightarrow> k | None \<Rightarrow> []), hm_get ?P property_uniq_key))" for t
    using plain by (auto simp: dispatch_properties_def delivery_code_def plain_properties_def split: option.splits)
  have crc: "\<not> (crc \<and> cc_force_verify_prop_crc cfg \<and> expected_crc ?P > 0)" using plain by (simp add: plain_properties_def expected_crc_def)
  have bs: "set_batch_size_if_needed ?P x = Some x" for x
    using plain by (auto simp: plain_properties_def set_batch_size_if_needed_def split: option.splits)
  show ?thesis
  proof (cases "txtb = []")
    case True
    then have P: "?P = []" by (simp add: properties_loop.simps)
    show ?thesis
      unfolding check_tail_def n bind.bind_lunit prod.case buf Let_def utf get_put_signed [OF zero_less_numeral fits] tl
      using True size bs [unfolded P] P by (simp add: expected_crc_def tags_string2tags_code_def)
  next
    case False
    have props_bytes: "take_bytes (as_usize (int (length txtb))) txtb = Some (txtb, [])" using props(1) by (simp add: take_bytes_def)
    have "string_to_message_properties (Some (from_utf8_lossy txtb)) = ?P"
      using from_utf8_lossy_valid [OF props(2)] by (simp add: string_to_message_properties_def)
    then show ?thesis
      unfolding check_tail_def n bind.bind_lunit prod.case buf Let_def utf get_put_signed [OF zero_less_numeral fits] tl props_bytes
      using False size dp crc bs by simp
  qed
qed

lemma check_whole_record:
  assumes head: "head_ok e body" and body: "length body < 2 ^ 31 - 2 ^ 17" and topic: "topic_fits v topic"
    and props: "length txtb < 2 ^ 15" "valid_utf8 txtb" and plain: "plain_properties topic (properties_loop txtb [])"
    and size: "me_store_size e = record_size v e body topic txtb"
    and crc: "check_crc \<longrightarrow> me_body_crc e = body_crc32 env body"
  shows "check_message_and_return_size env cfg check_crc False True lvl tbl (whole_record v e body topic txtb) =
    Some (request_of e topic (properties_loop txtb []))"
proof -
  have fits: "fits_signed 4 (me_store_size e)" "fits_signed 4 (me_queue_id e)" "fits_signed 4 (m_flag (me_message e))"
    "fits_signed 8 (me_queue_offset e)" "fits_signed 8 (me_commit_log_offset e)"
    "fits_signed 8 (me_born_timestamp e)" "fits_signed 8 (me_store_timestamp e)"
    "fits_signed 4 (me_reconsume_times e)" "fits_signed 8 (me_prepared_transaction_offset e)"
    using head by (simp_all add: head_ok_def)
  have hosts: "length (put_host (me_born_host e)) = (if me_sys_flag e AND bornhost_v6_flag = 0 then 8 else 20)"
    "length (put_host (me_store_host e)) = (if me_sys_flag e AND storehostaddress_v6_flag = 0 then 8 else 20)"
    using head length_put_host [of "me_sys_flag e" bornhost_v6_flag "me_born_host e"]
      length_put_host [of "me_sys_flag e" storehostaddress_v6_flag "me_store_host e"]
    by (simp_all add: head_ok_def host_length_def split: if_splits)
  have bl: "fits_signed 4 (int (length body))" using body by (simp add: fits_signed_def)
  have magic: "get_magic_code v \<noteq> blank_magic_code"
    by (cases v) (simp_all add: message_magic_code_def message_magic_code_v2_def blank_magic_code_def)
  have bodies: "(if int (length body) > 0 then do {
      (b, bs) \<leftarrow> take_bytes (as_usize (int (length body))) (body @ rest);
      Some (\<not> True \<or> \<not> check_crc \<or> cc_force_verify_prop_crc cfg \<or> unat (body_crc32 env b) = unat (me_body_crc e), bs) }
      else Some (True, body @ rest)) = Some (True, rest)" for rest
    using body crc by auto
  show ?thesis
    unfolding check_message_and_return_size_def whole_record_def record_head_def put_front_def append_assoc
      get_put_signed [OF zero_less_numeral fits(1)] get_put_signed [OF zero_less_numeral magic_codes(2)] bind.bind_lunit prod.case
      if_not_P [OF magic] magic_codes(1) option.case get_put_unsigned [OF fits_u32]
      get_put_signed [OF zero_less_numeral fits(2)] get_put_signed [OF zero_less_numeral fits(3)]
      get_put_signed [OF zero_less_numeral fits(4)] get_put_signed [OF zero_less_numeral fits(5)]
      get_put_signed [OF zero_less_numeral fits(6)] get_put_signed [OF zero_less_numeral fits(7)]
      get_put_signed [OF zero_less_numeral fits(8)] get_put_signed [OF zero_less_numeral fits(9)]
      Let_def of_nat_unat take_bytes_append [OF hosts(1)] take_bytes_append [OF hosts(2)] get_put_signed [OF zero_less_numeral bl]
      bodies if_True
    by (subst check_tail_record [OF topic props plain]) (simp_all add: size request_of_def)
qed

section \<open>Walking over a file\<close>

definition recognised :: "(bytes \<Rightarrow> dispatch_request option) \<Rightarrow> bytes \<Rightarrow> bool" where
  "recognised check rec \<longleftrightarrow> (\<exists>rest. get_i32 rec = Some (int (length rec), rest)) \<and>
     (case check rec of None \<Rightarrow> False | Some r \<Rightarrow> dr_success r \<and> dr_msg_size r = int (length rec))"

text \<open>A position where no record starts, and one with the mark of the end of the file.\<close>

definition stops_at :: "mapped_file \<Rightarrow> nat \<Rightarrow> bool" where
  "stops_at f pos \<longleftrightarrow> length (mf_mmapped_file f) < pos + 4 \<or> take 4 (drop pos (mf_mmapped_file f)) = [0, 0, 0, 0]"

definition marked_at :: "mapped_file \<Rightarrow> nat \<Rightarrow> bool" where
  "marked_at f pos \<longleftrightarrow> pos + 8 \<le> length (mf_mmapped_file f) \<and>
     take 8 (drop pos (mf_mmapped_file f)) = put_i32 (int (length (mf_mmapped_file f) - pos)) @ put_i32 blank_magic_code"

definition walk_step :: "(bytes \<Rightarrow> dispatch_request option) \<Rightarrow> bool \<Rightarrow> i64 option \<Rightarrow> bytes \<Rightarrow> recovery \<Rightarrow> recovery" where
  "walk_step check d c rec s = on_commit_log_dispatch d c (length rec) (the (check rec)) (valid_message (length rec) (the (check rec)) s)"

lemma get_i32_prefix: "get_i32 rec = Some (n, rest) \<Longrightarrow> get_i32 (take 4 (rec @ rest2)) = Some (n, [])"
  by (auto simp: get_signed_def get_unsigned_def take_bytes_def split: if_splits)

lemma file_bytes:
  assumes "mf_ok f" "pos + n \<le> length (mf_mmapped_file f)"
  shows "mf_get_bytes pos n f = Returned (Some (take n (drop pos (mf_mmapped_file f))))"
  using assms by (simp add: mf_get_bytes_def mf_ok_def usize_add_small slice_of_range)

lemma simple_bytes_record:
  assumes ok: "mf_ok f" and f: "drop pos (mf_mmapped_file f) = rec @ rest" and n: "get_i32 rec = Some (int (length rec), r)"
  shows "get_simple_message_bytes pos f = Returned (Some rec, length rec)" "pos + length rec \<le> length (mf_mmapped_file f)" "0 < length rec"
proof -
  have len: "length (mf_mmapped_file f) - pos = length rec + length rest" using arg_cong [OF f, of length] by simp
  have four: "4 \<le> length rec" using n by (auto simp: get_signed_def get_unsigned_def take_bytes_def split: if_splits)
  then show "0 < length rec" by linarith
  show le: "pos + length rec \<le> length (mf_mmapped_file f)" using len four by linarith
  have lt: "length rec < 2 ^ 31" using le mf_ok_position(3) [OF ok] by linarith
  have "mf_get_bytes pos 4 f = Returned (Some (take 4 (rec @ rest)))" using file_bytes [OF ok, of pos 4] four le f by simp
  moreover have "mf_get_bytes pos (length rec) f = Returned (Some rec)" using file_bytes [OF ok le] f by simp
  moreover have "as_usize (int (length rec)) = length rec" using lt by simp
  moreover have "\<not> int (length rec) \<le> 0" using four by linarith
  ultimately show "get_simple_message_bytes pos f = Returned (Some rec, length rec)"
    unfolding get_simple_message_bytes_def by (simp only: outcome.case option.case get_i32_prefix [OF n] prod.case if_False)
qed

lemma simple_bytes_stop:
  assumes ok: "mf_ok f" and stop: "stops_at f pos" and pos: "pos \<le> length (mf_mmapped_file f)"
  shows "get_simple_message_bytes pos f = Returned (None, 0)"
proof (cases "pos + 4 \<le> length (mf_mmapped_file f)")
  case True
  then have zeros: "take 4 (drop pos (mf_mmapped_file f)) = [0, 0, 0, 0]" using stop by (simp add: stops_at_def)
  have "get_i32 [0, 0, 0, 0] = Some (0, [])" by (simp add: get_signed_def get_unsigned_def take_bytes_def be_value_def to_signed_def)
  then show ?thesis using file_bytes [OF ok True] zeros by (simp add: get_simple_message_bytes_def)
next
  case False
  have "pos + 4 < 2 ^ 64" using pos mf_ok_position(3) [OF ok] by simp
  then have "mf_get_bytes pos 4 f = Returned None" using False ok by (simp add: mf_get_bytes_def usize_add_small mf_ok_def)
  then show ?thesis by (simp add: get_simple_message_bytes_def)
qed

lemma simple_bytes_mark:
  assumes ok: "mf_ok f" and mark: "marked_at f pos"
  shows "\<exists>rest. get_simple_message_bytes pos f = Returned (Some (put_i32 (int (length (mf_mmapped_file f) - pos)) @ put_i32 blank_magic_code @ rest),
    length (mf_mmapped_file f) - pos)"
proof -
  let ?n = "length (mf_mmapped_file f) - pos" and ?m = "put_i32 (int (length (mf_mmapped_file f) - pos)) @ put_i32 blank_magic_code"
  have le: "pos + 8 \<le> length (mf_mmapped_file f)" using mark by (simp add: marked_at_def)
  have split: "drop pos (mf_mmapped_file f) = ?m @ drop 8 (drop pos (mf_mmapped_file f))"
    using mark append_take_drop_id [of 8 "drop pos (mf_mmapped_file f)"] by (simp add: marked_at_def)
  have n31: "?n < 2 ^ 31" using mf_ok_position(3) [OF ok] by linarith
  have "fits_signed 4 (int ?n)" using n31 by (simp add: fits_signed_def)
  then have "get_i32 (take 4 ?m) = Some (int ?n, [])"
    using get_put_signed [of 4 "int ?n" "[]"] by simp
  moreover have "mf_get_bytes pos 4 f = Returned (Some (take 4 ?m))"
    using file_bytes [OF ok, of pos 4] le arg_cong [OF split, of "take 4"] by simp
  moreover have "mf_get_bytes pos ?n f = Returned (Some (drop pos (mf_mmapped_file f)))" using file_bytes [OF ok, of pos ?n] le by simp
  moreover have "as_usize (int ?n) = ?n" using n31 by simp
  moreover have "\<not> int ?n \<le> 0" using le by simp
  ultimately have "get_simple_message_bytes pos f = Returned (Some (drop pos (mf_mmapped_file f)), ?n)"
    unfolding get_simple_message_bytes_def by (simp only: outcome.case option.case prod.case if_False)
  then show ?thesis by (subst (asm) split) auto
qed

lemma walk_step_fields:
  "rs_index (walk_step check d c rec s) = rs_index s" "rs_process_offset (walk_step check d c rec s) = rs_process_offset s"
  "rs_current_pos (walk_step check d c rec s) = usize_add (rs_current_pos s) (length rec)"
  "rs_mapped_file_offset (walk_step check d c rec s) = rs_mapped_file_offset s + word_of_int (dr_msg_size (the (check rec)))"
  by (simp_all add: walk_step_def on_commit_log_dispatch_def valid_message_def)

lemma walk_records:
  assumes ok: "mf_ok f" and f: "rs_index s < length files" "files ! rs_index s = f"
    and recs: "list_all (recognised check) recs" "drop (rs_current_pos s) (mf_mmapped_file f) = concat recs @ rest"
    and pos: "rs_current_pos s \<le> length (mf_mmapped_file f)" "rs_mapped_file_offset s = of_nat (rs_current_pos s)"
  shows "recover_loop check d c files s = recover_loop check d c files (fold (walk_step check d c) recs s) \<and>
    rs_index (fold (walk_step check d c) recs s) = rs_index s \<and> rs_process_offset (fold (walk_step check d c) recs s) = rs_process_offset s \<and>
    rs_current_pos (fold (walk_step check d c) recs s) = rs_current_pos s + length (concat recs) \<and>
    rs_mapped_file_offset (fold (walk_step check d c) recs s) = of_nat (rs_current_pos s + length (concat recs))"
  using f recs pos
proof (induction recs arbitrary: s)
  case Nil
  then show ?case by simp
next
  case (Cons rec recs)
  let ?s = "walk_step check d c rec s"
  obtain n r where r: "get_i32 rec = Some (int (length rec), n)" "check rec = Some r" "dr_success r" "dr_msg_size r = int (length rec)"
    using Cons.prems(3) by (auto simp: recognised_def split: option.splits)
  have split: "drop (rs_current_pos s) (mf_mmapped_file f) = rec @ concat recs @ rest" using Cons.prems(4) by simp
  note b = simple_bytes_record [OF ok split r(1)]
  have "recover_loop check d c files s = recover_loop check d c files ?s"
    using Cons.prems(1,2) b r(2-4) by (subst recover_loop.simps) (simp add: walk_step_def)
  moreover have p: "rs_current_pos ?s = rs_current_pos s + length rec"
    using b(2) mf_ok_position(3) [OF ok] by (simp add: walk_step_fields usize_add_small)
  moreover have "drop (rs_current_pos ?s) (mf_mmapped_file f) = concat recs @ rest"
    using arg_cong [OF split, of "drop (length rec)"] by (simp add: p add.commute)
  moreover have "rs_mapped_file_offset ?s = of_nat (rs_current_pos ?s)"
    using Cons.prems(6) r(2,4) p by (simp add: walk_step_fields)
  ultimately show ?case
    using Cons.IH [of ?s] Cons.prems(1-3) b(2) by (simp add: walk_step_fields add.assoc)
qed

text \<open>
  A file that holds the records and then the mark of its end, and one where nothing follows.
\<close>

definition holds_records :: "(bytes \<Rightarrow> dispatch_request option) \<Rightarrow> mapped_file \<Rightarrow> bytes list \<Rightarrow> bool" where
  "holds_records check f recs \<longleftrightarrow> list_all (recognised check) recs \<and>
     take (length (concat recs)) (mf_mmapped_file f) = concat recs"

definition marks :: "(bytes \<Rightarrow> dispatch_request option) \<Rightarrow> bool" where
  "marks check \<longleftrightarrow> (\<forall>n rest. fits_signed 4 n \<longrightarrow>
     (\<exists>r. check (put_i32 n @ put_i32 blank_magic_code @ rest) = Some r \<and> dr_success r \<and> dr_msg_size r = 0))"

definition file_start :: "mapped_file list \<Rightarrow> nat \<Rightarrow> recovery \<Rightarrow> bool" where
  "file_start files i s \<longleftrightarrow> i < length files \<and> rs_index s = i \<and> rs_current_pos s = 0 \<and>
     rs_process_offset s = mf_file_from_offset (files ! i) \<and> rs_mapped_file_offset s = 0"

definition requests :: "(bytes \<Rightarrow> dispatch_request option) \<Rightarrow> bool \<Rightarrow> bytes list \<Rightarrow> dispatch_request list" where
  "requests check d recs = (if d then map (the \<circ> check) recs else [])"

lemma check_marks: "marks (check_message_and_return_size env cfg crc dup body lvl tbl)"
proof -
  have "fits_signed 4 blank_magic_code" by (simp add: fits_signed_def blank_magic_code_def)
  then show ?thesis
    by (simp add: marks_def check_message_and_return_size_def dispatch_default_def get_put_signed)
qed

lemma fold_walk_dispatched:
  "rs_dispatched (fold (walk_step check d None) recs s) = rs_dispatched s @ requests check d recs"
  by (induction recs arbitrary: s)
    (simp_all add: walk_step_def on_commit_log_dispatch_def valid_message_def requests_def)

lemma fold_walk_last:
  assumes "recs \<noteq> []"
  shows "rs_last_valid_msg_phy_offset (fold (walk_step check d c) recs s) =
    rs_process_offset (fold (walk_step check d c) (butlast recs) s) + rs_mapped_file_offset (fold (walk_step check d c) (butlast recs) s)"
proof -
  have "recs = butlast recs @ [last recs]" using assms by simp
  then have "fold (walk_step check d c) recs s = walk_step check d c (last recs) (fold (walk_step check d c) (butlast recs) s)"
    using fold_append [of "walk_step check d c" "butlast recs" "[last recs]"] by simp
  then show ?thesis by (simp add: walk_step_def on_commit_log_dispatch_def valid_message_def)
qed

lemma holds_records_drop: "holds_records check f recs \<Longrightarrow> drop 0 (mf_mmapped_file f) = concat recs @ drop (length (concat recs)) (mf_mmapped_file f)"
  unfolding holds_records_def drop_0 by (metis append_take_drop_id)

lemma holds_records_le: "holds_records check f recs \<Longrightarrow> length (concat recs) \<le> length (mf_mmapped_file f)"
  unfolding holds_records_def by (metis length_take min.cobounded1 order.refl)

lemma walk_file:
  fixes d :: bool
  assumes ok: "mf_ok (files ! i)" and recs: "holds_records check (files ! i) recs" and s: "file_start files i s"
  defines "s' \<equiv> fold (walk_step check d None) recs s"
  shows "recover_loop check d None files s = recover_loop check d None files s'" "rs_index s' = i"
    "rs_process_offset s' = mf_file_from_offset (files ! i)" "rs_current_pos s' = length (concat recs)"
    "rs_mapped_file_offset s' = of_nat (length (concat recs))" "rs_dispatched s' = rs_dispatched s @ requests check d recs"
proof -
  have all: "list_all (recognised check) recs" using recs by (simp add: holds_records_def)
  have s0: "rs_index s < length files" "files ! rs_index s = files ! i" "rs_current_pos s = 0"
    "rs_mapped_file_offset s = of_nat (rs_current_pos s)" "rs_process_offset s = mf_file_from_offset (files ! i)" "rs_index s = i"
    using s by (simp_all add: file_start_def)
  note w = walk_records [OF ok s0(1,2) all _ _ s0(4), unfolded s0(3), OF holds_records_drop [OF recs], of d None]
  then show "recover_loop check d None files s = recover_loop check d None files s'" "rs_index s' = i"
    "rs_process_offset s' = mf_file_from_offset (files ! i)" "rs_current_pos s' = length (concat recs)"
    "rs_mapped_file_offset s' = of_nat (length (concat recs))"
    using s0 by (simp_all add: s'_def)
  show "rs_dispatched s' = rs_dispatched s @ requests check d recs" by (simp add: s'_def fold_walk_dispatched)
qed

lemma walk_closed_file:
  assumes ok: "mf_ok (files ! i)" and recs: "holds_records check (files ! i) recs"
    and mark: "marked_at (files ! i) (length (concat recs))" "marks check"
    and s: "file_start files i s" and more_files: "Suc i < length files"
  shows "\<exists>s'. recover_loop check d None files s = recover_loop check d None files s' \<and> file_start files (Suc i) s' \<and>
    rs_dispatched s' = rs_dispatched s @ requests check d recs"
proof -
  let ?s = "fold (walk_step check d None) recs s"
  note w = walk_file [OF ok recs s, of d]
  let ?n = "length (mf_mmapped_file (files ! i)) - length (concat recs)"
  obtain rest where b: "get_simple_message_bytes (rs_current_pos ?s) (files ! i) =
      Returned (Some (put_i32 (int ?n) @ put_i32 blank_magic_code @ rest), ?n)"
    using simple_bytes_mark [OF ok mark(1)] w(4) by auto
  have "fits_signed 4 (int ?n)" using mf_ok_position(3) [OF ok] by (simp add: fits_signed_def)
  then obtain r where r: "check (put_i32 (int ?n) @ put_i32 blank_magic_code @ rest) = Some r" "dr_success r" "dr_msg_size r = 0"
    using mark(2) by (auto simp: marks_def)
  have "recover_loop check d None files ?s = recover_loop check d None files (next_file files ?s)"
    using w(2) b r more_files by (subst recover_loop.simps) simp
  moreover have "file_start files (Suc i) (next_file files ?s)" using w(2) more_files by (simp add: file_start_def next_file_def)
  moreover have "rs_dispatched (next_file files ?s) = rs_dispatched s @ requests check d recs" using w(6) by (simp add: next_file_def)
  ultimately show ?thesis using w(1) by metis
qed

lemma walk_open_file:
  assumes ok: "mf_ok (files ! i)" and recs: "holds_records check (files ! i) recs"
    and stop: "stops_at (files ! i) (length (concat recs))" and s: "file_start files i s"
  shows "recover_loop check d None files s = Returned (fold (walk_step check d None) recs s)"
proof -
  let ?s = "fold (walk_step check d None) recs s"
  note w = walk_file [OF ok recs s, of d]
  have "get_simple_message_bytes (rs_current_pos ?s) (files ! i) = Returned (None, 0)"
    using simple_bytes_stop [OF ok stop holds_records_le [OF recs]] w(4) by simp
  then have "recover_loop check d None files ?s = Returned ?s"
    using w(2) s by (subst recover_loop.simps) (simp add: file_start_def)
  then show ?thesis using w(1) by simp
qed

section \<open>Walking over the log\<close>

text \<open>Files from \<open>start\<close> on that hold the records, all but the last one with the mark of their end.\<close>

definition recoverable :: "(bytes \<Rightarrow> dispatch_request option) \<Rightarrow> mapped_file list \<Rightarrow> nat \<Rightarrow> (nat \<Rightarrow> bytes list) \<Rightarrow> bool" where
  "recoverable check files start recs \<longleftrightarrow> start < length files \<and>
     (\<forall>i. start \<le> i \<and> i < length files \<longrightarrow> holds_records check (files ! i) (recs i)) \<and>
     (\<forall>i. start \<le> i \<and> Suc i < length files \<longrightarrow> marked_at (files ! i) (length (concat (recs i)))) \<and>
     stops_at (last files) (length (concat (recs (length files - 1))))"

lemma recoverable_last:
  assumes "recoverable check files start recs"
  shows "length files - 1 < length files" "start \<le> length files - 1" "last files = files ! (length files - 1)"
proof -
  have "files \<noteq> []" "start < length files" using assms by (auto simp: recoverable_def)
  then show "length files - 1 < length files" "start \<le> length files - 1" "last files = files ! (length files - 1)"
    by (simp_all add: last_conv_nth)
qed

lemma recover_walk:
  assumes "\<forall>i < length files. mf_ok (files ! i)" "marks check" "recoverable check files start recs" "file_start files start s"
  shows "\<exists>s0. file_start files (length files - 1) s0 \<and>
    recover_loop check d None files s = Returned (fold (walk_step check d None) (recs (length files - 1)) s0) \<and>
    rs_dispatched s0 = rs_dispatched s @ concat (map (requests check d \<circ> recs) [start..<length files - 1])"
  using assms(3,4)
proof (induction "length files - 1 - start" arbitrary: start s)
  case 0
  have eq: "start = length files - 1" using recoverable_last(2) [OF 0(2)] 0(1) by linarith
  then have start: "start = length files - 1" "last files = files ! start"
    using recoverable_last(3) [OF 0(2)] by simp_all
  have "recover_loop check d None files s = Returned (fold (walk_step check d None) (recs start) s)"
    using 0(2,3) start assms(1) by (intro walk_open_file) (auto simp: recoverable_def)
  then show ?case using start(1) 0(3) by auto
next
  case (Suc n)
  then have next_start: "Suc start < length files" by linarith
  obtain s' where s': "recover_loop check d None files s = recover_loop check d None files s'" "file_start files (Suc start) s'"
      "rs_dispatched s' = rs_dispatched s @ requests check d (recs start)"
    using walk_closed_file [of files start check "recs start" s d] Suc.prems assms(1,2) next_start by (auto simp: recoverable_def)
  have "recoverable check files (Suc start) recs" using Suc.prems(1) next_start by (simp add: recoverable_def)
  moreover have "n = length files - 1 - Suc start" using Suc.hyps(2) by linarith
  ultimately obtain s0 where s0: "file_start files (length files - 1) s0"
      "recover_loop check d None files s' = Returned (fold (walk_step check d None) (recs (length files - 1)) s0)"
      "rs_dispatched s0 = rs_dispatched s' @ concat (map (requests check d \<circ> recs) [Suc start..<length files - 1])"
    using Suc.hyps(1) s'(2) by blast
  have "[start..<length files - 1] = start # [Suc start..<length files - 1]" using next_start by (subst upt_conv_Cons) auto
  then show ?case using s0 s' by auto
qed

lemma holds_records_butlast: "holds_records check f recs \<Longrightarrow> holds_records check f (butlast recs)"
proof (cases recs rule: rev_cases)
  case (snoc ys y)
  assume "holds_records check f recs"
  then have all: "take (length (concat ys @ y)) (mf_mmapped_file f) = concat ys @ y" "list_all (recognised check) ys"
    by (simp_all add: holds_records_def snoc)
  have "take (length (concat ys)) (take (length (concat ys @ y)) (mf_mmapped_file f)) = concat ys"
    unfolding all(1) by simp
  then have "take (length (concat ys)) (mf_mmapped_file f) = concat ys" unfolding take_take by simp
  then show ?thesis using all(2) by (simp add: holds_records_def snoc)
qed simp

lemma recover_result:
  assumes ok: "\<forall>i < length files. mf_ok (files ! i)" and marks: "marks check" and recs: "recoverable check files start recs"
    and s: "file_start files start s"
  shows "\<exists>s'. recover_loop check d None files s = Returned s' \<and>
    rs_process_offset s' + rs_mapped_file_offset s' =
      mf_file_from_offset (last files) + of_nat (length (concat (recs (length files - 1)))) \<and>
    (recs (length files - 1) \<noteq> [] \<longrightarrow> rs_last_valid_msg_phy_offset s' =
      mf_file_from_offset (last files) + of_nat (length (concat (butlast (recs (length files - 1)))))) \<and>
    rs_dispatched s' = rs_dispatched s @ concat (map (requests check d \<circ> recs) [start..<length files])"
proof -
  let ?k = "length files - 1"
  note k = recoverable_last [OF recs]
  have okk: "mf_ok (files ! ?k)" using ok k by simp
  have hold: "holds_records check (files ! ?k) (recs ?k)" using recs k by (simp add: recoverable_def)
  note hold' = holds_records_butlast [OF hold]
  obtain s0 where s0: "file_start files ?k s0"
      "recover_loop check d None files s = Returned (fold (walk_step check d None) (recs ?k) s0)"
      "rs_dispatched s0 = rs_dispatched s @ concat (map (requests check d \<circ> recs) [start..<?k])"
    using recover_walk [OF ok marks recs s] by blast
  note w = walk_file [OF okk hold s0(1), of d] and w' = walk_file [OF okk hold' s0(1), of d]
  have "[start..<length files] = [start..<?k] @ [?k]" using k by (cases "length files") (auto simp: upt_Suc_append)
  then have "rs_dispatched (fold (walk_step check d None) (recs ?k) s0) =
      rs_dispatched s @ concat (map (requests check d \<circ> recs) [start..<length files])"
    using w(6) s0(3) by simp
  then show ?thesis
    using s0(2) w(3,5) w'(3,5) fold_walk_last [of "recs ?k" check d None s0] by (simp add: k(3))
qed

section \<open>The recovered log\<close>

lemma end_in_last_file:
  assumes ok: "fq_ok q" and ne: "fq_mapped_files q \<noteq> []" and n: "n \<le> fq_size q"
  shows "sint (mf_file_from_offset (last (fq_mapped_files q)) + of_nat n) =
      int (fq_base q + (length (fq_mapped_files q) - 1) * fq_size q + n)"
    and "n < fq_size q \<Longrightarrow> wrap_i32 (trunc_mod (int (fq_base q + (length (fq_mapped_files q) - 1) * fq_size q + n))
      (sint (fq_mapped_file_size q))) = int n"
proof -
  let ?k = "length (fq_mapped_files q) - 1"
  have klt: "?k < length (fq_mapped_files q)" using ne by simp
  have bound: "fq_base q + ?k * fq_size q + fq_size q < 2 ^ 63" using fq_ok_nth(5) [OF ok klt] by (simp add: algebra_simps)
  have n64: "unat (of_nat n :: u64) = n" using n bound by (simp add: unsigned_of_nat take_bit_nat_eq_self)
  have "unat (mf_file_from_offset (last (fq_mapped_files q)) + of_nat n) = fq_base q + ?k * fq_size q + n"
    using fq_ok_last(4) [OF ok ne] n bound n64 by (subst unat_add_lem [THEN iffD1]) simp_all
  then show "sint (mf_file_from_offset (last (fq_mapped_files q)) + of_nat n) = int (fq_base q + ?k * fq_size q + n)"
    using n bound by (subst sint_unat) simp_all
  assume lt: "n < fq_size q"
  obtain b where b: "fq_base q = b * fq_size q" using ok by (auto simp: fq_ok_def mult.commute elim: dvdE)
  have "fq_base q + ?k * fq_size q + n = n + (b + ?k) * fq_size q" by (simp add: b algebra_simps)
  then have "(fq_base q + ?k * fq_size q + n) mod fq_size q = n" using lt by simp
  then have "trunc_mod (int (fq_base q + ?k * fq_size q + n)) (int (fq_size q)) = int n"
    by (simp only: trunc_mod_nat [OF fq_ok_size(2) [OF ok]])
  moreover have "n < 2 ^ 31" using lt ok by (simp add: fq_ok_def)
  ultimately show "wrap_i32 (trunc_mod (int (fq_base q + ?k * fq_size q + n)) (sint (fq_mapped_file_size q))) = int n"
    using fq_ok_size(1) [OF ok] by (simp only: wrap_i32_nat)
qed

lemma truncate_at_end:
  assumes ok: "fq_ok q" and ne: "fq_mapped_files q \<noteq> []" and n: "n \<le> fq_size q"
  shows "fq_mapped_files (truncate_dirty_files io_ok now (sint (mf_file_from_offset (last (fq_mapped_files q)) + of_nat n)) q) =
    butlast (fq_mapped_files q) @ [if n < fq_size q then set_positions (int n) (last (fq_mapped_files q)) else last (fq_mapped_files q)]"
proof (rule nth_equalityI)
  let ?fs = "fq_mapped_files q" and ?P = "mf_file_from_offset (last (fq_mapped_files q)) + of_nat n :: u64"
  let ?k = "length ?fs - 1"
  show "length (fq_mapped_files (truncate_dirty_files io_ok now (sint ?P) q)) =
      length (butlast ?fs @ [if n < fq_size q then set_positions (int n) (last ?fs) else last ?fs])"
    using ne by (simp add: truncate_dirty_files_def)
  fix i
  assume "i < length (fq_mapped_files (truncate_dirty_files io_ok now (sint ?P) q))"
  then have i: "i < length ?fs" by (simp add: truncate_dirty_files_def)
  note P = end_in_last_file(1) [OF assms]
  have tail: "sint (mf_file_from_offset (?fs ! i) + fq_mapped_file_size q) = int (fq_base q + Suc i * fq_size q)"
  proof -
    have "unat (mf_file_from_offset (?fs ! i) + fq_mapped_file_size q) = fq_base q + Suc i * fq_size q"
      using fq_ok_nth(2,5) [OF ok i] by (subst unat_add_lem [THEN iffD1]) (simp_all add: fq_size_def)
    then show ?thesis using fq_ok_nth(5) [OF ok i] by (subst sint_unat) simp_all
  qed
  have nth: "fq_mapped_files (truncate_dirty_files io_ok now (sint ?P) q) ! i =
      truncate_file io_ok now (sint ?P) (fq_mapped_file_size q) (?fs ! i)"
    using i by (simp add: truncate_dirty_files_def)
  show "fq_mapped_files (truncate_dirty_files io_ok now (sint ?P) q) ! i =
      (butlast ?fs @ [if n < fq_size q then set_positions (int n) (last ?fs) else last ?fs]) ! i"
  proof (cases "i = ?k")
    case False
    then have "Suc i \<le> ?k" using i by simp
    then have "Suc i * fq_size q \<le> ?k * fq_size q" by (rule mult_le_mono1)
    then have "\<not> int (fq_base q + Suc i * fq_size q) > int (fq_base q + ?k * fq_size q + n)" by linarith
    then show ?thesis unfolding nth unfolding truncate_file_def tail P using False i by (simp add: nth_append nth_butlast)
  next
    case True
    have from_i: "sint (mf_file_from_offset (?fs ! i)) = int (fq_base q + ?k * fq_size q)" using fq_ok_nth(1) [OF ok i] True by simp
    have "int (fq_base q + Suc i * fq_size q) > int (fq_base q + ?k * fq_size q + n) \<longleftrightarrow> n < fq_size q"
      unfolding of_nat_less_iff True by simp
    then show ?thesis
      unfolding nth unfolding truncate_file_def tail P from_i
      using ne True end_in_last_file(2) [OF assms] by (simp add: nth_append last_conv_nth)
  qed
qed

lemma end_at_position:
  assumes ok: "fq_ok q" and full: "list_all is_full (fq_mapped_files q)" and ne: "fq_mapped_files q \<noteq> []" and n: "n \<le> fq_size q"
  defines "q' \<equiv> q\<lparr>fq_mapped_files := butlast (fq_mapped_files q) @
    [if n < fq_size q then set_positions (int n) (last (fq_mapped_files q)) else last (fq_mapped_files q)]\<rparr>"
  shows "fq_ok q'" "fq_base q' = fq_base q" "fq_size q' = fq_size q"
    "fq_written q' = concat (map mf_mmapped_file (butlast (fq_mapped_files q))) @ take n (mf_mmapped_file (last (fq_mapped_files q)))"
proof -
  let ?fs = "fq_mapped_files q"
  let ?l = "if n < fq_size q then set_positions (int n) (last ?fs) else last ?fs"
  have fs: "?fs = butlast ?fs @ [last ?fs]" using ne by simp
  have files: "fq_mapped_files q' = butlast ?fs @ [?l]" "fq_mapped_file_size q' = fq_mapped_file_size q" by (simp_all add: q'_def)
  have from_l: "mf_file_from_offset ?l = mf_file_from_offset (last ?fs)" by (simp add: set_positions_def)
  show base: "fq_base q' = fq_base q"
    using fs unfolding fq_base_def files(1) by (cases "butlast ?fs") (auto simp: from_l split: list.splits)
  show size: "fq_size q' = fq_size q" by (simp add: fq_size_def files)
  have l: "mf_ok ?l" "mf_file_size ?l = fq_mapped_file_size q"
    using fq_ok_last(2,3) [OF ok ne] n by (auto simp: mf_ok_def set_positions_def fq_size_def)
  have full_file: "written f = mf_mmapped_file f" if "f \<in> set ?fs" for f
  proof -
    have f: "mf_ok f" "is_full f" using that ok full by (simp_all add: fq_ok_def list_all_iff)
    then show ?thesis using is_full_iff [OF f(1)] by (simp add: written_def mf_ok_def)
  qed
  have nth: "unat (mf_file_from_offset (fq_mapped_files q' ! i)) = fq_base q + i * fq_size q" if "i < length (fq_mapped_files q')" for i
  proof -
    have i: "i < length ?fs" using that ne by (simp add: files)
    have "mf_file_from_offset (fq_mapped_files q' ! i) = mf_file_from_offset (?fs ! i)"
    proof (cases "i < length ?fs - 1")
      case False
      then have "i = length ?fs - 1" using i by simp
      then show ?thesis using ne unfolding files by (simp add: nth_append from_l last_conv_nth)
    qed (simp add: files nth_append nth_butlast)
    then show ?thesis using fq_ok_nth(2) [OF ok i] by simp
  qed
  have len: "length (fq_mapped_files q') = length ?fs" using ne by (simp add: files)
  have "list_all is_full (butlast ?fs)" by (rule list_all_butlast [OF full])
  moreover have "list_all (\<lambda>f. mf_ok f \<and> mf_file_size f = fq_mapped_file_size q) (butlast ?fs)"
    using ok by (simp add: fq_ok_def list_all_butlast)
  ultimately show "fq_ok q'"
    using ok l nth by (simp add: fq_ok_def base size len) (simp add: files)
  have "written ?l = take n (mf_mmapped_file (last ?fs))"
  proof (cases "n < fq_size q")
    case False
    then have "n = length (mf_mmapped_file (last ?fs))"
      using n fq_ok_last(2,3) [OF ok ne] by (simp add: mf_ok_def fq_size_def)
    then show ?thesis using full_file [OF last_in_set [OF ne]] False by simp
  qed (simp add: written_def set_positions_def)
  moreover have "map written (butlast ?fs) = map mf_mmapped_file (butlast ?fs)"
    using full_file by (intro map_cong refl) (auto dest: in_set_butlastD)
  ultimately show "fq_written q' = concat (map mf_mmapped_file (butlast ?fs)) @ take n (mf_mmapped_file (last ?fs))"
    by (simp only: fq_written_def files map_append concat_append list.map concat.simps append_Nil2)
qed

section \<open>Statements\<close>

lemma recoverable_bytes:
  assumes "map mf_mmapped_file files' = map mf_mmapped_file files"
  shows "recoverable check files' start recs = recoverable check files start recs"
proof -
  have len: "length files' = length files" using arg_cong [OF assms, of length] by simp
  have nth: "mf_mmapped_file (files' ! i) = mf_mmapped_file (files ! i)" if "i < length files" for i
    using arg_cong [OF assms, of "\<lambda>l. l ! i"] that len by simp
  have last_bytes: "mf_mmapped_file (last files') = mf_mmapped_file (last files)" if "start < length files"
  proof -
    have "files \<noteq> []" "files' \<noteq> []" using that len by auto
    then show ?thesis using nth [of "length files - 1"] len by (simp add: last_conv_nth)
  qed
  show ?thesis
    unfolding recoverable_def len holds_records_def marked_at_def stops_at_def
    by (cases "start < length files") (auto simp: nth last_bytes)
qed

lemma finish_at:
  assumes ok: "fq_ok (cl_queue cl)" and full: "list_all is_full (fq_mapped_files (cl_queue cl))"
    and ne: "fq_mapped_files (cl_queue cl) \<noteq> []" and n: "n \<le> fq_size (cl_queue cl)"
    and s: "rs_process_offset s + rs_mapped_file_offset s = mf_file_from_offset (last (fq_mapped_files (cl_queue cl))) + of_nat n"
  defines "e \<equiv> fq_base (cl_queue cl) + (length (fq_mapped_files (cl_queue cl)) - 1) * fq_size (cl_queue cl) + n"
  shows "\<exists>cl'. finish_recovery io_ok now max_phy_offset cl s =
      (cl', if (word_of_int max_phy_offset :: u64) \<ge> of_nat e then TruncateQueues (int e) else KeepQueues, rs_dispatched s) \<and>
    fq_ok (cl_queue cl') \<and> fq_base (cl_queue cl') = fq_base (cl_queue cl) \<and> fq_size (cl_queue cl') = fq_size (cl_queue cl) \<and>
    fq_written (cl_queue cl') = concat (map mf_mmapped_file (butlast (fq_mapped_files (cl_queue cl)))) @
      take n (mf_mmapped_file (last (fq_mapped_files (cl_queue cl)))) \<and>
    cl_confirm_offset cl' = sint (rs_last_valid_msg_phy_offset s) \<and>
    (list_all mf_live (fq_mapped_files (cl_queue cl)) \<longrightarrow> list_all mf_live (fq_mapped_files (cl_queue cl')))"
proof -
  let ?q = "cl_queue cl" and ?P = "mf_file_from_offset (last (fq_mapped_files (cl_queue cl))) + of_nat n :: u64"
  let ?qw = "?q\<lparr>fq_flushed_where := ?P, fq_committed_where := ?P\<rparr>"
  let ?cl' = "fst (finish_recovery io_ok now max_phy_offset cl s)"
  have q0: "fq_ok ?qw = fq_ok ?q" "fq_base ?qw = fq_base ?q" "fq_size ?qw = fq_size ?q"
    by (simp_all add: fq_ok_def fq_base_def fq_size_def)
  have P: "sint ?P = int e" unfolding e_def by (rule end_in_last_file(1) [OF ok ne n])
  have "?P = word_of_int (sint ?P)" by simp
  then have w: "?P = of_nat e" unfolding P by simp
  have "cl_queue ?cl' = ?qw\<lparr>fq_mapped_files := fq_mapped_files (truncate_dirty_files io_ok now (sint ?P) ?q)\<rparr>"
    by (simp add: finish_recovery_def Let_def set_confirm_offset_def s truncate_dirty_files_def)
  then have q': "cl_queue ?cl' = ?qw\<lparr>fq_mapped_files := butlast (fq_mapped_files ?q) @
      [if n < fq_size ?q then set_positions (int n) (last (fq_mapped_files ?q)) else last (fq_mapped_files ?q)]\<rparr>"
    by (simp only: truncate_at_end [OF ok ne n])
  have qw: "fq_ok ?qw" "list_all is_full (fq_mapped_files ?qw)" "fq_mapped_files ?qw \<noteq> []" "n \<le> fq_size ?qw"
    using ok full ne n q0 by simp_all
  have "cl_queue ?cl' = ?qw\<lparr>fq_mapped_files := butlast (fq_mapped_files ?qw) @
      [if n < fq_size ?qw then set_positions (int n) (last (fq_mapped_files ?qw)) else last (fq_mapped_files ?qw)]\<rparr>"
    unfolding q' q0(3) by simp
  note e = end_at_position [OF qw, folded this]
  have "fq_ok (cl_queue ?cl')" by (rule e(1))
  moreover have "fq_base (cl_queue ?cl') = fq_base ?q" "fq_size (cl_queue ?cl') = fq_size ?q" using e(2,3) q0 by simp_all
  moreover have "fq_written (cl_queue ?cl') =
      concat (map mf_mmapped_file (butlast (fq_mapped_files ?q))) @ take n (mf_mmapped_file (last (fq_mapped_files ?q)))"
    using e(4) by simp
  moreover have "list_all mf_live (fq_mapped_files (cl_queue ?cl'))" if "list_all mf_live (fq_mapped_files ?q)"
    using that ne unfolding q' by (auto simp: list_all_iff mf_live_def set_positions_def dest: in_set_butlastD)
  moreover have "finish_recovery io_ok now max_phy_offset cl s =
      (?cl', if (word_of_int max_phy_offset :: u64) \<ge> of_nat e then TruncateQueues (int e) else KeepQueues, rs_dispatched s)"
    unfolding finish_recovery_def Let_def s P [unfolded w] w by simp
  moreover have "cl_confirm_offset ?cl' = sint (rs_last_valid_msg_phy_offset s)"
    by (simp add: finish_recovery_def Let_def set_confirm_offset_def)
  ultimately show ?thesis by blast
qed

text \<open>The log as it is after its directory was loaded.\<close>

definition reloaded :: "commit_log_config \<Rightarrow> store_checkpoint \<Rightarrow> queue_offset_operator \<Rightarrow> mapped_file_queue \<Rightarrow> commit_log" where
  "reloaded cfg checkpoint offsets q = (commit_log_new cfg (fq_store_path q) checkpoint offsets)
     \<lparr>cl_queue := (fq_new (fq_store_path q) (fq_mapped_file_size q))
       \<lparr>fq_mapped_files := map (reopened (fq_store_path q) (fq_mapped_file_size q)) (fq_mapped_files q)\<rparr>\<rparr>"

lemma reload_log:
  fixes checkpoint :: store_checkpoint and offsets :: queue_offset_operator
  assumes ok: "cl_ok cfg cl" and entries: "mset entries = mset (dir_of (cl_queue cl))"
  defines "cl1 \<equiv> reloaded cfg checkpoint offsets (cl_queue cl)"
  shows "cl_load (Some entries) (commit_log_new cfg (fq_store_path (cl_queue cl)) checkpoint offsets) = Returned (cl1, True)"
    "cl_ok cfg cl1" "list_all is_full (fq_mapped_files (cl_queue cl1))"
    "length (fq_mapped_files (cl_queue cl1)) = length (fq_mapped_files (cl_queue cl))"
    "map mf_mmapped_file (fq_mapped_files (cl_queue cl1)) = map mf_mmapped_file (fq_mapped_files (cl_queue cl))"
    "fq_base (cl_queue cl1) = fq_base (cl_queue cl)" "fq_size (cl_queue cl1) = fq_size (cl_queue cl)"
proof -
  let ?q = "cl_queue cl"
  have q: "fq_ok ?q" "of_nat (cc_mapped_file_size cfg) = fq_mapped_file_size ?q" "cc_mapped_file_size cfg = fq_size ?q"
    using ok by (simp_all add: cl_ok_def fq_size_def)
  note ld = load_directory [OF q(1) entries]
  show "cl_load (Some entries) (commit_log_new cfg (fq_store_path ?q) checkpoint offsets) = Returned (cl1, True)"
    using ld(1) q(2) by (simp add: cl1_def reloaded_def cl_load_def fq_load_def commit_log_new_def)
  show sz: "fq_size (cl_queue cl1) = fq_size ?q" by (simp add: cl1_def reloaded_def fq_size_def fq_new_def)
  have "list_all mf_live (map (reopened (fq_store_path ?q) (fq_mapped_file_size ?q)) (fq_mapped_files ?q))"
    by (simp add: list_all_iff mf_live_def reopened_def rc_new_def)
  then show "cl_ok cfg cl1" using ld(2) q(3) sz by (simp add: cl_ok_def cl1_def reloaded_def)
  show "list_all is_full (fq_mapped_files (cl_queue cl1))" using ld(3) by (simp add: cl1_def reloaded_def)
  show "length (fq_mapped_files (cl_queue cl1)) = length (fq_mapped_files ?q)"
    "map mf_mmapped_file (fq_mapped_files (cl_queue cl1)) = map mf_mmapped_file (fq_mapped_files ?q)"
    "fq_base (cl_queue cl1) = fq_base ?q"
    by (simp_all add: cl1_def reloaded_def fq_base_def split: list.splits)
qed

text \<open>The whole of a log, and its end, where the last file holds the records.\<close>

lemma log_end:
  assumes ok: "fq_ok q" and ne: "fq_mapped_files q \<noteq> []" and w: "written (last (fq_mapped_files q)) = bs"
  shows "fq_base q + (length (fq_mapped_files q) - 1) * fq_size q + length bs = fq_base q + length (fq_written q)"
    "concat (map mf_mmapped_file (butlast (fq_mapped_files q))) @ take (length bs) (mf_mmapped_file (last (fq_mapped_files q))) = fq_written q"
    "length bs \<le> fq_size q"
proof -
  let ?l = "last (fq_mapped_files q)"
  note l = fq_ok_last(2,3) [OF ok ne]
  have len: "length bs = nat (mf_wrote_position ?l)" using mf_ok_position(4) [OF l(1)] w by simp
  then show "fq_base q + (length (fq_mapped_files q) - 1) * fq_size q + length bs = fq_base q + length (fq_written q)"
    using fq_written_length [OF ok ne] by simp
  show "length bs \<le> fq_size q" using len l by (simp add: mf_ok_def fq_size_def)
  have "map mf_mmapped_file (butlast (fq_mapped_files q)) = map written (butlast (fq_mapped_files q))"
  proof (intro map_cong refl)
    fix f
    assume "f \<in> set (butlast (fq_mapped_files q))"
    then have f: "mf_ok f" "is_full f" using ok by (auto simp: fq_ok_def list_all_iff dest: in_set_butlastD)
    then show "mf_mmapped_file f = written f" using is_full_iff [OF f(1)] by (simp add: written_def mf_ok_def)
  qed
  moreover have "take (length bs) (mf_mmapped_file ?l) = written ?l" by (simp add: len written_def)
  ultimately have "concat (map mf_mmapped_file (butlast (fq_mapped_files q))) @ take (length bs) (mf_mmapped_file ?l) =
      concat (map written (butlast (fq_mapped_files q) @ [?l]))"
    by (simp only: map_append concat_append list.map concat.simps append_Nil2)
  then show "concat (map mf_mmapped_file (butlast (fq_mapped_files q))) @ take (length bs) (mf_mmapped_file ?l) = fq_written q"
    using ne by (simp add: fq_written_def)
qed

lemma recovered_log:
  fixes checkpoint :: store_checkpoint and offsets :: queue_offset_operator
  assumes ok: "cl_ok cfg cl" and marks: "marks check"
    and recs: "recoverable check (fq_mapped_files (cl_queue cl)) start recs"
    and wrote: "written (last (fq_mapped_files (cl_queue cl))) = concat (recs (length (fq_mapped_files (cl_queue cl)) - 1))"
    and entries: "mset entries = mset (dir_of (cl_queue cl))"
  defines "cl1 \<equiv> reloaded cfg checkpoint offsets (cl_queue cl)"
    and "k \<equiv> length (fq_mapped_files (cl_queue cl)) - 1" and "e \<equiv> fq_base (cl_queue cl) + length (fq_written (cl_queue cl))"
  shows "\<exists>s cl2. recover_loop check d None (fq_mapped_files (cl_queue cl1)) (start_at (fq_mapped_files (cl_queue cl1)) start v) = Returned s \<and>
    finish_recovery io_ok now max_phy_offset cl1 s =
      (cl2, if (word_of_int max_phy_offset :: u64) \<ge> of_nat e then TruncateQueues (int e) else KeepQueues,
       concat (map (requests check d \<circ> recs) [start..<Suc k])) \<and>
    cl_ok cfg cl2 \<and> fq_base (cl_queue cl2) = fq_base (cl_queue cl) \<and> fq_written (cl_queue cl2) = fq_written (cl_queue cl) \<and>
    (recs k \<noteq> [] \<longrightarrow> cl_confirm_offset cl2 + int (length (last (recs k))) = int e)"
proof -
  let ?q = "cl_queue cl" and ?fs = "fq_mapped_files (cl_queue cl)" and ?q1 = "cl_queue cl1" and ?fs1 = "fq_mapped_files (cl_queue cl1)"
  note ld = reload_log [OF ok entries, of checkpoint offsets, folded cl1_def]
  have q1: "fq_ok ?q1" "cc_mapped_file_size cfg = fq_size ?q1" "list_all mf_live ?fs1" and q: "fq_ok ?q" using ld(2) ok by (simp_all add: cl_ok_def)
  have ne: "?fs \<noteq> []" and start: "start < length ?fs" using recs by (auto simp: recoverable_def)
  have ne1: "?fs1 \<noteq> []" using ne ld(4) by auto
  note l = log_end [OF q ne wrote]
  have last1: "mf_mmapped_file (last ?fs1) = mf_mmapped_file (last ?fs)" "map mf_mmapped_file (butlast ?fs1) = map mf_mmapped_file (butlast ?fs)"
    using ld(5) ne ne1 by (metis last_map) (metis ld(5) map_butlast)
  have recs1: "recoverable check ?fs1 start recs" using recs recoverable_bytes [OF ld(5)] by simp
  have k: "length ?fs1 - 1 = k" "length ?fs1 = Suc k" using ne ld(4) by (simp_all add: k_def)
  have "file_start ?fs1 start (start_at ?fs1 start v)" using start ld(4) by (simp add: file_start_def start_at_def)
  from recover_result [OF _ marks recs1 this, of d] obtain s where s: "recover_loop check d None ?fs1 (start_at ?fs1 start v) = Returned s"
      "rs_process_offset s + rs_mapped_file_offset s = mf_file_from_offset (last ?fs1) + of_nat (length (concat (recs k)))"
      "recs k \<noteq> [] \<longrightarrow> rs_last_valid_msg_phy_offset s = mf_file_from_offset (last ?fs1) + of_nat (length (concat (butlast (recs k))))"
      "rs_dispatched s = concat (map (requests check d \<circ> recs) [start..<Suc k])"
    using fq_ok_nth(3) [OF q1(1)] k by (auto simp: start_at_def)
  have le: "length (concat (recs k)) \<le> fq_size ?q1" using l(3) ld(7) by (simp add: k_def)
  have e: "fq_base ?q1 + (length ?fs1 - 1) * fq_size ?q1 + length (concat (recs k)) = e"
    using l(1) ld(4,6,7) by (simp add: k_def e_def)
  obtain cl2 where cl2: "finish_recovery io_ok now max_phy_offset cl1 s =
      (cl2, if (word_of_int max_phy_offset :: u64) \<ge> of_nat e then TruncateQueues (int e) else KeepQueues, rs_dispatched s)"
      "fq_ok (cl_queue cl2)" "fq_base (cl_queue cl2) = fq_base ?q1" "fq_size (cl_queue cl2) = fq_size ?q1"
      "fq_written (cl_queue cl2) = concat (map mf_mmapped_file (butlast ?fs1)) @ take (length (concat (recs k))) (mf_mmapped_file (last ?fs1))"
      "cl_confirm_offset cl2 = sint (rs_last_valid_msg_phy_offset s)" "list_all mf_live (fq_mapped_files (cl_queue cl2))"
    using finish_at [OF q1(1) ld(3) ne1 le s(2), of io_ok now max_phy_offset] q1(3) unfolding e by blast
  have "cl_confirm_offset cl2 + int (length (last (recs k))) = int e" if "recs k \<noteq> []"
  proof -
    have "concat (recs k) = concat (butlast (recs k)) @ last (recs k)"
      using that by (metis append_butlast_last_id concat.simps concat_append append_Nil2)
    then have len: "length (concat (recs k)) = length (concat (butlast (recs k))) + length (last (recs k))" by simp
    moreover have "cl_confirm_offset cl2 = int (fq_base ?q1 + (length ?fs1 - 1) * fq_size ?q1 + length (concat (butlast (recs k))))"
      using cl2(6) s(3) that end_in_last_file(1) [OF q1(1) ne1, of "length (concat (butlast (recs k)))"] le len by simp
    ultimately show ?thesis using e by linarith
  qed
  then show ?thesis
    using s(1,4) cl2 l(2) ld(6,7) q1(2) by (intro exI [of _ s] exI [of _ cl2]) (simp add: cl_ok_def last1 k_def)
qed

text \<open>
  The normal recovery: if the files hold records that pass the check, each but the last one with the
  mark of its end, and nothing after the records of the last file, then loading the directory and
  recovering gives back the same log, although the position in the last file is not stored anywhere.
\<close>

lemma log_survives_restart:
  fixes env cfg lvl tbl
  defines "check \<equiv> check_message_and_return_size env cfg (cc_check_crc_on_recover cfg) (cc_duplication_enable cfg) True lvl tbl"
  assumes "cl_ok cfg cl" and "\<not> cc_enable_controller_mode cfg"
    and "recoverable check (fq_mapped_files (cl_queue cl)) (length (fq_mapped_files (cl_queue cl)) - 3) recs"
    and "written (last (fq_mapped_files (cl_queue cl))) = concat (recs (length (fq_mapped_files (cl_queue cl)) - 1))"
    and "mset entries = mset (dir_of (cl_queue cl))"
  shows "\<exists>cl1 cl2. cl_load (Some entries) (commit_log_new cfg (fq_store_path (cl_queue cl)) checkpoint offsets) = Returned (cl1, True) \<and>
    recover_normally env cfg lvl tbl io_ok now max_phy_offset cl1 =
      Returned (cl2, if (word_of_int max_phy_offset :: u64) \<ge> of_nat (fq_base (cl_queue cl) + length (fq_written (cl_queue cl)))
        then TruncateQueues (int (fq_base (cl_queue cl) + length (fq_written (cl_queue cl)))) else KeepQueues, []) \<and>
    cl_ok cfg cl2 \<and> fq_base (cl_queue cl2) = fq_base (cl_queue cl) \<and> fq_written (cl_queue cl2) = fq_written (cl_queue cl) \<and>
    (recs (length (fq_mapped_files (cl_queue cl)) - 1) \<noteq> [] \<longrightarrow> cl_confirm_offset cl2 + int (length (last (recs (length (fq_mapped_files (cl_queue cl)) - 1)))) =
      int (fq_base (cl_queue cl) + length (fq_written (cl_queue cl))))"
proof -
  let ?fs = "fq_mapped_files (cl_queue cl)" and ?cl1 = "reloaded cfg checkpoint offsets (cl_queue cl)"
  note ld = reload_log [OF assms(2,6), of checkpoint offsets]
  have marks: "marks check" unfolding check_def by (rule check_marks)
  have ne: "?fs \<noteq> []" "fq_mapped_files (cl_queue ?cl1) \<noteq> []" using assms(4) ld(4) by (auto simp: recoverable_def)
  obtain v where v: "get_confirm_offset cfg ?cl1 = Returned v"
    using assms(3) by (cases "cc_broker_duplication_enable cfg") (simp_all add: get_confirm_offset_def)
  have none: "concat (map (requests check False \<circ> recs) is) = []" for "is" by (simp add: requests_def)
  show ?thesis
    using recovered_log [OF assms(2) marks assms(4-6), where checkpoint = checkpoint and offsets = offsets and d = False
        and v = "word_of_int v" and io_ok = io_ok and now = now and max_phy_offset = max_phy_offset] ld(1) ne(2) v
    by (auto simp: recover_normally_def check_def [symmetric] ld(4) none Let_def)
qed

text \<open>
  A log from which the recovery finds every record: one without files, or one whose last file has
  room, holds the records and nothing else.
\<close>

definition restartable :: "(bytes \<Rightarrow> dispatch_request option) \<Rightarrow> mapped_file_queue \<Rightarrow> (nat \<Rightarrow> bytes list) \<Rightarrow> bool" where
  "restartable check q recs \<longleftrightarrow> (if fq_mapped_files q = [] then recs 0 = [] else
     recoverable check (fq_mapped_files q) (length (fq_mapped_files q) - 3) recs \<and>
     written (last (fq_mapped_files q)) = concat (recs (length (fq_mapped_files q) - 1)) \<and>
     blank_rest (last (fq_mapped_files q)) \<and> \<not> is_full (last (fq_mapped_files q)))"

lemma blank_stops:
  assumes "mf_ok f" "blank_rest f"
  shows "stops_at f (nat (mf_wrote_position f))"
proof (cases "length (mf_mmapped_file f) < nat (mf_wrote_position f) + 4")
  case False
  let ?d = "drop (nat (mf_wrote_position f)) (mf_mmapped_file f)"
  have "length (take 4 ?d) = 4" using False by simp
  moreover have "\<forall>b \<in> set (take 4 ?d). b = 0" using assms(2) by (auto simp: blank_rest_def dest: in_set_takeD)
  ultimately have "take 4 ?d = replicate 4 0" using replicate_length_same by metis
  then show ?thesis by (simp add: stops_at_def numeral_eq_Suc)
qed (simp add: stops_at_def)

lemma restartable_snoc:
  assumes r: "restartable check q recs" and ok: "fq_ok q'" and recog: "recognised check rec"
    and files: "fq_mapped_files q' = fs @ [f]"
    and prev: "if fq_mapped_files q = [] then fs = [] \<and> old = [] else fs = butlast (fq_mapped_files q) \<and> old = written (last (fq_mapped_files q))"
    and f: "written f = old @ rec" "blank_rest f" "\<not> is_full f"
  shows "restartable check q' (recs(length fs := recs (length fs) @ [rec]))"
proof -
  let ?n = "length fs" and ?recs = "recs(length fs := recs (length fs) @ [rec])"
  have old: "old = concat (recs ?n)" "list_all (recognised check) (recs ?n)"
    using r prev by (auto simp: restartable_def recoverable_def holds_records_def split: if_splits)
  have mf: "mf_ok f" using fq_ok_nth(3) [OF ok, of ?n] by (simp add: files)
  have wf: "written f = concat (?recs ?n)" "length (concat (?recs ?n)) = nat (mf_wrote_position f)"
    using f(1) old mf_ok_position(4) [OF mf] by auto
  have "holds_records check f (?recs ?n)"
    using old recog wf by (simp add: holds_records_def written_def)
  moreover have "stops_at f (length (concat (?recs ?n)))" using blank_stops [OF mf f(2)] wf(2) by simp
  moreover have "holds_records check (fs ! i) (recs i) \<and> marked_at (fs ! i) (length (concat (recs i)))" if "Suc ?n - 3 \<le> i" "i < ?n" for i
  proof -
    have ne: "fq_mapped_files q \<noteq> []" using that(2) prev by auto
    then have fs: "fs = butlast (fq_mapped_files q)" using prev by simp
    then have "fs ! i = fq_mapped_files q ! i" "Suc ?n = length (fq_mapped_files q)" using that(2) ne by (auto simp: nth_butlast)
    then show ?thesis using r ne that by (auto simp: restartable_def recoverable_def)
  qed
  ultimately have "recoverable check (fs @ [f]) (length (fs @ [f]) - 3) ?recs"
    by (auto simp: recoverable_def nth_append less_Suc_eq)
  then show ?thesis using f wf(1) by (simp add: restartable_def files)
qed

lemma assigned_crc:
  assumes "assigned env cfg now m cl = (m', qo)" "\<not> sc_enabled_append_prop_crc (cc_store cfg)"
  shows "me_body_crc (bi_ext m') = body_crc32 env (stored_body m')"
proof -
  let ?p = "prepare_message env cfg now m"
  have "me_body_crc (bi_ext ?p) = body_crc32 env (stored_body ?p)"
    using assms(2) by (simp add: prepare_message_def Let_def with_v6_flags_def stored_body_def)
  moreover have "me_body_crc (bi_ext m') = me_body_crc (bi_ext ?p)" "stored_body m' = stored_body ?p"
    using assms(1) by (auto simp: assigned_def assign_offset_def stored_body_def split: if_splits prod.splits)
  ultimately show ?thesis by simp
qed

lemma put_record_recognised:
  assumes st: "storable m'" and t: "fits_signed 8 (me_store_timestamp (bi_ext m''))" and pos: "pos < 2 ^ 63"
    and plain: "plain_properties (inner_topic m') (properties_loop (bi_properties_string m') [])"
    and crc: "me_body_crc (bi_ext m') = body_crc32 env (stored_body m')"
  defines "rec \<equiv> whole_record (bi_version m') (placed m' m'' pos) (stored_body m') (inner_topic m') (bi_properties_string m')"
  shows "recognised (check_message_and_return_size env cfg check_crc False True lvl tbl) rec" "length rec = nat (inner_size m')"
proof -
  let ?e = "placed m' m'' pos"
  have ok: "length (stored_body m') < 2 ^ 31 - 2 ^ 17" "topic_fits (bi_version m') (inner_topic m')"
    "length (bi_properties_string m') < 2 ^ 15" "valid_utf8 (bi_properties_string m')" "fits_signed 8 (me_queue_offset (bi_ext m'))"
    using st by (simp_all add: storable_def head_ok_def)
  have "fits_signed 8 (consumed_offset (me_sys_flag (bi_ext m')) (me_queue_offset (bi_ext m')))" "fits_signed 8 (int pos)"
    using ok(5) pos by (simp_all add: consumed_offset_def fits_signed_def)
  then have head: "head_ok ?e (stored_body m')"
    using encoded_record(1) [OF st] t by (simp add: head_ok_def placed_def)
  have size: "me_store_size ?e = record_size (bi_version m') ?e (stored_body m') (inner_topic m') (bi_properties_string m')"
    by (simp add: placed_def)
  have "check_message_and_return_size env cfg check_crc False True lvl tbl rec =
      Some (request_of ?e (inner_topic m') (properties_loop (bi_properties_string m') []))"
    unfolding rec_def using crc by (intro check_whole_record [OF head ok(1-4) plain size]) (simp add: placed_def)
  moreover show len: "length rec = nat (inner_size m')"
    using encoded_record(2) [OF st] by (simp add: rec_def placed_def whole_record_def record_head_def put_front_def)
  moreover have "\<exists>rest. get_i32 rec = Some (me_store_size ?e, rest)"
    using whole_record_size_field [OF head, of "bi_version m'" "inner_topic m'" "bi_properties_string m'" "[]"] by (auto simp: rec_def)
  moreover have "me_store_size ?e = int (nat (inner_size m'))" using encoded_record(3) [OF st] by (simp add: placed_def)
  ultimately show "recognised (check_message_and_return_size env cfg check_crc False True lvl tbl) rec"
    by (simp add: recognised_def request_of_def)
qed

lemma put_keeps_restartable:
  fixes env cfg lvl tbl
  defines "check \<equiv> check_message_and_return_size env cfg (cc_check_crc_on_recover cfg) (cc_duplication_enable cfg) True lvl tbl"
  assumes ok: "cl_ok cfg cl" and re: "restartable check (cl_queue cl) recs" and disk: "\<forall>n. disk n = []"
    and cfg: "\<not> cc_duplication_enable cfg" "\<not> ha_unimplemented cfg (prepare_message env cfg now m)"
    and m: "assigned env cfg now m cl = (m', qo)" "fits_log cfg m' (cl_queue cl)" "fits_signed 8 t"
      "plain_properties (inner_topic m') (properties_loop (bi_properties_string m') [])"
  defines "pos \<equiv> fq_base (cl_queue cl) + length (fq_written (cl_queue cl))"
  defines "rec \<equiv> whole_record (bi_version m') (placed m' (stamped cfg t m') pos) (stored_body m') (inner_topic m') (bi_properties_string m')"
  shows "\<exists>cl' r recs'. cl_put_message env cfg configs disk now t flush m cl =
      Returned (cl', put_answer (case flush of Some st \<Rightarrow> st | None \<Rightarrow> FlushDiskTimeout) (Some r)) \<and>
    cl_ok cfg cl' \<and> ar_wrote_offset r = int pos \<and> fq_base (cl_queue cl') = fq_base (cl_queue cl) \<and>
    fq_written (cl_queue cl') = fq_written (cl_queue cl) @ rec \<and> restartable check (cl_queue cl') recs' \<and>
    fq_mapped_files (cl_queue cl') \<noteq> [] \<and>
    recs' (length (fq_mapped_files (cl_queue cl')) - 1) = recs (length (fq_mapped_files (cl_queue cl')) - 1) @ [rec]"
proof -
  let ?q = "cl_queue cl"
  have st: "storable m'" and fits: "growable ?q" "\<not> sc_enabled_append_prop_crc (cc_store cfg)" using m(2) by (simp_all add: fits_log_def)
  have q: "fq_ok ?q" "list_all mf_live (fq_mapped_files ?q)" using ok by (simp_all add: cl_ok_def)
  obtain cl' r q1 i f where put: "cl_put_message env cfg configs disk now t flush m cl =
      Returned (cl', put_answer (case flush of Some st \<Rightarrow> st | None \<Rightarrow> FlushDiskTimeout) (Some r))"
    and ok': "cl_ok cfg cl'" and r: "ar_wrote_offset r = int pos" and p63: "pos < 2 ^ 63"
    and q': "fq_base (cl_queue cl') = fq_base ?q" "fq_written (cl_queue cl') = fq_written ?q @ rec"
    and a: "file_for_append disk ?q = Returned (q1, Some i)" "fq_mapped_files (cl_queue cl') = (fq_mapped_files q1)[i := f]"
      "written f = written (fq_mapped_files q1 ! i) @ rec" "blank_rest (fq_mapped_files q1 ! i) \<longrightarrow> blank_rest f" "\<not> is_full f"
    using put_message_stores [OF ok cfg(2) m(1,2), of configs disk t flush] unfolding pos_def [symmetric] rec_def [symmetric] by blast
  have "fits_signed 8 (me_store_timestamp (bi_ext (stamped cfg t m')))"
    using m(3) st by (simp add: stamped_def storable_def head_ok_def)
  from put_record_recognised(1) [OF st this p63 m(4) assigned_crc [OF m(1) fits(2)]]
  have recog: "recognised check rec" unfolding check_def rec_def using cfg(1) by simp
  have i: "Suc i = length (fq_mapped_files q1)" and new: "if fq_mapped_files ?q = [] \<or> is_full (last (fq_mapped_files ?q))
     then \<exists>f. fq_mapped_files q1 = fq_mapped_files ?q @ [f] \<and> written f = [] \<and> ((\<forall>n. disk n = []) \<longrightarrow> blank_rest f)
     else fq_mapped_files q1 = fq_mapped_files ?q"
    using file_for_append_ok [OF q fits(1), of disk] a(1) by auto
  obtain fs g where fs: "fq_mapped_files q1 = fs @ [g]" "length fs = i" using i by (cases "fq_mapped_files q1" rule: rev_cases) auto
  have files: "fq_mapped_files (cl_queue cl') = fs @ [f]" "fq_mapped_files q1 ! i = g"
    unfolding a(2) fs(1) by (simp_all add: fs(2) [symmetric])
  have "blank_rest g" "if fq_mapped_files ?q = [] then fs = [] \<and> written g = []
      else fs = butlast (fq_mapped_files ?q) \<and> written g = written (last (fq_mapped_files ?q))"
  proof (atomize (full), cases "fq_mapped_files ?q = []")
    case False
    then have "fq_mapped_files ?q = fs @ [g]" "blank_rest (last (fq_mapped_files ?q))" using re new fs(1) by (simp_all add: restartable_def)
    then show "blank_rest g \<and> (if fq_mapped_files ?q = [] then fs = [] \<and> written g = []
        else fs = butlast (fq_mapped_files ?q) \<and> written g = written (last (fq_mapped_files ?q)))" by simp
  qed (use new disk fs(1) in auto)
  from restartable_snoc [OF re _ recog files(1) this(2)] this(1)
  have "restartable check (cl_queue cl') (recs(i := recs i @ [rec]))" using ok' a files(2) fs(2) by (simp add: cl_ok_def)
  then show ?thesis
    using put ok' r q' by (intro exI [of _ cl'] exI [of _ r] exI [of _ "recs(i := recs i @ [rec])"]) (simp add: files fs(2))
qed

text \<open>
  C4. A message that was put survives a restart: from a log that recovery can read, a put leads to such
  a log again, and after any stop of the broker loading the directory, in whatever order it is listed, and the
  normal recovery give back the log with the new record at its end. The confirmed offset is the place
  of the message. It is for messages that are neither scheduled nor batches of batches, without
  duplication, with new files that are empty.
\<close>

theorem put_survives_restart:
  fixes env cfg lvl tbl
  defines "check \<equiv> check_message_and_return_size env cfg (cc_check_crc_on_recover cfg) (cc_duplication_enable cfg) True lvl tbl"
  assumes "cl_ok cfg cl" and "restartable check (cl_queue cl) recs" and "\<forall>n. disk n = []"
    and "\<not> cc_enable_controller_mode cfg" and "\<not> cc_duplication_enable cfg" and "\<not> ha_unimplemented cfg (prepare_message env cfg now m)"
    and "assigned env cfg now m cl = (m', qo)" and "fits_log cfg m' (cl_queue cl)" and "fits_signed 8 t"
    and "plain_properties (inner_topic m') (properties_loop (bi_properties_string m') [])"
  shows "\<exists>cl' r recs'. cl_put_message env cfg configs disk now t flush m cl =
      Returned (cl', put_answer (case flush of Some st \<Rightarrow> st | None \<Rightarrow> FlushDiskTimeout) (Some r)) \<and>
    restartable check (cl_queue cl') recs' \<and>
    (\<forall>entries checkpoint offsets. mset entries = mset (dir_of (cl_queue cl')) \<longrightarrow>
      (\<exists>cl1 cl2 request. cl_load (Some entries) (commit_log_new cfg (fq_store_path (cl_queue cl')) checkpoint offsets) = Returned (cl1, True) \<and>
        recover_normally env cfg lvl tbl io_ok now' max_phy_offset cl1 = Returned (cl2, request, []) \<and> cl_ok cfg cl2 \<and>
        fq_base (cl_queue cl2) = fq_base (cl_queue cl) \<and>
        fq_written (cl_queue cl2) = fq_written (cl_queue cl) @ whole_record (bi_version m')
          (placed m' (stamped cfg t m') (nat (ar_wrote_offset r))) (stored_body m') (inner_topic m') (bi_properties_string m') \<and>
        cl_confirm_offset cl2 = ar_wrote_offset r))"
proof -
  let ?pos = "fq_base (cl_queue cl) + length (fq_written (cl_queue cl))"
  let ?rec = "whole_record (bi_version m') (placed m' (stamped cfg t m') ?pos) (stored_body m') (inner_topic m') (bi_properties_string m')"
  obtain cl' r recs' where put: "cl_put_message env cfg configs disk now t flush m cl =
      Returned (cl', put_answer (case flush of Some st \<Rightarrow> st | None \<Rightarrow> FlushDiskTimeout) (Some r))"
    and cl': "cl_ok cfg cl'" "ar_wrote_offset r = int ?pos" "fq_base (cl_queue cl') = fq_base (cl_queue cl)"
      "fq_written (cl_queue cl') = fq_written (cl_queue cl) @ ?rec" "restartable check (cl_queue cl') recs'"
      "fq_mapped_files (cl_queue cl') \<noteq> []"
      "recs' (length (fq_mapped_files (cl_queue cl')) - 1) = recs (length (fq_mapped_files (cl_queue cl')) - 1) @ [?rec]"
    using put_keeps_restartable [OF assms(2,3) [unfolded check_def] assms(4,6,7-11), of configs flush] unfolding check_def by blast
  have re: "recoverable check (fq_mapped_files (cl_queue cl')) (length (fq_mapped_files (cl_queue cl')) - 3) recs'"
    "written (last (fq_mapped_files (cl_queue cl'))) = concat (recs' (length (fq_mapped_files (cl_queue cl')) - 1))"
    using cl'(5,6) by (simp_all add: restartable_def)
  have "\<exists>cl1 cl2 request. cl_load (Some entries) (commit_log_new cfg (fq_store_path (cl_queue cl')) checkpoint offsets) = Returned (cl1, True) \<and>
        recover_normally env cfg lvl tbl io_ok now' max_phy_offset cl1 = Returned (cl2, request, []) \<and> cl_ok cfg cl2 \<and>
        fq_base (cl_queue cl2) = fq_base (cl_queue cl) \<and> fq_written (cl_queue cl2) = fq_written (cl_queue cl) @ ?rec \<and>
        cl_confirm_offset cl2 = ar_wrote_offset r" if "mset entries = mset (dir_of (cl_queue cl'))" for entries checkpoint offsets
    using log_survives_restart [OF cl'(1) assms(5) re [unfolded check_def] that, of checkpoint offsets io_ok now' max_phy_offset]
    unfolding cl'(2,3,4,7) by fastforce
  moreover have "nat (ar_wrote_offset r) = ?pos" unfolding cl'(2) by (simp only: nat_int)
  ultimately show ?thesis using put cl'(5) by (intro exI [of _ cl'] exI [of _ r] exI [of _ recs']) simp
qed

theorem put_survives_restart_witness:
  "\<exists>cl' r. cl_put_message sample_crates sample_log_config [] (\<lambda>_. []) 5 7 (Some PutOk) (sample_broker_inner MsgV1) sample_log =
      Returned (cl', put_answer PutOk (Some r)) \<and>
    (\<exists>cl1 cl2 request. cl_load (Some (rev (dir_of (cl_queue cl')))) (commit_log_new sample_log_config (fq_store_path (cl_queue cl')) (ck_new []) qo_new) =
        Returned (cl1, True) \<and>
      recover_normally sample_crates sample_log_config 0 [] True 0 0 cl1 = Returned (cl2, request, []) \<and>
      length (fq_written (cl_queue cl2)) = 98)"
proof -
  let ?m = "(sample_broker_inner MsgV1)\<lparr>bi_ext := sample_stored\<lparr>me_store_timestamp := 5, me_queue_offset := 0\<rparr>\<rparr>"
  let ?check = "check_message_and_return_size sample_crates sample_log_config (cc_check_crc_on_recover sample_log_config)
    (cc_duplication_enable sample_log_config) True 0 []"
  have f8: "fits_signed 8 5" "fits_signed 8 7" by (simp_all add: fits_signed_def)
  note s = sample_message_fits [OF f8(1)]
  have fits: "fits_log sample_log_config ?m (cl_queue sample_log)"
    using s sample_log_ok(2,3) sample_sizes by (simp add: fits_log_def sample_log_config_def default_store_config_def)
  have none: "fq_mapped_files (cl_queue sample_log) = []" by (simp add: sample_log_def commit_log_new_def fq_new_def)
  have re: "restartable ?check (cl_queue sample_log) (\<lambda>_. [])" by (simp add: restartable_def none)
  have plain: "plain_properties (inner_topic ?m) (properties_loop (bi_properties_string ?m) [])"
    unfolding plain_properties_def by code_simp
  have cfg: "\<not> cc_enable_controller_mode sample_log_config" "\<not> cc_duplication_enable sample_log_config"
    by (simp_all add: sample_log_config_def)
  have len: "length (whole_record (bi_version ?m) (placed ?m x p) (stored_body ?m) (inner_topic ?m) (bi_properties_string ?m)) = 98" for x p
    using encoded_record(2) [OF s(1)] s(2) by (simp add: placed_def whole_record_def record_head_def put_front_def)
  have empty: "fq_written (cl_queue sample_log) = []" by (simp add: fq_written_def none)
  obtain cl' r recs' where w: "cl_put_message sample_crates sample_log_config [] (\<lambda>_. []) 5 7 (Some PutOk) (sample_broker_inner MsgV1) sample_log =
      Returned (cl', put_answer PutOk (Some r))"
    and all: "\<forall>entries checkpoint offsets. mset entries = mset (dir_of (cl_queue cl')) \<longrightarrow>
      (\<exists>cl1 cl2 request. cl_load (Some entries) (commit_log_new sample_log_config (fq_store_path (cl_queue cl')) checkpoint offsets) = Returned (cl1, True) \<and>
        recover_normally sample_crates sample_log_config 0 [] True 0 0 cl1 = Returned (cl2, request, []) \<and>
        fq_written (cl_queue cl2) = whole_record (bi_version ?m)
          (placed ?m (stamped sample_log_config 7 ?m) (nat (ar_wrote_offset r))) (stored_body ?m) (inner_topic ?m) (bi_properties_string ?m))"
    using put_survives_restart [OF sample_log_ok(1) re _ cfg sample_message_ready(2,1) fits f8(2) plain,
        of "\<lambda>_. []" "[]" "Some PutOk" True 0 0] unfolding empty append_Nil option.case by blast
  have "mset (rev (dir_of (cl_queue cl'))) = mset (dir_of (cl_queue cl'))" by simp
  with all obtain cl1 cl2 request where v:
    "cl_load (Some (rev (dir_of (cl_queue cl')))) (commit_log_new sample_log_config (fq_store_path (cl_queue cl')) (ck_new []) qo_new) = Returned (cl1, True)"
    "recover_normally sample_crates sample_log_config 0 [] True 0 0 cl1 = Returned (cl2, request, [])" "length (fq_written (cl_queue cl2)) = 98"
    using len by metis
  show ?thesis by (intro exI conjI, rule w, rule v(1), rule v(2), rule v(3))
qed

end
