(* ===== verification/Index_File.thy ===== *)
theory Index_File
  imports Mapped_File Message_Props
begin

text \<open>
  The index of messages by their keys (\<open>rocketmq-store/src/index/index_file.rs\<close>,
  \<open>index_header.rs\<close>): a mapped file with a header of forty bytes, a table of slots of four bytes and entries of
  twenty bytes, where entries of one slot are chained from the newest to the oldest. The counts of
  slots and entries are \<open>u32\<close> values of the configuration, so positions do not overflow a
  \<open>usize\<close>. The loop of a query follows a chain that it does not check for cycles; \<open>None\<close> stands for
  a query that does not end.
\<close>

section \<open>Header\<close>

record index_file =
  ix_hash_slot_num :: nat
  ix_index_num :: nat
  ix_file_total_size :: nat
  ix_mapped_file :: mapped_file
  ix_begin_timestamp :: i64
  ix_end_timestamp :: i64
  ix_begin_phy_offset :: i64
  ix_end_phy_offset :: i64
  ix_hash_slot_count :: i32
  ix_index_count :: i32

abbreviation index_header_size :: nat where "index_header_size \<equiv> 40"
abbreviation hash_slot_size :: nat where "hash_slot_size \<equiv> 4"
abbreviation index_size :: nat where "index_size \<equiv> 20"

definition store_field :: "nat \<Rightarrow> bytes \<Rightarrow> index_file \<Rightarrow> index_file outcome" where
  "store_field pos data x =
     (case write_bytes_segment data pos 0 (length data) (ix_mapped_file x) of
        Panicked \<Rightarrow> Panicked
      | Returned (f, _) \<Rightarrow> Returned (x\<lparr>ix_mapped_file := f\<rparr>))"

definition set_begin_timestamp :: "i64 \<Rightarrow> index_file \<Rightarrow> index_file outcome" where
  "set_begin_timestamp v x = store_field 0 (put_i64 v) (x\<lparr>ix_begin_timestamp := v\<rparr>)"

definition set_end_timestamp :: "i64 \<Rightarrow> index_file \<Rightarrow> index_file outcome" where
  "set_end_timestamp v x = store_field 8 (put_i64 v) (x\<lparr>ix_end_timestamp := v\<rparr>)"

definition set_begin_phy_offset :: "i64 \<Rightarrow> index_file \<Rightarrow> index_file outcome" where
  "set_begin_phy_offset v x = store_field 16 (put_i64 v) (x\<lparr>ix_begin_phy_offset := v\<rparr>)"

definition set_end_phy_offset :: "i64 \<Rightarrow> index_file \<Rightarrow> index_file outcome" where
  "set_end_phy_offset v x = store_field 24 (put_i64 v) (x\<lparr>ix_end_phy_offset := v\<rparr>)"

definition inc_hash_slot_count :: "index_file \<Rightarrow> index_file outcome" where
  "inc_hash_slot_count x =
     (let n = wrap_i32 (ix_hash_slot_count x + 1) in store_field 32 (put_i32 n) (x\<lparr>ix_hash_slot_count := n\<rparr>))"

definition inc_index_count :: "index_file \<Rightarrow> index_file outcome" where
  "inc_index_count x =
     (let n = wrap_i32 (ix_index_count x + 1) in store_field 36 (put_i32 n) (x\<lparr>ix_index_count := n\<rparr>))"

definition read_header :: "bytes \<Rightarrow> index_file \<Rightarrow> index_file option" where
  "read_header bs x = do {
     (begin_timestamp, bs) \<leftarrow> get_i64 bs;
     (end_timestamp, bs) \<leftarrow> get_i64 bs;
     (begin_phy_offset, bs) \<leftarrow> get_i64 bs;
     (end_phy_offset, bs) \<leftarrow> get_i64 bs;
     (hash_slot_count, bs) \<leftarrow> get_i32 bs;
     (index_count, bs) \<leftarrow> get_i32 bs;
     Some (x\<lparr>ix_begin_timestamp := begin_timestamp, ix_end_timestamp := end_timestamp,
       ix_begin_phy_offset := begin_phy_offset, ix_end_phy_offset := end_phy_offset,
       ix_hash_slot_count := hash_slot_count, ix_index_count := (if index_count \<le> 0 then 1 else index_count)\<rparr>) }"

definition index_load :: "index_file \<Rightarrow> index_file outcome" where
  "index_load x =
     (case mf_get_bytes 0 index_header_size (ix_mapped_file x) of
        Returned (Some bs) \<Rightarrow> (case read_header bs x of Some x' \<Rightarrow> Returned x' | None \<Rightarrow> Panicked)
      | _ \<Rightarrow> Panicked)"

definition put_field :: "nat \<Rightarrow> bytes \<Rightarrow> index_file \<Rightarrow> index_file outcome" where
  "put_field pos data x =
     (case put_slice data pos (ix_mapped_file x) of
        Panicked \<Rightarrow> Panicked
      | Returned (f, _) \<Rightarrow> Returned (x\<lparr>ix_mapped_file := f\<rparr>))"

definition update_byte_buffer :: "index_file \<Rightarrow> index_file outcome" where
  "update_byte_buffer x =
     bind_outcome (put_field 0 (put_i64 (ix_begin_timestamp x)) x) (\<lambda>x.
     bind_outcome (put_field 8 (put_i64 (ix_end_timestamp x)) x) (\<lambda>x.
     bind_outcome (put_field 16 (put_i64 (ix_begin_phy_offset x)) x) (\<lambda>x.
     bind_outcome (put_field 24 (put_i64 (ix_end_phy_offset x)) x) (\<lambda>x.
     bind_outcome (put_field 32 (put_i32 (ix_hash_slot_count x)) x) (\<lambda>x.
     put_field 36 (put_i32 (ix_index_count x)) x)))))"

section \<open>The file\<close>

definition index_file_new :: "bytes \<Rightarrow> string \<Rightarrow> nat \<Rightarrow> nat \<Rightarrow> i64 \<Rightarrow> i64 \<Rightarrow> index_file outcome" where
  "index_file_new content file_name hash_slot_num index_num end_phy_offset end_timestamp =
     (let file_total_size = index_header_size + hash_slot_num * hash_slot_size + index_num * index_size
      in bind_outcome (mapped_file_new content file_name (of_nat file_total_size)) (\<lambda>f.
         let x = \<lparr>ix_hash_slot_num = hash_slot_num, ix_index_num = index_num, ix_file_total_size = file_total_size, ix_mapped_file = f,
                  ix_begin_timestamp = 0, ix_end_timestamp = 0, ix_begin_phy_offset = 0, ix_end_phy_offset = 0,
                  ix_hash_slot_count = 0, ix_index_count = 1\<rparr>
         in bind_outcome
              (if end_phy_offset > 0
               then bind_outcome (set_begin_phy_offset end_phy_offset x) (set_end_phy_offset end_phy_offset)
               else Returned x) (\<lambda>x.
              if end_timestamp > 0
              then bind_outcome (set_begin_timestamp end_timestamp x) (set_end_timestamp end_timestamp)
              else Returned x)))"

definition index_flush :: "bool \<Rightarrow> u64 \<Rightarrow> index_file \<Rightarrow> index_file outcome" where
  "index_flush io_ok now x =
     (case mf_hold (ix_mapped_file x) of
        (f, False) \<Rightarrow> Returned (x\<lparr>ix_mapped_file := f\<rparr>)
      | (f, True) \<Rightarrow>
          bind_outcome (update_byte_buffer (x\<lparr>ix_mapped_file := f\<rparr>)) (\<lambda>x.
          bind_outcome (mf_flush io_ok now 0 (ix_mapped_file x)) (\<lambda>(f, _).
          Returned (x\<lparr>ix_mapped_file := mf_release f\<rparr>))))"

definition is_write_full :: "index_file \<Rightarrow> bool" where
  "is_write_full x \<longleftrightarrow> ix_index_count x \<ge> wrap_i32 (int (ix_index_num x))"

definition index_destroy :: "bool \<Rightarrow> u64 \<Rightarrow> u64 \<Rightarrow> index_file \<Rightarrow> index_file \<times> bool" where
  "index_destroy io_ok now interval_forcibly x =
     (case mf_destroy io_ok now interval_forcibly (ix_mapped_file x) of (f, r) \<Rightarrow> (x\<lparr>ix_mapped_file := f\<rparr>, r))"

definition index_key_hash_method :: "bytes \<Rightarrow> i32" where
  "index_key_hash_method key = (let hash_code = hash_str key in if hash_code = - (2 ^ 31) then 0 else \<bar>hash_code\<bar>)"

definition slot_position :: "index_file \<Rightarrow> i32 \<Rightarrow> nat" where
  "slot_position x hash_code = index_header_size + as_usize hash_code mod ix_hash_slot_num x * hash_slot_size"

definition index_position :: "index_file \<Rightarrow> i32 \<Rightarrow> nat" where
  "index_position x i = index_header_size + ix_hash_slot_num x * hash_slot_size + as_usize i * index_size"

definition time_difference :: "i64 \<Rightarrow> index_file \<Rightarrow> i64" where
  "time_difference store_timestamp x =
     (let time_diff = trunc_div (wrap_i64 (store_timestamp - ix_begin_timestamp x)) 1000
      in if ix_begin_timestamp x \<le> 0 then 0
         else if time_diff > 2 ^ 31 - 1 then 2 ^ 31 - 1
         else if time_diff < 0 then 0 else time_diff)"

definition write_entry :: "nat \<Rightarrow> i32 \<Rightarrow> i64 \<Rightarrow> i64 \<Rightarrow> i32 \<Rightarrow> index_file \<Rightarrow> index_file outcome" where
  "write_entry pos hash_code phy_offset time_diff slot_value x =
     bind_outcome (store_field pos (put_i32 hash_code) x) (\<lambda>x.
     bind_outcome (store_field (pos + 4) (put_i64 phy_offset) x) (\<lambda>x.
     bind_outcome (store_field (pos + 4 + 8) (put_i32 (wrap_i32 time_diff)) x) (\<lambda>x.
     store_field (pos + 4 + 8 + 4) (put_i32 slot_value) x)))"

definition update_header :: "i64 \<Rightarrow> i64 \<Rightarrow> i32 \<Rightarrow> index_file \<Rightarrow> index_file outcome" where
  "update_header phy_offset store_timestamp slot_value x =
     bind_outcome
       (if ix_index_count x \<le> 1
        then bind_outcome (set_begin_phy_offset phy_offset x) (set_begin_timestamp store_timestamp)
        else Returned x) (\<lambda>x.
     bind_outcome (if slot_value = 0 then inc_hash_slot_count x else Returned x) (\<lambda>x.
     bind_outcome (inc_index_count x) (\<lambda>x.
     bind_outcome (set_end_phy_offset phy_offset x) (set_end_timestamp store_timestamp))))"

definition index_put_key :: "bytes \<Rightarrow> i64 \<Rightarrow> i64 \<Rightarrow> index_file \<Rightarrow> (index_file \<times> bool) outcome" where
  "index_put_key key phy_offset store_timestamp x =
     (if ix_index_count x < wrap_i32 (int (ix_index_num x)) then
        if ix_hash_slot_num x = 0 then Panicked
        else
          let hash_code = index_key_hash_method key;
              abs_slot_pos = slot_position x hash_code
          in (case slice_get (mf_mmapped_file (ix_mapped_file x)) abs_slot_pos (abs_slot_pos + 4) of
                None \<Rightarrow> Panicked
              | Some buf \<Rightarrow>
                  (case get_i32 buf of
                     None \<Rightarrow> Panicked
                   | Some (v, _) \<Rightarrow>
                       let slot_value = (if v \<le> 0 \<or> v > ix_index_count x then 0 else v)
                       in bind_outcome (write_entry (index_position x (ix_index_count x)) hash_code phy_offset
                            (time_difference store_timestamp x) slot_value x) (\<lambda>x.
                          bind_outcome (store_field abs_slot_pos (put_i32 (ix_index_count x)) x) (\<lambda>x.
                          bind_outcome (update_header phy_offset store_timestamp slot_value x) (\<lambda>x.
                          Returned (x, True))))))
      else Returned (x, False))"

section \<open>Queries\<close>

definition is_time_matched :: "i64 \<Rightarrow> i64 \<Rightarrow> index_file \<Rightarrow> bool" where
  "is_time_matched lo hi x \<longleftrightarrow>
     (let begin_timestamp = ix_begin_timestamp x; end_timestamp = ix_end_timestamp x
      in lo < begin_timestamp \<and> hi > end_timestamp \<or>
         lo \<ge> begin_timestamp \<and> lo \<le> end_timestamp \<or>
         hi \<ge> begin_timestamp \<and> hi \<le> end_timestamp)"

text \<open>
  An entry is read from a slice of the file: the second argument of \<open>get_slice\<close> is a length, but the
  code passes the end of the entry, and it indexes the slice with the position of the entry in the file.
\<close>

definition read_entry :: "i32 \<Rightarrow> index_file \<Rightarrow> (i32 \<times> i64 \<times> i32 \<times> i32) outcome" where
  "read_entry i x =
     (let abs_index_pos = index_position x i
      in case get_slice abs_index_pos (abs_index_pos + index_size) (ix_mapped_file x) of
           Returned (Some buffer) \<Rightarrow>
             (case (slice_get buffer abs_index_pos (abs_index_pos + 4) \<bind> get_i32,
                    slice_get buffer (abs_index_pos + 4) (abs_index_pos + 12) \<bind> get_i64,
                    slice_get buffer (abs_index_pos + 12) (abs_index_pos + 16) \<bind> get_i32,
                    slice_get buffer (abs_index_pos + 16) (abs_index_pos + 20) \<bind> get_i32) of
                (Some (key_hash, _), Some (phy_offset, _), Some (time_diff, _), Some (prev_index, _)) \<Rightarrow>
                  Returned (key_hash, phy_offset, time_diff, prev_index)
              | _ \<Rightarrow> Panicked)
         | _ \<Rightarrow> Panicked)"

partial_function (option) select_loop ::
  "i32 \<Rightarrow> nat \<Rightarrow> i64 \<Rightarrow> i64 \<Rightarrow> index_file \<Rightarrow> i64 list \<Rightarrow> i32 \<Rightarrow> i64 list outcome option" where
  "select_loop key_hash max_num lo hi x phy_offsets next_index =
     (if length phy_offsets < max_num then
        (case read_entry next_index x of
           Panicked \<Rightarrow> Some Panicked
         | Returned (key_hash_read, phy_offset_read, time_diff, prev_index) \<Rightarrow>
             if time_diff < 0 then Some (Returned phy_offsets)
             else
               let time_read = wrap_i64 (ix_begin_timestamp x + wrap_i64 (time_diff * 1000));
                   phy_offsets' = (if key_hash = key_hash_read \<and> time_read \<ge> lo \<and> time_read \<le> hi
                                   then phy_offsets @ [phy_offset_read] else phy_offsets)
               in if prev_index \<le> 0 \<or> prev_index > ix_index_count x \<or> prev_index = next_index \<or> time_read < lo
                  then Some (Returned phy_offsets')
                  else select_loop key_hash max_num lo hi x phy_offsets' prev_index)
      else Some (Returned phy_offsets))"

text \<open>The file is held for the query and not released.\<close>

definition select_phy_offset ::
  "i64 list \<Rightarrow> bytes \<Rightarrow> nat \<Rightarrow> i64 \<Rightarrow> i64 \<Rightarrow> index_file \<Rightarrow> (index_file \<times> i64 list) outcome option" where
  "select_phy_offset phy_offsets key max_num lo hi x =
     (case mf_hold (ix_mapped_file x) of
        (f, False) \<Rightarrow> Some (Returned (x\<lparr>ix_mapped_file := f\<rparr>, phy_offsets))
      | (f, True) \<Rightarrow>
          let x' = x\<lparr>ix_mapped_file := f\<rparr>;
              key_hash = index_key_hash_method key;
              abs_slot_pos = slot_position x key_hash
          in if ix_hash_slot_num x = 0 then Some Panicked
             else (case get_slice abs_slot_pos (abs_slot_pos + 4) f of
                     Panicked \<Rightarrow> Some Panicked
                   | Returned None \<Rightarrow> Some (Returned (x', phy_offsets))
                   | Returned (Some buffer) \<Rightarrow>
                       (case get_i32 buffer of
                          None \<Rightarrow> Some Panicked
                        | Some (slot_value, _) \<Rightarrow>
                            if slot_value \<le> 0 \<or> slot_value > ix_index_count x \<or> ix_index_count x \<le> 1
                            then Some (Returned (x', phy_offsets))
                            else map_option (\<lambda>r. bind_outcome r (\<lambda>offs. Returned (x', offs)))
                                   (select_loop key_hash max_num lo hi x' phy_offsets slot_value))))"

section \<open>The bytes of an index file\<close>

definition header_bytes :: "index_file \<Rightarrow> i32 \<Rightarrow> bytes" where
  "header_bytes x c = put_i64 (ix_begin_timestamp x) @ put_i64 (ix_end_timestamp x) @ put_i64 (ix_begin_phy_offset x) @
     put_i64 (ix_end_phy_offset x) @ put_i32 (ix_hash_slot_count x) @ put_i32 c"

type_synonym index_entry = "i32 \<times> i64 \<times> i32 \<times> i32"

fun put_entry :: "index_entry \<Rightarrow> bytes" where
  "put_entry (h, p, d, prev) = put_i32 h @ put_i64 p @ put_i32 d @ put_i32 prev"

definition index_total :: "index_file \<Rightarrow> nat" where
  "index_total x = index_header_size + ix_hash_slot_num x * hash_slot_size + ix_index_num x * index_size"

definition ix_file_ok :: "index_file \<Rightarrow> bool" where
  "ix_file_ok x \<longleftrightarrow> 0 < ix_hash_slot_num x \<and> 0 < ix_index_num x \<and> index_total x < 2 ^ 31 \<and>
     length (mf_mmapped_file (ix_mapped_file x)) = index_total x \<and> unat (mf_file_size (ix_mapped_file x)) = index_total x"

definition with_bytes :: "bytes \<Rightarrow> index_file \<Rightarrow> index_file" where
  "with_bytes b x = x\<lparr>ix_mapped_file := (ix_mapped_file x)\<lparr>mf_mmapped_file := b\<rparr>\<rparr>"

lemma length_header [simp]: "length (header_bytes x c) = 40"
  by (simp add: header_bytes_def)

lemma length_entry [simp]: "length (put_entry e) = 20"
  by (cases e) simp

lemma length_slots [simp]: "length (concat (map put_i32 vs)) = 4 * length vs"
  by (induction vs) simp_all

lemma length_entries [simp]: "length (concat (map put_entry es)) = 20 * length es"
  by (induction es) simp_all

lemma store_field_ok:
  assumes "ix_file_ok x" "pos + length data \<le> index_total x"
  shows "store_field pos data x = Returned (with_bytes (overwrite (mf_mmapped_file (ix_mapped_file x)) pos data) x)"
  using assms by (simp add: store_field_def write_bytes_segment_def ix_file_ok_def usize_add_small slice_of_range with_bytes_def)

lemma overwrite_front: "length a = length d \<Longrightarrow> overwrite (a @ r) 0 d = d @ r"
  by (simp add: overwrite_def)

lemma overwrite_skip: "overwrite (a @ b) (length a + p) d = a @ overwrite b p d"
  by (simp add: overwrite_def add.assoc)

lemma overwrite_chunk:
  "i < length xs \<Longrightarrow> (\<And>y. length (enc y) = n) \<Longrightarrow>
   overwrite (concat (map enc xs) @ r) (n * i) (enc v) = concat (map enc (xs[i := v])) @ r"
proof (induction xs arbitrary: i)
  case (Cons y ys)
  show ?case
  proof (cases i)
    case 0
    then show ?thesis using Cons.prems(2) overwrite_front [of "enc y" "enc v"] by simp
  next
    case (Suc j)
    then have "overwrite (enc y @ concat (map enc ys) @ r) (length (enc y) + n * j) (enc v) = enc y @ concat (map enc (ys[j := v])) @ r"
      using Cons by (subst overwrite_skip) simp
    then show ?thesis using Cons.prems(2) Suc by simp
  qed
qed simp

text \<open>
  An index file with these values in its slots and these entries; the first entry is never used. The
  count in the file is zero until the first key is put.
\<close>

definition ix_rep :: "index_file \<Rightarrow> i32 list \<Rightarrow> index_entry list \<Rightarrow> bytes \<Rightarrow> bool" where
  "ix_rep x vs es rest \<longleftrightarrow> ix_file_ok x \<and> length vs = ix_hash_slot_num x \<and> es \<noteq> [] \<and>
     ix_index_count x = int (length es) \<and> length es \<le> ix_index_num x \<and>
     mf_mmapped_file (ix_mapped_file x) =
       header_bytes x (if length es = 1 then 0 else int (length es)) @ concat (map put_i32 vs) @ concat (map put_entry es) @ rest"

text \<open>The setters of the header.\<close>

definition header_ok :: "index_file \<Rightarrow> bool" where
  "header_ok x \<longleftrightarrow> fits_signed 8 (ix_begin_timestamp x) \<and> fits_signed 8 (ix_end_timestamp x) \<and>
     fits_signed 8 (ix_begin_phy_offset x) \<and> fits_signed 8 (ix_end_phy_offset x) \<and> fits_signed 4 (ix_hash_slot_count x)"

definition laid_out :: "index_file \<Rightarrow> i32 \<Rightarrow> bytes \<Rightarrow> bool" where
  "laid_out x c body \<longleftrightarrow> ix_file_ok x \<and> mf_mmapped_file (ix_mapped_file x) = header_bytes x c @ body"

lemma laid_out_length: "laid_out x c body \<Longrightarrow> 40 + length body = index_total x"
  by (auto simp: laid_out_def ix_file_ok_def)

definition relaid :: "index_file \<Rightarrow> i32 \<Rightarrow> bytes \<Rightarrow> index_file" where
  "relaid x c body = with_bytes (header_bytes x c @ body) x"

lemma set_field:
  assumes "laid_out x c body" "header_bytes x c = a @ old @ b" "header_bytes y c' = a @ new @ b" "length new = length old"
    and "ix_mapped_file y = ix_mapped_file x" "ix_hash_slot_num y = ix_hash_slot_num x" "ix_index_num y = ix_index_num x"
  shows "store_field (length a) new y = Returned (relaid y c' body) \<and> laid_out (relaid y c' body) c' body"
proof -
  have x: "ix_file_ok x" using assms(1) by (simp add: laid_out_def)
  then have ok: "ix_file_ok y" using assms(5-7) unfolding ix_file_ok_def index_total_def by simp
  have bytes: "mf_mmapped_file (ix_mapped_file y) = a @ (old @ b) @ body"
    using assms(1,2,5) by (simp add: laid_out_def)
  have tot: "index_total y = 40 + length body" using laid_out_length [OF assms(1)] assms(6,7) by (simp add: index_total_def)
  have len: "length a + length new + length b = 40" using arg_cong [OF assms(3), of length] by simp
  have "overwrite (a @ (old @ b) @ body) (length a + 0) new = a @ new @ b @ body"
    unfolding overwrite_skip using assms(4) overwrite_front [of old new "b @ body"] by simp
  then have "store_field (length a) new y = Returned (relaid y c' body)"
    using store_field_ok [OF ok, of "length a" new] bytes tot len assms(3) by (simp add: relaid_def)
  moreover have "laid_out (relaid y c' body) c' body"
    using ok tot by (simp add: relaid_def laid_out_def ix_file_ok_def with_bytes_def index_total_def header_bytes_def)
  ultimately show ?thesis by simp
qed

lemma setters:
  assumes "laid_out x c body"
  shows "set_begin_timestamp v x = Returned (relaid (x\<lparr>ix_begin_timestamp := v\<rparr>) c body) \<and>
      laid_out (relaid (x\<lparr>ix_begin_timestamp := v\<rparr>) c body) c body"
    "set_end_timestamp v x = Returned (relaid (x\<lparr>ix_end_timestamp := v\<rparr>) c body) \<and>
      laid_out (relaid (x\<lparr>ix_end_timestamp := v\<rparr>) c body) c body"
    "set_begin_phy_offset v x = Returned (relaid (x\<lparr>ix_begin_phy_offset := v\<rparr>) c body) \<and>
      laid_out (relaid (x\<lparr>ix_begin_phy_offset := v\<rparr>) c body) c body"
    "set_end_phy_offset v x = Returned (relaid (x\<lparr>ix_end_phy_offset := v\<rparr>) c body) \<and>
      laid_out (relaid (x\<lparr>ix_end_phy_offset := v\<rparr>) c body) c body"
    "inc_hash_slot_count x = Returned (relaid (x\<lparr>ix_hash_slot_count := wrap_i32 (ix_hash_slot_count x + 1)\<rparr>) c body) \<and>
      laid_out (relaid (x\<lparr>ix_hash_slot_count := wrap_i32 (ix_hash_slot_count x + 1)\<rparr>) c body) c body"
    "inc_index_count x = Returned (relaid (x\<lparr>ix_index_count := wrap_i32 (ix_index_count x + 1)\<rparr>) (wrap_i32 (ix_index_count x + 1)) body) \<and>
      laid_out (relaid (x\<lparr>ix_index_count := wrap_i32 (ix_index_count x + 1)\<rparr>) (wrap_i32 (ix_index_count x + 1)) body) (wrap_i32 (ix_index_count x + 1)) body"
proof -
  let ?a = "put_i64 (ix_begin_timestamp x)" and ?b = "put_i64 (ix_end_timestamp x)" and ?c = "put_i64 (ix_begin_phy_offset x)"
    and ?d = "put_i64 (ix_end_phy_offset x)" and ?e = "put_i32 (ix_hash_slot_count x)"
  note s = set_field [OF assms] and h = header_bytes_def
  show "set_begin_timestamp v x = Returned (relaid (x\<lparr>ix_begin_timestamp := v\<rparr>) c body) \<and>
      laid_out (relaid (x\<lparr>ix_begin_timestamp := v\<rparr>) c body) c body"
    unfolding set_begin_timestamp_def using s [of "[]" ?a _ "x\<lparr>ix_begin_timestamp := v\<rparr>" c "put_i64 v"] by (simp add: h)
  show "set_end_timestamp v x = Returned (relaid (x\<lparr>ix_end_timestamp := v\<rparr>) c body) \<and>
      laid_out (relaid (x\<lparr>ix_end_timestamp := v\<rparr>) c body) c body"
    unfolding set_end_timestamp_def using s [of ?a ?b _ "x\<lparr>ix_end_timestamp := v\<rparr>" c "put_i64 v"] by (simp add: h)
  show "set_begin_phy_offset v x = Returned (relaid (x\<lparr>ix_begin_phy_offset := v\<rparr>) c body) \<and>
      laid_out (relaid (x\<lparr>ix_begin_phy_offset := v\<rparr>) c body) c body"
    unfolding set_begin_phy_offset_def using s [of "?a @ ?b" ?c _ "x\<lparr>ix_begin_phy_offset := v\<rparr>" c "put_i64 v"] by (simp add: h)
  show "set_end_phy_offset v x = Returned (relaid (x\<lparr>ix_end_phy_offset := v\<rparr>) c body) \<and>
      laid_out (relaid (x\<lparr>ix_end_phy_offset := v\<rparr>) c body) c body"
    unfolding set_end_phy_offset_def using s [of "?a @ ?b @ ?c" ?d _ "x\<lparr>ix_end_phy_offset := v\<rparr>" c "put_i64 v"] by (simp add: h)
  show "inc_hash_slot_count x = Returned (relaid (x\<lparr>ix_hash_slot_count := wrap_i32 (ix_hash_slot_count x + 1)\<rparr>) c body) \<and>
      laid_out (relaid (x\<lparr>ix_hash_slot_count := wrap_i32 (ix_hash_slot_count x + 1)\<rparr>) c body) c body"
    unfolding inc_hash_slot_count_def Let_def
    using s [of "?a @ ?b @ ?c @ ?d" ?e _ "x\<lparr>ix_hash_slot_count := wrap_i32 (ix_hash_slot_count x + 1)\<rparr>" c] by (simp add: h)
  show "inc_index_count x = Returned (relaid (x\<lparr>ix_index_count := wrap_i32 (ix_index_count x + 1)\<rparr>) (wrap_i32 (ix_index_count x + 1)) body) \<and>
      laid_out (relaid (x\<lparr>ix_index_count := wrap_i32 (ix_index_count x + 1)\<rparr>) (wrap_i32 (ix_index_count x + 1)) body) (wrap_i32 (ix_index_count x + 1)) body"
    unfolding inc_index_count_def Let_def
    using s [of "?a @ ?b @ ?c @ ?d @ ?e" "put_i32 c" "[]" "x\<lparr>ix_index_count := wrap_i32 (ix_index_count x + 1)\<rparr>"] by (simp add: h)
qed

lemma overwrite_adjacent:
  assumes "p + length a + length d \<le> length b"
  shows "overwrite (overwrite b p a) (p + length a) d = overwrite b p (a @ d)"
proof -
  have "take (p + length a) (take p b @ a @ drop (p + length a) b) = take p b @ a" using assms by simp
  moreover have "drop (p + length a + length d) (take p b @ a @ drop (p + length a) b) = drop (p + length a + length d) b"
    using assms by (simp add: ac_simps)
  ultimately show ?thesis unfolding overwrite_def by (simp add: ac_simps)
qed

lemma store_body:
  assumes "laid_out x c body" "p + length d \<le> length body"
  shows "store_field (40 + p) d x = Returned (relaid x c (overwrite body p d)) \<and>
    laid_out (relaid x c (overwrite body p d)) c (overwrite body p d)"
proof -
  have ok: "ix_file_ok x" "mf_mmapped_file (ix_mapped_file x) = header_bytes x c @ body" using assms(1) by (simp_all add: laid_out_def)
  have "overwrite (header_bytes x c @ body) (length (header_bytes x c) + p) d = header_bytes x c @ overwrite body p d"
    by (rule overwrite_skip)
  then have "store_field (40 + p) d x = Returned (relaid x c (overwrite body p d))"
    using store_field_ok [OF ok(1), of "40 + p" d] laid_out_length [OF assms(1)] assms(2) ok(2) by (simp add: relaid_def)
  moreover have "laid_out (relaid x c (overwrite body p d)) c (overwrite body p d)"
    using ok assms laid_out_length [OF assms(1)]
    by (simp add: relaid_def laid_out_def ix_file_ok_def with_bytes_def index_total_def header_bytes_def)
  ultimately show ?thesis by simp
qed

lemma relaid_again: "relaid (relaid x c body) c' body' = relaid x c' body'"
  by (simp add: relaid_def with_bytes_def header_bytes_def)

lemma write_entry_ok:
  fixes h phy td sv :: int
  assumes lo: "laid_out x c body" and p: "p + 20 \<le> length body"
  defines "body' \<equiv> overwrite body p (put_entry (h, phy, wrap_i32 td, sv))"
  shows "write_entry (40 + p) h phy td sv x = Returned (relaid x c body') \<and> laid_out (relaid x c body') c body'"
proof -
  let ?a = "put_i32 h" and ?b = "put_i64 phy" and ?c = "put_i32 (wrap_i32 td)" and ?d = "put_i32 sv"
  note s1 = store_body [OF lo, of p ?a]
  have l1: "laid_out (relaid x c (overwrite body p ?a)) c (overwrite body p ?a)" using s1 p by simp
  note s2 = store_body [OF l1, of "p + 4" ?b]
  have b2: "overwrite (overwrite body p ?a) (p + 4) ?b = overwrite body p (?a @ ?b)" using overwrite_adjacent [of p ?a ?b body] p by simp
  have l2: "laid_out (relaid x c (overwrite body p (?a @ ?b))) c (overwrite body p (?a @ ?b))" using s2 p b2 by (simp add: relaid_again)
  note s3 = store_body [OF l2, of "p + 12" ?c]
  have b3: "overwrite (overwrite body p (?a @ ?b)) (p + 12) ?c = overwrite body p (?a @ ?b @ ?c)"
    using overwrite_adjacent [of p "?a @ ?b" ?c body] p by simp
  have l3: "laid_out (relaid x c (overwrite body p (?a @ ?b @ ?c))) c (overwrite body p (?a @ ?b @ ?c))" using s3 p b3 by (simp add: relaid_again)
  note s4 = store_body [OF l3, of "p + 16" ?d]
  have b4: "overwrite (overwrite body p (?a @ ?b @ ?c)) (p + 16) ?d = body'"
    using overwrite_adjacent [of p "?a @ ?b @ ?c" ?d body] p by (simp add: body'_def)
  show ?thesis
    using s1 s2 s3 s4 p b2 b3 b4 by (simp add: write_entry_def relaid_again add.assoc)
qed

lemma update_header_ok:
  assumes lo: "laid_out x c body"
  defines "n \<equiv> wrap_i32 (ix_index_count x + 1)"
  shows "\<exists>y. update_header phy t sv x = Returned y \<and> laid_out y n body \<and> ix_index_count y = n \<and>
    ix_hash_slot_num y = ix_hash_slot_num x \<and> ix_index_num y = ix_index_num x \<and>
    ix_end_phy_offset y = phy \<and> ix_end_timestamp y = t \<and>
    ix_begin_timestamp y = (if ix_index_count x \<le> 1 then t else ix_begin_timestamp x) \<and>
    (header_ok x \<and> fits_signed 8 phy \<and> fits_signed 8 t \<longrightarrow> header_ok y) \<and>
    mf_reference_resource (ix_mapped_file y) = mf_reference_resource (ix_mapped_file x) \<and>
    mf_file_name (ix_mapped_file y) = mf_file_name (ix_mapped_file x)"
proof -
  define x1 where "x1 = (if ix_index_count x \<le> 1 then relaid (x\<lparr>ix_begin_phy_offset := phy, ix_begin_timestamp := t\<rparr>) c body else x)"
  have 1: "(if ix_index_count x \<le> 1 then bind_outcome (set_begin_phy_offset phy x) (set_begin_timestamp t) else Returned x) = Returned x1"
    "laid_out x1 c body"
    using lo setters(3) [OF lo, of phy] setters(1) [of "relaid (x\<lparr>ix_begin_phy_offset := phy\<rparr>) c body" c body t]
    by (simp_all add: x1_def relaid_def with_bytes_def header_bytes_def)
  define x2 where "x2 = (if sv = 0 then relaid (x1\<lparr>ix_hash_slot_count := wrap_i32 (ix_hash_slot_count x1 + 1)\<rparr>) c body else x1)"
  have 2: "(if sv = 0 then inc_hash_slot_count x1 else Returned x1) = Returned x2" "laid_out x2 c body"
    using setters(5) [OF 1(2)] 1(2) by (simp_all add: x2_def)
  have cnt: "ix_index_count x2 = ix_index_count x" by (simp add: x2_def x1_def relaid_def with_bytes_def)
  define x3 where "x3 = relaid (x2\<lparr>ix_index_count := n\<rparr>) n body"
  have 3: "inc_index_count x2 = Returned x3" "laid_out x3 n body"
    using setters(6) [OF 2(2)] by (simp_all add: x3_def n_def cnt)
  note 4 = setters(4) [OF 3(2), of phy]
  note 5 = setters(2) [OF conjunct2 [OF 4], of t]
  have "update_header phy t sv x = set_end_timestamp t (relaid (x3\<lparr>ix_end_phy_offset := phy\<rparr>) n body)"
    unfolding update_header_def 1(1) bind_outcome.simps 2(1) 3(1) using 4 by simp
  with 5 show ?thesis
    by (intro exI [of _ "relaid (relaid (x3\<lparr>ix_end_phy_offset := phy\<rparr>) n body\<lparr>ix_end_timestamp := t\<rparr>) n body"])
      (use is_i32_wrap [of "ix_hash_slot_count x + 1"] in
        \<open>simp add: x3_def x2_def x1_def relaid_def with_bytes_def header_ok_def fits_signed_def is_i32_def\<close>)
qed

lemma chunk_nth:
  "i < length xs \<Longrightarrow> (\<And>y. length (enc y) = n) \<Longrightarrow> take n (drop (n * i) (concat (map enc xs) @ r)) = enc (xs ! i)"
proof (induction xs arbitrary: i)
  case (Cons y ys)
  show ?case
  proof (cases i)
    case (Suc j)
    then have "drop (n * i) (enc y @ concat (map enc ys) @ r) = drop (n * j) (concat (map enc ys) @ r)"
      using Cons.prems(2) by simp
    then show ?thesis using Cons Suc by simp
  qed (use Cons.prems(2) in simp)
qed simp

abbreviation index_body :: "i32 list \<Rightarrow> index_entry list \<Rightarrow> bytes \<Rightarrow> bytes" where
  "index_body vs es rest \<equiv> concat (map put_i32 vs) @ concat (map put_entry es) @ rest"

lemma body_put_entry:
  assumes "20 \<le> length rest"
  shows "overwrite (index_body vs es rest) (length vs * 4 + length es * 20) (put_entry e) = index_body vs (es @ [e]) (drop 20 rest)"
proof -
  let ?a = "concat (map put_i32 vs) @ concat (map put_entry es)"
  have "overwrite (?a @ rest) (length ?a + 0) (put_entry e) = ?a @ put_entry e @ drop 20 rest"
    unfolding overwrite_skip by (simp add: overwrite_def)
  then show ?thesis by (simp add: mult.commute)
qed

lemma body_put_slot:
  "s < length vs \<Longrightarrow> overwrite (index_body vs es rest) (s * 4) (put_i32 v) = index_body (vs[s := v]) es rest"
  using overwrite_chunk [of s vs put_i32 4 "concat (map put_entry es) @ rest" v] by (simp add: mult.commute)

definition slot_of :: "index_file \<Rightarrow> i32 \<Rightarrow> nat" where
  "slot_of x h = as_usize h mod ix_hash_slot_num x"

lemma put_key_rep:
  fixes key :: bytes
  assumes rep: "ix_rep x vs es rest" and room: "length es < ix_index_num x" and vs: "list_all (\<lambda>v. 0 \<le> v \<and> v < int (length es)) vs"
  defines "h \<equiv> index_key_hash_method key" and "s \<equiv> slot_of x (index_key_hash_method key)"
  shows "\<exists>y. index_put_key key phy t x = Returned (y, True) \<and>
    ix_rep y (vs[s := int (length es)]) (es @ [(h, phy, wrap_i32 (time_difference t x), vs ! s)]) (drop 20 rest) \<and>
    ix_hash_slot_num y = ix_hash_slot_num x \<and> ix_index_num y = ix_index_num x \<and>
    ix_end_phy_offset y = phy \<and> ix_end_timestamp y = t \<and>
    ix_begin_timestamp y = (if length es \<le> 1 then t else ix_begin_timestamp x) \<and>
    (header_ok x \<and> fits_signed 8 phy \<and> fits_signed 8 t \<longrightarrow> header_ok y) \<and>
    mf_reference_resource (ix_mapped_file y) = mf_reference_resource (ix_mapped_file x) \<and>
    mf_file_name (ix_mapped_file y) = mf_file_name (ix_mapped_file x)"
proof -
  let ?c = "if length es = 1 then 0 else int (length es)" and ?e = "(h, phy, wrap_i32 (time_difference t x), vs ! s)"
  have ok: "ix_file_ok x" "length vs = ix_hash_slot_num x" "es \<noteq> []" "ix_index_count x = int (length es)" and lo: "laid_out x ?c (index_body vs es rest)"
    using rep by (simp_all add: ix_rep_def laid_out_def)
  have tot: "40 + (4 * length vs + 20 * length es + length rest) = index_total x" using laid_out_length [OF lo] by simp
  then have rest: "20 \<le> length rest" using room ok(2) unfolding index_total_def by linarith
  have small: "index_total x < 2 ^ 31" "0 < ix_hash_slot_num x" using ok(1) by (simp_all add: ix_file_ok_def)
  have num: "length es < 2 ^ 31" "ix_index_num x < 2 ^ 31" using small room unfolding index_total_def by linarith+
  have s: "s < length vs" using small(2) ok(2) by (simp add: s_def slot_of_def)
  have spos: "slot_position x h = 40 + s * 4" by (simp add: slot_position_def h_def s_def slot_of_def)
  have ipos: "index_position x (int (length es)) = 40 + (length vs * 4 + length es * 20)"
    using num(1) ok(2) by (simp add: index_position_def)
  have v: "0 \<le> vs ! s" "vs ! s < int (length es)" using vs s by (simp_all add: list_all_length)
  have "take 4 (drop (40 + s * 4) (mf_mmapped_file (ix_mapped_file x))) = put_i32 (vs ! s)"
    using lo chunk_nth [of s vs put_i32 4 "concat (map put_entry es) @ rest"] s by (simp add: laid_out_def mult.commute)
  moreover have "40 + s * 4 + 4 \<le> length (mf_mmapped_file (ix_mapped_file x))" using ok(1) s ok(2) by (simp add: ix_file_ok_def index_total_def)
  moreover have "fits_signed 4 (vs ! s)" using v num(1) by (simp add: fits_signed_def)
  ultimately have slot: "slice_get (mf_mmapped_file (ix_mapped_file x)) (40 + s * 4) (40 + s * 4 + 4) = Some (put_i32 (vs ! s))"
    "get_i32 (put_i32 (vs ! s)) = Some (vs ! s, [])"
    using get_put_signed [of 4 "vs ! s" "[]"] by (simp_all add: slice_get_def)
  have sv: "(if vs ! s \<le> 0 \<or> vs ! s > int (length es) then 0 else vs ! s) = vs ! s" using v by simp
  have e: "write_entry (40 + (length vs * 4 + length es * 20)) h phy (time_difference t x) (vs ! s) x =
      Returned (relaid x ?c (index_body vs (es @ [?e]) (drop 20 rest)))" "laid_out (relaid x ?c (index_body vs (es @ [?e]) (drop 20 rest))) ?c (index_body vs (es @ [?e]) (drop 20 rest))"
    using write_entry_ok [OF lo, of "length vs * 4 + length es * 20" h phy "time_difference t x" "vs ! s"] rest
    by (simp_all add: body_put_entry [OF rest, of vs es] del: put_entry.simps)
  let ?b = "index_body (vs[s := int (length es)]) (es @ [?e]) (drop 20 rest)"
  have f: "store_field (40 + s * 4) (put_i32 (int (length es))) (relaid x ?c (index_body vs (es @ [?e]) (drop 20 rest))) =
      Returned (relaid x ?c ?b)" "laid_out (relaid x ?c ?b) ?c ?b"
    using store_body [OF e(2), of "s * 4" "put_i32 (int (length es))"] s
    by (simp_all add: body_put_slot relaid_again del: put_entry.simps)
  have cnt: "ix_index_count (relaid x c b) = int (length es)" "ix_hash_slot_num (relaid x c b) = ix_hash_slot_num x"
    "ix_index_num (relaid x c b) = ix_index_num x" "header_ok (relaid x c b) = header_ok x" "ix_begin_timestamp (relaid x c b) = ix_begin_timestamp x"
    "mf_reference_resource (ix_mapped_file (relaid x c b)) = mf_reference_resource (ix_mapped_file x)"
    "mf_file_name (ix_mapped_file (relaid x c b)) = mf_file_name (ix_mapped_file x)" for c b
    by (simp_all add: relaid_def with_bytes_def ok(4) header_ok_def)
  have w: "wrap_i32 (int (length es) + 1) = int (length (es @ [?e]))" "wrap_i32 (int (ix_index_num x)) = int (ix_index_num x)"
    using num room by (simp_all add: is_i32_def)
  obtain y where y: "update_header phy t (vs ! s) (relaid x ?c ?b) = Returned y" "laid_out y (int (length (es @ [?e]))) ?b"
      "ix_index_count y = int (length (es @ [?e]))" "ix_hash_slot_num y = ix_hash_slot_num x" "ix_index_num y = ix_index_num x"
      "ix_end_phy_offset y = phy" "ix_end_timestamp y = t"
      "ix_begin_timestamp y = (if length es \<le> 1 then t else ix_begin_timestamp x)"
      "header_ok x \<and> fits_signed 8 phy \<and> fits_signed 8 t \<longrightarrow> header_ok y"
      "mf_reference_resource (ix_mapped_file y) = mf_reference_resource (ix_mapped_file x)"
      "mf_file_name (ix_mapped_file y) = mf_file_name (ix_mapped_file x)"
    using update_header_ok [OF f(2), of phy t "vs ! s"] unfolding cnt w(1) by auto
  have "index_put_key key phy t x = Returned (y, True)"
    unfolding index_put_key_def ok(4) w(2) Let_def h_def [symmetric] spos ipos slot(1) option.case slot(2) prod.case sv
    using room small(2) e(1) f(1) y(1) by (simp add: cnt del: put_entry.simps)
  moreover have "ix_rep y (vs[s := int (length es)]) (es @ [?e]) (drop 20 rest)"
    using y(2-5) ok(2,3) room by (simp add: ix_rep_def laid_out_def)
  ultimately show ?thesis using y(4-11) by blast
qed

section \<open>The chains of an index file\<close>

text \<open>The newest entry of a slot among the first \<open>n\<close> entries, zero if there is none.\<close>

definition entry_slot :: "nat \<Rightarrow> index_entry \<Rightarrow> nat" where
  "entry_slot S e = as_usize (fst e) mod S"

fun newest :: "nat \<Rightarrow> index_entry list \<Rightarrow> nat \<Rightarrow> nat \<Rightarrow> nat" where
  "newest S es s 0 = 0"
| "newest S es s (Suc n) = (if 0 < n \<and> entry_slot S (es ! n) = s then n else newest S es s n)"

definition entry_ok :: "index_entry \<Rightarrow> bool" where
  "entry_ok e \<longleftrightarrow> (case e of (h, p, d, prev) \<Rightarrow> fits_signed 4 h \<and> fits_signed 8 p \<and> fits_signed 4 d \<and> fits_signed 4 prev)"

definition ix_chained :: "index_file \<Rightarrow> index_entry list \<Rightarrow> bool" where
  "ix_chained x es \<longleftrightarrow> (\<exists>rest. ix_rep x (map (\<lambda>s. int (newest (ix_hash_slot_num x) es s (length es))) [0..<ix_hash_slot_num x]) es rest \<and>
     (\<forall>i. 0 < i \<and> i < length es \<longrightarrow>
       snd (snd (snd (es ! i))) = int (newest (ix_hash_slot_num x) es (entry_slot (ix_hash_slot_num x) (es ! i)) i)) \<and>
     list_all entry_ok es \<and> set rest \<subseteq> {0})"

lemma newest_less: "0 < n \<Longrightarrow> newest S es s n < n"
proof (induction n)
  case (Suc n)
  then show ?case by (cases "n = 0") auto
qed simp

lemma newest_append: "n \<le> length es \<Longrightarrow> newest S (es @ [e]) s n = newest S es s n"
  by (induction n) (auto simp: nth_append)

lemma hash_bounds: "0 \<le> index_key_hash_method key" "index_key_hash_method key < 2 ^ 31" "fits_signed 4 (index_key_hash_method key)"
proof -
  have "- (2 ^ 31) \<le> hash_str key \<and> hash_str key < 2 ^ 31"
    unfolding hash_str_def by (cases "code_points key" rule: rev_cases) (use is_i32_wrap in \<open>simp_all add: is_i32_def\<close>)
  then show "0 \<le> index_key_hash_method key" "index_key_hash_method key < 2 ^ 31"
    by (auto simp: index_key_hash_method_def Let_def)
  then show "fits_signed 4 (index_key_hash_method key)" by (simp add: fits_signed_def)
qed

lemma put_key_chained:
  assumes ch: "ix_chained x es" and room: "length es < ix_index_num x" and p: "fits_signed 8 phy"
  shows "\<exists>y e. index_put_key key phy t x = Returned (y, True) \<and> ix_chained y (es @ [e]) \<and>
    fst e = index_key_hash_method key \<and> fst (snd e) = phy \<and> (header_ok x \<and> fits_signed 8 t \<longrightarrow> header_ok y) \<and>
    ix_hash_slot_num y = ix_hash_slot_num x \<and> ix_index_num y = ix_index_num x \<and>
    mf_reference_resource (ix_mapped_file y) = mf_reference_resource (ix_mapped_file x) \<and>
    mf_file_name (ix_mapped_file y) = mf_file_name (ix_mapped_file x) \<and>
    ix_end_phy_offset y = phy \<and> ix_end_timestamp y = t"
proof -
  let ?S = "ix_hash_slot_num x" and ?h = "index_key_hash_method key"
  let ?vs = "map (\<lambda>s. int (newest ?S es s (length es))) [0..<?S]"
  obtain rest where rep: "ix_rep x ?vs es rest"
    and prev: "\<forall>i. 0 < i \<and> i < length es \<longrightarrow> snd (snd (snd (es ! i))) = int (newest ?S es (entry_slot ?S (es ! i)) i)"
    and ok: "list_all entry_ok es" "set rest \<subseteq> {0}" using ch by (auto simp: ix_chained_def)
  have ne: "0 < length es" and S: "0 < ?S" and es31: "length es < 2 ^ 31"
    using rep room by (auto simp: ix_rep_def ix_file_ok_def index_total_def)
  let ?s = "slot_of x ?h" and ?e = "(?h, phy, wrap_i32 (time_difference t x), ?vs ! slot_of x ?h)"
  have s: "?s < ?S" "?s = entry_slot ?S ?e" using S by (simp_all add: slot_of_def entry_slot_def)
  have sv: "?vs ! ?s = int (newest ?S es ?s (length es))" using s by simp
  have "list_all (\<lambda>v. 0 \<le> v \<and> v < int (length es)) ?vs" using newest_less [OF ne] by (simp add: list_all_iff)
  from put_key_rep [OF rep room this, of key phy t] obtain y where y: "index_put_key key phy t x = Returned (y, True)"
      "ix_rep y (?vs[?s := int (length es)]) (es @ [?e]) (drop 20 rest)" "ix_hash_slot_num y = ?S" "ix_index_num y = ix_index_num x"
      "header_ok x \<and> fits_signed 8 phy \<and> fits_signed 8 t \<longrightarrow> header_ok y"
      "mf_reference_resource (ix_mapped_file y) = mf_reference_resource (ix_mapped_file x)"
      "mf_file_name (ix_mapped_file y) = mf_file_name (ix_mapped_file x)" "ix_end_phy_offset y = phy" "ix_end_timestamp y = t"
    by blast
  have vs': "?vs[?s := int (length es)] = map (\<lambda>s. int (newest ?S (es @ [?e]) s (length (es @ [?e])))) [0..<?S]"
    using ne s(2) by (intro nth_equalityI) (auto simp: nth_list_update newest_append)
  have "snd (snd (snd ((es @ [?e]) ! i))) = int (newest ?S (es @ [?e]) (entry_slot ?S ((es @ [?e]) ! i)) i)"
    if "0 < i" "i < length (es @ [?e])" for i
  proof (cases "i < length es")
    case True
    then show ?thesis using prev that by (simp add: nth_append newest_append)
  next
    case False
    then have "i = length es" using that by simp
    then show ?thesis using sv s(2) by (simp add: newest_append)
  qed
  moreover have "newest ?S es ?s (length es) < 2 ^ 31" using newest_less [OF ne, of ?S es ?s] es31 by (rule less_trans)
  then have "entry_ok ?e"
    using p hash_bounds(3) is_i32_wrap [of "time_difference t x"] sv by (simp add: entry_ok_def fits_signed_def is_i32_def)
  moreover have "set (drop 20 rest) \<subseteq> {0}" using ok(2) set_drop_subset by fastforce
  ultimately have "ix_chained y (es @ [?e])"
    using y(2) ok(1) unfolding ix_chained_def y(3) vs' by auto
  then show ?thesis using y p by (intro exI [of _ y] exI [of _ ?e]) simp
qed

text \<open>Reading the file where its entries are: the value of the slot of a hash, an entry, and a chain.\<close>

definition slot_at :: "index_file \<Rightarrow> i32 \<Rightarrow> i32" where
  "slot_at x h = (case get_i32 (drop (slot_position x h) (mf_mmapped_file (ix_mapped_file x))) of Some (v, _) \<Rightarrow> v | None \<Rightarrow> 0)"

definition entry_at :: "index_file \<Rightarrow> i32 \<Rightarrow> index_entry option" where
  "entry_at x i = do {
     (h, bs) \<leftarrow> get_i32 (drop (index_position x i) (mf_mmapped_file (ix_mapped_file x)));
     (p, bs) \<leftarrow> get_i64 bs;
     (d, bs) \<leftarrow> get_i32 bs;
     (prev, bs) \<leftarrow> get_i32 bs;
     Some (h, p, d, prev) }"

fun chain_from :: "nat \<Rightarrow> index_file \<Rightarrow> i32 \<Rightarrow> index_entry list" where
  "chain_from 0 x i = []"
| "chain_from (Suc n) x i =
     (if i \<le> 0 then []
      else (case entry_at x i of None \<Rightarrow> [] | Some e \<Rightarrow> e # chain_from n x (snd (snd (snd e)))))"

lemma chunk_drop:
  "i < length xs \<Longrightarrow> (\<And>y. length (enc y) = n) \<Longrightarrow>
   drop (n * i) (concat (map enc xs) @ r) = enc (xs ! i) @ concat (map enc (drop (Suc i) xs)) @ r"
proof (induction xs arbitrary: i)
  case (Cons y ys)
  then show ?case by (cases i) simp_all
qed simp

lemma chained_reads:
  assumes ch: "ix_chained x es"
  shows "i < length es \<Longrightarrow> entry_at x (int i) = Some (es ! i)"
    and "slot_at x h = int (newest (ix_hash_slot_num x) es (as_usize h mod ix_hash_slot_num x) (length es))"
proof -
  let ?S = "ix_hash_slot_num x"
  let ?vs = "map (\<lambda>s. int (newest ?S es s (length es))) [0..<?S]"
  obtain rest where rep: "ix_rep x ?vs es rest" and ok: "list_all entry_ok es" using ch by (auto simp: ix_chained_def)
  have S: "0 < ?S" "0 < length es" "length es < 2 ^ 31" using rep by (auto simp: ix_rep_def ix_file_ok_def index_total_def)
  have bytes: "mf_mmapped_file (ix_mapped_file x) =
      (header_bytes x (if length es = 1 then 0 else int (length es)) @ concat (map put_i32 ?vs)) @ concat (map put_entry es) @ rest"
    using rep by (simp add: ix_rep_def)
  show "entry_at x (int i) = Some (es ! i)" if i: "i < length es"
  proof -
    have pos: "index_position x (int i) = length (header_bytes x (if length es = 1 then 0 else int (length es)) @ concat (map put_i32 ?vs)) + 20 * i"
      using i S(3) by (simp add: index_position_def del: map_map)
    have d: "drop (index_position x (int i)) (mf_mmapped_file (ix_mapped_file x)) = put_entry (es ! i) @ concat (map put_entry (drop (Suc i) es)) @ rest"
      unfolding pos bytes using chunk_drop [OF i, of put_entry 20 rest] by simp
    obtain h p d prev where e: "es ! i = (h, p, d, prev)" by (cases "es ! i")
    then have "fits_signed 4 h" "fits_signed 8 p" "fits_signed 4 d" "fits_signed 4 prev" using ok i by (auto simp: list_all_length entry_ok_def)
    then show ?thesis unfolding entry_at_def d unfolding e by simp
  qed
  let ?s = "as_usize h mod ?S"
  have s: "?s < length ?vs" using S by simp
  have "drop (slot_position x h) (mf_mmapped_file (ix_mapped_file x)) =
      put_i32 (?vs ! ?s) @ concat (map put_i32 (drop (Suc ?s) ?vs)) @ concat (map put_entry es) @ rest"
    using chunk_drop [OF s, of put_i32 4 "concat (map put_entry es) @ rest"]
    by (simp add: slot_position_def bytes mult.commute)
  moreover have "newest ?S es ?s (length es) < 2 ^ 31" using newest_less [OF S(2)] S(3) by (rule less_trans)
  then have "fits_signed 4 (?vs ! ?s)" using s by (simp add: fits_signed_def)
  ultimately show "slot_at x h = int (newest ?S es ?s (length es))"
    unfolding slot_at_def using s get_put_signed [of 4 "?vs ! ?s"] by simp
qed

lemma chain_entries:
  assumes ch: "ix_chained x es"
  shows "n \<le> length es \<Longrightarrow> n \<le> fuel \<Longrightarrow> chain_from fuel x (int (newest (ix_hash_slot_num x) es s n)) =
    rev (map (nth es) (filter (\<lambda>i. entry_slot (ix_hash_slot_num x) (es ! i) = s) [1..<n]))"
proof (induction n arbitrary: fuel)
  case 0
  then show ?case by (cases fuel) simp_all
next
  case (Suc n)
  let ?S = "ix_hash_slot_num x"
  obtain f where f: "fuel = Suc f" "n \<le> f" using Suc.prems(2) by (cases fuel) auto
  show ?case
  proof (cases "0 < n \<and> entry_slot ?S (es ! n) = s")
    case True
    have n: "n < length es" using Suc.prems(1) by simp
    have prev: "snd (snd (snd (es ! n))) = int (newest ?S es s n)" using ch True n by (auto simp: ix_chained_def)
    have "chain_from fuel x (int n) = es ! n # chain_from f x (int (newest ?S es s n))"
      using True chained_reads(1) [OF ch n] prev f(1) by simp
    moreover have "[1..<Suc n] = [1..<n] @ [n]" using True by simp
    ultimately show ?thesis using Suc.IH [of f] Suc.prems(1) f(2) True by simp
  next
    case False
    then have "filter (\<lambda>i. entry_slot ?S (es ! i) = s) [1..<Suc n] = filter (\<lambda>i. entry_slot ?S (es ! i) = s) [1..<n]"
      by (cases "n = 0") auto
    moreover have "newest ?S es s (Suc n) = newest ?S es s n" using False by auto
    ultimately show ?thesis using Suc.IH [of fuel] Suc.prems by simp
  qed
qed

text \<open>The entries of a hash are found on the chain of its slot.\<close>

lemma chain_of_hash:
  assumes ch: "ix_chained x es" and fuel: "length es \<le> fuel"
  shows "filter (\<lambda>e. fst e = h) (chain_from fuel x (slot_at x h)) = rev (filter (\<lambda>e. fst e = h) (drop 1 es))"
proof -
  let ?S = "ix_hash_slot_num x" and ?s = "as_usize h mod ix_hash_slot_num x"
  have "chain_from fuel x (slot_at x h) = rev (map (nth es) (filter (\<lambda>i. entry_slot ?S (es ! i) = ?s) [1..<length es]))"
    unfolding chained_reads(2) [OF ch] by (rule chain_entries [OF ch order.refl fuel])
  also have "\<dots> = rev (filter (\<lambda>e. entry_slot ?S e = ?s) (map (nth es) [1..<length es]))" by (simp add: filter_map comp_def)
  also have "map (nth es) [1..<length es] = drop 1 es" by (intro nth_equalityI) simp_all
  finally have "chain_from fuel x (slot_at x h) = rev (filter (\<lambda>e. entry_slot ?S e = ?s) (drop 1 es))" .
  moreover have "filter (\<lambda>e. fst e = h) (filter (\<lambda>e. entry_slot ?S e = ?s) (drop 1 es)) = filter (\<lambda>e. fst e = h) (drop 1 es)"
    unfolding filter_filter by (rule filter_cong) (auto simp: entry_slot_def)
  ultimately show ?thesis by (metis rev_filter)
qed

section \<open>New files, restarts and sequences of keys\<close>

lemma put_zero: "put_signed n 0 = replicate n 0"
proof -
  have "be_bytes n 0 = replicate n 0" by (induction n) (simp_all add: replicate_append_same)
  then show ?thesis by (simp add: put_signed_def)
qed

lemma new_file_chained:
  assumes new: "index_file_new [] name S N ep et = Returned x" and S: "0 < S" "0 < N" "40 + S * 4 + N * 20 < 2 ^ 31"
    and fits: "fits_signed 8 ep" "fits_signed 8 et"
  shows "ix_chained x [(0, 0, 0, 0)]" "header_ok x" "ix_hash_slot_num x = S" "ix_index_num x = N" "ix_end_phy_offset x = max 0 ep"
    "mf_live (ix_mapped_file x)" "mf_file_name (ix_mapped_file x) = name"
proof -
  define n where "n = 40 + S * 4 + N * 20"
  have un: "unat (of_nat n :: u64) = n" using S(3) by (simp add: n_def [symmetric] unsigned_of_nat take_bit_nat_eq_self)
  obtain f where f: "mapped_file_new [] name (of_nat n) = Returned f"
    using new unfolding index_file_new_def n_def [symmetric] Let_def bind_outcome_Returned_iff by blast
  have fb: "mf_mmapped_file f = replicate n 0" "mf_file_size f = of_nat n" "mf_live f" "mf_file_name f = name"
    using f un by (auto simp: mapped_file_new_def set_len_def mf_live_def rc_new_def split: outcome.splits)
  define x0 where "x0 = \<lparr>ix_hash_slot_num = S, ix_index_num = N, ix_file_total_size = n, ix_mapped_file = f, ix_begin_timestamp = 0, ix_end_timestamp = 0,
    ix_begin_phy_offset = 0, ix_end_phy_offset = 0, ix_hash_slot_count = 0, ix_index_count = 1\<rparr>"
  let ?body = "index_body (replicate S 0) [(0, 0, 0, 0)] (replicate ((N - 1) * 20) 0)"
  have "concat (map put_i32 (replicate S 0)) = replicate (S * 4) 0" by (induction S) (simp_all add: put_zero replicate_add)
  moreover have "(N - 1) * 20 + 20 = N * 20" using S(2) by (cases N) simp_all
  ultimately have "header_bytes x0 0 @ ?body = replicate n 0"
    by (simp add: header_bytes_def x0_def put_zero n_def replicate_add [symmetric])
  moreover have "ix_file_ok x0" using S un fb by (simp add: ix_file_ok_def index_total_def x0_def n_def [symmetric])
  ultimately have lo: "laid_out x0 0 ?body" by (simp add: laid_out_def x0_def fb)
  define x1 where "x1 = (if ep > 0 then relaid (x0\<lparr>ix_begin_phy_offset := ep, ix_end_phy_offset := ep\<rparr>) 0 ?body else x0)"
  have 1: "(if ep > 0 then bind_outcome (set_begin_phy_offset ep x0) (set_end_phy_offset ep) else Returned x0) = Returned x1" "laid_out x1 0 ?body"
    using lo setters(3) [OF lo, of ep] setters(4) [of "relaid (x0\<lparr>ix_begin_phy_offset := ep\<rparr>) 0 ?body" 0 ?body ep]
    by (simp_all add: x1_def relaid_def with_bytes_def header_bytes_def)
  have x: "x = (if et > 0 then relaid (x1\<lparr>ix_begin_timestamp := et, ix_end_timestamp := et\<rparr>) 0 ?body else x1)" "laid_out x 0 ?body"
    using new 1 setters(1) [OF 1(2), of et] setters(2) [of "relaid (x1\<lparr>ix_begin_timestamp := et\<rparr>) 0 ?body" 0 ?body et]
    by (auto simp: index_file_new_def n_def [symmetric] Let_def f x0_def [symmetric] relaid_def with_bytes_def header_bytes_def split: if_splits)
  show sel: "ix_hash_slot_num x = S" "ix_index_num x = N" "ix_end_phy_offset x = max 0 ep" "header_ok x"
    "mf_live (ix_mapped_file x)" "mf_file_name (ix_mapped_file x) = name"
    using fits fb(3,4) by (simp_all add: x(1) x1_def x0_def relaid_def with_bytes_def header_ok_def fits_signed_def mf_live_def)
  have "ix_index_count x = 1" by (simp add: x(1) x1_def x0_def relaid_def with_bytes_def)
  then have "ix_rep x (replicate S 0) [(0, 0, 0, 0)] (replicate ((N - 1) * 20) 0)"
    using x(2) sel(1,2) S(2) by (simp add: ix_rep_def laid_out_def)
  then show "ix_chained x [(0, 0, 0, 0)]"
    using sel(1) by (auto simp: ix_chained_def entry_ok_def fits_signed_def map_replicate_const)
qed

lemma setters_return:
  assumes "ix_file_ok x"
  shows "\<exists>y. set_begin_phy_offset v x = Returned y \<and> ix_file_ok y" "\<exists>y. set_end_phy_offset v x = Returned y \<and> ix_file_ok y"
    "\<exists>y. set_begin_timestamp v x = Returned y \<and> ix_file_ok y" "\<exists>y. set_end_timestamp v x = Returned y \<and> ix_file_ok y"
proof -
  have "\<exists>y. store_field p (put_i64 v) x' = Returned y \<and> ix_file_ok y" if "ix_file_ok x'" "p \<le> 32" for p x'
    using that by (subst store_field_ok) (simp_all add: index_total_def ix_file_ok_def with_bytes_def)
  moreover have "ix_file_ok (x\<lparr>ix_begin_phy_offset := v\<rparr>)" "ix_file_ok (x\<lparr>ix_end_phy_offset := v\<rparr>)"
    "ix_file_ok (x\<lparr>ix_begin_timestamp := v\<rparr>)" "ix_file_ok (x\<lparr>ix_end_timestamp := v\<rparr>)"
    using assms by (simp_all add: ix_file_ok_def index_total_def)
  ultimately show "\<exists>y. set_begin_phy_offset v x = Returned y \<and> ix_file_ok y" "\<exists>y. set_end_phy_offset v x = Returned y \<and> ix_file_ok y"
    "\<exists>y. set_begin_timestamp v x = Returned y \<and> ix_file_ok y" "\<exists>y. set_end_timestamp v x = Returned y \<and> ix_file_ok y"
    by (simp_all add: set_begin_phy_offset_def set_end_phy_offset_def set_begin_timestamp_def set_end_timestamp_def)
qed

lemma new_file_returns:
  assumes name: "parse_file_from_offset name \<noteq> Panicked" and S: "0 < S" "0 < N" "40 + S * 4 + N * 20 < 2 ^ 31"
  shows "\<exists>x. index_file_new [] name S N ep et = Returned x"
proof -
  define n where "n = 40 + S * 4 + N * 20"
  have un: "unat (of_nat n :: u64) = n" using S(3) by (simp add: n_def [symmetric] unsigned_of_nat take_bit_nat_eq_self)
  obtain f where f: "mapped_file_new [] name (of_nat n) = Returned f" "mf_mmapped_file f = replicate n 0" "mf_file_size f = of_nat n"
    using name un by (cases "parse_file_from_offset name") (auto simp: mapped_file_new_def set_len_def Let_def)
  define x0 where "x0 = \<lparr>ix_hash_slot_num = S, ix_index_num = N, ix_file_total_size = n, ix_mapped_file = f, ix_begin_timestamp = 0, ix_end_timestamp = 0,
    ix_begin_phy_offset = 0, ix_end_phy_offset = 0, ix_hash_slot_count = 0, ix_index_count = 1\<rparr>"
  have ok: "ix_file_ok x0" using S un f by (simp add: ix_file_ok_def index_total_def x0_def n_def [symmetric])
  have two: "\<exists>y. bind_outcome (set_begin_phy_offset v x) (set_end_phy_offset v) = Returned y \<and> ix_file_ok y"
    "\<exists>y. bind_outcome (set_begin_timestamp v x) (set_end_timestamp v) = Returned y \<and> ix_file_ok y" if ok: "ix_file_ok x" for v x
  proof -
    obtain y z where y: "set_begin_phy_offset v x = Returned y" "ix_file_ok y" and z: "set_begin_timestamp v x = Returned z" "ix_file_ok z"
      using setters_return(1,3) [OF ok, of v] by blast
    then show "\<exists>y. bind_outcome (set_begin_phy_offset v x) (set_end_phy_offset v) = Returned y \<and> ix_file_ok y"
      "\<exists>y. bind_outcome (set_begin_timestamp v x) (set_end_timestamp v) = Returned y \<and> ix_file_ok y"
      using setters_return(2) [OF y(2), of v] setters_return(4) [OF z(2), of v] by simp_all
  qed
  obtain x1 where x1: "(if ep > 0 then bind_outcome (set_begin_phy_offset ep x0) (set_end_phy_offset ep) else Returned x0) = Returned x1" "ix_file_ok x1"
    using ok two(1) [OF ok, of ep] by (cases "ep > 0") auto
  have "\<exists>x. (if et > 0 then bind_outcome (set_begin_timestamp et x1) (set_end_timestamp et) else Returned x1) = Returned x"
    using two(2) [OF x1(2), of et] by (cases "et > 0") auto
  then show ?thesis
    unfolding index_file_new_def n_def [symmetric] Let_def f(1) bind_outcome.simps x0_def [symmetric] x1(1) .
qed

lemma restart_chained:
  assumes ch: "ix_chained x es" and hd: "header_ok x" and name: "parse_file_from_offset name = Returned off"
  shows "\<exists>y. bind_outcome (index_file_new (mf_mmapped_file (ix_mapped_file x)) name (ix_hash_slot_num x) (ix_index_num x) 0 0) index_load = Returned y \<and>
    ix_chained y es \<and> header_ok y \<and> ix_hash_slot_num y = ix_hash_slot_num x \<and> ix_index_num y = ix_index_num x \<and>
    ix_begin_timestamp y = ix_begin_timestamp x \<and> ix_end_timestamp y = ix_end_timestamp x \<and>
    ix_end_phy_offset y = ix_end_phy_offset x \<and> ix_index_count y = ix_index_count x"
proof -
  let ?b = "mf_mmapped_file (ix_mapped_file x)" and ?c = "if length es = 1 then 0 else int (length es)"
  obtain vs rest where rep: "ix_rep x vs es rest" using ch by (auto simp: ix_chained_def)
  have ok: "ix_file_ok x" "es \<noteq> []" "ix_index_count x = int (length es)" "?b = header_bytes x ?c @ index_body vs es rest"
    using rep by (simp_all add: ix_rep_def)
  have tot: "unat (of_nat (index_total x) :: u64) = index_total x" using ok(1) by (simp add: ix_file_ok_def unsigned_of_nat take_bit_nat_eq_self)
  obtain f where f: "mapped_file_new ?b name (of_nat (index_total x)) = Returned f" "mf_mmapped_file f = ?b" "mf_file_size f = of_nat (index_total x)"
    using name tot ok(1) by (simp add: mapped_file_new_def set_len_def ix_file_ok_def)
  define y0 where "y0 = \<lparr>ix_hash_slot_num = ix_hash_slot_num x, ix_index_num = ix_index_num x, ix_file_total_size = index_total x, ix_mapped_file = f, ix_begin_timestamp = 0,
    ix_end_timestamp = 0, ix_begin_phy_offset = 0, ix_end_phy_offset = 0, ix_hash_slot_count = 0, ix_index_count = 1\<rparr>"
  have new: "index_file_new ?b name (ix_hash_slot_num x) (ix_index_num x) 0 0 = Returned y0"
    using f(1) by (simp add: index_file_new_def index_total_def y0_def Let_def)
  have "length es < 2 ^ 31" using rep by (simp add: ix_rep_def ix_file_ok_def index_total_def)
  then have "fits_signed 4 ?c" by (simp add: fits_signed_def)
  then have "read_header (header_bytes x ?c) y0 = Some (y0\<lparr>ix_begin_timestamp := ix_begin_timestamp x, ix_end_timestamp := ix_end_timestamp x,
      ix_begin_phy_offset := ix_begin_phy_offset x, ix_end_phy_offset := ix_end_phy_offset x,
      ix_hash_slot_count := ix_hash_slot_count x, ix_index_count := int (length es)\<rparr>)" (is "_ = Some ?y")
    using hd ok(2) get_put_signed [of 4 ?c "[]"] by (auto simp: read_header_def header_bytes_def header_ok_def Suc_le_eq)
  moreover have "mf_get_bytes 0 40 f = Returned (Some (header_bytes x ?c))"
    using f(2,3) tot ok(1,4) by (simp add: mf_get_bytes_def usize_add_small slice_of_range ix_file_ok_def index_total_def)
  ultimately have "index_load y0 = Returned ?y" by (simp add: index_load_def y0_def)
  moreover have "header_bytes ?y c = header_bytes x c" for c by (simp add: header_bytes_def)
  then have "ix_rep ?y vs' es rest' = ix_rep x vs' es rest'" for vs' rest'
    using f(2,3) ok(1,3) tot by (simp add: ix_rep_def ix_file_ok_def index_total_def y0_def)
  then have "ix_chained ?y es" using ch by (simp add: ix_chained_def y0_def)
  ultimately show ?thesis using new hd ok(3) by (intro exI [of _ ?y]) (simp add: header_ok_def y0_def)
qed

fun index_put_all :: "(bytes \<times> i64 \<times> i64) list \<Rightarrow> index_file \<Rightarrow> index_file outcome" where
  "index_put_all [] x = Returned x"
| "index_put_all ((key, phy, t) # puts) x = bind_outcome (index_put_key key phy t x) (\<lambda>(x, _). index_put_all puts x)"

definition puts_ok :: "(bytes \<times> i64 \<times> i64) list \<Rightarrow> bool" where
  "puts_ok puts \<longleftrightarrow> list_all (\<lambda>(key, phy, t). fits_signed 8 phy \<and> fits_signed 8 t) puts"

text \<open>The offsets put for a key, the newest first, and those on the chain of the key in the file.\<close>

definition same_hash :: "bytes \<Rightarrow> bytes \<Rightarrow> bool" where
  "same_hash k k' \<longleftrightarrow> index_key_hash_method k = index_key_hash_method k'"

definition offsets_put :: "bytes \<Rightarrow> (bytes \<times> i64 \<times> i64) list \<Rightarrow> i64 list" where
  "offsets_put key puts = rev (map (\<lambda>(k, phy, t). phy) (filter (\<lambda>(k, phy, t). same_hash k key) puts))"

definition offsets_stored :: "bytes \<Rightarrow> index_file \<Rightarrow> i64 list" where
  "offsets_stored key x = map (\<lambda>e. fst (snd e)) (filter (\<lambda>e. fst e = index_key_hash_method key)
     (chain_from (ix_index_num x) x (slot_at x (index_key_hash_method key))))"

lemma put_all_chained:
  assumes "ix_chained x es" "header_ok x" "puts_ok puts" "length es + length puts \<le> ix_index_num x"
  shows "\<exists>y es'. index_put_all puts x = Returned y \<and> ix_chained y (es @ es') \<and> header_ok y \<and>
    map (\<lambda>e. (fst e, fst (snd e))) es' = map (\<lambda>(k, phy, t). (index_key_hash_method k, phy)) puts \<and>
    ix_hash_slot_num y = ix_hash_slot_num x \<and> ix_index_num y = ix_index_num x \<and>
    mf_reference_resource (ix_mapped_file y) = mf_reference_resource (ix_mapped_file x)"
  using assms
proof (induction puts arbitrary: x es)
  case Nil
  then show ?case by (intro exI [of _ x] exI [of _ "[]"]) simp
next
  case (Cons a puts)
  obtain key phy t where a: "a = (key, phy, t)" by (cases a)
  have fits: "fits_signed 8 phy" "fits_signed 8 t" "puts_ok puts" using Cons.prems(3) by (simp_all add: puts_ok_def a)
  have "length es < ix_index_num x" using Cons.prems(4) by simp
  from put_key_chained [OF Cons.prems(1) this fits(1), of key t] obtain y e where y: "index_put_key key phy t x = Returned (y, True)"
      "ix_chained y (es @ [e])" "fst e = index_key_hash_method key" "fst (snd e) = phy" "header_ok y"
      "ix_hash_slot_num y = ix_hash_slot_num x" "ix_index_num y = ix_index_num x"
      "mf_reference_resource (ix_mapped_file y) = mf_reference_resource (ix_mapped_file x)"
    using Cons.prems(2) fits(2) by blast
  from Cons.IH [OF y(2,5) fits(3)] Cons.prems(4) y(7) obtain z es' where
    "index_put_all puts y = Returned z" "ix_chained z ((es @ [e]) @ es')" "header_ok z"
    "map (\<lambda>e. (fst e, fst (snd e))) es' = map (\<lambda>(k, phy, t). (index_key_hash_method k, phy)) puts"
    "ix_hash_slot_num z = ix_hash_slot_num y" "ix_index_num z = ix_index_num y"
    "mf_reference_resource (ix_mapped_file z) = mf_reference_resource (ix_mapped_file y)" by auto
  then show ?case using y a by (intro exI [of _ z] exI [of _ "e # es'"]) simp
qed

lemma stored_offsets:
  assumes "ix_chained x ((0, 0, 0, 0) # es)"
    and "map (\<lambda>e. (fst e, fst (snd e))) es = map (\<lambda>(k, phy, t). (index_key_hash_method k, phy)) puts"
  shows "offsets_stored key x = offsets_put key puts"
proof -
  let ?h = "index_key_hash_method key"
  have fuel: "length ((0, 0, 0, 0) # es) \<le> ix_index_num x" using assms(1) by (auto simp: ix_chained_def ix_rep_def)
  have "map (\<lambda>e. fst (snd e)) (filter (\<lambda>e. fst e = ?h) es) = map snd (filter (\<lambda>p. fst p = ?h) (map (\<lambda>e. (fst e, fst (snd e))) es))"
    by (simp add: filter_map comp_def)
  also have "\<dots> = map (\<lambda>(k, phy, t). phy) (filter (\<lambda>(k, phy, t). same_hash k key) puts)"
    unfolding assms(2) by (simp add: filter_map comp_def case_prod_unfold same_hash_def)
  finally show ?thesis
    unfolding offsets_stored_def offsets_put_def chain_of_hash [OF assms(1) fuel] by (simp flip: rev_map)
qed

text \<open>What a query reads in place of an entry.\<close>

lemma doubled_read:
  assumes ch: "ix_chained x es" and i: "0 < i" "i < length es" and small: "length es * 20 \<le> 40 + ix_hash_slot_num x * 4"
  shows "read_entry (int i) x = Panicked \<or> read_entry (int i) x = Returned (0, 0, 0, 0)"
proof -
  let ?p = "index_position x (int i)" and ?b = "mf_mmapped_file (ix_mapped_file x)"
  obtain vs rest where rep: "ix_rep x vs es rest" and zero: "set rest \<subseteq> {0}" using ch by (auto simp: ix_chained_def)
  have ok: "ix_file_ok x" "length vs = ix_hash_slot_num x" using rep by (simp_all add: ix_rep_def)
  have total: "length ?b = index_total x" "unat (mf_file_size (ix_mapped_file x)) = index_total x" "index_total x < 2 ^ 31" using ok by (simp_all add: ix_file_ok_def)
  have p: "?p = 40 + ix_hash_slot_num x * 4 + i * 20" using i rep by (simp add: index_position_def ix_rep_def ix_file_ok_def index_total_def)
  have far: "40 + ix_hash_slot_num x * 4 + length es * 20 \<le> ?p + ?p" using small p by linarith
  have z: "take n (drop k ?b) = replicate n 0" if "?p + ?p \<le> k" "k + n \<le> length ?b" for k n
  proof -
    have "40 + length vs * 4 + length es * 20 \<le> k" using far that(1) ok(2) by linarith
    then obtain j where j: "k = 40 + length vs * 4 + length es * 20 + j" using le_Suc_ex by blast
    have "take n (drop k ?b) = take n (drop j rest)" using rep by (simp add: ix_rep_def j mult.commute)
    moreover have "\<forall>b \<in> set (take n (drop j rest)). b = 0" using zero by (auto dest!: in_set_takeD in_set_dropD)
    moreover have "length (take n (drop k ?b)) = n" using that(2) by simp
    ultimately show ?thesis using replicate_length_same by metis
  qed
  show ?thesis
  proof (cases "?p + (?p + 20) < index_total x")
    case True
    let ?buf = "take (?p + 20) (drop ?p ?b)"
    have g: "get_slice ?p (?p + 20) (ix_mapped_file x) = Returned (Some ?buf)"
      using True total by (simp add: get_slice_def usize_add_small slice_of_range)
    have s: "slice_get ?buf (?p + a) (?p + (a + n)) = Some (replicate n 0)" if "a + n \<le> 20" for a n
    proof -
      have "take n (drop (?p + a) ?buf) = take n (drop (?p + ?p + a) ?b)" using that by (simp add: drop_take ac_simps)
      also have "\<dots> = replicate n 0" using that True total by (intro z) simp_all
      finally show ?thesis using that True total by (simp add: slice_get_def)
    qed
    have "get_i32 (replicate 4 0) = Some (0, [])" "get_i64 (replicate 8 0) = Some (0, [])"
      using get_put_signed [of 4 0 "[]"] get_put_signed [of 8 0 "[]"] by (simp_all add: put_zero fits_signed_def)
    then have "read_entry (int i) x = Returned (0, 0, 0, 0)"
      unfolding read_entry_def Let_def g using s [of 0 4] s [of 4 8] s [of 12 4] s [of 16 4] by simp
    then show ?thesis by simp
  next
    case False
    then have "get_slice ?p (?p + 20) (ix_mapped_file x) = Returned None"
      using total p i rep by (simp add: get_slice_def usize_add_small ix_rep_def index_total_def)
    then show ?thesis by (simp add: read_entry_def Let_def)
  qed
qed

lemma get_i32_eq: "4 \<le> length a \<Longrightarrow> get_i32 a = Some (to_signed 4 (be_value (take 4 a)), drop 4 a)"
  by (simp add: get_signed_def get_unsigned_def take_bytes_def)

lemma slot_slice:
  fixes h :: i32
  assumes ok: "ix_file_ok x" and bytes: "mf_mmapped_file f = mf_mmapped_file (ix_mapped_file x)" "mf_file_size f = mf_file_size (ix_mapped_file x)"
  defines "p \<equiv> slot_position x h"
  shows "get_slice p (p + 4) f = Returned None \<or>
    (\<exists>buf rest. get_slice p (p + 4) f = Returned (Some buf) \<and> get_i32 buf = Some (slot_at x h, rest))"
proof (cases "p + (p + 4) < index_total x")
  case True
  let ?b = "mf_mmapped_file (ix_mapped_file x)"
  have tot: "index_total x < 2 ^ 31" "length ?b = index_total x" "unat (mf_file_size f) = index_total x"
    using ok bytes by (simp_all add: ix_file_ok_def)
  have "get_slice p (p + 4) f = Returned (Some (take (p + 4) (drop p ?b)))"
    using True tot bytes by (simp add: get_slice_def usize_add_small slice_of_range)
  moreover have "4 \<le> length (take (p + 4) (drop p ?b))" "4 \<le> length (drop p ?b)" using True tot by simp_all
  ultimately show ?thesis using get_i32_eq by (simp add: slot_at_def p_def [symmetric])
next
  case False
  have "p < 2 ^ 62"
  proof -
    have "p \<le> 40 + ix_hash_slot_num x * 4" using ok by (simp add: p_def slot_position_def ix_file_ok_def)
    then show ?thesis using ok by (simp add: ix_file_ok_def index_total_def)
  qed
  then show ?thesis using False ok bytes by (simp add: get_slice_def usize_add_small ix_file_ok_def)
qed

lemma query_reads_nothing:
  assumes ch: "ix_chained x es" and small: "length es * 20 \<le> 40 + ix_hash_slot_num x * 4" and h: "index_key_hash_method key \<noteq> 0"
  shows "select_phy_offset offs key max_num lo hi x = Some Panicked \<or>
    (\<exists>x'. select_phy_offset offs key max_num lo hi x = Some (Returned (x', offs)))"
proof (cases "mf_hold (ix_mapped_file x)")
  case (Pair f b)
  let ?h = "index_key_hash_method key" and ?x = "x\<lparr>ix_mapped_file := f\<rparr>"
  obtain vs rest where rep: "ix_rep x vs es rest" using ch by (auto simp: ix_chained_def)
  have f: "mf_mmapped_file f = mf_mmapped_file (ix_mapped_file x)" "mf_file_size f = mf_file_size (ix_mapped_file x)"
    using Pair by (auto simp: mf_hold_def split: prod.splits)
  have "ix_rep ?x vs' es' rest' = ix_rep x vs' es' rest'" for vs' es' rest'
    using f by (simp add: ix_rep_def ix_file_ok_def index_total_def header_bytes_def)
  then have ch': "ix_chained ?x es" using ch by (simp add: ix_chained_def)
  have ok: "ix_file_ok x" "ix_index_count x = int (length es)" "0 < ix_hash_slot_num x" "0 < length es"
    using rep by (auto simp: ix_rep_def ix_file_ok_def)
  have loop: "select_loop ?h max_num lo hi ?x offs (int i) = Some Panicked \<or> select_loop ?h max_num lo hi ?x offs (int i) = Some (Returned offs)"
    if i: "0 < i" "i < length es" for i
  proof (cases "read_entry (int i) ?x = Panicked")
    case True
    then show ?thesis unfolding select_loop.simps [of ?h max_num lo hi ?x offs "int i"] by simp
  next
    case False
    then have "read_entry (int i) ?x = Returned (0, 0, 0, 0)" using doubled_read [OF ch' i] small by simp
    then show ?thesis unfolding select_loop.simps [of ?h max_num lo hi ?x offs "int i"] using h by (simp add: Let_def)
  qed
  obtain n where n: "slot_at x ?h = int n" "n < length es"
    using chained_reads(2) [OF ch, of ?h] newest_less [OF ok(4)] by metis
  show ?thesis
  proof (cases b)
    case False
    then show ?thesis using Pair by (simp add: select_phy_offset_def)
  next
    case True
    have "select_phy_offset offs key max_num lo hi x = Some (Returned (?x, offs)) \<or> 0 < n \<and> select_phy_offset offs key max_num lo hi x =
        map_option (\<lambda>r. bind_outcome r (\<lambda>offs. Returned (?x, offs))) (select_loop ?h max_num lo hi ?x offs (int n))"
      using slot_slice [OF ok(1) f, of ?h] Pair True ok(3) n by (cases "n = 0") (auto simp: select_phy_offset_def Let_def)
    then show ?thesis using loop [of n] n(2) by auto
  qed
qed

section \<open>Flushes\<close>

text \<open>
  An index file is written without its write position. A flush writes the header that is there already, and since the write
  position is zero, it does not force anything to the disk.
\<close>

definition mf_idle :: "mapped_file \<Rightarrow> bool" where
  "mf_idle f \<longleftrightarrow> mf_wrote_position f = 0 \<and> mf_flushed_position f = 0"

lemma store_field_idle: "store_field p d x = Returned y \<Longrightarrow> mf_idle (ix_mapped_file y) = mf_idle (ix_mapped_file x)"
  by (auto simp: store_field_def write_bytes_segment_def mf_idle_def split: outcome.splits if_splits option.splits)

lemma setters_idle:
  "set_begin_timestamp v x = Returned y \<Longrightarrow> mf_idle (ix_mapped_file y) = mf_idle (ix_mapped_file x)"
  "set_end_timestamp v x = Returned y \<Longrightarrow> mf_idle (ix_mapped_file y) = mf_idle (ix_mapped_file x)"
  "set_begin_phy_offset v x = Returned y \<Longrightarrow> mf_idle (ix_mapped_file y) = mf_idle (ix_mapped_file x)"
  "set_end_phy_offset v x = Returned y \<Longrightarrow> mf_idle (ix_mapped_file y) = mf_idle (ix_mapped_file x)"
  "inc_hash_slot_count x = Returned y \<Longrightarrow> mf_idle (ix_mapped_file y) = mf_idle (ix_mapped_file x)"
  "inc_index_count x = Returned y \<Longrightarrow> mf_idle (ix_mapped_file y) = mf_idle (ix_mapped_file x)"
  by (auto simp: set_begin_timestamp_def set_end_timestamp_def set_begin_phy_offset_def set_end_phy_offset_def
      inc_hash_slot_count_def inc_index_count_def Let_def dest!: store_field_idle)

lemma put_key_idle:
  "index_put_key key phy t x = Returned (y, r) \<Longrightarrow> mf_idle (ix_mapped_file y) = mf_idle (ix_mapped_file x)"
  by (auto simp: index_put_key_def write_entry_def update_header_def Let_def bind_outcome_Returned_iff
      dest!: store_field_idle setters_idle split: if_splits option.splits prod.splits)

lemma new_file_idle: "index_file_new content name S N ep et = Returned x \<Longrightarrow> mf_idle (ix_mapped_file x)"
  by (auto simp: index_file_new_def mapped_file_new_def mf_idle_def Let_def bind_outcome_Returned_iff
      dest!: setters_idle split: if_splits outcome.splits)

lemma put_field_same:
  assumes "ix_file_ok x" and "p + length d \<le> index_total x" and "0 < length d" and "take (length d) (drop p (mf_mmapped_file (ix_mapped_file x))) = d"
  shows "put_field p d x = Returned x"
proof -
  let ?b = "mf_mmapped_file (ix_mapped_file x)"
  have "overwrite ?b p d = take p ?b @ take (length d) (drop p ?b) @ drop (length d) (drop p ?b)"
    unfolding overwrite_def assms(4) by (simp add: add.commute)
  then have "overwrite ?b p d = ?b" by (metis append_take_drop_id)
  then show ?thesis using assms(1-3)
    by (simp add: put_field_def put_slice_def ix_file_ok_def usize_add_small slice_of_range Let_def)
qed

lemma put_signed_ne: "0 < n \<Longrightarrow> put_signed n v \<noteq> []"
  by (metis length_put(2) list.size(3) less_irrefl)

lemma update_byte_buffer_same:
  assumes lo: "laid_out x (ix_index_count x) body"
  shows "update_byte_buffer x = Returned x"
proof -
  have ok: "ix_file_ok x" and b: "mf_mmapped_file (ix_mapped_file x) = header_bytes x (ix_index_count x) @ body"
    using lo by (simp_all add: laid_out_def)
  have len: "40 \<le> index_total x" by (simp add: index_total_def)
  have "put_field 0 (put_i64 (ix_begin_timestamp x)) x = Returned x" "put_field 8 (put_i64 (ix_end_timestamp x)) x = Returned x"
    "put_field 16 (put_i64 (ix_begin_phy_offset x)) x = Returned x" "put_field 24 (put_i64 (ix_end_phy_offset x)) x = Returned x"
    "put_field 32 (put_i32 (ix_hash_slot_count x)) x = Returned x" "put_field 36 (put_i32 (ix_index_count x)) x = Returned x"
    using len by (auto intro!: put_field_same [OF ok] simp: b header_bytes_def put_signed_ne)
  then show ?thesis by (simp add: update_byte_buffer_def)
qed

abbreviation with_counter :: "ref_counter \<Rightarrow> index_file \<Rightarrow> index_file" where
  "with_counter c x \<equiv> x\<lparr>ix_mapped_file := (ix_mapped_file x)\<lparr>mf_reference_resource := c\<rparr>\<rparr>"

lemma counter_parts:
  "ix_chained (with_counter c x) es = ix_chained x es" "laid_out (with_counter c x) n body = laid_out x n body"
  "header_ok (with_counter c x) = header_ok x"
  by (simp_all add: ix_chained_def ix_rep_def laid_out_def ix_file_ok_def index_total_def header_bytes_def header_ok_def)

lemma flush_changes_counter:
  assumes ch: "ix_chained x es" and two: "2 \<le> length es" and idle: "mf_idle (ix_mapped_file x)"
  shows "\<exists>c. index_flush io_ok now x = Returned (with_counter c x)"
proof -
  obtain vs rest where rep: "ix_rep x vs es rest" using ch by (auto simp: ix_chained_def)
  then have lo: "laid_out x (ix_index_count x) (index_body vs es rest)" and ok: "ix_file_ok x"
    using two by (simp_all add: ix_rep_def laid_out_def)
  obtain c b where hold: "mf_hold (ix_mapped_file x) = ((ix_mapped_file x)\<lparr>mf_reference_resource := c\<rparr>, b)"
    by (cases "rc_hold (mf_reference_resource (ix_mapped_file x))") (simp add: mf_hold_def)
  have "update_byte_buffer (with_counter c x) = Returned (with_counter c x)"
    by (rule update_byte_buffer_same [where body = "index_body vs es rest"]) (use lo counter_parts(2) in simp)
  moreover have "mf_file_size (ix_mapped_file x) \<noteq> 0" using ok by (auto simp: ix_file_ok_def index_total_def)
  then have "mf_flush io_ok now 0 ((ix_mapped_file x)\<lparr>mf_reference_resource := c\<rparr>) = Returned ((ix_mapped_file x)\<lparr>mf_reference_resource := c\<rparr>, 0)"
    using idle by (simp add: mf_flush_def is_able_to_flush_def is_full_def get_read_position_def mf_idle_def)
  ultimately have "index_flush io_ok now x = Returned (with_counter (if b then rc_release c else c) x)"
    by (cases b) (simp_all add: index_flush_def hold mf_release_def)
  then show ?thesis by blast
qed

lemma sample_name: "parse_file_from_offset ''20240101000000000'' = Returned 20240101000000000"
  by (simp add: parse_file_from_offset_def parse_unsigned_def parse_nat_def digit_value_def)

section \<open>Properties\<close>

text \<open>
  C6. The index file stores every key: after any sequence of keys that fits a new file, the chain of
  a key, read where its entries are, holds exactly the offsets put for keys of the same hash, the newest first. The same holds for
  the file opened again from its bytes, since every change of the header is written at once.
\<close>

theorem index_holds_every_key:
  assumes "0 < S" and "40 + S * 4 + N * 20 < 2 ^ 31" and "parse_file_from_offset name = Returned off"
    and "length puts < N" and "puts_ok puts"
  shows "\<exists>x0 x y. index_file_new [] name S N 0 0 = Returned x0 \<and> index_put_all puts x0 = Returned x \<and>
    offsets_stored key x = offsets_put key puts \<and>
    bind_outcome (index_file_new (mf_mmapped_file (ix_mapped_file x)) name S N 0 0) index_load = Returned y \<and>
    offsets_stored key y = offsets_put key puts \<and> ix_index_count y = int (length puts) + 1 \<and>
    ix_end_timestamp y = ix_end_timestamp x \<and> ix_end_phy_offset y = ix_end_phy_offset x"
proof -
  have N: "0 < N" using assms(4) by simp
  obtain x0 where x0: "index_file_new [] name S N 0 0 = Returned x0"
    using assms(3) by (simp add: index_file_new_def mapped_file_new_def Let_def)
  have fits: "fits_signed 8 0" by (simp add: fits_signed_def)
  note new = new_file_chained [OF x0 assms(1) N assms(2) fits fits]
  from put_all_chained [OF new(1,2) assms(5)] assms(4) new(4) obtain x es where x: "index_put_all puts x0 = Returned x"
      "ix_chained x ((0, 0, 0, 0) # es)" "header_ok x" "ix_hash_slot_num x = S" "ix_index_num x = N"
      "map (\<lambda>e. (fst e, fst (snd e))) es = map (\<lambda>(k, phy, t). (index_key_hash_method k, phy)) puts"
    using new(3) by auto
  from restart_chained [OF x(2,3) assms(3)] obtain y where y:
    "bind_outcome (index_file_new (mf_mmapped_file (ix_mapped_file x)) name S N 0 0) index_load = Returned y" "ix_chained y ((0, 0, 0, 0) # es)"
    "ix_end_timestamp y = ix_end_timestamp x" "ix_end_phy_offset y = ix_end_phy_offset x" "ix_index_count y = ix_index_count x"
    unfolding x(4,5) by blast
  have "length es = length puts" using arg_cong [OF x(6), of length] by simp
  then have "ix_index_count x = int (length puts) + 1" using x(2) by (auto simp: ix_chained_def ix_rep_def)
  then have count: "ix_index_count y = int (length puts) + 1" using y(5) by simp
  show ?thesis
    by (intro exI conjI, rule x0, rule x(1), rule stored_offsets [OF x(2,6)], rule y(1), rule stored_offsets [OF y(2) x(6)], rule count)
      (rule y)+
qed

theorem index_holds_every_key_witness:
  "\<exists>x0 x y. index_file_new [] ''20240101000000000'' 10 20 0 0 = Returned x0 \<and>
     index_put_all [([65], 100, 5), ([66], 200, 6), ([65], 300, 7)] x0 = Returned x \<and> offsets_stored [65] x = [300, 100] \<and>
     bind_outcome (index_file_new (mf_mmapped_file (ix_mapped_file x)) ''20240101000000000'' 10 20 0 0) index_load = Returned y \<and>
     offsets_stored [65] y = [300, 100]"
proof -
  have h: "index_key_hash_method [65] = 65" "index_key_hash_method [66] = 66" by code_simp+
  have ok: "puts_ok [([65], 100, 5), ([66], 200, 6), ([65], 300, 7)]" by (simp add: puts_ok_def fits_signed_def)
  have "offsets_put [65] [([65], 100, 5), ([66], 200, 6), ([65], 300, 7)] = [300, 100]" by (simp add: offsets_put_def same_hash_def h)
  moreover have "(0::nat) < 10" "40 + 10 * 4 + 20 * 20 < (2::nat) ^ 31"
    "length [([65 :: u8], 100 :: i64, 5 :: i64), ([66], 200, 6), ([65], 300, 7)] < 20" by simp_all
  moreover note index_holds_every_key [OF this(1,2) sample_name this(3) ok, of "[65]"]
  ultimately obtain x0 x y where w:
    "index_file_new [] ''20240101000000000'' 10 20 0 0 = Returned x0"
    "index_put_all [([65], 100, 5), ([66], 200, 6), ([65], 300, 7)] x0 = Returned x" "offsets_stored [65] x = [300, 100]"
    "bind_outcome (index_file_new (mf_mmapped_file (ix_mapped_file x)) ''20240101000000000'' 10 20 0 0) index_load = Returned y"
    "offsets_stored [65] y = [300, 100]"
    by (elim exE conjE) (simp only:)
  show ?thesis by (intro exI conjI) (rule w)+
qed

text \<open>
  C37. Queries do not find what the index holds: they read an entry at twice its position. As long as the
  entries of a new file take less room than its header and its slots, a query for any key whose hash
  is not zero panics or adds nothing to the offsets.
\<close>

theorem index_query_finds_nothing:
  assumes "0 < S" and "40 + S * 4 + N * 20 < 2 ^ 31" and "length puts < N" and "puts_ok puts"
    and "(length puts + 1) * 20 \<le> 40 + S * 4" and "index_key_hash_method key \<noteq> 0"
    and "index_file_new [] name S N 0 0 = Returned x0" and "index_put_all puts x0 = Returned x"
  shows "select_phy_offset phy_offsets key max_num lo hi x = Some Panicked \<or>
    (\<exists>x'. select_phy_offset phy_offsets key max_num lo hi x = Some (Returned (x', phy_offsets)))"
proof -
  have N: "0 < N" using assms(3) by simp
  have fits: "fits_signed 8 0" by (simp add: fits_signed_def)
  note new = new_file_chained [OF assms(7,1) N assms(2) fits fits]
  from put_all_chained [OF new(1,2) assms(4)] assms(3,8) new(4) obtain es where ch: "ix_chained x ((0, 0, 0, 0) # es)"
    and S: "ix_hash_slot_num x = S" and len: "length es = length puts"
    using new(3) by (auto dest: arg_cong [of _ _ length])
  show ?thesis by (rule query_reads_nothing [OF ch _ assms(6)]) (use assms(5) S len in simp)
qed

theorem index_query_finds_nothing_witness:
  "\<exists>x0 x. index_file_new [] ''20240101000000000'' 10 20 0 0 = Returned x0 \<and> index_put_all [([65], 100, 5)] x0 = Returned x \<and>
     (select_phy_offset [] [65] 32 0 9 x = Some Panicked \<or> (\<exists>x'. select_phy_offset [] [65] 32 0 9 x = Some (Returned (x', []))))"
proof -
  have h: "index_key_hash_method [65] = 65" by code_simp
  have ok: "puts_ok [([65], 100, 5)]" by (simp add: puts_ok_def fits_signed_def)
  obtain x0 where x0: "index_file_new [] ''20240101000000000'' 10 20 0 0 = Returned x0"
    using sample_name by (simp add: index_file_new_def mapped_file_new_def Let_def)
  have fits: "fits_signed 8 0" by (simp add: fits_signed_def)
  note new = new_file_chained [OF x0 _ _ _ fits fits]
  obtain x where x: "index_put_all [([65], 100, 5)] x0 = Returned x"
    using put_all_chained [OF new(1,2) ok] new(3,4) by auto
  show ?thesis
    by (intro exI conjI, rule x0, rule x, rule index_query_finds_nothing [OF _ _ _ ok _ _ x0 x]) (simp_all add: h)
qed

end
