(* ===== verification/Index_Service.thy ===== *)
theory Index_Service
  imports Index_File Commit_Log_Recovery
begin

text \<open>
  The index of all message keys of a broker (\<open>rocketmq-store/src/index/index_service.rs\<close>,
  \<open>index_dispatch.rs\<close>, \<open>query_offset_result.rs\<close>): a list of index files, of which the last one takes the keys of new
  messages. The files are shared by reference counting, so they have addresses: the address of a file is its place in the list
  of all files that the service ever opened. The name of the file with address \<open>n\<close> is the value of
  \<open>name n\<close>; the source takes it from the clock, in milliseconds. A file of that name is opened
  with the content that \<open>disk\<close> gives, and two files with one name would share their bytes, which the model leaves out. The
  flush of a file that was filled up is handed to another thread; it waits in
  the list of tasks until the step \<open>run_flush_task\<close>.
\<close>

section \<open>State\<close>

record index_service =
  sv_hash_slot_num :: u32
  sv_index_num :: u32
  sv_files :: "index_file list"
  sv_index_file_list :: "nat list"
  sv_max_msgs_num_batch :: nat
  sv_store_checkpoint :: store_checkpoint
  sv_running_flags :: u32
  sv_flush_tasks :: "nat option list"

record query_offset_result =
  qr_phy_offsets :: "i64 list"
  qr_index_last_update_timestamp :: i64
  qr_index_last_update_phyoffset :: i64

definition index_service_new :: "u32 \<Rightarrow> u32 \<Rightarrow> nat \<Rightarrow> store_checkpoint \<Rightarrow> u32 \<Rightarrow> index_service" where
  "index_service_new max_hash_slot_num max_index_num max_msgs_num_batch checkpoint flags =
     \<lparr>sv_hash_slot_num = max_hash_slot_num, sv_index_num = max_index_num, sv_files = [], sv_index_file_list = [],
      sv_max_msgs_num_batch = max_msgs_num_batch, sv_store_checkpoint = checkpoint, sv_running_flags = flags, sv_flush_tasks = []\<rparr>"

definition file_at :: "index_service \<Rightarrow> nat \<Rightarrow> index_file" where
  "file_at s i = sv_files s ! i"

definition set_file :: "nat \<Rightarrow> index_file \<Rightarrow> index_service \<Rightarrow> index_service" where
  "set_file i x s = s\<lparr>sv_files := (sv_files s)[i := x]\<rparr>"

section \<open>Life cycle\<close>

text \<open>Flushing or destroying the files of a list in turn.\<close>

fun shutdown_files :: "bool \<Rightarrow> u64 \<Rightarrow> nat list \<Rightarrow> index_service \<Rightarrow> index_service outcome" where
  "shutdown_files io_ok now [] s = Returned s"
| "shutdown_files io_ok now (i # is) s =
     bind_outcome (index_flush io_ok now (file_at s i)) (\<lambda>x. shutdown_files io_ok now is (set_file i x s))"

definition service_shutdown :: "bool \<Rightarrow> u64 \<Rightarrow> index_service \<Rightarrow> index_service outcome" where
  "service_shutdown io_ok now s =
     bind_outcome (shutdown_files io_ok now (sv_index_file_list s) s) (\<lambda>s. Returned (s\<lparr>sv_index_file_list := []\<rparr>))"

definition destroy_file :: "bool \<Rightarrow> u64 \<Rightarrow> u64 \<Rightarrow> nat \<Rightarrow> index_service \<Rightarrow> index_service" where
  "destroy_file io_ok now interval i s = set_file i (fst (index_destroy io_ok now interval (file_at s i))) s"

definition service_destroy :: "bool \<Rightarrow> u64 \<Rightarrow> index_service \<Rightarrow> index_service" where
  "service_destroy io_ok now s =
     (fold (destroy_file io_ok now (1000 * 3)) (sv_index_file_list s) s)\<lparr>sv_index_file_list := []\<rparr>"

text \<open>Loading the files of the directory, given by their paths, in the order of their names.\<close>

definition path_file_name :: "string \<Rightarrow> string" where
  "path_file_name path = last (split_char CHR ''/'' path)"

fun load_index_files ::
  "(string \<Rightarrow> bytes) \<Rightarrow> bool \<Rightarrow> u64 \<Rightarrow> bool \<Rightarrow> string list \<Rightarrow> index_service \<Rightarrow> index_service outcome" where
  "load_index_files disk io_ok now last_exit_ok [] s = Returned s"
| "load_index_files disk io_ok now last_exit_ok (path # paths) s =
     bind_outcome (bind_outcome
       (index_file_new (disk path) path (unat (sv_hash_slot_num s)) (unat (sv_index_num s)) 0 0) index_load) (\<lambda>x.
     let i = length (sv_files s); s' = s\<lparr>sv_files := sv_files s @ [x]\<rparr>
     in load_index_files disk io_ok now last_exit_ok paths
          (if \<not> last_exit_ok \<and> ix_end_timestamp x > sint (ck_index_msg_timestamp (sv_store_checkpoint s))
           then destroy_file io_ok now 0 i s'
           else s'\<lparr>sv_index_file_list := sv_index_file_list s' @ [i]\<rparr>))"

definition service_load ::
  "string list option \<Rightarrow> (string \<Rightarrow> bytes) \<Rightarrow> bool \<Rightarrow> u64 \<Rightarrow> bool \<Rightarrow> index_service \<Rightarrow> (index_service \<times> bool) outcome" where
  "service_load dir disk io_ok now last_exit_ok s =
     (case dir of
        None \<Rightarrow> Returned (s, True)
      | Some files \<Rightarrow> bind_outcome (load_index_files disk io_ok now last_exit_ok (sort_key path_file_name files) s) (\<lambda>s. Returned (s, True)))"

definition service_total_size :: "index_service \<Rightarrow> u64" where
  "service_total_size s =
     (if sv_index_file_list s = [] then 0
      else of_nat (ix_file_total_size (file_at s (hd (sv_index_file_list s))) * length (sv_index_file_list s)))"

definition index_file_name :: "index_service \<Rightarrow> nat \<Rightarrow> string" where
  "index_file_name s i = mf_file_name (ix_mapped_file (file_at s i))"

definition service_delete_expired_file :: "bool \<Rightarrow> u64 \<Rightarrow> u64 \<Rightarrow> index_service \<Rightarrow> index_service" where
  "service_delete_expired_file io_ok now offset s =
     (let files = takeWhile (\<lambda>i. (word_of_int (ix_end_phy_offset (file_at s i)) :: u64) < offset) (sv_index_file_list s)
      in fold (\<lambda>i s. let s' = destroy_file io_ok now 3000 i s
                     in s'\<lparr>sv_index_file_list := filter (\<lambda>j. index_file_name s' j \<noteq> index_file_name s' i) (sv_index_file_list s')\<rparr>) files s)"

definition flush_file :: "bool \<Rightarrow> u64 \<Rightarrow> nat option \<Rightarrow> index_service \<Rightarrow> index_service outcome" where
  "flush_file io_ok now target s =
     (case target of
        None \<Rightarrow> Returned s
      | Some i \<Rightarrow>
          let x = file_at s i;
              index_msg_timestamp = (if is_write_full x then word_of_int (ix_end_timestamp x) else 0 :: u64)
          in bind_outcome (index_flush io_ok now x) (\<lambda>x.
             let s' = set_file i x s
             in Returned (if index_msg_timestamp > 0
                then s'\<lparr>sv_store_checkpoint := fst (ck_flush io_ok (set_index_msg_timestamp index_msg_timestamp (sv_store_checkpoint s')))\<rparr>
                else s')))"

definition run_flush_task :: "bool \<Rightarrow> u64 \<Rightarrow> nat \<Rightarrow> index_service \<Rightarrow> index_service outcome" where
  "run_flush_task io_ok now n s =
     (if n < length (sv_flush_tasks s)
      then flush_file io_ok now (sv_flush_tasks s ! n)
             (s\<lparr>sv_flush_tasks := take n (sv_flush_tasks s) @ drop (Suc n) (sv_flush_tasks s)\<rparr>)
      else Returned s)"

section \<open>Building the index\<close>

definition get_and_create_last_index_file ::
  "(nat \<Rightarrow> string) \<Rightarrow> (string \<Rightarrow> bytes) \<Rightarrow> index_service \<Rightarrow> (index_service \<times> nat option) outcome" where
  "get_and_create_last_index_file name disk s =
     (let prev_index_file = (if sv_index_file_list s = [] then None else Some (last (sv_index_file_list s)))
      in case (case prev_index_file of Some i \<Rightarrow> if is_write_full (file_at s i) then None else Some i | None \<Rightarrow> None) of
           Some i \<Rightarrow> Returned (s, Some i)
         | None \<Rightarrow>
             let last_update_end_phy_offset = (case prev_index_file of Some i \<Rightarrow> ix_end_phy_offset (file_at s i) | None \<Rightarrow> 0);
                 last_update_index_timestamp = (case prev_index_file of Some i \<Rightarrow> ix_end_timestamp (file_at s i) | None \<Rightarrow> 0);
                 i = length (sv_files s)
             in bind_outcome (index_file_new (disk (name i)) (name i) (unat (sv_hash_slot_num s)) (unat (sv_index_num s))
                  last_update_end_phy_offset last_update_index_timestamp) (\<lambda>x.
                Returned (s\<lparr>sv_files := sv_files s @ [x], sv_index_file_list := sv_index_file_list s @ [i],
                  sv_flush_tasks := sv_flush_tasks s @ [prev_index_file]\<rparr>, Some i)))"

fun retry_create :: "nat \<Rightarrow> (nat \<Rightarrow> string) \<Rightarrow> (string \<Rightarrow> bytes) \<Rightarrow> index_service \<Rightarrow> (index_service \<times> nat option) outcome" where
  "retry_create 0 name disk s = Returned (s, None)"
| "retry_create (Suc n) name disk s =
     bind_outcome (get_and_create_last_index_file name disk s) (\<lambda>(s, i).
     case i of Some i \<Rightarrow> Returned (s, Some i) | None \<Rightarrow> retry_create n name disk s)"

definition retry_get_and_create_index_file ::
  "(nat \<Rightarrow> string) \<Rightarrow> (string \<Rightarrow> bytes) \<Rightarrow> index_service \<Rightarrow> (index_service \<times> nat option) outcome" where
  "retry_get_and_create_index_file name disk s =
     bind_outcome (retry_create 3 name disk s) (\<lambda>(s, i).
     Returned (if i = None then s\<lparr>sv_running_flags := make_index_file_error (sv_running_flags s)\<rparr> else s, i))"

text \<open>
  Putting a key: as long as the file is full, the next one is asked for. With room for at most one entry in a file, which no key
  is put into, this goes on forever.
\<close>

partial_function (option) service_put_key ::
  "(nat \<Rightarrow> string) \<Rightarrow> (string \<Rightarrow> bytes) \<Rightarrow> nat \<Rightarrow> dispatch_request \<Rightarrow> bytes \<Rightarrow> index_service \<Rightarrow> (index_service \<times> nat option) outcome option" where
  "service_put_key name disk i msg idx_key s =
     (case index_put_key idx_key (dr_commit_log_offset msg) (dr_store_timestamp msg) (file_at s i) of
        Panicked \<Rightarrow> Some Panicked
      | Returned (x, ok) \<Rightarrow>
          if ok then Some (Returned (set_file i x s, Some i))
          else (case retry_get_and_create_index_file name disk (set_file i x s) of
                  Panicked \<Rightarrow> Some Panicked
                | Returned (s, None) \<Rightarrow> Some (Returned (s, None))
                | Returned (s, Some j) \<Rightarrow> service_put_key name disk j msg idx_key s))"

definition build_key :: "bytes \<Rightarrow> bytes \<Rightarrow> bytes" where
  "build_key topic key = topic @ [35] @ key"

fun split_bytes :: "u8 \<Rightarrow> bytes \<Rightarrow> bytes list" where
  "split_bytes c [] = [[]]"
| "split_bytes c (x # xs) =
     (if x = c then [] # split_bytes c xs
      else (case split_bytes c xs of p # ps \<Rightarrow> (x # p) # ps | [] \<Rightarrow> [[x]]))"

text \<open>Putting keys in turn; \<open>None\<close> for the file is the branch of the source that reports an error and returns.\<close>

fun put_keys ::
  "(nat \<Rightarrow> string) \<Rightarrow> (string \<Rightarrow> bytes) \<Rightarrow> nat \<Rightarrow> dispatch_request \<Rightarrow> bytes list \<Rightarrow> index_service \<Rightarrow> (index_service \<times> nat option) outcome option" where
  "put_keys name disk i msg [] s = Some (Returned (s, Some i))"
| "put_keys name disk i msg (key # keys) s =
     (case service_put_key name disk i msg (build_key (dr_topic msg) key) s of
        None \<Rightarrow> None
      | Some Panicked \<Rightarrow> Some Panicked
      | Some (Returned (s, None)) \<Rightarrow> Some (Returned (s, None))
      | Some (Returned (s, Some j)) \<Rightarrow> put_keys name disk j msg keys s)"

text \<open>The report of a key that could not be put unwraps the unique key of the message.\<close>

definition put_split_keys ::
  "(nat \<Rightarrow> string) \<Rightarrow> (string \<Rightarrow> bytes) \<Rightarrow> nat \<Rightarrow> dispatch_request \<Rightarrow> index_service \<Rightarrow> index_service outcome option" where
  "put_split_keys name disk i msg s =
     (if dr_keys msg = [] then Some (Returned s)
      else (case put_keys name disk i msg (filter (\<lambda>key. key \<noteq> []) (split_bytes 32 (dr_keys msg))) s of
              None \<Rightarrow> None
            | Some Panicked \<Rightarrow> Some Panicked
            | Some (Returned (s, None)) \<Rightarrow> Some (if dr_uniq_key msg = None then Panicked else Returned s)
            | Some (Returned (s, Some _)) \<Rightarrow> Some (Returned s)))"

definition build_index ::
  "(nat \<Rightarrow> string) \<Rightarrow> (string \<Rightarrow> bytes) \<Rightarrow> dispatch_request \<Rightarrow> index_service \<Rightarrow> index_service outcome option" where
  "build_index name disk msg s =
     (case retry_get_and_create_index_file name disk s of
        Panicked \<Rightarrow> Some Panicked
      | Returned (s, None) \<Rightarrow> Some (Returned s)
      | Returned (s, Some i) \<Rightarrow>
          if dr_commit_log_offset msg < ix_end_phy_offset (file_at s i) then Some (Returned s)
          else if get_transaction_value (dr_sys_flag msg) = transaction_rollback_type then Some (Returned s)
          else (case dr_uniq_key msg of
                  None \<Rightarrow> put_split_keys name disk i msg s
                | Some uniq_key \<Rightarrow>
                    (case put_keys name disk i msg [uniq_key] s of
                       None \<Rightarrow> None
                     | Some Panicked \<Rightarrow> Some Panicked
                     | Some (Returned (s, None)) \<Rightarrow> Some (Returned s)
                     | Some (Returned (s, Some j)) \<Rightarrow> put_split_keys name disk j msg s)))"

definition index_dispatch ::
  "bool \<Rightarrow> (nat \<Rightarrow> string) \<Rightarrow> (string \<Rightarrow> bytes) \<Rightarrow> dispatch_request \<Rightarrow> index_service \<Rightarrow> index_service outcome option" where
  "index_dispatch message_index_enable name disk msg s =
     (if message_index_enable then build_index name disk msg s else Some (Returned s))"

section \<open>Queries\<close>

fun query_files ::
  "bytes \<Rightarrow> bytes \<Rightarrow> nat \<Rightarrow> i64 \<Rightarrow> i64 \<Rightarrow> nat list \<Rightarrow> index_service \<Rightarrow> i64 list \<Rightarrow> (index_service \<times> i64 list) outcome option" where
  "query_files topic key max_num lo hi [] s phy_offsets = Some (Returned (s, phy_offsets))"
| "query_files topic key max_num lo hi (i # is) s phy_offsets =
     (let f = file_at s i
      in case (if is_time_matched lo hi f
               then select_phy_offset phy_offsets (build_key topic key) max_num lo hi f
               else Some (Returned (f, phy_offsets))) of
           None \<Rightarrow> None
         | Some Panicked \<Rightarrow> Some Panicked
         | Some (Returned (f', phy_offsets)) \<Rightarrow>
             let s = set_file i f' s
             in if ix_begin_timestamp f < lo \<or> length phy_offsets \<ge> max_num then Some (Returned (s, phy_offsets))
                else query_files topic key max_num lo hi is s phy_offsets)"

text \<open>The vector of the answer is allocated for the number that was asked for, which panics if it is negative.\<close>

definition service_query_offset ::
  "bytes \<Rightarrow> bytes \<Rightarrow> i32 \<Rightarrow> i64 \<Rightarrow> i64 \<Rightarrow> index_service \<Rightarrow> (index_service \<times> query_offset_result) outcome option" where
  "service_query_offset topic key max_num lo hi s =
     (if max_num < 0 then Some Panicked
      else
        let max_num = min max_num (wrap_i32 (int (sv_max_msgs_num_batch s)));
            files = sv_index_file_list s;
            (last_timestamp, last_phyoffset) =
              (if files = [] then (0, 0)
               else (ix_end_timestamp (file_at s (last files)), ix_end_phy_offset (file_at s (last files))))
        in case query_files topic key (as_usize max_num) lo hi (rev files) s [] of
             None \<Rightarrow> None
           | Some Panicked \<Rightarrow> Some Panicked
           | Some (Returned (s, phy_offsets)) \<Rightarrow>
               Some (Returned (s, \<lparr>qr_phy_offsets = phy_offsets, qr_index_last_update_timestamp = last_timestamp,
                 qr_index_last_update_phyoffset = last_phyoffset\<rparr>)))"

section \<open>What the files of the service hold\<close>

text \<open>
  The files of a service that was built from nothing: the entries of each file, all but the last of which are not
  empty, their names, a lower bound of the times and an upper bound of the offsets of messages.
\<close>

definition sizes_ok :: "nat \<Rightarrow> nat \<Rightarrow> bool" where
  "sizes_ok S N \<longleftrightarrow> 0 < S \<and> 2 \<le> N \<and> 40 + S * 4 + N * 20 < 2 ^ 31"

definition file_holds :: "nat \<Rightarrow> nat \<Rightarrow> i64 \<Rightarrow> index_file \<Rightarrow> index_entry list \<Rightarrow> bool" where
  "file_holds S N lb x es \<longleftrightarrow> ix_chained x ((0, 0, 0, 0) # es) \<and> header_ok x \<and> ix_hash_slot_num x = S \<and>
     ix_index_num x = N \<and> (es \<noteq> [] \<longrightarrow> lb \<le> ix_end_timestamp x) \<and> mf_idle (ix_mapped_file x)"

definition task_ok :: "index_entry list list \<Rightarrow> nat option \<Rightarrow> bool" where
  "task_ok ess t \<longleftrightarrow> (case t of None \<Rightarrow> True | Some i \<Rightarrow> i < length ess \<and> ess ! i \<noteq> [])"

definition service_holds ::
  "(nat \<Rightarrow> string) \<Rightarrow> nat \<Rightarrow> nat \<Rightarrow> i64 \<Rightarrow> i64 \<Rightarrow> index_service \<Rightarrow> index_entry list list \<Rightarrow> bool" where
  "service_holds name S N lb B s ess \<longleftrightarrow>
     unat (sv_hash_slot_num s) = S \<and> unat (sv_index_num s) = N \<and> sv_index_file_list s = [0..<length ess] \<and>
     list_all2 (file_holds S N lb) (sv_files s) ess \<and>
     map (\<lambda>x. mf_file_name (ix_mapped_file x)) (sv_files s) = map name [0..<length ess] \<and>
     (ess \<noteq> [] \<longrightarrow> ix_end_phy_offset (last (sv_files s)) \<le> B) \<and>
     list_all (\<lambda>es. es \<noteq> []) (butlast ess) \<and> list_all (task_ok ess) (sv_flush_tasks s)"

text \<open>
  The names for the first \<open>M\<close> files and one more: each of them is a number, as a name made of a time is, belongs to a
  new file, and comes after the names before it.
\<close>

definition names_ok :: "(nat \<Rightarrow> string) \<Rightarrow> (string \<Rightarrow> bytes) \<Rightarrow> nat \<Rightarrow> bool" where
  "names_ok name disk M \<longleftrightarrow>
     list_all (\<lambda>n. parse_file_from_offset (name n) \<noteq> Panicked \<and> disk (name n) = []) [0..<Suc M] \<and>
     sorted_wrt (<) (map (\<lambda>n. path_file_name (name n)) [0..<Suc M])"

lemma holds_length: "service_holds name S N lb B s ess \<Longrightarrow> length (sv_files s) = length ess"
  by (auto simp: service_holds_def dest: list_all2_lengthD)

lemma holds_file:
  "service_holds name S N lb B s ess \<Longrightarrow> i < length ess \<Longrightarrow> file_holds S N lb (file_at s i) (ess ! i)"
  by (simp add: service_holds_def file_at_def list_all2_conv_all_nth)

lemma holds_last: "service_holds name S N lb B s ess \<Longrightarrow> ess \<noteq> [] \<Longrightarrow> file_at s (length ess - 1) = last (sv_files s)"
  using holds_length [of name S N lb B s ess] by (cases "sv_files s = []") (simp_all add: file_at_def last_conv_nth)

lemma file_count: "file_holds S N lb x es \<Longrightarrow> ix_index_count x = int (length es) + 1 \<and> length es + 1 \<le> N"
  by (auto simp: file_holds_def ix_chained_def ix_rep_def)

lemma small_index_num: "sizes_ok S N \<Longrightarrow> wrap_i32 (int N) = int N"
  by (intro wrap_i32_id) (simp add: sizes_ok_def is_i32_def)

lemma file_full: "sizes_ok S N \<Longrightarrow> file_holds S N lb x es \<Longrightarrow> is_write_full x \<longleftrightarrow> length es + 1 = N"
  using file_count [of S N lb x es] small_index_num [of S N] by (auto simp: is_write_full_def file_holds_def)

lemma many_entries: "list_all (\<lambda>es. es \<noteq> []) ess \<Longrightarrow> length ess \<le> length (concat ess)"
proof (induction ess)
  case (Cons es ess)
  then show ?case by (cases es) auto
qed simp

lemma names_okD: "names_ok name disk M \<Longrightarrow> n \<le> M \<Longrightarrow> parse_file_from_offset (name n) \<noteq> Panicked \<and> disk (name n) = []"
  by (simp add: names_ok_def list_all_iff del: upt_Suc)

lemma new_service_holds: "service_holds name (unat S) (unat N) lb B (index_service_new S N b ck fl) []"
  by (simp add: service_holds_def index_service_new_def)

lemma create_holds:
  assumes h: "service_holds name S N lb B s ess" and B: "0 \<le> B" and sz: "sizes_ok S N" and names: "names_ok name disk M"
    and M: "length (concat ess) \<le> M"
  shows "\<exists>s' ess'. retry_get_and_create_index_file name disk s = Returned (s', Some (length ess' - 1)) \<and>
    service_holds name S N lb B s' ess' \<and> concat ess' = concat ess \<and> ess' \<noteq> [] \<and> length (last ess') + 1 < N"
proof (cases "ess \<noteq> [] \<and> length (last ess) + 1 < N")
  case True
  then have i: "length ess - 1 < length ess" "ess ! (length ess - 1) = last ess" by (simp_all add: last_conv_nth)
  have l: "sv_index_file_list s = [0..<length ess]" using h by (simp add: service_holds_def)
  then have last: "last (sv_index_file_list s) = length ess - 1" "sv_index_file_list s \<noteq> []" using True by simp_all
  have "\<not> is_write_full (file_at s (length ess - 1))"
    using file_full [OF sz holds_file [OF h i(1)]] i(2) True by simp
  then have "get_and_create_last_index_file name disk s = Returned (s, Some (length ess - 1))"
    using last by (simp add: get_and_create_last_index_file_def)
  then show ?thesis using h True
    by (intro exI [of _ s] exI [of _ ess]) (simp add: retry_get_and_create_index_file_def numeral_3_eq_3)
next
  case False
  define prev where "prev = (if ess = [] then None else Some (length ess - 1))"
  have full: "is_write_full (file_at s i)" "last ess \<noteq> []" if "prev = Some i" for i
  proof -
    have i: "i < length ess" "ess ! i = last ess" using that by (auto simp: prev_def last_conv_nth split: if_splits)
    then have "length (last ess) + 1 = N" using file_count [OF holds_file [OF h i(1)]] False by auto
    then show "is_write_full (file_at s i)" "last ess \<noteq> []" using file_full [OF sz holds_file [OF h i(1)]] i(2) sz by (auto simp: sizes_ok_def)
  qed
  have l: "sv_index_file_list s = [0..<length ess]" "unat (sv_hash_slot_num s) = S" "unat (sv_index_num s) = N" using h by (simp_all add: service_holds_def)
  have prev: "(if sv_index_file_list s = [] then None else Some (last (sv_index_file_list s))) = prev" by (simp add: l prev_def)
  have none: "(case prev of Some i \<Rightarrow> if is_write_full (file_at s i) then None else Some i | None \<Rightarrow> None) = None"
    using full by (simp split: option.splits)
  let ?ep = "case prev of Some i \<Rightarrow> ix_end_phy_offset (file_at s i) | None \<Rightarrow> 0"
  let ?et = "case prev of Some i \<Rightarrow> ix_end_timestamp (file_at s i) | None \<Rightarrow> 0"
  have fits: "fits_signed 8 ?ep" "fits_signed 8 ?et" "?ep \<le> B"
  proof -
    have "fits_signed 8 (ix_end_phy_offset (file_at s i)) \<and> fits_signed 8 (ix_end_timestamp (file_at s i)) \<and> ix_end_phy_offset (file_at s i) \<le> B"
      if "prev = Some i" for i
    proof -
      have i: "i = length ess - 1" "i < length ess" "ess \<noteq> []" using that by (auto simp: prev_def split: if_splits)
      then have "file_at s i = last (sv_files s)" using holds_last [OF h i(3)] by simp
      then show ?thesis using holds_file [OF h i(2)] h i(3) by (simp add: file_holds_def header_ok_def service_holds_def)
    qed
    then show "fits_signed 8 ?ep" "fits_signed 8 ?et" "?ep \<le> B" using B by (simp_all add: fits_signed_def split: option.splits)
  qed
  let ?n = "length ess"
  have all: "list_all (\<lambda>es. es \<noteq> []) ess"
  proof (cases ess rule: rev_cases)
    case (snoc es e)
    then show ?thesis using h full(2) by (auto simp: service_holds_def prev_def)
  qed simp
  then have "?n \<le> M" using many_entries [OF all] M by simp
  then have nm: "parse_file_from_offset (name ?n) \<noteq> Panicked" "disk (name ?n) = []" using names_okD [OF names] by blast+
  obtain x where x: "index_file_new [] (name ?n) S N ?ep ?et = Returned x"
    using new_file_returns [OF nm(1), of S N] sz by (auto simp: sizes_ok_def)
  let ?s = "s\<lparr>sv_files := sv_files s @ [x], sv_index_file_list := sv_index_file_list s @ [?n], sv_flush_tasks := sv_flush_tasks s @ [prev]\<rparr>"
  have len: "length (sv_files s) = ?n" by (rule holds_length [OF h])
  have "get_and_create_last_index_file name disk s = Returned (?s, Some ?n)"
    unfolding get_and_create_last_index_file_def Let_def prev none len l(2,3) nm(2) x by simp
  then have "retry_get_and_create_index_file name disk s = Returned (?s, Some (length (ess @ [[]]) - 1))"
    by (simp add: retry_get_and_create_index_file_def numeral_3_eq_3)
  moreover have "service_holds name S N lb B ?s (ess @ [[]])"
  proof -
    note new = new_file_chained [OF x _ _ _ fits(1,2)]
    have "file_holds S N lb x []" "ix_end_phy_offset x \<le> B" "mf_file_name (ix_mapped_file x) = name ?n"
      using new new_file_idle [OF x] sz fits(3) B by (simp_all add: sizes_ok_def file_holds_def)
    moreover have "list_all (task_ok (ess @ [[]])) (sv_flush_tasks s)" "task_ok (ess @ [[]]) prev"
      using h full(2) by (auto simp: service_holds_def task_ok_def list_all_iff nth_append prev_def last_conv_nth split: option.splits if_splits)
    ultimately show ?thesis using h all by (simp add: service_holds_def list_all2_appendI)
  qed
  ultimately show ?thesis using sz by (intro exI [of _ ?s] exI [of _ "ess @ [[]]"]) (simp add: sizes_ok_def)
qed

text \<open>Putting a key appends its entry to those of the last file, or to a new one.\<close>

abbreviation entry_key :: "index_entry \<Rightarrow> i32 \<times> i64" where
  "entry_key e \<equiv> (fst e, fst (snd e))"

definition request_ok :: "i64 \<Rightarrow> dispatch_request \<Rightarrow> bool" where
  "request_ok lb msg \<longleftrightarrow> 0 \<le> dr_commit_log_offset msg \<and> fits_signed 8 (dr_commit_log_offset msg) \<and>
     fits_signed 8 (dr_store_timestamp msg) \<and> lb \<le> dr_store_timestamp msg"

lemma concat_snoc_last: "ess \<noteq> [] \<Longrightarrow> concat (ess[length ess - 1 := last ess @ [e]]) = concat ess @ [e]"
  by (cases ess rule: rev_cases) simp_all

lemma holds_set_file:
  assumes h: "service_holds name S N lb B s ess" and ess: "ess \<noteq> []"
    and x: "file_holds S N lb x (last ess @ es)" "ix_end_phy_offset x \<le> B'"
    and nm: "mf_file_name (ix_mapped_file x) = mf_file_name (ix_mapped_file (file_at s (length ess - 1)))"
  shows "service_holds name S N lb B' (set_file (length ess - 1) x s) (ess[length ess - 1 := last ess @ es])"
proof -
  let ?i = "length ess - 1"
  have len: "length (sv_files s) = length ess" by (rule holds_length [OF h])
  have files: "list_all2 (file_holds S N lb) ((sv_files s)[?i := x]) (ess[?i := last ess @ es])"
    using h x(1) by (intro list_all2_update_cong) (simp_all add: service_holds_def)
  have "map (\<lambda>x. mf_file_name (ix_mapped_file x)) ((sv_files s)[?i := x]) = map (\<lambda>x. mf_file_name (ix_mapped_file x)) (sv_files s)"
    using nm len ess by (intro nth_equalityI) (auto simp: nth_list_update file_at_def)
  moreover have "last ((sv_files s)[?i := x]) = x" using len ess by (subst last_conv_nth) auto
  moreover have "butlast (ess[?i := last ess @ es]) = butlast ess" using ess by (cases ess rule: rev_cases) simp_all
  moreover have "task_ok (ess[?i := last ess @ es]) t" if "task_ok ess t" for t
    using that ess by (auto simp: task_ok_def nth_list_update last_conv_nth split: option.splits)
  then have "list_all (task_ok (ess[?i := last ess @ es])) (sv_flush_tasks s)"
    using h by (auto simp: service_holds_def list_all_iff)
  ultimately show ?thesis using h x(2) files by (simp add: service_holds_def set_file_def)
qed

lemma put_with_room:
  assumes h: "service_holds name S N lb B s ess" and ess: "ess \<noteq> []" and room: "length (last ess) + 1 < N" and msg: "request_ok lb msg"
  shows "\<exists>s' ess' e. service_put_key name disk (length ess - 1) msg key s = Some (Returned (s', Some (length ess' - 1))) \<and>
    service_holds name S N lb (dr_commit_log_offset msg) s' ess' \<and> ess' \<noteq> [] \<and> concat ess' = concat ess @ [e] \<and>
    entry_key e = (index_key_hash_method key, dr_commit_log_offset msg)"
proof -
  let ?i = "length ess - 1"
  have i: "?i < length ess" "ess ! ?i = last ess" using ess by (simp_all add: last_conv_nth)
  have f: "file_holds S N lb (file_at s ?i) (last ess)" using holds_file [OF h i(1)] i(2) by simp
  then have ch: "ix_chained (file_at s ?i) ((0, 0, 0, 0) # last ess)" "header_ok (file_at s ?i)"
    "ix_hash_slot_num (file_at s ?i) = S" "ix_index_num (file_at s ?i) = N" by (simp_all add: file_holds_def)
  have fits: "fits_signed 8 (dr_commit_log_offset msg)" "fits_signed 8 (dr_store_timestamp msg)" "lb \<le> dr_store_timestamp msg"
    using msg by (simp_all add: request_ok_def)
  have "length ((0, 0, 0, 0) # last ess) < ix_index_num (file_at s ?i)" using room ch(4) by simp
  from put_key_chained [OF ch(1) this fits(1), of key "dr_store_timestamp msg"] obtain y e where
    y: "index_put_key key (dr_commit_log_offset msg) (dr_store_timestamp msg) (file_at s ?i) = Returned (y, True)"
      "ix_chained y ((0, 0, 0, 0) # last ess @ [e])" "fst e = index_key_hash_method key" "fst (snd e) = dr_commit_log_offset msg"
      "header_ok y" "ix_hash_slot_num y = S" "ix_index_num y = N" "ix_end_phy_offset y = dr_commit_log_offset msg"
      "ix_end_timestamp y = dr_store_timestamp msg" "mf_file_name (ix_mapped_file y) = mf_file_name (ix_mapped_file (file_at s ?i))"
    using ch(2-4) fits(2) by auto
  have "file_holds S N lb y (last ess @ [e])" using y f put_key_idle [OF y(1)] fits(3) by (simp add: file_holds_def)
  then have "service_holds name S N lb (dr_commit_log_offset msg) (set_file ?i y s) (ess[?i := last ess @ [e]])"
    using y by (intro holds_set_file [OF h ess]) simp_all
  moreover have "service_put_key name disk ?i msg key s = Some (Returned (set_file ?i y s, Some ?i))"
    using y(1) by (subst service_put_key.simps) simp
  ultimately show ?thesis using ess y(3,4) concat_snoc_last [OF ess, of e]
    by (intro exI [of _ "set_file ?i y s"] exI [of _ "ess[?i := last ess @ [e]]"] exI [of _ e]) simp
qed

lemma put_key_holds:
  assumes h: "service_holds name S N lb B s ess" and B: "0 \<le> B" and sz: "sizes_ok S N" and names: "names_ok name disk M"
    and M: "length (concat ess) \<le> M" and ess: "ess \<noteq> []" and msg: "request_ok lb msg"
  shows "\<exists>s' ess' e. service_put_key name disk (length ess - 1) msg key s = Some (Returned (s', Some (length ess' - 1))) \<and>
    service_holds name S N lb (dr_commit_log_offset msg) s' ess' \<and> ess' \<noteq> [] \<and> concat ess' = concat ess @ [e] \<and>
    entry_key e = (index_key_hash_method key, dr_commit_log_offset msg)"
proof (cases "length (last ess) + 1 < N")
  case True
  then show ?thesis by (rule put_with_room [OF h ess _ msg])
next
  case False
  let ?i = "length ess - 1"
  have i: "?i < length ess" "ess ! ?i = last ess" using ess by (simp_all add: last_conv_nth)
  have f: "file_holds S N lb (file_at s ?i) (last ess)" using holds_file [OF h i(1)] i(2) by simp
  then have "\<not> ix_index_count (file_at s ?i) < wrap_i32 (int (ix_index_num (file_at s ?i)))"
    using file_count [OF f] False small_index_num [OF sz] by (simp add: file_holds_def)
  then have "index_put_key key (dr_commit_log_offset msg) (dr_store_timestamp msg) (file_at s ?i) = Returned (file_at s ?i, False)"
    by (simp add: index_put_key_def)
  moreover have "set_file ?i (file_at s ?i) s = s" by (simp add: set_file_def file_at_def)
  moreover obtain s1 ess1 where c: "retry_get_and_create_index_file name disk s = Returned (s1, Some (length ess1 - 1))"
      "service_holds name S N lb B s1 ess1" "concat ess1 = concat ess" "ess1 \<noteq> []" "length (last ess1) + 1 < N"
    using create_holds [OF h B sz names M] by blast
  ultimately have "service_put_key name disk ?i msg key s = service_put_key name disk (length ess1 - 1) msg key s1"
    by (subst service_put_key.simps) simp
  then show ?thesis using put_with_room [OF c(2,4,5) msg, of disk key] c(3) by simp
qed

text \<open>The keys of a message, and what is put for them.\<close>

definition request_keys :: "dispatch_request \<Rightarrow> bytes list" where
  "request_keys msg = (case dr_uniq_key msg of None \<Rightarrow> [] | Some u \<Rightarrow> [u]) @ filter (\<lambda>k. k \<noteq> []) (split_bytes 32 (dr_keys msg))"

definition request_puts :: "dispatch_request \<Rightarrow> (bytes \<times> i64) list" where
  "request_puts msg =
     (if get_transaction_value (dr_sys_flag msg) = transaction_rollback_type then []
      else map (\<lambda>k. (build_key (dr_topic msg) k, dr_commit_log_offset msg)) (request_keys msg))"

abbreviation put_hash :: "bytes \<times> i64 \<Rightarrow> i32 \<times> i64" where
  "put_hash p \<equiv> (index_key_hash_method (fst p), snd p)"

lemma holds_mono: "service_holds name S N lb B s ess \<Longrightarrow> B \<le> B' \<Longrightarrow> service_holds name S N lb B' s ess"
  by (auto simp: service_holds_def)

lemma put_keys_holds:
  assumes "service_holds name S N lb (dr_commit_log_offset msg) s ess" and sz: "sizes_ok S N" and names: "names_ok name disk M"
    and "length (concat ess) + length keys \<le> M" and "ess \<noteq> []" and msg: "request_ok lb msg"
  shows "\<exists>s' ess' es. put_keys name disk (length ess - 1) msg keys s = Some (Returned (s', Some (length ess' - 1))) \<and>
    service_holds name S N lb (dr_commit_log_offset msg) s' ess' \<and> ess' \<noteq> [] \<and> concat ess' = concat ess @ es \<and>
    map entry_key es = map (\<lambda>k. put_hash (build_key (dr_topic msg) k, dr_commit_log_offset msg)) keys"
  using assms(1,4,5)
proof (induction keys arbitrary: s ess)
  case Nil
  then show ?case by (intro exI [of _ s] exI [of _ ess] exI [of _ "[]"]) simp
next
  case (Cons key keys)
  have B: "0 \<le> dr_commit_log_offset msg" using msg by (simp add: request_ok_def)
  have "length (concat ess) \<le> M" using Cons.prems(2) by simp
  from put_key_holds [OF Cons.prems(1) B sz names this Cons.prems(3) msg, of "build_key (dr_topic msg) key"]
  obtain s1 ess1 e where p: "service_put_key name disk (length ess - 1) msg (build_key (dr_topic msg) key) s = Some (Returned (s1, Some (length ess1 - 1)))"
    "service_holds name S N lb (dr_commit_log_offset msg) s1 ess1" "ess1 \<noteq> []" "concat ess1 = concat ess @ [e]"
    "entry_key e = (index_key_hash_method (build_key (dr_topic msg) key), dr_commit_log_offset msg)" by blast
  have "length (concat ess1) + length keys \<le> M" using Cons.prems(2) p(4) by simp
  from Cons.IH [OF p(2) this p(3)] obtain s2 ess2 es where
    "put_keys name disk (length ess1 - 1) msg keys s1 = Some (Returned (s2, Some (length ess2 - 1)))"
    "service_holds name S N lb (dr_commit_log_offset msg) s2 ess2" "ess2 \<noteq> []" "concat ess2 = concat ess1 @ es"
    "map entry_key es = map (\<lambda>k. put_hash (build_key (dr_topic msg) k, dr_commit_log_offset msg)) keys" by blast
  then show ?case using p by (intro exI [of _ s2] exI [of _ ess2] exI [of _ "e # es"]) simp
qed

lemma put_split_keys_holds:
  assumes h: "service_holds name S N lb (dr_commit_log_offset msg) s ess" and sz: "sizes_ok S N" and names: "names_ok name disk M"
    and M: "length (concat ess) + length (filter (\<lambda>k. k \<noteq> []) (split_bytes 32 (dr_keys msg))) \<le> M" and ess: "ess \<noteq> []" and msg: "request_ok lb msg"
  shows "\<exists>s' ess' es. put_split_keys name disk (length ess - 1) msg s = Some (Returned s') \<and>
    service_holds name S N lb (dr_commit_log_offset msg) s' ess' \<and> concat ess' = concat ess @ es \<and>
    map entry_key es = map (\<lambda>k. put_hash (build_key (dr_topic msg) k, dr_commit_log_offset msg)) (filter (\<lambda>k. k \<noteq> []) (split_bytes 32 (dr_keys msg)))"
proof (cases "dr_keys msg = []")
  case True
  then show ?thesis using h by (intro exI [of _ s] exI [of _ ess] exI [of _ "[]"]) (simp add: put_split_keys_def)
next
  case False
  then show ?thesis using put_keys_holds [OF h sz names M ess msg] by (fastforce simp: put_split_keys_def)
qed

lemma build_index_holds:
  assumes h: "service_holds name S N lb B s ess" and B: "0 \<le> B" "B \<le> dr_commit_log_offset msg" and sz: "sizes_ok S N"
    and names: "names_ok name disk M" and M: "length (concat ess) + length (request_puts msg) \<le> M" and msg: "request_ok lb msg"
  shows "\<exists>s' ess' es. build_index name disk msg s = Some (Returned s') \<and>
    service_holds name S N lb (dr_commit_log_offset msg) s' ess' \<and> concat ess' = concat ess @ es \<and>
    map entry_key es = map put_hash (request_puts msg)"
proof -
  let ?off = "dr_commit_log_offset msg" and ?put = "\<lambda>k. put_hash (build_key (dr_topic msg) k, dr_commit_log_offset msg)"
  have "length (concat ess) \<le> M" using M by simp
  from create_holds [OF h B(1) sz names this] obtain s1 ess1 where
    c: "retry_get_and_create_index_file name disk s = Returned (s1, Some (length ess1 - 1))"
      "service_holds name S N lb B s1 ess1" "concat ess1 = concat ess" "ess1 \<noteq> []" by blast
  have pos: "\<not> ?off < ix_end_phy_offset (file_at s1 (length ess1 - 1))"
    using c(2,4) B(2) unfolding holds_last [OF c(2,4)] by (simp add: service_holds_def)
  have h1: "service_holds name S N lb ?off s1 ess1" using holds_mono [OF c(2) B(2)] .
  show ?thesis
  proof (cases "get_transaction_value (dr_sys_flag msg) = transaction_rollback_type")
    case True
    then have "build_index name disk msg s = Some (Returned s1)" using c(1) pos by (simp add: build_index_def)
    then show ?thesis using h1 c(3) True by (intro exI [of _ s1] exI [of _ ess1] exI [of _ "[]"]) (simp add: request_puts_def)
  next
    case False
    let ?split = "filter (\<lambda>k. k \<noteq> []) (split_bytes 32 (dr_keys msg))"
    have len: "length (concat ess) + length (request_keys msg) \<le> M" using M False by (simp add: request_puts_def)
    note rest = put_split_keys_holds [OF _ sz names _ _ msg]
    show ?thesis
    proof (cases "dr_uniq_key msg")
      case None
      then have "build_index name disk msg s = put_split_keys name disk (length ess1 - 1) msg s1"
        using c(1) pos False by (simp add: build_index_def)
      then show ?thesis using rest [OF h1 _ c(4)] len None c(3) False by (simp add: request_keys_def request_puts_def comp_def)
    next
      case (Some u)
      have "length (concat ess1) + length [u] \<le> M" using len Some c(3) by (simp add: request_keys_def)
      from put_keys_holds [OF h1 sz names this c(4) msg] obtain s2 ess2 es2 where
        p: "put_keys name disk (length ess1 - 1) msg [u] s1 = Some (Returned (s2, Some (length ess2 - 1)))"
          "service_holds name S N lb ?off s2 ess2" "ess2 \<noteq> []" "concat ess2 = concat ess1 @ es2" "map entry_key es2 = map ?put [u]" by blast
      have b: "build_index name disk msg s = put_split_keys name disk (length ess2 - 1) msg s2"
        using c(1) pos False Some p(1) by (simp add: build_index_def del: put_keys.simps)
      have "length es2 = 1" using arg_cong [OF p(5), of length] by simp
      then have "length (concat ess2) + length ?split \<le> M" using len Some p(4) c(3) by (simp add: request_keys_def)
      from rest [OF p(2) this p(3)] obtain s3 ess3 es3 where
        q: "put_split_keys name disk (length ess2 - 1) msg s2 = Some (Returned s3)"
          "service_holds name S N lb ?off s3 ess3" "concat ess3 = concat ess2 @ es3" "map entry_key es3 = map ?put ?split" by blast
      then show ?thesis using b p(4,5) c(3) Some False
        by (intro exI [of _ s3] exI [of _ ess3] exI [of _ "es2 @ es3"]) (simp add: request_keys_def request_puts_def comp_def)
    qed
  qed
qed

section \<open>Sequences of messages and flushes\<close>

lemma holds_replace:
  assumes h: "service_holds name S N lb B s ess" and i: "i < length ess" and x: "file_holds S N lb x (ess ! i)"
    and same: "ix_end_phy_offset x = ix_end_phy_offset (file_at s i)" "mf_file_name (ix_mapped_file x) = mf_file_name (ix_mapped_file (file_at s i))"
  shows "service_holds name S N lb B (set_file i x s) ess"
proof -
  have len: "length (sv_files s) = length ess" by (rule holds_length [OF h])
  have "list_all2 (file_holds S N lb) ((sv_files s)[i := x]) (ess[i := ess ! i])"
    using h x by (intro list_all2_update_cong) (simp_all add: service_holds_def)
  moreover have "map (\<lambda>x. mf_file_name (ix_mapped_file x)) ((sv_files s)[i := x]) = map (\<lambda>x. mf_file_name (ix_mapped_file x)) (sv_files s)"
    using same(2) len i by (intro nth_equalityI) (auto simp: nth_list_update file_at_def)
  moreover have "ix_end_phy_offset (last ((sv_files s)[i := x])) = ix_end_phy_offset (last (sv_files s))"
  proof -
    have "sv_files s \<noteq> []" using len i by auto
    then show ?thesis using same(1) len i by (cases "i = length (sv_files s) - 1") (auto simp: last_conv_nth file_at_def)
  qed
  ultimately show ?thesis using h by (simp add: service_holds_def set_file_def)
qed

lemma flush_task_holds:
  assumes h: "service_holds name S N lb B s ess"
  shows "\<exists>s'. run_flush_task io_ok now n s = Returned s' \<and> service_holds name S N lb B s' ess"
proof (cases "n < length (sv_flush_tasks s)")
  case False
  then show ?thesis using h by (simp add: run_flush_task_def)
next
  case True
  let ?s = "s\<lparr>sv_flush_tasks := take n (sv_flush_tasks s) @ drop (Suc n) (sv_flush_tasks s)\<rparr>"
  have tasks: "list_all (task_ok ess) (sv_flush_tasks s)" using h by (simp add: service_holds_def)
  then have h1: "service_holds name S N lb B ?s ess"
    using h by (auto simp: service_holds_def list_all_iff dest: in_set_takeD in_set_dropD)
  have t: "task_ok ess (sv_flush_tasks s ! n)" using tasks True by (simp add: list_all_length)
  show ?thesis
  proof (cases "sv_flush_tasks s ! n")
    case None
    then show ?thesis using True h1 by (simp add: run_flush_task_def flush_file_def)
  next
    case (Some i)
    then have i: "i < length ess" "ess ! i \<noteq> []" using t by (simp_all add: task_ok_def)
    have f: "file_holds S N lb (file_at ?s i) (ess ! i)" by (rule holds_file [OF h1 i(1)])
    then have "ix_chained (file_at ?s i) ((0, 0, 0, 0) # ess ! i)" "mf_idle (ix_mapped_file (file_at ?s i))" by (simp_all add: file_holds_def)
    moreover have "2 \<le> length ((0, 0, 0, 0) # ess ! i)" using i(2) by (cases "ess ! i") simp_all
    ultimately obtain c where c: "index_flush io_ok now (file_at ?s i) = Returned (with_counter c (file_at ?s i))"
      using flush_changes_counter by blast
    have "file_holds S N lb (with_counter c (file_at ?s i)) (ess ! i)"
      using f by (simp add: file_holds_def counter_parts mf_idle_def)
    then have "service_holds name S N lb B (set_file i (with_counter c (file_at ?s i)) ?s) ess"
      by (intro holds_replace [OF h1 i(1)]) simp_all
    then have "service_holds name S N lb B (set_file i (with_counter c (file_at ?s i)) ?s\<lparr>sv_store_checkpoint := ck\<rparr>) ess" for ck
      by (simp add: service_holds_def)
    then show ?thesis using True Some c \<open>service_holds name S N lb B (set_file i _ ?s) ess\<close>
      by (simp add: run_flush_task_def flush_file_def Let_def)
  qed
qed

text \<open>The messages that the log hands over in turn, with flushes of the other thread in between.\<close>

datatype index_op = Build dispatch_request | FlushTask bool u64 nat

fun index_run :: "(nat \<Rightarrow> string) \<Rightarrow> (string \<Rightarrow> bytes) \<Rightarrow> index_op list \<Rightarrow> index_service \<Rightarrow> index_service outcome option" where
  "index_run name disk [] s = Some (Returned s)"
| "index_run name disk (Build msg # ops) s =
     (case build_index name disk msg s of
        None \<Rightarrow> None | Some Panicked \<Rightarrow> Some Panicked | Some (Returned s) \<Rightarrow> index_run name disk ops s)"
| "index_run name disk (FlushTask io_ok now n # ops) s =
     (case run_flush_task io_ok now n s of Panicked \<Rightarrow> Some Panicked | Returned s \<Rightarrow> index_run name disk ops s)"

fun built :: "index_op list \<Rightarrow> dispatch_request list" where
  "built [] = []"
| "built (Build msg # ops) = msg # built ops"
| "built (FlushTask io_ok now n # ops) = built ops"

definition built_puts :: "index_op list \<Rightarrow> (bytes \<times> i64) list" where
  "built_puts ops = concat (map request_puts (built ops))"

lemma run_holds:
  assumes "service_holds name S N lb B s ess" "0 \<le> B" "sorted (B # map dr_commit_log_offset (built ops))"
    and "list_all (request_ok lb) (built ops)" and sz: "sizes_ok S N" and names: "names_ok name disk M"
    and "length (concat ess) + length (built_puts ops) \<le> M"
  shows "\<exists>s' ess' es B'. index_run name disk ops s = Some (Returned s') \<and> service_holds name S N lb B' s' ess' \<and>
    concat ess' = concat ess @ es \<and> map entry_key es = map put_hash (built_puts ops)"
  using assms(1-4,7)
proof (induction ops arbitrary: s ess B)
  case Nil
  then show ?case by (intro exI [of _ s] exI [of _ ess] exI [of _ "[]"] exI [of _ B]) (simp add: built_puts_def)
next
  case (Cons op ops)
  show ?case
  proof (cases op)
    case (Build msg)
    have m: "request_ok lb msg" "B \<le> dr_commit_log_offset msg" "sorted (dr_commit_log_offset msg # map dr_commit_log_offset (built ops))"
      "list_all (request_ok lb) (built ops)" "0 \<le> dr_commit_log_offset msg"
      using Cons.prems(2,3,4) Build by auto
    have "length (concat ess) + length (request_puts msg) \<le> M" using Cons.prems(5) Build by (simp add: built_puts_def)
    from build_index_holds [OF Cons.prems(1,2) m(2) sz names this m(1)] obtain s1 ess1 es1 where
      b: "build_index name disk msg s = Some (Returned s1)" "service_holds name S N lb (dr_commit_log_offset msg) s1 ess1"
        "concat ess1 = concat ess @ es1" "map entry_key es1 = map put_hash (request_puts msg)" by blast
    have "length es1 = length (request_puts msg)" using arg_cong [OF b(4), of length] by simp
    then have "length (concat ess1) + length (built_puts ops) \<le> M" using Cons.prems(5) Build b(3) by (simp add: built_puts_def)
    from Cons.IH [OF b(2) m(5,3,4) this] obtain s2 ess2 es2 B2 where
      "index_run name disk ops s1 = Some (Returned s2)" "service_holds name S N lb B2 s2 ess2" "concat ess2 = concat ess1 @ es2"
      "map entry_key es2 = map put_hash (built_puts ops)" by blast
    then show ?thesis using b Build
      by (intro exI [of _ s2] exI [of _ ess2] exI [of _ "es1 @ es2"] exI [of _ B2]) (simp add: built_puts_def)
  next
    case (FlushTask io_ok now n)
    obtain s1 where "run_flush_task io_ok now n s = Returned s1" "service_holds name S N lb B s1 ess"
      using flush_task_holds [OF Cons.prems(1)] by blast
    then show ?thesis using Cons.IH [of B s1 ess] Cons.prems(2-5) FlushTask by (simp add: built_puts_def)
  qed
qed

section \<open>What is found in the files\<close>

text \<open>The offsets on the chains of a key, from the newest file to the oldest one.\<close>

definition service_offsets :: "bytes \<Rightarrow> index_service \<Rightarrow> i64 list" where
  "service_offsets key s = concat (map (\<lambda>i. offsets_stored key (file_at s i)) (rev (sv_index_file_list s)))"

definition offsets_built :: "bytes \<Rightarrow> (bytes \<times> i64) list \<Rightarrow> i64 list" where
  "offsets_built key puts = rev (map snd (filter (\<lambda>(k, off). same_hash k key) puts))"

abbreviation key_offsets :: "bytes \<Rightarrow> index_entry list \<Rightarrow> i64 list" where
  "key_offsets key es \<equiv> map (\<lambda>e. fst (snd e)) (filter (\<lambda>e. fst e = index_key_hash_method key) es)"

lemma stored_entries:
  assumes "ix_chained x ((0, 0, 0, 0) # es)"
  shows "offsets_stored key x = rev (key_offsets key es)"
proof -
  have fuel: "length ((0, 0, 0, 0) # es) \<le> ix_index_num x" using assms by (auto simp: ix_chained_def ix_rep_def)
  show ?thesis unfolding offsets_stored_def chain_of_hash [OF assms fuel] by (simp add: rev_map)
qed

lemma offsets_of_files:
  assumes l: "sv_index_file_list s = [0..<length ess]" and ch: "list_all2 (\<lambda>x es. ix_chained x ((0, 0, 0, 0) # es)) (sv_files s) ess"
  shows "service_offsets key s = rev (key_offsets key (concat ess))"
proof -
  have "map (\<lambda>i. offsets_stored key (file_at s i)) [0..<length ess] = map (\<lambda>es. rev (key_offsets key es)) ess"
    using ch by (intro nth_equalityI) (auto simp: file_at_def list_all2_conv_all_nth stored_entries)
  then have "service_offsets key s = concat (rev (map (\<lambda>es. rev (key_offsets key es)) ess))"
    unfolding service_offsets_def l rev_map [symmetric] by simp
  also have "\<dots> = rev (key_offsets key (concat ess))" by (induction ess) simp_all
  finally show ?thesis .
qed

lemma key_offsets_built:
  assumes "map entry_key es = map put_hash puts"
  shows "rev (key_offsets key es) = offsets_built key puts"
proof -
  have "key_offsets key es = map snd (filter (\<lambda>p. fst p = index_key_hash_method key) (map entry_key es))"
    by (simp add: filter_map comp_def)
  also have "\<dots> = map snd (filter (\<lambda>(k, off). same_hash k key) puts)"
    unfolding assms by (simp add: filter_map comp_def same_hash_def case_prod_unfold)
  finally show ?thesis by (simp add: offsets_built_def)
qed

text \<open>Loading files that hold entries: with a normal exit all of them stay, otherwise those that are not newer than the checkpoint.\<close>

lemma load_files_chained:
  assumes "list_all2 (file_holds S N lb) xs ess"
    and "\<forall>x\<in>set xs. parse_file_from_offset (mf_file_name (ix_mapped_file x)) \<noteq> Panicked \<and>
      disk (mf_file_name (ix_mapped_file x)) = mf_mmapped_file (ix_mapped_file x)"
    and "unat (sv_hash_slot_num s) = S" "unat (sv_index_num s) = N"
  shows "\<exists>s' ys. load_index_files disk io_ok now exit_ok (map (\<lambda>x. mf_file_name (ix_mapped_file x)) xs) s = Returned s' \<and>
    sv_files s' = sv_files s @ ys \<and> list_all2 (\<lambda>y es. ix_chained y ((0, 0, 0, 0) # es)) ys ess \<and>
    sv_index_file_list s' = sv_index_file_list s @ map fst (filter (\<lambda>(i, x). exit_ok \<or>
      ix_end_timestamp x \<le> sint (ck_index_msg_timestamp (sv_store_checkpoint s))) (enumerate (length (sv_files s)) xs))"
  using assms
proof (induction xs arbitrary: ess s)
  case Nil
  then show ?case by (intro exI [of _ s] exI [of _ "[]"]) simp
next
  case (Cons x xs)
  obtain es ess1 where ess: "ess = es # ess1" "file_holds S N lb x es" "list_all2 (file_holds S N lb) xs ess1"
    using Cons.prems(1) by (auto simp: list_all2_Cons1)
  let ?nm = "mf_file_name (ix_mapped_file x)" and ?T = "sint (ck_index_msg_timestamp (sv_store_checkpoint s))"
  obtain off where off: "parse_file_from_offset ?nm = Returned off" using Cons.prems(2) by (cases "parse_file_from_offset ?nm") auto
  have "ix_chained x ((0, 0, 0, 0) # es)" "header_ok x" "ix_hash_slot_num x = S" "ix_index_num x = N" using ess(2) by (simp_all add: file_holds_def)
  with restart_chained [OF _ _ off] obtain y where
    y: "bind_outcome (index_file_new (mf_mmapped_file (ix_mapped_file x)) ?nm S N 0 0) index_load = Returned y"
      "ix_chained y ((0, 0, 0, 0) # es)" "ix_end_timestamp y = ix_end_timestamp x" by metis
  let ?i = "length (sv_files s)" and ?s = "s\<lparr>sv_files := sv_files s @ [y]\<rparr>"
  define keep where "keep \<longleftrightarrow> exit_ok \<or> ix_end_timestamp x \<le> ?T"
  define s1 where "s1 = (if keep then ?s\<lparr>sv_index_file_list := sv_index_file_list s @ [?i]\<rparr> else destroy_file io_ok now 0 ?i ?s)"
  have step: "load_index_files disk io_ok now exit_ok (map (\<lambda>x. mf_file_name (ix_mapped_file x)) (x # xs)) s =
      load_index_files disk io_ok now exit_ok (map (\<lambda>x. mf_file_name (ix_mapped_file x)) xs) s1"
    using y(1,3) Cons.prems(2-4) by (auto simp: s1_def keep_def)
  obtain y1 where y1: "sv_files s1 = sv_files s @ [y1]" "ix_chained y1 ((0, 0, 0, 0) # es)"
  proof (cases keep)
    case True
    then show thesis using that [of y] y(2) by (simp add: s1_def)
  next
    case False
    then show thesis using that [of "fst (index_destroy io_ok now 0 y)"] y(2)
      by (simp add: s1_def destroy_file_def set_file_def file_at_def index_destroy_def mf_destroy_def Let_def counter_parts(1))
  qed
  have rest: "sv_index_file_list s1 = sv_index_file_list s @ (if keep then [?i] else [])" "sv_store_checkpoint s1 = sv_store_checkpoint s"
    "unat (sv_hash_slot_num s1) = S" "unat (sv_index_num s1) = N"
    using Cons.prems(3,4) by (simp_all add: s1_def destroy_file_def set_file_def)
  from Cons.IH [OF ess(3) _ rest(3,4)] Cons.prems(2) obtain s' ys where
    "load_index_files disk io_ok now exit_ok (map (\<lambda>x. mf_file_name (ix_mapped_file x)) xs) s1 = Returned s'" "sv_files s' = sv_files s1 @ ys"
    "list_all2 (\<lambda>y es. ix_chained y ((0, 0, 0, 0) # es)) ys ess1"
    "sv_index_file_list s' = sv_index_file_list s1 @ map fst (filter (\<lambda>(i, x). exit_ok \<or> ix_end_timestamp x \<le> ?T) (enumerate (Suc ?i) xs))"
    using rest(2) y1(1) by auto
  then show ?case using step y1 rest(1) ess(1) by (intro exI [of _ s'] exI [of _ "y1 # ys"]) (simp add: keep_def)
qed

text \<open>The directory of the service and the bytes of its files, as the next process finds them.\<close>

definition service_directory :: "index_service \<Rightarrow> string list" where
  "service_directory s = map (index_file_name s) (sv_index_file_list s)"

definition service_disk :: "index_service \<Rightarrow> string \<Rightarrow> bytes" where
  "service_disk s path =
     (case find (\<lambda>x. mf_file_name (ix_mapped_file x) = path) (sv_files s) of Some x \<Rightarrow> mf_mmapped_file (ix_mapped_file x) | None \<Rightarrow> [])"

lemma find_distinct: "distinct (map f xs) \<Longrightarrow> x \<in> set xs \<Longrightarrow> find (\<lambda>y. f y = f x) xs = Some x"
  by (induction xs) auto

lemma restart_load:
  assumes h: "service_holds name (unat S) (unat N) lb B s ess" and names: "names_ok name disk M" and M: "length (concat ess) \<le> M"
    and dir: "mset dir = mset (service_directory s)"
  shows "\<exists>s'. service_load (Some dir) (service_disk s) io_ok now exit_ok (index_service_new S N b ck fl) = Returned (s', True) \<and>
    list_all2 (\<lambda>y es. ix_chained y ((0, 0, 0, 0) # es)) (sv_files s') ess \<and>
    sv_index_file_list s' = map fst (filter (\<lambda>(i, x). exit_ok \<or> ix_end_timestamp x \<le> sint (ck_index_msg_timestamp ck)) (enumerate 0 (sv_files s)))"
proof -
  let ?nm = "\<lambda>x. mf_file_name (ix_mapped_file x)"
  have len: "length (sv_files s) = length ess" by (rule holds_length [OF h])
  have nm: "map ?nm (sv_files s) = map name [0..<length ess]" and l: "sv_index_file_list s = [0..<length ess]"
    and f: "list_all2 (file_holds (unat S) (unat N) lb) (sv_files s) ess" and ne: "list_all (\<lambda>es. es \<noteq> []) (butlast ess)"
    using h by (simp_all add: service_holds_def)
  have d: "service_directory s = map ?nm (sv_files s)"
    unfolding service_directory_def l using len by (intro nth_equalityI) (simp_all add: index_file_name_def file_at_def)
  have "length (concat (butlast ess)) \<le> length (concat ess)" by (cases ess rule: rev_cases) simp_all
  then have n: "length ess \<le> Suc M" using many_entries [OF ne] M by simp
  have "sorted_wrt (<) (take (length ess) (map (\<lambda>n. path_file_name (name n)) [0..<Suc M]))"
    using names by (intro sorted_wrt_take) (simp add: names_ok_def del: upt_Suc)
  moreover have "take (length ess) (map (\<lambda>n. path_file_name (name n)) [0..<Suc M]) = map path_file_name (map name [0..<length ess])"
    using n by (simp add: take_map del: upt_Suc)
  ultimately have so: "sorted_wrt (<) (map path_file_name (map ?nm (sv_files s)))" unfolding nm by simp
  have sort: "sort_key path_file_name dir = map ?nm (sv_files s)" by (rule sort_key_unique [OF so]) (simp add: dir d)
  have "distinct (map ?nm (sv_files s))" using so by (metis distinct_map strict_sorted_iff)
  then have bytes: "service_disk s (?nm x) = mf_mmapped_file (ix_mapped_file x)" if "x \<in> set (sv_files s)" for x
    using find_distinct [of ?nm "sv_files s" x] that by (simp add: service_disk_def)
  have "parse_file_from_offset (?nm x) \<noteq> Panicked" if "x \<in> set (sv_files s)" for x
  proof -
    have "?nm x \<in> set (map name [0..<length ess])" using that unfolding nm [symmetric] by simp
    then show ?thesis using names_okD [OF names] n by auto
  qed
  then have ok: "\<forall>x\<in>set (sv_files s). parse_file_from_offset (?nm x) \<noteq> Panicked \<and> service_disk s (?nm x) = mf_mmapped_file (ix_mapped_file x)"
    using bytes by blast
  from load_files_chained [OF f ok, of "index_service_new S N b ck fl" io_ok now exit_ok] show ?thesis
    by (auto simp: service_load_def sort index_service_new_def)
qed

lemma saved_index_timestamp: "ck_index_msg_timestamp (ck_new (ck_mmap (fold ck_step ops (ck_new [])))) = 0"
proof -
  let ?m = "ck_mmap (fold ck_step ops (ck_new []))"
  have "length (ck_mmap (ck_new [])) = page_bytes" "drop 8 (ck_mmap (ck_new [])) = replicate (page_bytes - 8) 0"
    by (simp_all add: ck_new_def Let_def set_len_def)
  then have m: "length ?m = page_bytes" "drop 8 ?m = replicate (page_bytes - 8) 0"
    using ck_run_tail [of "ck_new []" ops] by simp_all
  then have "word_at ?m 16 = 0" by (simp add: word_at_tail word_at_zeros)
  then show ?thesis using m(1) by (simp add: ck_new_def Let_def set_len_def)
qed

lemma built_service:
  assumes sz: "sizes_ok (unat S) (unat N)" and names: "names_ok name disk (length (built_puts ops))"
    and off: "sorted (map dr_commit_log_offset (built ops))" and ok: "list_all (request_ok lb) (built ops)"
  shows "\<exists>s ess B. index_run name disk ops (index_service_new S N batch ck flags) = Some (Returned s) \<and>
    service_holds name (unat S) (unat N) lb B s ess \<and> map entry_key (concat ess) = map put_hash (built_puts ops)"
proof -
  have so: "sorted (0 # map dr_commit_log_offset (built ops))" using off ok by (auto simp: list_all_iff request_ok_def)
  show ?thesis
    using run_holds [OF new_service_holds [of name S N lb 0 batch ck flags] _ so ok sz names] by auto
qed

subsection \<open>An example\<close>

definition sample_names :: "nat \<Rightarrow> string" where
  "sample_names n = ''2024010100000000'' @ [char_of (48 + n)]"

definition sample_requests :: "dispatch_request list" where
  "sample_requests =
     [dispatch_default\<lparr>dr_topic := [84], dr_uniq_key := Some [65], dr_keys := [66], dr_store_timestamp := 5\<rparr>,
      dispatch_default\<lparr>dr_topic := [84], dr_keys := [65], dr_commit_log_offset := 100, dr_store_timestamp := 6\<rparr>]"

definition sample_ops :: "index_op list" where
  "sample_ops = [Build (sample_requests ! 0), FlushTask True 9 0, Build (sample_requests ! 1), FlushTask True 9 0]"

lemma sample_built: "built sample_ops = sample_requests"
  by (simp add: sample_ops_def sample_requests_def)

lemma sample_puts: "built_puts sample_ops = [([84, 35, 65], 0), ([84, 35, 66], 0), ([84, 35, 65], 100)]"
  by (simp add: built_puts_def sample_built sample_requests_def request_puts_def request_keys_def build_key_def
      dispatch_default_def get_transaction_value_def transaction_rollback_type_def)

lemma sample_offsets: "offsets_built [84, 35, 65] (built_puts sample_ops) = [100, 0]"
proof -
  have "code_points [84, 35, 65] = [84, 35, 65]" "code_points [84, 35, 66] = [84, 35, 66]"
    by (simp_all add: code_points.simps utf8_char_def code_point_def)
  then have "index_key_hash_method [84, 35, 65] = 81874" "index_key_hash_method [84, 35, 66] = 81875"
    by (simp_all add: index_key_hash_method_def hash_str_def is_i32_def)
  then show ?thesis by (simp add: sample_puts offsets_built_def same_hash_def)
qed

lemma sample_requests_ok: "sorted (map dr_commit_log_offset (built sample_ops))" "list_all (request_ok 1) (built sample_ops)"
  "list_all (request_ok (- (2 ^ 63))) (built sample_ops)"
  by (simp_all add: sample_built sample_requests_def request_ok_def dispatch_default_def fits_signed_def)

lemma sample_names_ok: "names_ok sample_names (\<lambda>_. []) (length (built_puts sample_ops))"
proof -
  have n: "sample_names 0 = ''20240101000000000''" "sample_names 1 = ''20240101000000001''" "sample_names 2 = ''20240101000000002''"
    "sample_names 3 = ''20240101000000003''" by (simp_all add: sample_names_def) code_simp+
  have upt: "[0..<Suc (length (built_puts sample_ops))] = [0, 1, 2, 3]" by (simp add: sample_puts upt_rec)
  show ?thesis unfolding names_ok_def upt
    by (simp add: n path_file_name_def parse_file_from_offset_def parse_unsigned_def parse_nat_def digit_value_def less_char_def del: One_nat_def)
qed

section \<open>Statements\<close>

text \<open>
  C5. The index holds every key of every message: when the log hands over messages in the order of their offsets, with any flushes of
  filled files in between, no step fails or runs forever, and the chains of a key, from the newest file
  to the oldest one, hold exactly the offsets of the messages that have a key of that hash, the newest first; messages that roll back a transaction
  are left out. A service that loads the directory after a normal exit has the same. The files have at least one slot, two entries and
  less than \<open>2 ^ 31\<close> bytes, each new file gets a new name that comes after the names before it, and the offsets
  and times of the messages are in range.
\<close>

theorem index_service_holds_every_key:
  assumes "0 < unat S" and "2 \<le> unat N" and "40 + unat S * 4 + unat N * 20 < 2 ^ 31"
    and "names_ok name disk (length (built_puts ops))"
    and "sorted (map dr_commit_log_offset (built ops))" and "list_all (request_ok (- (2 ^ 63))) (built ops)"
  shows "\<exists>s. index_run name disk ops (index_service_new S N batch ck flags) = Some (Returned s) \<and>
    service_offsets key s = offsets_built key (built_puts ops) \<and>
    (\<forall>dir. mset dir = mset (service_directory s) \<longrightarrow>
      (\<exists>s'. service_load (Some dir) (service_disk s) io_ok now True (index_service_new S N batch ck' flags') = Returned (s', True) \<and>
        service_offsets key s' = offsets_built key (built_puts ops)))"
proof -
  have sz: "sizes_ok (unat S) (unat N)" using assms(1-3) by (simp add: sizes_ok_def)
  from built_service [OF sz assms(4-6)] obtain s ess B where
    r: "index_run name disk ops (index_service_new S N batch ck flags) = Some (Returned s)"
      "service_holds name (unat S) (unat N) (- (2 ^ 63)) B s ess" "map entry_key (concat ess) = map put_hash (built_puts ops)"
    by blast
  have M: "length (concat ess) \<le> length (built_puts ops)" using arg_cong [OF r(3), of length] by simp
  note offs = key_offsets_built [OF r(3)]
  have ch: "list_all2 (\<lambda>x es. ix_chained x ((0, 0, 0, 0) # es)) (sv_files s) ess"
    using r(2) by (auto simp: service_holds_def file_holds_def elim: list_all2_mono)
  have s: "service_offsets key s = offsets_built key (built_puts ops)"
    using offsets_of_files [OF _ ch] r(2) offs by (simp add: service_holds_def)
  have "\<exists>s'. service_load (Some dir) (service_disk s) io_ok now True (index_service_new S N batch ck' flags') = Returned (s', True) \<and>
      service_offsets key s' = offsets_built key (built_puts ops)" if "mset dir = mset (service_directory s)" for dir
    using restart_load [OF r(2) assms(4) M that, of io_ok now True batch ck' flags'] offsets_of_files [of _ ess key] offs holds_length [OF r(2)]
    by fastforce
  then show ?thesis using r(1) s by blast
qed

theorem index_service_holds_every_key_witness:
  "\<exists>s s'. index_run sample_names (\<lambda>_. []) sample_ops (index_service_new 10 3 64 (ck_new []) 0) = Some (Returned s) \<and>
     service_offsets [84, 35, 65] s = [100, 0] \<and>
     service_load (Some (service_directory s)) (service_disk s) True 9 True (index_service_new 10 3 64 (ck_new []) 0) = Returned (s', True) \<and>
     service_offsets [84, 35, 65] s' = [100, 0]"
proof -
  have size: "0 < unat (10 :: u32)" "2 \<le> unat (3 :: u32)" "40 + unat (10 :: u32) * 4 + unat (3 :: u32) * 20 < 2 ^ 31" by simp_all
  from index_service_holds_every_key [OF size sample_names_ok sample_requests_ok(1,3), of 64 "ck_new []" 0 "[84, 35, 65]" True 9 "ck_new []" 0]
  obtain s where s: "index_run sample_names (\<lambda>_. []) sample_ops (index_service_new 10 3 64 (ck_new []) 0) = Some (Returned s)"
    "service_offsets [84, 35, 65] s = [100, 0]"
    "\<And>dir. mset dir = mset (service_directory s) \<Longrightarrow>
      \<exists>s'. service_load (Some dir) (service_disk s) True 9 True (index_service_new 10 3 64 (ck_new []) 0) = Returned (s', True) \<and>
        service_offsets [84, 35, 65] s' = [100, 0]"
    unfolding sample_offsets by blast
  from s(3) [OF refl] obtain s' where s': "service_load (Some (service_directory s)) (service_disk s) True 9 True (index_service_new 10 3 64 (ck_new []) 0) = Returned (s', True)"
    "service_offsets [84, 35, 65] s' = [100, 0]" by blast
  show ?thesis by (intro exI conjI) (rule s(1,2) s')+
qed

text \<open>
  C39. After an abnormal exit the index is lost: the checkpoint that a new process reads has zero for the time of the index, whatever was
  set and flushed before, so that every file with a message is newer than the checkpoint and destroyed. A
  file that is kept has no entries. The conditions are those above, and the times of messages are positive.
\<close>

theorem abnormal_restart_loses_index:
  assumes "0 < unat S" and "2 \<le> unat N" and "40 + unat S * 4 + unat N * 20 < 2 ^ 31"
    and "names_ok name disk (length (built_puts ops))"
    and "sorted (map dr_commit_log_offset (built ops))" and "list_all (request_ok 1) (built ops)"
    and "saved = ck_new (ck_mmap (fold ck_step checkpoints (ck_new [])))"
  shows "\<exists>s. index_run name disk ops (index_service_new S N batch ck flags) = Some (Returned s) \<and>
    (\<forall>dir. mset dir = mset (service_directory s) \<longrightarrow>
      (\<exists>s'. service_load (Some dir) (service_disk s) io_ok now False (index_service_new S N batch saved flags') = Returned (s', True) \<and>
        service_offsets key s' = []))"
proof -
  have sz: "sizes_ok (unat S) (unat N)" using assms(1-3) by (simp add: sizes_ok_def)
  from built_service [OF sz assms(4-6)] obtain s ess B where
    r: "index_run name disk ops (index_service_new S N batch ck flags) = Some (Returned s)"
      "service_holds name (unat S) (unat N) 1 B s ess" "map entry_key (concat ess) = map put_hash (built_puts ops)"
    by blast
  have M: "length (concat ess) \<le> length (built_puts ops)" using arg_cong [OF r(3), of length] by simp
  have "\<exists>s'. service_load (Some dir) (service_disk s) io_ok now False (index_service_new S N batch saved flags') = Returned (s', True) \<and>
      service_offsets key s' = []" if dir: "mset dir = mset (service_directory s)" for dir
  proof -
    from restart_load [OF r(2) assms(4) M dir, of io_ok now False batch saved flags'] obtain s' where
      s': "service_load (Some dir) (service_disk s) io_ok now False (index_service_new S N batch saved flags') = Returned (s', True)"
        "list_all2 (\<lambda>y es. ix_chained y ((0, 0, 0, 0) # es)) (sv_files s') ess"
        "sv_index_file_list s' = map fst (filter (\<lambda>(i, x). ix_end_timestamp x \<le> 0) (enumerate 0 (sv_files s)))"
      by (auto simp: assms(7) saved_index_timestamp)
    have "offsets_stored key (file_at s' i) = []" if "i \<in> set (sv_index_file_list s')" for i
    proof -
      have i: "i < length ess" "ix_end_timestamp (file_at s i) \<le> 0"
        using that holds_length [OF r(2)] by (auto simp: s'(3) in_set_enumerate_eq file_at_def)
      then have "ess ! i = []" using holds_file [OF r(2) i(1)] by (auto simp: file_holds_def)
      then have "ix_chained (file_at s' i) [(0, 0, 0, 0)]" using list_all2_nthD2 [OF s'(2) i(1)] by (simp add: file_at_def)
      then show ?thesis using stored_entries [of "file_at s' i" "[]" key] by simp
    qed
    then show ?thesis using s'(1) by (auto simp: service_offsets_def)
  qed
  then show ?thesis using r(1) by blast
qed

theorem abnormal_restart_loses_index_witness:
  "\<exists>s s'. index_run sample_names (\<lambda>_. []) sample_ops (index_service_new 10 3 64 (ck_new []) 0) = Some (Returned s) \<and>
     service_load (Some (service_directory s)) (service_disk s) True 9 False
       (index_service_new 10 3 64 (ck_new (ck_mmap (fold ck_step [CkIndex 6, CkFlush True] (ck_new [])))) 0) = Returned (s', True) \<and>
     service_offsets [84, 35, 65] s' = []"
proof -
  have size: "0 < unat (10 :: u32)" "2 \<le> unat (3 :: u32)" "40 + unat (10 :: u32) * 4 + unat (3 :: u32) * 20 < 2 ^ 31" by simp_all
  let ?ck = "ck_new (ck_mmap (fold ck_step [CkIndex 6, CkFlush True] (ck_new [])))"
  from abnormal_restart_loses_index [OF size sample_names_ok sample_requests_ok(1,2) refl,
      of 64 "ck_new []" 0 True 9 "[CkIndex 6, CkFlush True]" 0 "[84, 35, 65]"]
  obtain s where s: "index_run sample_names (\<lambda>_. []) sample_ops (index_service_new 10 3 64 (ck_new []) 0) = Some (Returned s)"
    "\<And>dir. mset dir = mset (service_directory s) \<Longrightarrow>
      \<exists>s'. service_load (Some dir) (service_disk s) True 9 False (index_service_new 10 3 64 ?ck 0) = Returned (s', True) \<and>
        service_offsets [84, 35, 65] s' = []"
    by blast
  from s(2) [OF refl] obtain s' where s': "service_load (Some (service_directory s)) (service_disk s) True 9 False (index_service_new 10 3 64 ?ck 0) = Returned (s', True)"
    "service_offsets [84, 35, 65] s' = []" by blast
  show ?thesis by (intro exI conjI) (rule s(1) s')+
qed

end
