(* ===== verification/Spec2Isabelle.thy ===== *)
theory Spec2Isabelle
  imports Alloc_Strategy Rebalance_Lock Flags Namesrv_Processor Process_Queue Remoting_Codec Store_Encoder Consumer_Offset Bits_Array Queue_Selection Commit_Log_Recovery Index_Service
begin

text \<open>
  A verification library for the Rust implementation of Apache RocketMQ under \<open>src/\<close>.

  \<^bold>\<open>The program.\<close> RocketMQ is a message broker. Producers send messages to brokers; a broker stores
  them in a commit log and serves them to consumers; a name server tells both which brokers have the
  queues of a topic. The crates of \<open>src/\<close> follow that division: \<open>rocketmq-namesrv\<close> is the name server,
  \<open>rocketmq-broker\<close> and \<open>rocketmq-store\<close> are the broker and its files, \<open>rocketmq-client\<close> is the library of
  producers and consumers, \<open>rocketmq-remoting\<close> and \<open>rocketmq-common\<close> hold the wire format, the message
  formats and the names that all of them share, and \<open>rocketmq-filter\<close> holds the bit array of filters.

  \<^bold>\<open>Conventions.\<close> A struct is a record, an enum a datatype, and a method a function from the state and its arguments to
  the new state and the result. Unsigned integers of a fixed width are words; signed ones are
  integers with the wrap-around written out (\<open>wrap_i32\<close>, \<open>wrap_i64\<close>), as in a release build; a \<open>usize\<close> is a natural number,
  and sums that may overflow are taken modulo \<open>2 ^ 64\<close> (\<open>usize_add\<close>). A call that may panic has the type \<open>outcome\<close> with the
  values \<open>Returned\<close> and \<open>Panicked\<close>. A \<open>HashMap\<close> is an association list with distinct keys, whose order stands for the
  unspecified order of iteration; a \<open>BTreeMap\<close> is a sorted one. The clock, the contents of
  the disk, the success of a file operation and the third-party crates (JSON, checksum and compression) are
  arguments.

  \<^bold>\<open>Steps.\<close> The theorems are about sequences of calls, each of which is one step. For most operations that is what the
  locks of the source give. Some are one step here although the source does not take one lock for the whole of them: the
  removal of brokers, the scan for silent ones, disconnects and heartbeats change the routing tables without the lock that a
  registration takes; the reference counter of a mapped file is several atomic accesses; the expiry of messages in
  a process queue takes its lock for each message. What another call sees or does in between them is not covered.
  A put of a message is made of two steps, \<open>put_message_encode\<close> and \<open>put_message_append\<close>, because the buffer between them
  belongs to the thread: \<open>cl_put_message\<close> runs them without a break, and a theorem shows what happens if another put comes in between.

  \<^bold>\<open>Foundations.\<close>
  \<^item> \<open>Prelude\<close>: integer types, \<open>outcome\<close>, the relation \<open>reachable\<close> of a step function and the locale
    \<open>preserved\<close>, which turns an invariant of every step into one of every reachable state.
  \<^item> \<open>Rust_Maps\<close>, \<open>Rust_Text\<close>: the collections and the string operations of the standard library. The locale
    \<open>table\<close> states the laws of a map and is interpreted on both kinds of map and on the configuration table.
  \<^item> \<open>Byte_Codec\<close>: big-endian readers and writers of byte buffers. The locale \<open>codec\<close> states that a value that was written is read
    back from the front of any input, and gives it for streams of values.

  \<^bold>\<open>Name server.\<close>
  \<^item> \<open>Flags\<close>: permissions and the flag words of topics, pulls, messages and the store
    (\<open>constant.rs\<close>, \<open>topic_sys_flag.rs\<close>, \<open>pull_sys_flag.rs\<close>, \<open>message_sys_flag.rs\<close>, \<open>running_flags.rs\<close>), each bit an interpretation
    of \<open>single_bit\<close>; the running flags refine a set of conditions.
  \<^item> \<open>Route_Data\<close>, \<open>Route_Info_Manager\<close>: the tables of \<open>route_info_manager.rs\<close> and all operations on them.
    \<open>Route_Invariant\<close> has the invariant of the tables, also for the state left by a panic;
    \<open>Route_Properties\<close> what registration, removal, expiry and the acting master do to routes.
  \<^item> \<open>Namesrv_Config\<close>, \<open>KV_Config\<close>: the configuration and the table of key-value pairs with its file.
  \<^item> \<open>Namesrv_Processor\<close>: the request handlers of \<open>default_request_processor.rs\<close> and \<open>client_request_processor.rs\<close> as
    one step function, with the invariant of the whole server and the protection of the paths of its configuration.

  \<^bold>\<open>Client.\<close>
  \<^item> \<open>Message_Queue\<close>, \<open>Alloc_Strategy\<close>: queues and the allocation strategies of
    \<open>rebalance_strategy/\<close>. The locales \<open>allocation\<close> and \<open>balanced_allocation\<close> state the contract: the shares of all
    consumers are a partition of the queues, and differ by at most one.
  \<^item> \<open>Static_Topic\<close>, \<open>Queue_Selection\<close>: logical queues, the queues a producer gets from a route, and
    the choice among them that avoids slow brokers (\<open>topic_publish_info.rs\<close>, \<open>latency/\<close>).
  \<^item> \<open>Process_Queue\<close>: the buffer of pulled messages of \<open>process_queue.rs\<close>, its counters and the offset that it commits.

  \<^bold>\<open>Formats and names.\<close>
  \<^item> \<open>Topic_Names\<close>: the validator of topics and groups, and namespaces, with a round trip.
  \<^item> \<open>Remoting_Codec\<close>: the frames of commands and the decoder of a stream that arrives in pieces
    (\<open>remoting_command.rs\<close>, \<open>remoting_command_codec.rs\<close>, \<open>rocketmq_serializable.rs\<close>).
  \<^item> \<open>Message_Codec\<close>, \<open>Message_Props\<close>: property text, records, batches, ids and hash codes
    (\<open>message_decoder.rs\<close>, \<open>message_utils.rs\<close>, \<open>string_hasher.rs\<close>).
  \<^item> \<open>Bits_Array\<close>: the packed bits of filters, a refinement of a list of bits.

  \<^bold>\<open>Broker and store.\<close>
  \<^item> \<open>Rebalance_Lock\<close>: the locks of queues for orderly consumption
    (\<open>rebalance_lock_manager.rs\<close>), a refinement of a table of leases (locale \<open>lease_lock\<close>): locks are exclusive, and the lock of a
    client that has stopped is granted to others.
  \<^item> \<open>Consumer_Offset\<close>: the offsets of consumers (\<open>consumer_offset_manager.rs\<close>), a refinement of a map.
  \<^item> \<open>Mapped_File\<close>, \<open>Mapped_File_Queue\<close>: the bytes, positions and references of a mapped file, and the
    list of the files of a log (\<open>default_mapped_file_impl.rs\<close>, \<open>mapped_file_queue.rs\<close>).
  \<^item> \<open>Store_Encoder\<close>, \<open>Append_Message\<close>: the record of a message, and the callback that completes it in a file
    (\<open>message_ext_encoder.rs\<close>, \<open>append_message_callback.rs\<close>).
  \<^item> \<open>Queue_Offsets\<close>, \<open>Store_Checkpoint\<close>: the next offsets of queues, and the checkpoint file.
  \<^item> \<open>Commit_Log\<close>: the puts and reads of \<open>commit_log.rs\<close>. \<open>Commit_Log_Properties\<close> shows that a message
    that was put is read back and decodes to itself, with the offset and the place that were answered. \<open>Commit_Log_Recovery\<close> models normal and abnormal
    recovery, and shows that a log that was put together by puts is found again after a restart.
  \<^item> \<open>Index_File\<close>: the hash index of message keys in the bytes of a mapped file (\<open>index_file.rs\<close>,
    \<open>index_header.rs\<close>), a refinement of the list of the keys that were put.
  \<^item> \<open>Index_Service\<close>: the list of index files and the dispatcher that fills it (\<open>index_service.rs\<close>, \<open>index_dispatch.rs\<close>,
    \<open>query_offset_result.rs\<close>): life cycle, creation of files, building the index of a message and queries. A flush that the source
    hands to another thread is a task that any later step may run. The files together refine the list of keys of all messages, also after
    a restart.

  This theory has the property that spans components: what a broker registers at the name server is what a producer
  and a consumer compute from the route.

  \<^bold>\<open>Loops.\<close> A loop over a list or a buffer is structural recursion, or takes one unit of fuel for each byte that is left:
  every round consumes at least one byte, and the lemmas show that this is enough. The three
  loops that need not end are partial functions with the value \<open>None\<close> for no result: the count of the messages in a batch,
  which does not advance on a size of zero, the query of an index, which follows a chain without a check for cycles, and the put of a key
  by the index service, which asks for new files until one has room. The
  first one is shown to end on every well-formed batch, the last one for files with room for two entries.
  Bounds in hypotheses are those of the formats: a length that is written in two bytes is less than \<open>2 ^ 16\<close>,
  a file is smaller than \<open>2 ^ 31\<close> bytes because its positions are \<open>i32\<close> values.

  \<^bold>\<open>Defects.\<close> Some theorems show where the code fails: a put at the end of a file panics,
  the messages of a batch share one offset, an index query reads at twice the position of an entry, the checkpoint is not saved,
  the reserve for a checksum cuts a record, the index is lost after an abnormal exit, and a put stores the message of
  another one that was encoded on its thread in between. Lemmas show more: \<open>fast_compact_frame_is_rejected\<close> and \<open>detector_never_restores_broker\<close>.

  \<^bold>\<open>Not modelled.\<close> Sockets, threads, timers and process start (the servers and clients of \<open>rocketmq-remoting\<close>,
  the bootstrap files, the flush and replication services), because they have no state of their own beyond
  the calls of the modelled operations. The codecs that \<open>serde\<close> and \<open>rocketmq-macros\<close> generate, compression
  and checksums, which are arguments. The request processors of the broker and the producer and consumer services,
  whose steps are spread over asynchronous tasks and network answers. Consume queues and the message store
  above the commit log, where the dispatch of records runs in background threads. The Bloom
  filter, whose sizes are computed in floating point.
  Weak memory orderings: an atomic variable is a field that each operation reads and writes in order.
\<close>

section \<open>From the registration of a broker to the queues of a client\<close>

lemma pickup_plain:
  "pickup_topic_route_data cfg t r = Some route \<Longrightarrow>
   order_topic_conf route = None \<and>
   topic_queue_mapping_by_broker route = hm_get (topic_queue_mapping_info_table r) t"
  by (auto simp: pickup_topic_route_data_def Let_def split: option.splits prod.splits if_splits)

lemma route_broker_unique:
  assumes inv: "route_inv r" and route: "pickup_topic_route_data cfg t r = Some route"
    and bd: "hm_get (broker_addr_table r) b = Some bd" "hm_contains (bd_broker_addrs bd) master_id"
    and bd': "bd' \<in> set (broker_datas route)" "bd_broker_name bd' = b"
  shows "bd' = bd"
proof -
  obtain qm where "set (broker_datas route) \<subseteq> set (List.map_filter (hm_get (broker_addr_table r)) (hm_keys qm)) \<union>
      act_as_master (hm_values qm) ` set (List.map_filter (hm_get (broker_addr_table r)) (hm_keys qm))"
    using pickup_queue_datas [OF route] by (metis Un_upper1 Un_upper2 set_map)
  with bd'(1) obtain x where x: "x \<in> set (List.map_filter (hm_get (broker_addr_table r)) (hm_keys qm))"
    "bd' = x \<or> bd' = act_as_master (hm_values qm) x" by blast
  then obtain n where n: "hm_get (broker_addr_table r) n = Some x" by (auto simp: set_map_filter_iff)
  have "bd_broker_name x = n"
    using tables_ok_get(2) [OF inv [unfolded route_inv_def] n] by (simp add: broker_ok_def)
  then have "n = b" using x(2) bd'(2) by auto
  then show ?thesis using x(2) n bd act_as_master_id by auto
qed

lemma route_queue_unique:
  assumes inv: "route_inv r" and route: "pickup_topic_route_data cfg t r = Some route"
    and qd: "queue_of r t b = Some qd"
  shows "qd' \<in> set (queue_datas route) \<and> qd_broker_name qd' = b \<longleftrightarrow> qd' = qd"
proof -
  obtain qm where qm: "hm_get (topic_queue_table r) t = Some qm" "queue_datas route = hm_values qm"
    using pickup_queue_datas [OF route] by blast
  note ok = tables_ok_get(1) [OF inv [unfolded route_inv_def] qm(1)]
  have hm: "hm_inv qm" using ok by (simp add: queue_map_ok_def)
  have get: "hm_get qm b = Some qd" using qd qm(1) by (simp add: queue_of_def)
  show ?thesis
    using queue_map_ok_get [OF ok] get hm unfolding qm(2) by (fastforce simp: hm_values_iff)
qed

lemma numbered_queues_mem:
  assumes "n < 2 ^ 31"
  shows "MessageQueue t b i \<in> set (map (\<lambda>k. MessageQueue t b' (wrap_i32 (int k))) [0..<n]) \<longleftrightarrow>
    b' = b \<and> 0 \<le> i \<and> i < int n"
proof -
  have "wrap_i32 (int k) = int k" if "k < n" for k using that assms by (intro wrap_i32_nat) simp
  then have "map (\<lambda>k. MessageQueue t b' (wrap_i32 (int k))) [0..<n] = map (\<lambda>k. MessageQueue t b' (int k)) [0..<n]"
    by simp
  then show ?thesis by (auto simp: image_iff intro!: bexI [of _ "nat i"])
qed

lemma concat_of_owner:
  assumes "\<And>x. x \<in> set xs \<and> own x = b \<longleftrightarrow> x = q" and "\<And>x. y \<in> set (f x) \<Longrightarrow> own x = b"
  shows "y \<in> set (concat (map f xs)) \<longleftrightarrow> y \<in> set (f q)"
proof
  assume "y \<in> set (concat (map f xs))"
  then obtain x where x: "x \<in> set xs" "y \<in> set (f x)" by auto
  then have "x = q" using assms(1) [of x] assms(2) [of x] by simp
  with x(2) show "y \<in> set (f q)" by simp
next
  assume "y \<in> set (f q)"
  moreover have "q \<in> set xs" using assms(1) [of q] by simp
  ultimately show "y \<in> set (concat (map f xs))" by auto
qed

text \<open>The queues that a producer and a consumer derive, per broker, from a route without static mapping.\<close>

lemma publish_info_queues:
  assumes "order_topic_conf route = None" and "topic_queue_mapping_by_broker route = None"
    and only: "\<And>qd'. qd' \<in> set (queue_datas route) \<and> qd_broker_name qd' = b \<longleftrightarrow> qd' = qd"
    and bd: "bd \<in> set (broker_datas route)" "bd_broker_name bd = b" "hm_contains (bd_broker_addrs bd) master_id"
    and one: "\<And>bd'. bd' \<in> set (broker_datas route) \<Longrightarrow> bd_broker_name bd' = b \<Longrightarrow> bd' = bd"
    and n: "perm_is_writeable (qd_perm qd)" "unat (qd_write_queue_nums qd) < 2 ^ 31"
  shows "\<exists>info. snd (topic_route_data2topic_publish_info t route) = Returned info \<and>
    (\<forall>i. MessageQueue t b i \<in> set (pi_message_queue_list info) \<longleftrightarrow> 0 \<le> i \<and> i < int (unat (qd_write_queue_nums qd)))"
proof -
  let ?qs = "queue_data_queues t (broker_datas route)"
  have name: "qd_broker_name qd = b" using only by blast
  obtain x where x: "find (\<lambda>bd. bd_broker_name bd = b) (broker_datas route) = Some x"
    using bd(1,2) by (cases "find (\<lambda>bd. bd_broker_name bd = b) (broker_datas route)") (auto simp: find_None_iff)
  then have "x = bd" using one by (auto simp: find_Some_iff)
  with x name have own: "MessageQueue t b i \<in> set (?qs qd) \<longleftrightarrow> 0 \<le> i \<and> i < int (unat (qd_write_queue_nums qd))" for i
    using numbered_queues_mem [OF n(2), of t b i b] n(1) bd(3) by (simp add: queue_data_queues_def)
  have of_name: "MessageQueue t b i \<in> set (?qs qd') \<Longrightarrow> qd_broker_name qd' = b" for i qd'
    unfolding queue_data_queues_def by (simp only: split: if_splits option.splits) auto
  have "MessageQueue t b i \<in> set (concat (map ?qs (sort_queue_datas (queue_datas route)))) \<longleftrightarrow>
      0 \<le> i \<and> i < int (unat (qd_write_queue_nums qd))" for i
    by (subst concat_of_owner [where own = qd_broker_name and b = b and q = qd])
       (simp add: sort_queue_datas_def only, erule of_name, rule own)
  then show ?thesis
    using assms(1,2) by (simp add: topic_route_data2topic_publish_info_def Let_def)
qed

lemma fold_hs_insert_set: "set (fold hs_insert xs acc) = set xs \<union> set acc"
  by (induction xs arbitrary: acc) auto

lemma subscribe_info_queues:
  assumes "topic_queue_mapping_by_broker route = None"
    and only: "\<And>qd'. qd' \<in> set (queue_datas route) \<and> qd_broker_name qd' = b \<longleftrightarrow> qd' = qd"
    and n: "perm_is_readable (qd_perm qd)" "unat (qd_read_queue_nums qd) < 2 ^ 31"
  shows "\<exists>mqs. topic_route_data2topic_subscribe_info t route = Returned mqs \<and>
    (\<forall>i. MessageQueue t b i \<in> set mqs \<longleftrightarrow> 0 \<le> i \<and> i < int (unat (qd_read_queue_nums qd)))"
proof -
  define qs where "qs = (\<lambda>qd :: queue_data. if perm_is_readable (qd_perm qd)
    then map (\<lambda>i. MessageQueue t (qd_broker_name qd) (wrap_i32 (int i))) [0..<unat (qd_read_queue_nums qd)] else [])"
  have name: "qd_broker_name qd = b" using only by blast
  have own: "MessageQueue t b i \<in> set (qs qd) \<longleftrightarrow> 0 \<le> i \<and> i < int (unat (qd_read_queue_nums qd))" for i
    using numbered_queues_mem [OF n(2), of t b i b] n(1) name by (simp add: qs_def)
  have of_name: "MessageQueue t b i \<in> set (qs qd') \<Longrightarrow> qd_broker_name qd' = b" for i qd'
    by (auto simp: qs_def split: if_splits)
  have "MessageQueue t b i \<in> set (fold hs_insert (concat (map qs (queue_datas route))) []) \<longleftrightarrow>
      0 \<le> i \<and> i < int (unat (qd_read_queue_nums qd))" for i
    unfolding fold_hs_insert_set list.set(1) Un_empty_right
    by (subst concat_of_owner [where own = qd_broker_name and b = b and q = qd, OF only]) (erule of_name, rule own)
  then show ?thesis
    using assms(1) by (simp add: topic_route_data2topic_subscribe_info_def qs_def)
qed

text \<open>
  C11. The path from a broker to the clients: after an admitted registration of a master (no other address is the master of the broker,
  and the broker has its master already or does not register exactly one topic), for a topic of it that is readable
  and writeable and has no static mapping, the route that the
  name server answers gives producers and consumers queues of that broker, numbered from 0. Because
  the registration exchanges the two numbers of the configuration, producers send to as many queues
  as the topic has for reading and consumers read as many as it has for writing. The numbers are less than \<open>2 ^ 31\<close>.
\<close>

theorem registered_topic_reaches_clients:
  assumes "route_inv r" and "wrapper_ok w" and "(t, tc) \<in> set (topic_config_table w)"
    and "master_admitted b addr w r"
    and "register_broker cfg now cl addr b master_id ha zone timeout acting w fs remote r = (r', res)"
    and "perm_is_writeable (tc_perm tc)" and "perm_is_readable (tc_perm tc)"
    and "unat (tc_read_queue_nums tc) < 2 ^ 31" and "unat (tc_write_queue_nums tc) < 2 ^ 31"
    and "hm_get (topic_queue_mapping_info_table r') t = None"
  shows "\<exists>route info mqs. pickup_topic_route_data cfg' t r' = Some route \<and>
    snd (topic_route_data2topic_publish_info t route) = Returned info \<and>
    topic_route_data2topic_subscribe_info t route = Returned mqs \<and>
    (\<forall>i. MessageQueue t b i \<in> set (pi_message_queue_list info) \<longleftrightarrow> 0 \<le> i \<and> i < int (unat (tc_read_queue_nums tc))) \<and>
    (\<forall>i. MessageQueue t b i \<in> set mqs \<longleftrightarrow> 0 \<le> i \<and> i < int (unat (tc_write_queue_nums tc)))"
proof -
  note reg = register_broker_master [OF assms(1-4) refl, of cfg now cl ha zone timeout acting fs remote,
      unfolded assms(5) fst_conv snd_conv]
  have inv: "route_inv r'"
    using register_broker_ok [OF assms(1), of cfg now cl addr b master_id ha zone timeout acting w fs remote]
    by (simp add: assms(5))
  obtain bd where bd: "hm_get (broker_addr_table r') b = Some bd" "hm_contains (bd_broker_addrs bd) master_id"
    using reg(3) by (auto simp: hm_contains_def)
  have name: "bd_broker_name bd = b"
    using tables_ok_get(2) [OF inv [unfolded route_inv_def] bd(1)] by (simp add: broker_ok_def)
  obtain route where route: "pickup_topic_route_data cfg' t r' = Some route" "bd \<in> set (broker_datas route)"
    using pickup_found [OF reg(2) bd(1), of cfg'] bd(2) by (auto simp: act_as_master_id)
  note plain = pickup_plain [OF route(1), unfolded assms(10)]
  note only = route_queue_unique [OF inv route(1) reg(2)]
  note one = route_broker_unique [OF inv route(1) bd]
  show ?thesis
    using publish_info_queues [OF plain [THEN conjunct1] plain [THEN conjunct2] only route(2) name bd(2) one, of t]
      subscribe_info_queues [OF plain [THEN conjunct2] only, of t] assms(6-9) route(1)
    by (simp add: qd_of_config_def qd_new_def) blast
qed

theorem registered_topic_reaches_clients_witness:
  "\<exists>route info mqs. pickup_topic_route_data sample_cfg ''t1''
     (fst (register_broker sample_cfg 10 ''c'' ''a0'' ''b'' master_id ''ha'' None None None
        (sample_wrapper [''t1'', ''t2'']) [] ''s0'' ri_new)) = Some route \<and>
     snd (topic_route_data2topic_publish_info ''t1'' route) = Returned info \<and>
     topic_route_data2topic_subscribe_info ''t1'' route = Returned mqs \<and>
     MessageQueue ''t1'' ''b'' 0 \<in> set (pi_message_queue_list info) \<and> MessageQueue ''t1'' ''b'' 0 \<in> set mqs"
proof -
  have w: "wrapper_ok (sample_wrapper [''t1'', ''t2''])"
    by (simp add: wrapper_ok_def sample_wrapper_def sample_config_def hm_inv_def hm_all_def)
  obtain r' res where reg: "register_broker sample_cfg 10 ''c'' ''a0'' ''b'' master_id ''ha'' None None None
      (sample_wrapper [''t1'', ''t2'']) [] ''s0'' ri_new = (r', res)" by fastforce
  have "hm_get (topic_queue_mapping_info_table (fst (register_broker sample_cfg 10 ''c'' ''a0'' ''b'' master_id
      ''ha'' None None None (sample_wrapper [''t1'', ''t2'']) [] ''s0'' ri_new))) ''t1'' = None"
    by code_simp
  then have map: "hm_get (topic_queue_mapping_info_table r') ''t1'' = None" by (simp add: reg)
  have tc: "perm_is_writeable (tc_perm (sample_config ''t1''))" "perm_is_readable (tc_perm (sample_config ''t1''))"
    by code_simp+
  have nums: "0 < unat (tc_read_queue_nums (sample_config ''t1''))" "unat (tc_read_queue_nums (sample_config ''t1'')) < 2 ^ 31"
    "0 < unat (tc_write_queue_nums (sample_config ''t1''))" "unat (tc_write_queue_nums (sample_config ''t1'')) < 2 ^ 31"
    by (simp_all add: sample_config_def)
  have "\<exists>route info mqs. pickup_topic_route_data sample_cfg ''t1'' r' = Some route \<and>
     snd (topic_route_data2topic_publish_info ''t1'' route) = Returned info \<and>
     topic_route_data2topic_subscribe_info ''t1'' route = Returned mqs \<and>
     (\<forall>i. MessageQueue ''t1'' ''b'' i \<in> set (pi_message_queue_list info) \<longleftrightarrow>
        0 \<le> i \<and> i < int (unat (tc_read_queue_nums (sample_config ''t1'')))) \<and>
     (\<forall>i. MessageQueue ''t1'' ''b'' i \<in> set mqs \<longleftrightarrow>
        0 \<le> i \<and> i < int (unat (tc_write_queue_nums (sample_config ''t1''))))"
    by (rule registered_topic_reaches_clients [OF route_inv_new w _ _ reg tc nums(2,4) map])
       (auto simp: ri_new_def sample_wrapper_def master_admitted_def)
  then obtain route info mqs where ex: "pickup_topic_route_data sample_cfg ''t1'' r' = Some route"
    "snd (topic_route_data2topic_publish_info ''t1'' route) = Returned info"
    "topic_route_data2topic_subscribe_info ''t1'' route = Returned mqs"
    "MessageQueue ''t1'' ''b'' 0 \<in> set (pi_message_queue_list info) \<longleftrightarrow>
       (0::int) \<le> 0 \<and> 0 < int (unat (tc_read_queue_nums (sample_config ''t1'')))"
    "MessageQueue ''t1'' ''b'' 0 \<in> set mqs \<longleftrightarrow>
       (0::int) \<le> 0 \<and> 0 < int (unat (tc_write_queue_nums (sample_config ''t1'')))" by blast
  then have "MessageQueue ''t1'' ''b'' 0 \<in> set (pi_message_queue_list info)" "MessageQueue ''t1'' ''b'' 0 \<in> set mqs"
    using nums(1,3) by (simp_all only: of_nat_0_less_iff) simp_all
  then show ?thesis unfolding reg fst_conv using ex(1-3) by blast
qed

end
